(* ===== verification/GoBase.thy ===== *)
theory GoBase
  imports Complex_Main "HOL-Library.Word" "HOL-Library.Char_ord"
begin

text \<open>
  What the components share of Go itself: 64-bit signed arithmetic with its wrap-around, the
  \<^verbatim>\<open>time\<close> package (instants and durations), slicing with its panic, \<^verbatim>\<open>strconv.Atoi\<close> and the
  decimal verbs of \<^verbatim>\<open>fmt\<close>, \<^verbatim>\<open>strings.Join\<close> and \<^verbatim>\<open>strings.Split\<close>, and generic facts on lists and
  finite maps.
\<close>

text \<open>
  \<open>wire\<close> collects the reading and writing laws of the binary codecs, \<open>go_time\<close> the
  definitions of the time operations, \<open>preserves\<close> the facts that an operation keeps an
  invariant.
\<close>

named_theorems wire
named_theorems go_time
named_theorems preserves

section \<open>Signed 64-bit integers\<close>

text \<open>
  Go's \<^verbatim>\<open>int\<close>, \<^verbatim>\<open>int64\<close> and \<^verbatim>\<open>time.Duration\<close> are two's-complement 64-bit integers (the
  program targets 64-bit platforms).  They are kept as \<open>int\<close>, and every operation that can leave
  the range wraps through \<open>i64\<close>.
\<close>

definition i64_min :: int where "i64_min = - (2 ^ 63)"

definition i64_max :: int where "i64_max = 2 ^ 63 - 1"

definition i64 :: "int \<Rightarrow> int" where
  "i64 x = (x + 2 ^ 63) mod 2 ^ 64 - 2 ^ 63"

definition is_i64 :: "int \<Rightarrow> bool" where
  "is_i64 x \<longleftrightarrow> i64_min \<le> x \<and> x \<le> i64_max"

lemmas i64_defs = i64_def i64_min_def i64_max_def is_i64_def

lemma i64_id [simp]: "is_i64 x \<Longrightarrow> i64 x = x"
  by (simp add: i64_defs)

lemma is_i64_i64 [simp]: "is_i64 (i64 x)"
proof -
  have "0 \<le> (x + 2 ^ 63) mod 2 ^ 64" "(x + 2 ^ 63) mod 2 ^ 64 < (2 ^ 64 :: int)" by auto
  then show ?thesis by (simp add: i64_defs)
qed

lemma i64_eq_word: "i64 x = sint (word_of_int x :: 64 word)"
  by (simp add: i64_def signed_of_int signed_take_bit_eq_take_bit_shift take_bit_eq_mod)

text \<open>Go's integer division truncates towards zero.\<close>

definition go_div :: "int \<Rightarrow> int \<Rightarrow> int" where
  "go_div a b = sgn a * sgn b * (\<bar>a\<bar> div \<bar>b\<bar>)"

definition go_mod :: "int \<Rightarrow> int \<Rightarrow> int" where
  "go_mod a b = a - b * go_div a b"

lemma go_div_pos: "0 \<le> a \<Longrightarrow> 0 < b \<Longrightarrow> go_div a b = a div b"
  by (cases "a = 0") (auto simp: go_div_def)

lemma go_mod_pos: "0 \<le> a \<Longrightarrow> 0 < b \<Longrightarrow> go_mod a b = a mod b"
  by (simp add: go_mod_def go_div_pos minus_mult_div_eq_mod)

section \<open>Instants and durations\<close>

text \<open>
  A \<^verbatim>\<open>time.Time\<close> is the number of nanoseconds since the Unix epoch (no monotonic reading, no
  location); the zero \<^verbatim>\<open>Time\<close> is 0001-01-01 00:00:00 UTC.  A \<^verbatim>\<open>time.Duration\<close> is a 64-bit
  number of nanoseconds.  \<^verbatim>\<open>Sub\<close> saturates, as the package documents; \<^verbatim>\<open>Add\<close> does not wrap
  (instants have 64 bits of seconds).
\<close>

type_synonym Time = int
type_synonym Duration = int

definition zero_time :: Time where
  "zero_time = - 62135596800 * 10 ^ 9"

definition Second :: Duration where "Second = 10 ^ 9"

definition Millisecond :: Duration where "Millisecond = 10 ^ 6"

definition Minute :: Duration where "Minute = 60 * 10 ^ 9"

definition Hour :: Duration where "Hour = 3600 * 10 ^ 9"

lemmas duration_units [go_time] = Second_def Millisecond_def Minute_def Hour_def

definition time_Add :: "Time \<Rightarrow> Duration \<Rightarrow> Time" where
  [go_time]: "time_Add t d = t + d"

definition time_Sub :: "Time \<Rightarrow> Time \<Rightarrow> Duration" where
  "time_Sub t u = max i64_min (min i64_max (t - u))"

definition Before :: "Time \<Rightarrow> Time \<Rightarrow> bool" where
  [go_time]: "Before t u \<longleftrightarrow> t < u"

definition After :: "Time \<Rightarrow> Time \<Rightarrow> bool" where
  [go_time]: "After t u \<longleftrightarrow> u < t"

definition dur_mul :: "int \<Rightarrow> Duration \<Rightarrow> Duration" where
  "dur_mul n unit = i64 (n * unit)"

lemma time_Sub_le_iff: "0 \<le> d \<Longrightarrow> d < i64_max \<Longrightarrow> time_Sub t u \<le> d \<longleftrightarrow> t - u \<le> d"
  by (auto simp: time_Sub_def i64_defs)

lemma time_Sub_nonpos: "t \<le> u \<Longrightarrow> time_Sub t u \<le> 0"
  by (auto simp: time_Sub_def i64_defs)

lemma time_Sub_exact: "is_i64 (t - u) \<Longrightarrow> time_Sub t u = t - u"
  by (simp add: time_Sub_def is_i64_def)

lemma is_i64_time_Sub [simp]: "is_i64 (time_Sub t u)"
  by (auto simp: time_Sub_def i64_defs)

text \<open>Within \<open>[from, to]\<close>, as the store's queries write it with \<^verbatim>\<open>!Before\<close> and \<^verbatim>\<open>!After\<close>.\<close>

definition in_range :: "Time \<Rightarrow> Time \<Rightarrow> Time \<Rightarrow> bool" where
  [go_time]: "in_range lo hi t \<longleftrightarrow> \<not> Before t lo \<and> \<not> After t hi"

lemma in_range_iff: "in_range lo hi t \<longleftrightarrow> lo \<le> t \<and> t \<le> hi"
  by (auto simp: go_time)

section \<open>Slices\<close>

text \<open>\<^verbatim>\<open>xs[lo:hi]\<close>: \<open>None\<close> is the run-time panic for bounds out of range.\<close>

definition go_slice :: "'a list \<Rightarrow> int \<Rightarrow> int \<Rightarrow> 'a list option" where
  "go_slice xs lo hi =
     (if 0 \<le> lo \<and> lo \<le> hi \<and> hi \<le> int (length xs)
      then Some (take (nat hi - nat lo) (drop (nat lo) xs)) else None)"

lemma go_slice_length: "go_slice xs lo hi = Some ys \<Longrightarrow> int (length ys) = hi - lo"
  by (auto simp: go_slice_def split: if_splits)

lemma go_slice_nat:
  "i \<le> j \<Longrightarrow> j \<le> length xs \<Longrightarrow> go_slice xs (int i) (int j) = Some (take (j - i) (drop i xs))"
  by (simp add: go_slice_def)

section \<open>Decimal text\<close>

definition digit_char :: "nat \<Rightarrow> char" where
  "digit_char d = char_of (48 + d)"

definition digit_val :: "char \<Rightarrow> nat option" where
  "digit_val c = (let k = of_char c in if 48 \<le> k \<and> k \<le> 57 then Some (k - 48) else None)"

definition is_digit :: "char \<Rightarrow> bool" where
  "is_digit c \<longleftrightarrow> digit_val c \<noteq> None"

lemma digit_val_char [simp]: "d < 10 \<Longrightarrow> digit_val (digit_char d) = Some d"
  by (simp add: digit_val_def digit_char_def of_char_of Let_def)

fun show_nat :: "nat \<Rightarrow> string" where
  "show_nat n = (if n < 10 then [digit_char n] else show_nat (n div 10) @ [digit_char (n mod 10)])"

declare show_nat.simps [simp del]

definition show_int :: "int \<Rightarrow> string" where
  "show_int i = (if i < 0 then CHR ''-'' # show_nat (nat (- i)) else show_nat (nat i))"

fun parse_digits :: "nat \<Rightarrow> string \<Rightarrow> nat option" where
  "parse_digits acc [] = Some acc"
| "parse_digits acc (c # cs) =
     (case digit_val c of None \<Rightarrow> None | Some d \<Rightarrow> parse_digits (10 * acc + d) cs)"

text \<open>
  \<^verbatim>\<open>strconv.Atoi\<close> and \<^verbatim>\<open>strconv.ParseInt(s, 10, 64)\<close>: an optional sign, at least one decimal
  digit, nothing else, and a value that fits 64 bits.  \<open>None\<close> is the returned error.
\<close>

definition atoi :: "string \<Rightarrow> int option" where
  "atoi s =
     (let neg = (s \<noteq> [] \<and> hd s = CHR ''-'');
          ds = (if s \<noteq> [] \<and> (hd s = CHR ''-'' \<or> hd s = CHR ''+'') then tl s else s)
      in if ds = [] then None
         else case parse_digits 0 ds of
                None \<Rightarrow> None
              | Some n \<Rightarrow>
                  let v = (if neg then - int n else int n)
                  in if is_i64 v then Some v else None)"

lemma parse_digits_append:
  "parse_digits acc (xs @ ys) =
     (case parse_digits acc xs of None \<Rightarrow> None | Some a \<Rightarrow> parse_digits a ys)"
  by (induction xs arbitrary: acc) (auto split: option.splits)

lemma parse_show_nat [simp]: "parse_digits 0 (show_nat n) = Some n"
proof (induction n rule: show_nat.induct)
  case (1 n)
  then show ?case
    by (cases "n < 10") (auto simp: show_nat.simps [of n] parse_digits_append)
qed

lemma show_nat_inj: "show_nat m = show_nat n \<Longrightarrow> m = n"
  by (metis option.inject parse_show_nat)

lemma show_nat_digits: "c \<in> set (show_nat n) \<Longrightarrow> \<exists>d < 10. c = digit_char d"
proof (induction n rule: show_nat.induct)
  case (1 n)
  have "\<exists>d < 10. digit_char (n mod 10) = digit_char d" by (intro exI [of _ "n mod 10"]) simp
  with 1 show ?case
    by (cases "n < 10") (auto simp: show_nat.simps [of n])
qed

lemma digit_char_code: "d < 10 \<Longrightarrow> of_char (digit_char d) = 48 + d"
  by (simp add: digit_char_def of_char_of)

lemma show_nat_not_in: "of_char c < (48::nat) \<or> 57 < (of_char c :: nat) \<Longrightarrow> c \<notin> set (show_nat n)"
  using show_nat_digits digit_char_code by fastforce

lemma show_nat_Nil [simp]: "show_nat n \<noteq> []"
  by (subst show_nat.simps) simp

lemma atoi_digits:
  assumes "ds \<noteq> []" and "hd ds \<noteq> CHR ''-''" and "hd ds \<noteq> CHR ''+''"
    and "parse_digits 0 ds = Some n" and "is_i64 (int n)"
  shows "atoi ds = Some (int n)"
  using assms by (simp add: atoi_def)

lemma atoi_show_int: "is_i64 i \<Longrightarrow> atoi (show_int i) = Some i"
proof (cases "i < 0")
  case True
  moreover assume "is_i64 i"
  ultimately show ?thesis by (simp add: show_int_def atoi_def)
next
  case False
  assume i: "is_i64 i"
  have nm: "CHR ''-'' \<notin> set (show_nat (nat i))" "CHR ''+'' \<notin> set (show_nat (nat i))"
    by (rule show_nat_not_in, simp)+
  have hd: "hd (show_nat (nat i)) \<in> set (show_nat (nat i))" by simp
  have "hd (show_nat (nat i)) \<noteq> CHR ''-''" "hd (show_nat (nat i)) \<noteq> CHR ''+''"
    using hd nm by metis+
  then have "atoi (show_nat (nat i)) = Some (int (nat i))"
    using False i by (intro atoi_digits) simp_all
  then show ?thesis using False by (simp add: show_int_def)
qed

lemma atoi_i64: "atoi s = Some v \<Longrightarrow> is_i64 v"
  by (auto simp: atoi_def Let_def split: if_splits option.splits)

section \<open>Strings\<close>

fun join :: "string \<Rightarrow> string list \<Rightarrow> string" where
  "join sep [] = []"
| "join sep [x] = x"
| "join sep (x # y # zs) = x @ sep @ join sep (y # zs)"

fun split_on :: "char \<Rightarrow> string \<Rightarrow> string list" where
  "split_on d [] = [[]]"
| "split_on d (c # cs) =
     (if c = d then [] # split_on d cs
      else case split_on d cs of [] \<Rightarrow> [[c]] | w # ws \<Rightarrow> (c # w) # ws)"

lemma split_on_Nil [simp]: "split_on d s \<noteq> []"
  by (induction s) (auto split: list.splits)

lemma join_split: "join [d] (split_on d s) = s"
proof (induction s)
  case Nil
  then show ?case by simp
next
  case (Cons c cs)
  then show ?case
    by (cases "split_on d cs"; cases "tl (split_on d cs)") auto
qed

lemma split_on_no_sep: "w \<in> set (split_on d s) \<Longrightarrow> d \<notin> set w"
  by (induction s arbitrary: w) (auto split: list.splits if_splits)

text \<open>A field that does not hold the separator can be read back from a joined text.\<close>

lemma append_sep_inj:
  "d \<notin> set a \<Longrightarrow> d \<notin> set b \<Longrightarrow> a @ d # x = b @ d # y \<Longrightarrow> a = b \<and> x = y"
proof (induction a arbitrary: b)
  case Nil
  then show ?case by (cases b) auto
next
  case (Cons c cs)
  then show ?case by (cases b) auto
qed

section \<open>Lists and maps\<close>

lemma takeWhile_append_sep: "d \<notin> set a \<Longrightarrow> takeWhile (\<lambda>c. c \<noteq> d) (a @ d # x) = a"
  by (induction a) auto

lemma find_SomeD: "List.find P xs = Some x \<Longrightarrow> x \<in> set xs \<and> P x"
  by (induction xs) (auto split: if_splits)

lemma find_None_iff_all: "List.find P xs = None \<longleftrightarrow> (\<forall>x \<in> set xs. \<not> P x)"
  by (induction xs) auto

lemma find_append: "List.find P (xs @ ys) = (case List.find P xs of None \<Rightarrow> List.find P ys | Some x \<Rightarrow> Some x)"
  by (induction xs) auto

lemma find_split:
  "List.find P xs = Some x \<Longrightarrow>
   \<exists>ys zs. xs = ys @ x # zs \<and> (\<forall>y \<in> set ys. \<not> P y) \<and> P x"
proof (induction xs)
  case (Cons a xs)
  show ?case
  proof (cases "P a")
    case True
    with Cons.prems have "a # xs = [] @ x # xs \<and> (\<forall>y \<in> set []. \<not> P y) \<and> P x" by simp
    then show ?thesis by blast
  next
    case False
    with Cons obtain ys zs where "xs = ys @ x # zs" "\<forall>y \<in> set ys. \<not> P y" "P x" by auto
    with False have "a # xs = (a # ys) @ x # zs \<and> (\<forall>y \<in> set (a # ys). \<not> P y) \<and> P x" by simp
    then show ?thesis by blast
  qed
qed simp

end
