(* ===== verification/WireBytes.thy ===== *)
theory WireBytes
  imports GoBase
begin

text \<open>
  Byte buffers and \<^verbatim>\<open>encoding/binary.LittleEndian\<close>: the reads and writes from which the codecs of
  \<^verbatim>\<open>src/src/agent/event.go\<close> and \<^verbatim>\<open>src/src/agent/extended_event.go\<close> are built, and the interface
  \<open>wire_codec\<close> that each of those codecs meets.
\<close>

type_synonym byte = "8 word"

lemma unat_byte_less: "unat (b :: byte) < 256"
  using unsigned_less [of b] by simp

lemma unat_16_less: "unat (w :: 16 word) < 256 ^ 2"
  using unsigned_less [of w] by simp

lemma unat_32_less: "unat (w :: 32 word) < 256 ^ 4"
  using unsigned_less [of w] by simp

lemma unat_64_less: "unat (w :: 64 word) < 256 ^ 8"
  using unsigned_less [of w] by simp

section \<open>Little-endian integers\<close>

fun put_le :: "nat \<Rightarrow> nat \<Rightarrow> byte list" where
  "put_le 0 v = []"
| "put_le (Suc n) v = word_of_nat v # put_le n (v div 256)"

fun get_le :: "byte list \<Rightarrow> nat" where
  "get_le [] = 0"
| "get_le (b # bs) = unat b + 256 * get_le bs"

lemma length_put_le [wire]: "length (put_le n v) = n"
  by (induction n arbitrary: v) auto

lemma get_put_le: "get_le (put_le n v) = v mod 256 ^ n"
proof (induction n arbitrary: v)
  case 0
  then show ?case by simp
next
  case (Suc n)
  have "get_le (put_le (Suc n) v) = v mod 256 + 256 * (v div 256 mod 256 ^ n)"
    by (simp add: Suc unat_of_nat)
  also have "\<dots> = v mod (256 * 256 ^ n)" by (simp add: mod_mult2_eq)
  finally show ?case by simp
qed

lemma get_le_bound: "get_le bs < 256 ^ length bs"
proof (induction bs)
  case Nil
  then show ?case by simp
next
  case (Cons b bs)
  have "unat b < 256" using unat_byte_less [of b] by simp
  with Cons show ?case by simp
qed

lemma put_get_le: "put_le (length bs) (get_le bs) = bs"
proof (induction bs)
  case Nil
  then show ?case by simp
next
  case (Cons b bs)
  have b: "unat b < 256" using unat_byte_less [of b] by simp
  have "word_of_nat (unat b + 256 * get_le bs) = (b :: byte)"
  proof -
    have "(word_of_nat (256 * get_le bs) :: byte) = 0" by (subst word_of_nat_eq_0_iff) simp
    then show ?thesis by (simp del: of_nat_mult)
  qed
  with b Cons show ?case by simp
qed

definition PutUint64 :: "64 word \<Rightarrow> byte list" where "PutUint64 v = put_le 8 (unat v)"
definition PutUint32 :: "32 word \<Rightarrow> byte list" where "PutUint32 v = put_le 4 (unat v)"
definition PutUint16 :: "16 word \<Rightarrow> byte list" where "PutUint16 v = put_le 2 (unat v)"

definition Uint64 :: "byte list \<Rightarrow> 64 word" where "Uint64 bs = word_of_nat (get_le bs)"
definition Uint32 :: "byte list \<Rightarrow> 32 word" where "Uint32 bs = word_of_nat (get_le bs)"
definition Uint16 :: "byte list \<Rightarrow> 16 word" where "Uint16 bs = word_of_nat (get_le bs)"

lemma length_Put [wire]:
  "length (PutUint64 v8) = 8" "length (PutUint32 v4) = 4" "length (PutUint16 v2) = 2"
  by (simp_all add: PutUint64_def PutUint32_def PutUint16_def length_put_le)

lemma Uint_Put [wire]:
  "Uint64 (PutUint64 v8) = v8" "Uint32 (PutUint32 v4) = v4" "Uint16 (PutUint16 v2) = v2"
proof -
  show "Uint64 (PutUint64 v8) = v8"
    using unat_64_less [of v8] by (simp add: Uint64_def PutUint64_def get_put_le)
  show "Uint32 (PutUint32 v4) = v4"
    using unat_32_less [of v4] by (simp add: Uint32_def PutUint32_def get_put_le)
  show "Uint16 (PutUint16 v2) = v2"
    using unat_16_less [of v2] by (simp add: Uint16_def PutUint16_def get_put_le)
qed

section \<open>Reading and writing a buffer at an offset\<close>

text \<open>
  \<open>bslice off n bs\<close> is \<^verbatim>\<open>bs[off:off+n]\<close> of a buffer that is long enough; \<open>put_at off xs buf\<close> is
  \<^verbatim>\<open>copy(buf[off:], xs)\<close>, which never grows the buffer; \<open>write_all\<close> runs the writes of an encoder
  in the order of its statements.
\<close>

definition bslice :: "nat \<Rightarrow> nat \<Rightarrow> byte list \<Rightarrow> byte list" where
  "bslice off n bs = take n (drop off bs)"

definition put_at :: "nat \<Rightarrow> byte list \<Rightarrow> byte list \<Rightarrow> byte list" where
  "put_at off xs buf = take (length buf) (take off buf @ xs @ drop (off + length xs) buf)"

fun write_all :: "(nat \<times> byte list) list \<Rightarrow> byte list \<Rightarrow> byte list" where
  "write_all [] buf = buf"
| "write_all ((off, xs) # ws) buf = write_all ws (put_at off xs buf)"

definition zeros :: "nat \<Rightarrow> byte list" where "zeros n = replicate n 0"

lemma length_zeros [wire]: "length (zeros n) = n"
  by (simp add: zeros_def)

lemma length_put_at [wire]: "length (put_at off xs buf) = length buf"
  by (simp add: put_at_def)

lemma length_write_all [wire]: "length (write_all ws buf) = length buf"
  by (induction ws buf rule: write_all.induct) (auto simp: length_put_at)

lemma put_at_in: "off + length xs \<le> length buf \<Longrightarrow>
    put_at off xs buf = take off buf @ xs @ drop (off + length xs) buf"
  by (simp add: put_at_def)

lemma length_bslice [wire]: "off + n \<le> length bs \<Longrightarrow> length (bslice off n bs) = n"
  by (simp add: bslice_def)

lemma bslice_put_same [wire]:
  "length xs = n \<Longrightarrow> off + n \<le> length buf \<Longrightarrow> bslice off n (put_at off xs buf) = xs"
  by (simp add: bslice_def put_at_in)

lemma bslice_put_before [wire]:
  assumes "o' + n \<le> off" and "off + length xs \<le> length buf"
  shows "bslice o' n (put_at off xs buf) = bslice o' n buf"
proof -
  have "n \<le> length (drop o' (take off buf))" using assms by simp
  with assms show ?thesis by (simp add: bslice_def put_at_in drop_take min_def)
qed

lemma bslice_put_after [wire]:
  "off + length xs \<le> o' \<Longrightarrow> off + length xs \<le> length buf \<Longrightarrow>
   bslice o' n (put_at off xs buf) = bslice o' n buf"
  by (simp add: bslice_def put_at_in)

lemma bslice_append [wire]: "off + n \<le> length bs \<Longrightarrow> bslice off n (bs @ ys) = bslice off n bs"
  by (simp add: bslice_def)

lemma bslice_take: "off + n \<le> m \<Longrightarrow> bslice off n (take m bs) = bslice off n bs"
  by (simp add: bslice_def drop_take min_def)

lemma nth_bslice: "off < length bs \<Longrightarrow> bslice off (Suc 0) bs = [bs ! off]"
  by (simp add: bslice_def take_Suc_conv_app_nth Cons_nth_drop_Suc [symmetric])

text \<open>\<open>byte_at\<close> is \<^verbatim>\<open>bs[i]\<close> of a buffer known to be long enough.\<close>

definition byte_at :: "nat \<Rightarrow> byte list \<Rightarrow> byte" where
  "byte_at i bs = hd (bslice i 1 bs)"

lemma byte_at_nth: "i < length bs \<Longrightarrow> byte_at i bs = bs ! i"
  by (simp add: byte_at_def nth_bslice)

section \<open>The text in a NUL-padded field\<close>

text \<open>
  \<^verbatim>\<open>bytes.IndexByte(b, 0)\<close> and the slice before it: the bytes up to the first NUL, all of them when
  there is none.  Strings are byte strings.
\<close>

definition trimNullString :: "byte list \<Rightarrow> string" where
  "trimNullString b = map (\<lambda>w. char_of (unat w)) (takeWhile (\<lambda>w. w \<noteq> 0) b)"

definition string_bytes :: "string \<Rightarrow> byte list" where
  "string_bytes s = map (\<lambda>c. word_of_nat (of_char c)) s"

definition pad :: "nat \<Rightarrow> string \<Rightarrow> byte list" where
  "pad n s = string_bytes s @ zeros (n - length s)"

lemma trimNull_length: "length (trimNullString b) \<le> length b"
  by (simp add: trimNullString_def length_takeWhile_le)

lemma trimNull_no_nul: "CHR 0x00 \<notin> set (trimNullString b)"
proof
  assume "CHR 0x00 \<in> set (trimNullString b)"
  then obtain w where w: "w \<in> set (takeWhile (\<lambda>w. w \<noteq> 0) b)" and c: "char_of (unat w) = CHR 0x00"
    by (auto simp: trimNullString_def)
  have "unat w < 256" using unat_byte_less [of w] by simp
  moreover have "of_char (char_of (unat w)) = (0 :: nat)" by (simp add: c)
  ultimately have "unat w = 0" by (simp add: of_char_of)
  with w show False by (metis set_takeWhileD unat_eq_zero)
qed

lemma trimNull_append_zero: "0 \<notin> set b \<Longrightarrow> trimNullString (b @ zeros n) = map (\<lambda>w. char_of (unat w)) b"
proof -
  assume "0 \<notin> set b"
  then have "takeWhile (\<lambda>w. w \<noteq> 0) (b @ zeros n) = b"
    by (cases n) (auto simp: zeros_def takeWhile_append takeWhile_eq_all_conv)
  then show ?thesis by (simp add: trimNullString_def)
qed

lemma byte_of_char: "char_of (unat (word_of_nat (of_char c) :: byte)) = (c :: char)"
proof -
  have "of_char c < (256 :: nat)" by simp
  then have "unat (word_of_nat (of_char c) :: byte) = of_char c" by (simp add: unat_of_nat)
  then show ?thesis by simp
qed

lemma string_bytes_no_zero: "CHR 0x00 \<notin> set s \<Longrightarrow> (0 :: byte) \<notin> set (string_bytes s)"
proof
  assume s: "CHR 0x00 \<notin> set s" and "(0 :: byte) \<in> set (string_bytes s)"
  then obtain c where c: "c \<in> set s" "(0 :: byte) = word_of_nat (of_char c)"
    by (auto simp: string_bytes_def)
  then have "char_of (0 :: nat) = c" using byte_of_char [of c] by simp
  moreover have "char_of (0 :: nat) = CHR 0x00" by code_simp
  ultimately show False using c(1) s by simp
qed

lemma bytes_text: "map (\<lambda>w. char_of (unat w)) (string_bytes s) = s"
  by (simp add: string_bytes_def byte_of_char comp_def)

lemma trimNull_text: "CHR 0x00 \<notin> set s \<Longrightarrow> trimNullString (string_bytes s @ zeros k) = s"
  by (simp add: trimNull_append_zero string_bytes_no_zero bytes_text)

section \<open>The interface of a fixed-size codec\<close>

text \<open>
  \<open>wf\<close> says that the fixed-size array fields have their sizes, which Go's types give.  Every
  \<^verbatim>\<open>MarshalBinary\<close>/\<^verbatim>\<open>UnmarshalBinary\<close> pair of the agent with a constant size is an interpretation.
\<close>

locale wire_codec =
  fixes marshal :: "'a \<Rightarrow> byte list"
    and unmarshal :: "byte list \<Rightarrow> 'e + 'a"
    and width :: nat
    and wf :: "'a \<Rightarrow> bool"
  assumes marshal_length: "wf v \<Longrightarrow> length (marshal v) = width"
    and unmarshal_short: "length bs < width \<Longrightarrow> \<exists>e. unmarshal bs = Inl e"
    and unmarshal_total: "width \<le> length bs \<Longrightarrow> \<exists>v. unmarshal bs = Inr v \<and> wf v"
    and unmarshal_prefix: "width \<le> length bs \<Longrightarrow> unmarshal (bs @ ys) = unmarshal bs"
    and roundtrip: "wf v \<Longrightarrow> unmarshal (marshal v) = Inr v"
begin

lemma roundtrip_trailing: "wf v \<Longrightarrow> unmarshal (marshal v @ ys) = Inr v"
  using marshal_length roundtrip unmarshal_prefix by (metis order_refl)

lemma accepts_iff: "(\<exists>v. unmarshal bs = Inr v) \<longleftrightarrow> width \<le> length bs"
  by (metis Inl_Inr_False not_less unmarshal_short unmarshal_total)

lemma decoded_wf: "unmarshal bs = Inr v \<Longrightarrow> wf v"
  by (metis Inr_inject accepts_iff unmarshal_total)

lemma reencode: "unmarshal bs = Inr v \<Longrightarrow> unmarshal (marshal v) = Inr v"
  using decoded_wf roundtrip by blast

lemma marshal_inj: "wf v \<Longrightarrow> wf w \<Longrightarrow> marshal v = marshal w \<Longrightarrow> v = w"
  by (metis Inr_inject roundtrip)

lemma marshal_prefix_free: "wf v \<Longrightarrow> wf w \<Longrightarrow> marshal v @ xs = marshal w @ ys \<Longrightarrow> v = w"
  by (metis Inr_inject roundtrip_trailing)

end

end
