(* ===== verification/KernelTypes.thy ===== *)
theory KernelTypes
  imports WireBytes
begin

text \<open>
  The data that crosses the components: the enriched kernel event that the agent builds and the
  server stores (\<^verbatim>\<open>src/src/server/kernel_event.go\<close>, and the same struct in
  \<^verbatim>\<open>src/src/agent/event.go\<close>), the causal chain, and the heartbeat of
  \<^verbatim>\<open>src/src/server/store.go\<close>.  Unsigned Go integers are words of their width; a signed one is
  the word of its two's-complement bits, read with \<open>sint\<close>.
\<close>

record EnrichedEvent =
  ev_Timestamp :: Time
  ev_PID :: "32 word"
  ev_PPID :: "32 word"
  ev_TGID :: "32 word"
  ev_Comm :: string
  ev_CgroupID :: "64 word"
  ev_EventType :: string
  ev_SyscallNr :: "32 word"
  ev_ReturnValue :: "64 word"
  ev_LatencyNs :: "64 word"
  ev_SlowSyscall :: bool
  ev_ChildPID :: "32 word"
  ev_ExitCode :: "32 word"
  ev_CriticalExit :: bool
  ev_SrcAddr :: string
  ev_DstAddr :: string
  ev_SrcPort :: "16 word"
  ev_DstPort :: "16 word"
  ev_NetEventType :: string
  ev_RTTUs :: "32 word"
  ev_FilePath :: string
  ev_IOLatencyNs :: "64 word"
  ev_BytesXfer :: "64 word"
  ev_SlowIO :: bool
  ev_IOOpType :: string
  ev_OOMSubType :: string
  ev_KilledPID :: "32 word"
  ev_KilledComm :: string
  ev_OOMScoreAdj :: "32 word"
  ev_PageOrder :: "32 word"
  ev_GFPFlags :: "32 word"
  ev_Domain :: string
  ev_DNSLatencyNs :: "64 word"
  ev_ResponseCode :: "16 word"
  ev_TimedOut :: bool
  ev_CPUUsageNs :: "64 word"
  ev_MemoryUsageBytes :: "64 word"
  ev_MemoryLimitBytes :: "64 word"
  ev_MemoryPressure :: bool
  ev_AuditDstAddr :: string
  ev_AuditDstPort :: "16 word"
  ev_AuditProtocol :: string
  ev_PodName :: string
  ev_Namespace :: string
  ev_ContainerName :: string
  ev_NodeName :: string
  ev_HostLevel :: bool

text \<open>The agent's struct has the same fields in the same order; the two are one type here.\<close>

type_synonym AgentEnrichedEvent = EnrichedEvent

text \<open>The zero value, from which Go builds a composite literal that names some of the fields.\<close>

definition zero_EnrichedEvent :: EnrichedEvent where
  "zero_EnrichedEvent = \<lparr>
     ev_Timestamp = zero_time, ev_PID = 0, ev_PPID = 0, ev_TGID = 0, ev_Comm = '''',
     ev_CgroupID = 0, ev_EventType = '''',
     ev_SyscallNr = 0, ev_ReturnValue = 0, ev_LatencyNs = 0, ev_SlowSyscall = False,
     ev_ChildPID = 0, ev_ExitCode = 0, ev_CriticalExit = False,
     ev_SrcAddr = '''', ev_DstAddr = '''', ev_SrcPort = 0, ev_DstPort = 0,
     ev_NetEventType = '''', ev_RTTUs = 0,
     ev_FilePath = '''', ev_IOLatencyNs = 0, ev_BytesXfer = 0, ev_SlowIO = False,
     ev_IOOpType = '''',
     ev_OOMSubType = '''', ev_KilledPID = 0, ev_KilledComm = '''', ev_OOMScoreAdj = 0,
     ev_PageOrder = 0, ev_GFPFlags = 0,
     ev_Domain = '''', ev_DNSLatencyNs = 0, ev_ResponseCode = 0, ev_TimedOut = False,
     ev_CPUUsageNs = 0, ev_MemoryUsageBytes = 0, ev_MemoryLimitBytes = 0,
     ev_MemoryPressure = False,
     ev_AuditDstAddr = '''', ev_AuditDstPort = 0, ev_AuditProtocol = '''',
     ev_PodName = '''', ev_Namespace = '''', ev_ContainerName = '''', ev_NodeName = '''',
     ev_HostLevel = False\<rparr>"

record CausalChain =
  cc_NodeName :: string
  cc_Timestamp :: Time
  cc_Events :: "EnrichedEvent list"
  cc_Summary :: string
  cc_RootCause :: string

record Heartbeat =
  hb_NodeName :: string
  hb_Namespace :: string
  hb_Timestamp :: Time
  hb_Status :: string
  hb_EbpfPID :: "32 word"
  hb_EbpfComm :: string

record PodIdentity =
  pi_PodName :: string
  pi_Namespace :: string
  pi_ContainerName :: string
  pi_NodeName :: string

text \<open>\<^verbatim>\<open>%d\<close> of an unsigned and of a signed word.\<close>

definition show_uword :: "'a::len word \<Rightarrow> string" where
  "show_uword w = show_nat (unat w)"

definition show_sword :: "'a::len word \<Rightarrow> string" where
  "show_sword w = show_int (sint w)"

lemma show_uword_inj: "show_uword v = show_uword w \<Longrightarrow> v = w"
  by (metis show_nat_inj show_uword_def word_unat_eq_iff)

text \<open>The errors that the agent's event path returns, one constructor per \<^verbatim>\<open>fmt.Errorf\<close>.\<close>

datatype agent_error =
    BufferTooSmall nat nat
  | BufferTooSmallForPayload nat nat
  | PayloadTooSmall string nat nat
  | RecordTooShort nat
  | DecodeEvent agent_error
  | DecodeExtendedEvent agent_error
  | DecodePayload string agent_error
  | EnrichExtendedEvent agent_error
  | MissingField string
  | UnknownEventType nat

section \<open>C struct layout\<close>

text \<open>
  The offsets that the C ABI of the BPF target gives to the members of a struct, from the size and
  the alignment of each member: a member goes to the next multiple of its alignment, and the
  struct's size is rounded up to the largest alignment.
\<close>

definition align_up :: "nat \<Rightarrow> nat \<Rightarrow> nat" where
  "align_up n a = (n + a - 1) div a * a"

fun c_offsets :: "nat \<Rightarrow> (nat \<times> nat) list \<Rightarrow> nat list" where
  "c_offsets pos [] = []"
| "c_offsets pos ((sz, al) # ms) = align_up pos al # c_offsets (align_up pos al + sz) ms"

fun c_end :: "nat \<Rightarrow> (nat \<times> nat) list \<Rightarrow> nat" where
  "c_end pos [] = pos"
| "c_end pos ((sz, al) # ms) = c_end (align_up pos al + sz) ms"

definition c_sizeof :: "(nat \<times> nat) list \<Rightarrow> nat" where
  "c_sizeof ms = align_up (c_end 0 ms) (foldr max (map snd ms) 1)"

definition c_u8 :: "nat \<times> nat" where "c_u8 = (1, 1)"
definition c_u16 :: "nat \<times> nat" where "c_u16 = (2, 2)"
definition c_u32 :: "nat \<times> nat" where "c_u32 = (4, 4)"
definition c_u64 :: "nat \<times> nat" where "c_u64 = (8, 8)"
definition c_chars :: "nat \<Rightarrow> nat \<times> nat" where "c_chars n = (n, 1)"

lemmas c_layout_defs = c_sizeof_def align_up_def c_u8_def c_u16_def c_u32_def c_u64_def c_chars_def

end
