(* ===== verification/KernelEvents.thy ===== *)
theory KernelEvents
  imports KernelTypes
begin

text \<open>
  The fixed-size kernel event of \<^verbatim>\<open>src/src/agent/event.go\<close>: its 120-byte wire format, its
  enrichment into an \<open>EnrichedEvent\<close>, and its checks (\<^verbatim>\<open>ValidateFlags\<close>; \<^verbatim>\<open>ValidateEventFields\<close>
  of \<^verbatim>\<open>src/src/agent/probe_manager.go\<close>).
\<close>

section \<open>Constants and the struct\<close>

definition EventTypeSyscall :: byte where "EventTypeSyscall = 0"
definition EventTypeProcess :: byte where "EventTypeProcess = 1"
definition EventTypeNetwork :: byte where "EventTypeNetwork = 2"

definition NetEventRetransmit :: byte where "NetEventRetransmit = 0"
definition NetEventReset :: byte where "NetEventReset = 1"
definition NetEventRTTHigh :: byte where "NetEventRTTHigh = 2"

definition SlowSyscallNs :: "64 word" where "SlowSyscallNs = 1000000000"
definition RTTHighUs :: "32 word" where "RTTHighUs = 500000"

definition TaskCommLen :: nat where "TaskCommLen = 16"
definition KernelEventSize :: nat where "KernelEventSize = 120"

lemmas event_type_defs = EventTypeSyscall_def EventTypeProcess_def EventTypeNetwork_def
lemmas net_event_defs = NetEventRetransmit_def NetEventReset_def NetEventRTTHigh_def

record KernelEvent =
  ke_Timestamp :: "64 word"
  ke_PID :: "32 word"
  ke_PPID :: "32 word"
  ke_TGID :: "32 word"
  ke_CgroupID :: "64 word"
  ke_Comm :: "byte list"
  ke_EventType :: byte
  ke_SyscallNr :: "32 word"
  ke_RetVal :: "64 word"
  ke_EntryTs :: "64 word"
  ke_ExitTs :: "64 word"
  ke_SlowSyscall :: byte
  ke_ChildPID :: "32 word"
  ke_ExitCode :: "32 word"
  ke_CriticalExit :: byte
  ke_SAddr :: "32 word"
  ke_DAddr :: "32 word"
  ke_SPort :: "16 word"
  ke_DPort :: "16 word"
  ke_NetEventType :: byte
  ke_RTTUs :: "32 word"

text \<open>\<^verbatim>\<open>Comm\<close> is a \<^verbatim>\<open>[16]byte\<close>.\<close>

definition wf_KernelEvent :: "KernelEvent \<Rightarrow> bool" where
  "wf_KernelEvent e \<longleftrightarrow> length (ke_Comm e) = TaskCommLen"

section \<open>The wire format\<close>

definition KernelEvent_writes :: "KernelEvent \<Rightarrow> (nat \<times> byte list) list" where
  "KernelEvent_writes e =
    [(0, PutUint64 (ke_Timestamp e)),
     (8, PutUint32 (ke_PID e)),
     (12, PutUint32 (ke_PPID e)),
     (16, PutUint32 (ke_TGID e)),
     (24, PutUint64 (ke_CgroupID e)),
     (32, ke_Comm e),
     (48, [ke_EventType e]),
     (52, PutUint32 (ke_SyscallNr e)),
     (56, PutUint64 (ke_RetVal e)),
     (64, PutUint64 (ke_EntryTs e)),
     (72, PutUint64 (ke_ExitTs e)),
     (80, [ke_SlowSyscall e]),
     (84, PutUint32 (ke_ChildPID e)),
     (88, PutUint32 (ke_ExitCode e)),
     (92, [ke_CriticalExit e]),
     (96, PutUint32 (ke_SAddr e)),
     (100, PutUint32 (ke_DAddr e)),
     (104, PutUint16 (ke_SPort e)),
     (106, PutUint16 (ke_DPort e)),
     (108, [ke_NetEventType e]),
     (112, PutUint32 (ke_RTTUs e))]"

definition KernelEvent_MarshalBinary :: "KernelEvent \<Rightarrow> byte list" where
  "KernelEvent_MarshalBinary e = write_all (KernelEvent_writes e) (zeros KernelEventSize)"

definition KernelEvent_read :: "byte list \<Rightarrow> KernelEvent" where
  "KernelEvent_read data =
    \<lparr>ke_Timestamp = Uint64 (bslice 0 8 data),
     ke_PID = Uint32 (bslice 8 4 data),
     ke_PPID = Uint32 (bslice 12 4 data),
     ke_TGID = Uint32 (bslice 16 4 data),
     ke_CgroupID = Uint64 (bslice 24 8 data),
     ke_Comm = bslice 32 16 data,
     ke_EventType = byte_at 48 data,
     ke_SyscallNr = Uint32 (bslice 52 4 data),
     ke_RetVal = Uint64 (bslice 56 8 data),
     ke_EntryTs = Uint64 (bslice 64 8 data),
     ke_ExitTs = Uint64 (bslice 72 8 data),
     ke_SlowSyscall = byte_at 80 data,
     ke_ChildPID = Uint32 (bslice 84 4 data),
     ke_ExitCode = Uint32 (bslice 88 4 data),
     ke_CriticalExit = byte_at 92 data,
     ke_SAddr = Uint32 (bslice 96 4 data),
     ke_DAddr = Uint32 (bslice 100 4 data),
     ke_SPort = Uint16 (bslice 104 2 data),
     ke_DPort = Uint16 (bslice 106 2 data),
     ke_NetEventType = byte_at 108 data,
     ke_RTTUs = Uint32 (bslice 112 4 data)\<rparr>"

definition KernelEvent_UnmarshalBinary :: "byte list \<Rightarrow> agent_error + KernelEvent" where
  "KernelEvent_UnmarshalBinary data =
     (if length data < KernelEventSize then Inl (BufferTooSmall (length data) KernelEventSize)
      else Inr (KernelEvent_read data))"

definition DecodeKernelEvent :: "byte list \<Rightarrow> agent_error + KernelEvent" where
  "DecodeKernelEvent data =
     (case KernelEvent_UnmarshalBinary data of Inl err \<Rightarrow> Inl err | Inr evt \<Rightarrow> Inr evt)"

lemma KernelEvent_length: "length (KernelEvent_MarshalBinary e) = KernelEventSize"
  by (simp add: KernelEvent_MarshalBinary_def wire)

lemma KernelEvent_roundtrip:
  "wf_KernelEvent e \<Longrightarrow> KernelEvent_UnmarshalBinary (KernelEvent_MarshalBinary e) = Inr e"
  by (simp add: KernelEvent_UnmarshalBinary_def KernelEvent_length)
     (simp add: KernelEvent_MarshalBinary_def KernelEvent_writes_def KernelEvent_read_def
       wf_KernelEvent_def TaskCommLen_def KernelEventSize_def byte_at_def wire)

lemma KernelEvent_read_append:
  "KernelEventSize \<le> length bs \<Longrightarrow> KernelEvent_read (bs @ ys) = KernelEvent_read bs"
  by (simp add: KernelEvent_read_def KernelEventSize_def byte_at_def wire)

lemma KernelEvent_read_wf: "KernelEventSize \<le> length bs \<Longrightarrow> wf_KernelEvent (KernelEvent_read bs)"
  by (simp add: KernelEvent_read_def wf_KernelEvent_def TaskCommLen_def KernelEventSize_def wire)

interpretation kernel_event_codec: wire_codec KernelEvent_MarshalBinary
  KernelEvent_UnmarshalBinary KernelEventSize wf_KernelEvent
proof
  show "KernelEventSize \<le> length bs \<Longrightarrow>
      \<exists>v. KernelEvent_UnmarshalBinary bs = Inr v \<and> wf_KernelEvent v" for bs
    by (simp add: KernelEvent_UnmarshalBinary_def KernelEvent_read_wf)
  show "KernelEventSize \<le> length bs \<Longrightarrow>
      KernelEvent_UnmarshalBinary (bs @ ys) = KernelEvent_UnmarshalBinary bs" for bs ys
    by (simp add: KernelEvent_UnmarshalBinary_def KernelEvent_read_append)
  show "length bs < KernelEventSize \<Longrightarrow> \<exists>e. KernelEvent_UnmarshalBinary bs = Inl e" for bs
    by (simp add: KernelEvent_UnmarshalBinary_def)
qed (simp_all add: KernelEvent_length KernelEvent_roundtrip)

text \<open>The byte at offset 48, by which \<^verbatim>\<open>ProcessRawEvent\<close> dispatches, is the event type.\<close>

lemma KernelEvent_type_byte:
  assumes "wf_KernelEvent e"
  shows "KernelEvent_MarshalBinary e ! 48 = ke_EventType e"
proof -
  have "KernelEvent_MarshalBinary e ! 48 = byte_at 48 (KernelEvent_MarshalBinary e)"
    by (rule byte_at_nth [symmetric]) (simp add: KernelEvent_length KernelEventSize_def)
  also have "\<dots> = ke_EventType e"
    using assms by (simp add: KernelEvent_MarshalBinary_def KernelEvent_writes_def
      KernelEventSize_def wf_KernelEvent_def TaskCommLen_def byte_at_def wire)
  finally show ?thesis .
qed

section \<open>The C struct\<close>

text \<open>\<^verbatim>\<open>struct kernel_event\<close> of \<^verbatim>\<open>src/src/ebpf/headers/common.h\<close>, member by member.\<close>

definition c_kernel_event :: "(nat \<times> nat) list" where
  "c_kernel_event =
    [c_u64, c_u32, c_u32, c_u32, c_u64, c_chars 16, c_u8,
     c_u32, c_u64, c_u64, c_u64, c_u8,
     c_u32, c_u32, c_u8,
     c_u32, c_u32, c_u16, c_u16, c_u8, c_u32]"

lemma c_kernel_event_offsets:
  "c_offsets 0 c_kernel_event =
     [0, 8, 12, 16, 24, 32, 48, 52, 56, 64, 72, 80, 84, 88, 92, 96, 100, 104, 106, 108, 112]"
  by (simp add: c_kernel_event_def c_layout_defs)

lemma c_kernel_event_size: "c_sizeof c_kernel_event = 120"
  by (simp add: c_kernel_event_def c_layout_defs)

section \<open>Names\<close>

definition KernelEvent_CommString :: "KernelEvent \<Rightarrow> string" where
  "KernelEvent_CommString e = trimNullString (ke_Comm e)"

definition KernelEvent_EventTypeString :: "KernelEvent \<Rightarrow> string" where
  "KernelEvent_EventTypeString e =
     (if ke_EventType e = EventTypeSyscall then ''syscall''
      else if ke_EventType e = EventTypeProcess then ''process''
      else if ke_EventType e = EventTypeNetwork then ''network''
      else ''unknown('' @ show_uword (ke_EventType e) @ '')'')"

definition NetEventTypeString :: "KernelEvent \<Rightarrow> string" where
  "NetEventTypeString e =
     (if ke_NetEventType e = NetEventRetransmit then ''retransmit''
      else if ke_NetEventType e = NetEventReset then ''reset''
      else if ke_NetEventType e = NetEventRTTHigh then ''rtt_high''
      else ''unknown('' @ show_uword (ke_NetEventType e) @ '')'')"

text \<open>\<^verbatim>\<open>net.IP.String\<close> of the four bytes that \<^verbatim>\<open>PutUint32\<close> writes: dotted decimal.\<close>

definition IPv4String :: "32 word \<Rightarrow> string" where
  "IPv4String addr = join ''.'' (map show_uword (PutUint32 addr))"

definition AllowedComms :: "string list" where
  "AllowedComms = [''kubelet'', ''containerd'', ''cri-o'']"

definition TrimRightNul :: "string \<Rightarrow> string" where
  "TrimRightNul s = rev (dropWhile (\<lambda>c. c = CHR 0x00) (rev s))"

definition IsAllowedComm :: "string \<Rightarrow> bool" where
  "IsAllowedComm comm = list_ex (\<lambda>allowed. TrimRightNul comm = allowed) AllowedComms"

section \<open>Enrichment\<close>

definition KernelEvent_Enrich :: "KernelEvent \<Rightarrow> PodIdentity \<Rightarrow> bool \<Rightarrow> AgentEnrichedEvent" where
  "KernelEvent_Enrich e pod hostLevel =
    (let enriched = zero_EnrichedEvent\<lparr>
           ev_Timestamp := sint (ke_Timestamp e),
           ev_PID := ke_PID e,
           ev_PPID := ke_PPID e,
           ev_TGID := ke_TGID e,
           ev_Comm := KernelEvent_CommString e,
           ev_CgroupID := ke_CgroupID e,
           ev_EventType := KernelEvent_EventTypeString e,
           ev_NodeName := pi_NodeName pod,
           ev_HostLevel := hostLevel\<rparr>;
         enriched =
           (if \<not> hostLevel
            then enriched\<lparr>ev_PodName := pi_PodName pod,
                          ev_Namespace := pi_Namespace pod,
                          ev_ContainerName := pi_ContainerName pod\<rparr>
            else enriched)
     in if ke_EventType e = EventTypeSyscall then
          enriched\<lparr>ev_SyscallNr := ke_SyscallNr e,
                   ev_ReturnValue := ke_RetVal e,
                   ev_LatencyNs :=
                     (if ke_EntryTs e < ke_ExitTs e then ke_ExitTs e - ke_EntryTs e
                      else ev_LatencyNs enriched),
                   ev_SlowSyscall := (ke_SlowSyscall e = 1)\<rparr>
        else if ke_EventType e = EventTypeProcess then
          enriched\<lparr>ev_ChildPID := ke_ChildPID e,
                   ev_ExitCode := ke_ExitCode e,
                   ev_CriticalExit := (ke_CriticalExit e = 1)\<rparr>
        else if ke_EventType e = EventTypeNetwork then
          enriched\<lparr>ev_SrcAddr := IPv4String (ke_SAddr e),
                   ev_DstAddr := IPv4String (ke_DAddr e),
                   ev_SrcPort := ke_SPort e,
                   ev_DstPort := ke_DPort e,
                   ev_NetEventType := NetEventTypeString e,
                   ev_RTTUs := ke_RTTUs e\<rparr>
        else enriched)"

definition ValidateFlags :: "KernelEvent \<Rightarrow> bool" where
  "ValidateFlags e =
    (if ke_EventType e = EventTypeSyscall then
       let duration = (if ke_EntryTs e < ke_ExitTs e then ke_ExitTs e - ke_EntryTs e else 0);
           isSlow = (SlowSyscallNs < duration);
           flagSet = (ke_SlowSyscall e = 1)
       in isSlow = flagSet
     else if ke_EventType e = EventTypeProcess then
       let isCritical = (KernelEvent_CommString e = ''kubelet'' \<and> ke_ExitCode e \<noteq> 0);
           flagSet = (ke_CriticalExit e = 1)
       in isCritical = flagSet
     else if ke_EventType e = EventTypeNetwork then
       let isHighRTT = (RTTHighUs < ke_RTTUs e);
           flagSet = (ke_NetEventType e = NetEventRTTHigh)
       in isHighRTT = flagSet
     else True)"

definition ValidateEventFields :: "KernelEvent \<Rightarrow> agent_error option" where
  "ValidateEventFields evt =
    (if ke_Timestamp evt = 0 then Some (MissingField ''timestamp'')
     else if ke_PID evt = 0 then Some (MissingField ''PID'')
     else if KernelEvent_CommString evt = '''' then Some (MissingField ''comm'')
     else if ke_CgroupID evt = 0 then Some (MissingField ''cgroup_id'')
     else if ke_EventType evt = EventTypeSyscall then
       (if ke_EntryTs evt = 0 then Some (MissingField ''entry_ts'')
        else if ke_ExitTs evt = 0 then Some (MissingField ''exit_ts'')
        else None)
     else if ke_EventType evt = EventTypeProcess then
       (if ke_PPID evt = 0 then Some (MissingField ''PPID'') else None)
     else if ke_EventType evt = EventTypeNetwork then
       (if ke_SAddr evt = 0 then Some (MissingField ''source address'')
        else if ke_DAddr evt = 0 then Some (MissingField ''destination address'')
        else if ke_SPort evt = 0 then Some (MissingField ''source port'')
        else if ke_DPort evt = 0 then Some (MissingField ''destination port'')
        else None)
     else Some (UnknownEventType (unat (ke_EventType evt))))"

section \<open>What the enrichment keeps\<close>

lemma Enrich_common [simp]:
  "ev_Timestamp (KernelEvent_Enrich e pod h) = sint (ke_Timestamp e)"
  "ev_PID (KernelEvent_Enrich e pod h) = ke_PID e"
  "ev_Comm (KernelEvent_Enrich e pod h) = KernelEvent_CommString e"
  "ev_CgroupID (KernelEvent_Enrich e pod h) = ke_CgroupID e"
  "ev_EventType (KernelEvent_Enrich e pod h) = KernelEvent_EventTypeString e"
  "ev_NodeName (KernelEvent_Enrich e pod h) = pi_NodeName pod"
  "ev_HostLevel (KernelEvent_Enrich e pod h) = h"
  by (simp_all add: KernelEvent_Enrich_def Let_def)

lemma Enrich_pod [simp]:
  "ev_PodName (KernelEvent_Enrich e pod h) = (if h then '''' else pi_PodName pod)"
  "ev_Namespace (KernelEvent_Enrich e pod h) = (if h then '''' else pi_Namespace pod)"
  "ev_ContainerName (KernelEvent_Enrich e pod h) = (if h then '''' else pi_ContainerName pod)"
  by (simp_all add: KernelEvent_Enrich_def Let_def zero_EnrichedEvent_def)

lemma unat_latency:
  "unat (if (a :: 64 word) < b then b - a else 0) = unat b - unat a"
  by (auto simp: word_less_nat_alt intro!: unat_sub word_le_nat_alt [THEN iffD2])

lemma Enrich_LatencyNs:
  "ke_EventType e = EventTypeSyscall \<Longrightarrow>
   ev_LatencyNs (KernelEvent_Enrich e pod h) =
     (if ke_EntryTs e < ke_ExitTs e then ke_ExitTs e - ke_EntryTs e else 0)"
  by (simp add: KernelEvent_Enrich_def Let_def zero_EnrichedEvent_def)

lemma Enrich_latency:
  "ke_EventType e = EventTypeSyscall \<Longrightarrow>
   unat (ev_LatencyNs (KernelEvent_Enrich e pod h)) = unat (ke_ExitTs e) - unat (ke_EntryTs e)"
  by (simp only: Enrich_LatencyNs unat_latency)

lemma Enrich_flags:
  "ev_SlowSyscall (KernelEvent_Enrich e pod h) \<longleftrightarrow>
     ke_EventType e = EventTypeSyscall \<and> ke_SlowSyscall e = 1"
  "ev_CriticalExit (KernelEvent_Enrich e pod h) \<longleftrightarrow>
     ke_EventType e = EventTypeProcess \<and> ke_CriticalExit e = 1"
  "ev_NetEventType (KernelEvent_Enrich e pod h) =
     (if ke_EventType e = EventTypeNetwork then NetEventTypeString e else '''')"
  "ev_ExitCode (KernelEvent_Enrich e pod h) =
     (if ke_EventType e = EventTypeProcess then ke_ExitCode e else 0)"
  "ev_RTTUs (KernelEvent_Enrich e pod h) =
     (if ke_EventType e = EventTypeNetwork then ke_RTTUs e else 0)"
  by (simp_all add: KernelEvent_Enrich_def Let_def zero_EnrichedEvent_def event_type_defs)

text \<open>No field of a later event category is ever set by the fixed-size codec's events.\<close>

lemma Enrich_no_extended:
  "ev_IOLatencyNs (KernelEvent_Enrich e pod h) = 0" "\<not> ev_SlowIO (KernelEvent_Enrich e pod h)"
  "ev_OOMSubType (KernelEvent_Enrich e pod h) = ''''" "\<not> ev_TimedOut (KernelEvent_Enrich e pod h)"
  "ev_DNSLatencyNs (KernelEvent_Enrich e pod h) = 0" "\<not> ev_MemoryPressure (KernelEvent_Enrich e pod h)"
  by (simp_all add: KernelEvent_Enrich_def Let_def zero_EnrichedEvent_def)

text \<open>A flag that passes \<^verbatim>\<open>ValidateFlags\<close> says of the enriched event what its name says.\<close>

lemma ValidateFlags_enriched:
  assumes "ValidateFlags e"
  shows "ke_EventType e = EventTypeSyscall \<Longrightarrow>
           ev_SlowSyscall (KernelEvent_Enrich e pod h) \<longleftrightarrow>
             10 ^ 9 < unat (ev_LatencyNs (KernelEvent_Enrich e pod h))"
    and "ke_EventType e = EventTypeProcess \<Longrightarrow>
           ev_CriticalExit (KernelEvent_Enrich e pod h) \<longleftrightarrow>
             ev_Comm (KernelEvent_Enrich e pod h) = ''kubelet'' \<and>
             sint (ev_ExitCode (KernelEvent_Enrich e pod h)) \<noteq> 0"
    and "ke_EventType e = EventTypeNetwork \<Longrightarrow>
           ev_NetEventType (KernelEvent_Enrich e pod h) = ''rtt_high'' \<longleftrightarrow>
             500000 < unat (ev_RTTUs (KernelEvent_Enrich e pod h))"
proof -
  assume t: "ke_EventType e = EventTypeSyscall"
  let ?d = "if ke_EntryTs e < ke_ExitTs e then ke_ExitTs e - ke_EntryTs e else 0"
  have "SlowSyscallNs < ?d \<longleftrightarrow> ke_SlowSyscall e = 1"
    using assms t by (simp add: ValidateFlags_def Let_def)
  moreover have "SlowSyscallNs < ?d \<longleftrightarrow> 10 ^ 9 < unat ?d"
    by (simp add: SlowSyscallNs_def word_less_nat_alt)
  ultimately show "ev_SlowSyscall (KernelEvent_Enrich e pod h) \<longleftrightarrow>
      10 ^ 9 < unat (ev_LatencyNs (KernelEvent_Enrich e pod h))"
    using t unat_latency [of "ke_EntryTs e" "ke_ExitTs e"]
    by (simp add: Enrich_flags Enrich_latency del: unat_eq_zero)
next
  assume t: "ke_EventType e = EventTypeProcess"
  then show "ev_CriticalExit (KernelEvent_Enrich e pod h) \<longleftrightarrow>
      ev_Comm (KernelEvent_Enrich e pod h) = ''kubelet'' \<and>
      sint (ev_ExitCode (KernelEvent_Enrich e pod h)) \<noteq> 0"
    using assms by (simp add: ValidateFlags_def Let_def Enrich_flags event_type_defs signed_eq_0_iff)
next
  assume t: "ke_EventType e = EventTypeNetwork"
  have "RTTHighUs < ke_RTTUs e \<longleftrightarrow> 500000 < unat (ke_RTTUs e)"
    by (simp add: RTTHighUs_def word_less_nat_alt)
  moreover have "NetEventTypeString e = ''rtt_high'' \<longleftrightarrow> ke_NetEventType e = NetEventRTTHigh"
    by (simp add: NetEventTypeString_def net_event_defs)
  ultimately show "ev_NetEventType (KernelEvent_Enrich e pod h) = ''rtt_high'' \<longleftrightarrow>
      500000 < unat (ev_RTTUs (KernelEvent_Enrich e pod h))"
    using t assms by (simp add: ValidateFlags_def Let_def Enrich_flags event_type_defs)
qed

end
