(* ===== verification/ExtendedEvents.thy ===== *)
theory ExtendedEvents
  imports KernelEvents
begin

text \<open>
  The variable-length event of \<^verbatim>\<open>src/src/agent/extended_event.go\<close>: a 52-byte header, a declared
  payload length and a payload, and the five fixed-size payload codecs.
\<close>

section \<open>Constants and the event\<close>

definition EventTypeVFS :: byte where "EventTypeVFS = 3"
definition EventTypeOOM :: byte where "EventTypeOOM = 4"
definition EventTypeDNS :: byte where "EventTypeDNS = 5"
definition EventTypeCgroup :: byte where "EventTypeCgroup = 6"
definition EventTypeSecurity :: byte where "EventTypeSecurity = 7"

lemmas ext_type_defs = EventTypeVFS_def EventTypeOOM_def EventTypeDNS_def EventTypeCgroup_def
  EventTypeSecurity_def

definition ExtendedEventHeaderSize :: nat where "ExtendedEventHeaderSize = 52"

record ExtendedEvent =
  xe_Timestamp :: "64 word"
  xe_PID :: "32 word"
  xe_PPID :: "32 word"
  xe_TGID :: "32 word"
  xe_CgroupID :: "64 word"
  xe_Comm :: "byte list"
  xe_EventType :: byte
  xe_PayloadLen :: "16 word"
  xe_Payload :: "byte list"

text \<open>
  \<^verbatim>\<open>Comm\<close> is a \<^verbatim>\<open>[16]byte\<close>; \<open>len_ok\<close> says that the declared length is the payload's, which the
  encoder does not check.
\<close>

definition wf_ExtendedEvent :: "ExtendedEvent \<Rightarrow> bool" where
  "wf_ExtendedEvent e \<longleftrightarrow> length (xe_Comm e) = TaskCommLen"

definition len_ok :: "ExtendedEvent \<Rightarrow> bool" where
  "len_ok e \<longleftrightarrow> unat (xe_PayloadLen e) = length (xe_Payload e)"

definition ExtendedEvent_MarshalBinary :: "ExtendedEvent \<Rightarrow> byte list" where
  "ExtendedEvent_MarshalBinary e =
     write_all
       ([(0, PutUint64 (xe_Timestamp e)),
         (8, PutUint32 (xe_PID e)),
         (12, PutUint32 (xe_PPID e)),
         (16, PutUint32 (xe_TGID e)),
         (24, PutUint64 (xe_CgroupID e)),
         (32, xe_Comm e),
         (48, [xe_EventType e]),
         (50, PutUint16 (xe_PayloadLen e))] @
        (if 0 < length (xe_Payload e) then [(52, xe_Payload e)] else []))
       (zeros (ExtendedEventHeaderSize + length (xe_Payload e)))"

definition ExtendedEvent_UnmarshalBinary :: "byte list \<Rightarrow> agent_error + ExtendedEvent" where
  "ExtendedEvent_UnmarshalBinary data =
    (if length data < ExtendedEventHeaderSize
     then Inl (BufferTooSmall (length data) ExtendedEventHeaderSize)
     else
       let plen = Uint16 (bslice 50 2 data);
           totalNeeded = ExtendedEventHeaderSize + unat plen
       in if length data < totalNeeded
          then Inl (BufferTooSmallForPayload (length data) totalNeeded)
          else Inr \<lparr>xe_Timestamp = Uint64 (bslice 0 8 data),
                    xe_PID = Uint32 (bslice 8 4 data),
                    xe_PPID = Uint32 (bslice 12 4 data),
                    xe_TGID = Uint32 (bslice 16 4 data),
                    xe_CgroupID = Uint64 (bslice 24 8 data),
                    xe_Comm = bslice 32 16 data,
                    xe_EventType = byte_at 48 data,
                    xe_PayloadLen = plen,
                    xe_Payload = (if 0 < plen then bslice 52 (unat plen) data else [])\<rparr>)"

definition ExtendedEvent_CommString :: "ExtendedEvent \<Rightarrow> string" where
  "ExtendedEvent_CommString e = trimNullString (xe_Comm e)"

definition ExtendedEvent_EventTypeString :: "ExtendedEvent \<Rightarrow> string" where
  "ExtendedEvent_EventTypeString e =
     (if xe_EventType e = EventTypeVFS then ''filesystem_io''
      else if xe_EventType e = EventTypeOOM then ''memory_pressure''
      else if xe_EventType e = EventTypeDNS then ''dns_resolution''
      else if xe_EventType e = EventTypeCgroup then ''cgroup_resource''
      else if xe_EventType e = EventTypeSecurity then ''network_audit''
      else ''unknown('' @ show_uword (xe_EventType e) @ '')'')"

section \<open>The header's codec\<close>

lemma ExtendedEvent_length [wire]:
  "length (ExtendedEvent_MarshalBinary e) = ExtendedEventHeaderSize + length (xe_Payload e)"
  by (simp add: ExtendedEvent_MarshalBinary_def wire)

lemma bslice_all: "length bs = n \<Longrightarrow> bslice 0 n bs = bs"
  by (simp add: bslice_def)

lemma ExtendedEvent_payload_len [wire]:
  "wf_ExtendedEvent e \<Longrightarrow>
   Uint16 (bslice 50 2 (ExtendedEvent_MarshalBinary e)) = xe_PayloadLen e"
  by (auto simp: ExtendedEvent_MarshalBinary_def ExtendedEventHeaderSize_def wf_ExtendedEvent_def
      TaskCommLen_def wire)

lemma ExtendedEvent_header [wire]:
  assumes "wf_ExtendedEvent e"
  shows "bslice 0 8 (ExtendedEvent_MarshalBinary e) = PutUint64 (xe_Timestamp e)"
    and "bslice 8 4 (ExtendedEvent_MarshalBinary e) = PutUint32 (xe_PID e)"
    and "bslice 12 4 (ExtendedEvent_MarshalBinary e) = PutUint32 (xe_PPID e)"
    and "bslice 16 4 (ExtendedEvent_MarshalBinary e) = PutUint32 (xe_TGID e)"
    and "bslice 24 8 (ExtendedEvent_MarshalBinary e) = PutUint64 (xe_CgroupID e)"
    and "bslice 32 16 (ExtendedEvent_MarshalBinary e) = xe_Comm e"
    and "byte_at 48 (ExtendedEvent_MarshalBinary e) = xe_EventType e"
  using assms
  by (auto simp: ExtendedEvent_MarshalBinary_def ExtendedEventHeaderSize_def wf_ExtendedEvent_def
      TaskCommLen_def byte_at_def wire)

lemma ExtendedEvent_payload [wire]:
  "0 < length (xe_Payload e) \<Longrightarrow>
   bslice 52 (length (xe_Payload e)) (ExtendedEvent_MarshalBinary e) = xe_Payload e"
  by (simp add: ExtendedEvent_MarshalBinary_def ExtendedEventHeaderSize_def wire)

lemma ExtendedEvent_roundtrip:
  assumes "wf_ExtendedEvent e" and "len_ok e"
  shows "ExtendedEvent_UnmarshalBinary (ExtendedEvent_MarshalBinary e) = Inr e"
proof -
  have "(if 0 < xe_PayloadLen e
         then bslice 52 (unat (xe_PayloadLen e)) (ExtendedEvent_MarshalBinary e) else [])
        = xe_Payload e"
    using assms(2) ExtendedEvent_payload [of e]
    by (auto simp: len_ok_def word_less_nat_alt)
  with assms show ?thesis
    by (simp add: ExtendedEvent_UnmarshalBinary_def ExtendedEvent_length Let_def len_ok_def wire)
qed

text \<open>
  Bytes after the declared payload are ignored: the ring buffer may hand over a longer record.
\<close>

lemma ExtendedEvent_trailing:
  assumes "ExtendedEvent_UnmarshalBinary bs = Inr e"
  shows "ExtendedEvent_UnmarshalBinary (bs @ ys) = Inr e"
  using assms
  by (auto simp: ExtendedEvent_UnmarshalBinary_def ExtendedEventHeaderSize_def byte_at_def Let_def
      bslice_append split: if_splits)

text \<open>A successful decode is well formed: the payload has exactly the declared length.\<close>

lemma ExtendedEvent_decoded_wf:
  assumes "ExtendedEvent_UnmarshalBinary bs = Inr e"
  shows "wf_ExtendedEvent e \<and> len_ok e"
  using assms
  by (auto simp: ExtendedEvent_UnmarshalBinary_def ExtendedEventHeaderSize_def Let_def
      wf_ExtendedEvent_def len_ok_def TaskCommLen_def length_bslice word_less_nat_alt
      split: if_splits)

text \<open>An encoder that declares more than it carries is caught by the decoder.\<close>

lemma ExtendedEvent_overdeclared:
  assumes "wf_ExtendedEvent e" and "length (xe_Payload e) < unat (xe_PayloadLen e)"
  shows "ExtendedEvent_UnmarshalBinary (ExtendedEvent_MarshalBinary e) =
    Inl (BufferTooSmallForPayload (52 + length (xe_Payload e)) (52 + unat (xe_PayloadLen e)))"
  using assms
  by (simp add: ExtendedEvent_UnmarshalBinary_def ExtendedEvent_length Let_def
      ExtendedEventHeaderSize_def wire)

text \<open>In general the decoder reads as many payload bytes as the header declares.\<close>

lemma bslice_part: "k \<le> n \<Longrightarrow> bslice off k bs = take k (bslice off n bs)"
  by (simp add: bslice_def min_def)

lemma ExtendedEvent_declared:
  assumes "wf_ExtendedEvent e"
  shows "ExtendedEvent_UnmarshalBinary (ExtendedEvent_MarshalBinary e) =
      (if length (xe_Payload e) < unat (xe_PayloadLen e)
       then Inl (BufferTooSmallForPayload (52 + length (xe_Payload e)) (52 + unat (xe_PayloadLen e)))
       else Inr (e\<lparr>xe_Payload := take (unat (xe_PayloadLen e)) (xe_Payload e)\<rparr>))"
proof (cases "length (xe_Payload e) < unat (xe_PayloadLen e)")
  case True
  with ExtendedEvent_overdeclared [OF assms] show ?thesis by simp
next
  case False
  have "(if 0 < xe_PayloadLen e
         then bslice 52 (unat (xe_PayloadLen e)) (ExtendedEvent_MarshalBinary e) else [])
        = take (unat (xe_PayloadLen e)) (xe_Payload e)"
    using False ExtendedEvent_payload [of e]
      bslice_part [of "unat (xe_PayloadLen e)" "length (xe_Payload e)" 52 "ExtendedEvent_MarshalBinary e"]
    by (cases "xe_Payload e = []") (auto simp: word_less_nat_alt unat_eq_zero)
  with False assms show ?thesis
    by (simp add: ExtendedEvent_UnmarshalBinary_def ExtendedEvent_length Let_def
        ExtendedEventHeaderSize_def wire)
qed

lemmas payload_defs = TaskCommLen_def byte_at_def

section \<open>VFSPayload: event type 3\<close>

definition VFSPayloadSize :: nat where "VFSPayloadSize = 280"

record VFSPayload =
  vfs_FilePath :: "byte list"
  vfs_LatencyNs :: "64 word"
  vfs_BytesXfer :: "64 word"
  vfs_SlowIO :: byte
  vfs_OpType :: byte

definition wf_VFSPayload :: "VFSPayload \<Rightarrow> bool" where
  "wf_VFSPayload p \<longleftrightarrow> length (vfs_FilePath p) = 256"

definition VFSPayload_writes :: "VFSPayload \<Rightarrow> (nat \<times> byte list) list" where
  "VFSPayload_writes p =
    [(0, vfs_FilePath p),
     (256, PutUint64 (vfs_LatencyNs p)),
     (264, PutUint64 (vfs_BytesXfer p)),
     (272, [vfs_SlowIO p]),
     (273, [vfs_OpType p])]"

definition VFSPayload_MarshalBinary :: "VFSPayload \<Rightarrow> byte list" where
  "VFSPayload_MarshalBinary p = write_all (VFSPayload_writes p) (zeros VFSPayloadSize)"

definition VFSPayload_UnmarshalBinary :: "byte list \<Rightarrow> agent_error + VFSPayload" where
  "VFSPayload_UnmarshalBinary data =
    (if length data < VFSPayloadSize
     then Inl (PayloadTooSmall ''VFSPayload'' (length data) VFSPayloadSize)
     else Inr \<lparr>vfs_FilePath = bslice 0 256 data,
               vfs_LatencyNs = Uint64 (bslice 256 8 data),
               vfs_BytesXfer = Uint64 (bslice 264 8 data),
               vfs_SlowIO = byte_at 272 data,
               vfs_OpType = byte_at 273 data\<rparr>)"

lemmas vfs_defs = VFSPayload_MarshalBinary_def VFSPayload_UnmarshalBinary_def VFSPayload_writes_def wf_VFSPayload_def
  VFSPayloadSize_def

interpretation vfs_codec: wire_codec VFSPayload_MarshalBinary VFSPayload_UnmarshalBinary
  VFSPayloadSize wf_VFSPayload
proof
  show "wf_VFSPayload v \<Longrightarrow> VFSPayload_UnmarshalBinary (VFSPayload_MarshalBinary v) = Inr v" for v
    by (simp add: vfs_defs payload_defs wire)
qed (simp_all add: vfs_defs payload_defs wire)

section \<open>OOMPayload: event type 4\<close>

definition OOMPayloadSize :: nat where "OOMPayloadSize = 36"

record OOMPayload =
  oom_SubType :: byte
  oom_KilledPID :: "32 word"
  oom_KilledComm :: "byte list"
  oom_OOMScoreAdj :: "32 word"
  oom_PageOrder :: "32 word"
  oom_GFPFlags :: "32 word"

definition wf_OOMPayload :: "OOMPayload \<Rightarrow> bool" where
  "wf_OOMPayload p \<longleftrightarrow> length (oom_KilledComm p) = TaskCommLen"

definition OOMPayload_writes :: "OOMPayload \<Rightarrow> (nat \<times> byte list) list" where
  "OOMPayload_writes p =
    [(0, [oom_SubType p]),
     (4, PutUint32 (oom_KilledPID p)),
     (8, oom_KilledComm p),
     (24, PutUint32 (oom_OOMScoreAdj p)),
     (28, PutUint32 (oom_PageOrder p)),
     (32, PutUint32 (oom_GFPFlags p))]"

definition OOMPayload_MarshalBinary :: "OOMPayload \<Rightarrow> byte list" where
  "OOMPayload_MarshalBinary p = write_all (OOMPayload_writes p) (zeros OOMPayloadSize)"

definition OOMPayload_UnmarshalBinary :: "byte list \<Rightarrow> agent_error + OOMPayload" where
  "OOMPayload_UnmarshalBinary data =
    (if length data < OOMPayloadSize
     then Inl (PayloadTooSmall ''OOMPayload'' (length data) OOMPayloadSize)
     else Inr \<lparr>oom_SubType = byte_at 0 data,
               oom_KilledPID = Uint32 (bslice 4 4 data),
               oom_KilledComm = bslice 8 16 data,
               oom_OOMScoreAdj = Uint32 (bslice 24 4 data),
               oom_PageOrder = Uint32 (bslice 28 4 data),
               oom_GFPFlags = Uint32 (bslice 32 4 data)\<rparr>)"

lemmas oom_defs = OOMPayload_MarshalBinary_def OOMPayload_UnmarshalBinary_def OOMPayload_writes_def wf_OOMPayload_def
  OOMPayloadSize_def

interpretation oom_codec: wire_codec OOMPayload_MarshalBinary OOMPayload_UnmarshalBinary
  OOMPayloadSize wf_OOMPayload
proof
  show "wf_OOMPayload v \<Longrightarrow> OOMPayload_UnmarshalBinary (OOMPayload_MarshalBinary v) = Inr v" for v
    by (simp add: oom_defs payload_defs wire)
qed (simp_all add: oom_defs payload_defs wire)

section \<open>DNSPayload: event type 5\<close>

definition DNSPayloadSize :: nat where "DNSPayloadSize = 268"

record DNSPayload =
  dns_Domain :: "byte list"
  dns_LatencyNs :: "64 word"
  dns_ResponseCode :: "16 word"
  dns_TimedOut :: byte

definition wf_DNSPayload :: "DNSPayload \<Rightarrow> bool" where
  "wf_DNSPayload p \<longleftrightarrow> length (dns_Domain p) = 253"

definition DNSPayload_writes :: "DNSPayload \<Rightarrow> (nat \<times> byte list) list" where
  "DNSPayload_writes p =
    [(0, dns_Domain p),
     (256, PutUint64 (dns_LatencyNs p)),
     (264, PutUint16 (dns_ResponseCode p)),
     (266, [dns_TimedOut p])]"

definition DNSPayload_MarshalBinary :: "DNSPayload \<Rightarrow> byte list" where
  "DNSPayload_MarshalBinary p = write_all (DNSPayload_writes p) (zeros DNSPayloadSize)"

definition DNSPayload_UnmarshalBinary :: "byte list \<Rightarrow> agent_error + DNSPayload" where
  "DNSPayload_UnmarshalBinary data =
    (if length data < DNSPayloadSize
     then Inl (PayloadTooSmall ''DNSPayload'' (length data) DNSPayloadSize)
     else Inr \<lparr>dns_Domain = bslice 0 253 data,
               dns_LatencyNs = Uint64 (bslice 256 8 data),
               dns_ResponseCode = Uint16 (bslice 264 2 data),
               dns_TimedOut = byte_at 266 data\<rparr>)"

lemmas dns_defs = DNSPayload_MarshalBinary_def DNSPayload_UnmarshalBinary_def DNSPayload_writes_def wf_DNSPayload_def
  DNSPayloadSize_def

interpretation dns_codec: wire_codec DNSPayload_MarshalBinary DNSPayload_UnmarshalBinary
  DNSPayloadSize wf_DNSPayload
proof
  show "wf_DNSPayload v \<Longrightarrow> DNSPayload_UnmarshalBinary (DNSPayload_MarshalBinary v) = Inr v" for v
    by (simp add: dns_defs payload_defs wire)
qed (simp_all add: dns_defs payload_defs wire)

section \<open>CgroupResourcePayload: event type 6\<close>

definition CgroupResourcePayloadSize :: nat where "CgroupResourcePayloadSize = 32"

record CgroupResourcePayload =
  cgr_CPUUsageNs :: "64 word"
  cgr_MemoryUsageBytes :: "64 word"
  cgr_MemoryLimitBytes :: "64 word"
  cgr_MemoryPressure :: byte

definition wf_CgroupResourcePayload :: "CgroupResourcePayload \<Rightarrow> bool" where
  "wf_CgroupResourcePayload p \<longleftrightarrow> True"

definition CgroupResourcePayload_writes :: "CgroupResourcePayload \<Rightarrow> (nat \<times> byte list) list" where
  "CgroupResourcePayload_writes p =
    [(0, PutUint64 (cgr_CPUUsageNs p)),
     (8, PutUint64 (cgr_MemoryUsageBytes p)),
     (16, PutUint64 (cgr_MemoryLimitBytes p)),
     (24, [cgr_MemoryPressure p])]"

definition CgroupResourcePayload_MarshalBinary :: "CgroupResourcePayload \<Rightarrow> byte list" where
  "CgroupResourcePayload_MarshalBinary p = write_all (CgroupResourcePayload_writes p) (zeros CgroupResourcePayloadSize)"

definition CgroupResourcePayload_UnmarshalBinary :: "byte list \<Rightarrow> agent_error + CgroupResourcePayload" where
  "CgroupResourcePayload_UnmarshalBinary data =
    (if length data < CgroupResourcePayloadSize
     then Inl (PayloadTooSmall ''CgroupResourcePayload'' (length data) CgroupResourcePayloadSize)
     else Inr \<lparr>cgr_CPUUsageNs = Uint64 (bslice 0 8 data),
               cgr_MemoryUsageBytes = Uint64 (bslice 8 8 data),
               cgr_MemoryLimitBytes = Uint64 (bslice 16 8 data),
               cgr_MemoryPressure = byte_at 24 data\<rparr>)"

lemmas cgr_defs = CgroupResourcePayload_MarshalBinary_def CgroupResourcePayload_UnmarshalBinary_def CgroupResourcePayload_writes_def wf_CgroupResourcePayload_def
  CgroupResourcePayloadSize_def

interpretation cgroup_codec: wire_codec CgroupResourcePayload_MarshalBinary CgroupResourcePayload_UnmarshalBinary
  CgroupResourcePayloadSize wf_CgroupResourcePayload
proof
  show "wf_CgroupResourcePayload v \<Longrightarrow> CgroupResourcePayload_UnmarshalBinary (CgroupResourcePayload_MarshalBinary v) = Inr v" for v
    by (simp add: cgr_defs payload_defs wire)
qed (simp_all add: cgr_defs payload_defs wire)

section \<open>NetworkAuditPayload: event type 7\<close>

definition NetworkAuditPayloadSize :: nat where "NetworkAuditPayloadSize = 8"

record NetworkAuditPayload =
  aud_DstAddr :: "32 word"
  aud_DstPort :: "16 word"
  aud_Protocol :: byte

definition wf_NetworkAuditPayload :: "NetworkAuditPayload \<Rightarrow> bool" where
  "wf_NetworkAuditPayload p \<longleftrightarrow> True"

definition NetworkAuditPayload_writes :: "NetworkAuditPayload \<Rightarrow> (nat \<times> byte list) list" where
  "NetworkAuditPayload_writes p =
    [(0, PutUint32 (aud_DstAddr p)),
     (4, PutUint16 (aud_DstPort p)),
     (6, [aud_Protocol p])]"

definition NetworkAuditPayload_MarshalBinary :: "NetworkAuditPayload \<Rightarrow> byte list" where
  "NetworkAuditPayload_MarshalBinary p = write_all (NetworkAuditPayload_writes p) (zeros NetworkAuditPayloadSize)"

definition NetworkAuditPayload_UnmarshalBinary :: "byte list \<Rightarrow> agent_error + NetworkAuditPayload" where
  "NetworkAuditPayload_UnmarshalBinary data =
    (if length data < NetworkAuditPayloadSize
     then Inl (PayloadTooSmall ''NetworkAuditPayload'' (length data) NetworkAuditPayloadSize)
     else Inr \<lparr>aud_DstAddr = Uint32 (bslice 0 4 data),
               aud_DstPort = Uint16 (bslice 4 2 data),
               aud_Protocol = byte_at 6 data\<rparr>)"

lemmas aud_defs = NetworkAuditPayload_MarshalBinary_def NetworkAuditPayload_UnmarshalBinary_def NetworkAuditPayload_writes_def wf_NetworkAuditPayload_def
  NetworkAuditPayloadSize_def

interpretation audit_codec: wire_codec NetworkAuditPayload_MarshalBinary NetworkAuditPayload_UnmarshalBinary
  NetworkAuditPayloadSize wf_NetworkAuditPayload
proof
  show "wf_NetworkAuditPayload v \<Longrightarrow> NetworkAuditPayload_UnmarshalBinary (NetworkAuditPayload_MarshalBinary v) = Inr v" for v
    by (simp add: aud_defs payload_defs wire)
qed (simp_all add: aud_defs payload_defs wire)

section \<open>The C structs\<close>

text \<open>
  The payload structs of \<^verbatim>\<open>src/src/ebpf/headers/extended_common.h\<close>.  Their member offsets are the
  codecs' offsets; \<^verbatim>\<open>struct dns_payload\<close> is padded to 272 bytes, four more than the decoder
  needs.
\<close>

definition c_vfs_payload :: "(nat \<times> nat) list" where
  "c_vfs_payload = [c_chars 256, c_u64, c_u64, c_u8, c_u8]"

definition c_oom_payload :: "(nat \<times> nat) list" where
  "c_oom_payload = [c_u8, c_u32, c_chars 16, c_u32, c_u32, c_u32]"

definition c_dns_payload :: "(nat \<times> nat) list" where
  "c_dns_payload = [c_chars 253, c_u64, c_u16, c_u8]"

definition c_cgroup_resource_payload :: "(nat \<times> nat) list" where
  "c_cgroup_resource_payload = [c_u64, c_u64, c_u64, c_u8]"

definition c_network_audit_payload :: "(nat \<times> nat) list" where
  "c_network_audit_payload = [c_u32, c_u16, c_u8]"

lemmas c_payload_defs = c_vfs_payload_def c_oom_payload_def c_dns_payload_def
  c_cgroup_resource_payload_def c_network_audit_payload_def

lemma c_payload_offsets:
  "map fst (VFSPayload_writes v) = c_offsets 0 c_vfs_payload"
  "map fst (OOMPayload_writes o') = c_offsets 0 c_oom_payload"
  "map fst (DNSPayload_writes d) = c_offsets 0 c_dns_payload"
  "map fst (CgroupResourcePayload_writes c) = c_offsets 0 c_cgroup_resource_payload"
  "map fst (NetworkAuditPayload_writes n) = c_offsets 0 c_network_audit_payload"
  by (simp_all add: c_payload_defs c_layout_defs VFSPayload_writes_def OOMPayload_writes_def
      DNSPayload_writes_def CgroupResourcePayload_writes_def NetworkAuditPayload_writes_def)

lemma c_payload_sizes:
  "c_sizeof c_vfs_payload = VFSPayloadSize"
  "c_sizeof c_oom_payload = OOMPayloadSize"
  "c_sizeof c_dns_payload = DNSPayloadSize + 4"
  "c_sizeof c_cgroup_resource_payload = CgroupResourcePayloadSize"
  "c_sizeof c_network_audit_payload = NetworkAuditPayloadSize"
  by (simp_all add: c_payload_defs c_layout_defs VFSPayloadSize_def OOMPayloadSize_def
      DNSPayloadSize_def CgroupResourcePayloadSize_def NetworkAuditPayloadSize_def)

end
