(* ===== verification/CgroupResolver.thy ===== *)
theory CgroupResolver
  imports ExtendedEvents "HOL-Library.Mapping" "HOL-Library.Sublist"
begin

text \<open>
  The cgroup-to-pod resolver of \<^verbatim>\<open>src/src/agent/cgroup_resolver.go\<close>: the cache, the enrichment of
  both kinds of event, and the refresh from the kubelet and \<^verbatim>\<open>/proc\<close>.  What the process reads
  from outside (the kubelet's response, the entries of \<^verbatim>\<open>/proc\<close>, \<^verbatim>\<open>stat\<close>) is an argument of the
  model.
\<close>

section \<open>State\<close>

record CgroupResolver =
  cr_cache :: "(64 word, PodIdentity) mapping"
  cr_refreshRate :: Duration
  cr_nodeName :: string
  cr_kubeletURL :: string

definition NewCgroupResolver :: "string \<Rightarrow> string \<Rightarrow> Duration \<Rightarrow> CgroupResolver" where
  "NewCgroupResolver nodeName kubeletURL refreshRate =
    \<lparr>cr_cache = Mapping.empty,
     cr_refreshRate = (if refreshRate \<le> 0 then dur_mul 30 Second else refreshRate),
     cr_nodeName = nodeName,
     cr_kubeletURL = kubeletURL\<rparr>"

definition UpdateCache :: "64 word \<Rightarrow> PodIdentity \<Rightarrow> CgroupResolver \<Rightarrow> CgroupResolver" where
  "UpdateCache cgroupID pod cr = cr\<lparr>cr_cache := Mapping.update cgroupID pod (cr_cache cr)\<rparr>"

definition CacheSize :: "CgroupResolver \<Rightarrow> nat" where
  "CacheSize cr = Mapping.size (cr_cache cr)"

definition Resolve :: "CgroupResolver \<Rightarrow> 64 word \<Rightarrow> string \<Rightarrow> PodIdentity \<times> bool" where
  "Resolve cr cgroupID comm =
     (case Mapping.lookup (cr_cache cr) cgroupID of
        Some pod \<Rightarrow> (pod, False)
      | None \<Rightarrow> (\<lparr>pi_PodName = '''', pi_Namespace = '''', pi_ContainerName = '''',
                  pi_NodeName = cr_nodeName cr\<rparr>, True))"

section \<open>Enrichment\<close>

definition Resolver_Enrich :: "CgroupResolver \<Rightarrow> KernelEvent \<Rightarrow> AgentEnrichedEvent" where
  "Resolver_Enrich cr evt =
     (case Resolve cr (ke_CgroupID evt) (KernelEvent_CommString evt) of
        (pod, hostLevel) \<Rightarrow> KernelEvent_Enrich evt pod hostLevel)"

text \<open>
  The header fields of \<^verbatim>\<open>EnrichExtended\<close>, then one function per case of its switch: the decoded
  event and the returned error (Go returns both).
\<close>

definition EnrichExtended_header :: "ExtendedEvent \<Rightarrow> PodIdentity \<Rightarrow> bool \<Rightarrow> AgentEnrichedEvent" where
  "EnrichExtended_header ext pod hostLevel =
    (let enriched = zero_EnrichedEvent\<lparr>
           ev_Timestamp := sint (xe_Timestamp ext),
           ev_PID := xe_PID ext,
           ev_PPID := xe_PPID ext,
           ev_TGID := xe_TGID ext,
           ev_Comm := ExtendedEvent_CommString ext,
           ev_CgroupID := xe_CgroupID ext,
           ev_EventType := ExtendedEvent_EventTypeString ext,
           ev_NodeName := pi_NodeName pod,
           ev_HostLevel := hostLevel\<rparr>
     in if \<not> hostLevel
        then enriched\<lparr>ev_PodName := pi_PodName pod,
                      ev_Namespace := pi_Namespace pod,
                      ev_ContainerName := pi_ContainerName pod\<rparr>
        else enriched)"

definition apply_VFS :: "VFSPayload \<Rightarrow> AgentEnrichedEvent \<Rightarrow> AgentEnrichedEvent" where
  "apply_VFS p enriched = enriched\<lparr>
     ev_FilePath := trimNullString (vfs_FilePath p),
     ev_IOLatencyNs := vfs_LatencyNs p,
     ev_BytesXfer := vfs_BytesXfer p,
     ev_SlowIO := (vfs_SlowIO p = 1),
     ev_IOOpType := (if vfs_OpType p = 0 then ''read'' else ''write'')\<rparr>"

definition apply_OOM :: "OOMPayload \<Rightarrow> AgentEnrichedEvent \<Rightarrow> AgentEnrichedEvent" where
  "apply_OOM p enriched = enriched\<lparr>
     ev_OOMSubType := (if oom_SubType p = 0 then ''oom_kill'' else ''alloc_failure''),
     ev_KilledPID := oom_KilledPID p,
     ev_KilledComm := trimNullString (oom_KilledComm p),
     ev_OOMScoreAdj := oom_OOMScoreAdj p,
     ev_PageOrder := oom_PageOrder p,
     ev_GFPFlags := oom_GFPFlags p\<rparr>"

definition apply_DNS :: "DNSPayload \<Rightarrow> AgentEnrichedEvent \<Rightarrow> AgentEnrichedEvent" where
  "apply_DNS p enriched = enriched\<lparr>
     ev_Domain := trimNullString (dns_Domain p),
     ev_DNSLatencyNs := dns_LatencyNs p,
     ev_ResponseCode := dns_ResponseCode p,
     ev_TimedOut := (dns_TimedOut p = 1)\<rparr>"

definition apply_Cgroup :: "CgroupResourcePayload \<Rightarrow> AgentEnrichedEvent \<Rightarrow> AgentEnrichedEvent" where
  "apply_Cgroup p enriched = enriched\<lparr>
     ev_CPUUsageNs := cgr_CPUUsageNs p,
     ev_MemoryUsageBytes := cgr_MemoryUsageBytes p,
     ev_MemoryLimitBytes := cgr_MemoryLimitBytes p,
     ev_MemoryPressure := (cgr_MemoryPressure p = 1)\<rparr>"

definition apply_Audit :: "NetworkAuditPayload \<Rightarrow> AgentEnrichedEvent \<Rightarrow> AgentEnrichedEvent" where
  "apply_Audit p enriched = enriched\<lparr>
     ev_AuditDstAddr := IPv4String (aud_DstAddr p),
     ev_AuditDstPort := aud_DstPort p,
     ev_AuditProtocol :=
       (if aud_Protocol p = 6 then ''tcp''
        else if aud_Protocol p = 17 then ''udp''
        else ''proto('' @ show_uword (aud_Protocol p) @ '')'')\<rparr>"

text \<open>One decode-then-apply step: on a decode error the event is returned as it was, with the error.\<close>

definition with_payload ::
  "string \<Rightarrow> (byte list \<Rightarrow> agent_error + 'p) \<Rightarrow> ('p \<Rightarrow> AgentEnrichedEvent \<Rightarrow> AgentEnrichedEvent) \<Rightarrow>
   byte list \<Rightarrow> AgentEnrichedEvent \<Rightarrow> AgentEnrichedEvent \<times> agent_error option" where
  "with_payload label decode app payload enriched =
     (case decode payload of
        Inl err \<Rightarrow> (enriched, Some (DecodePayload label err))
      | Inr p \<Rightarrow> (app p enriched, None))"

definition EnrichExtended ::
  "CgroupResolver \<Rightarrow> ExtendedEvent \<Rightarrow> AgentEnrichedEvent \<times> agent_error option" where
  "EnrichExtended cr ext =
    (case Resolve cr (xe_CgroupID ext) (ExtendedEvent_CommString ext) of (pod, hostLevel) \<Rightarrow>
      let enriched = EnrichExtended_header ext pod hostLevel in
      if xe_EventType ext = EventTypeVFS then
        with_payload ''VFS'' VFSPayload_UnmarshalBinary apply_VFS (xe_Payload ext) enriched
      else if xe_EventType ext = EventTypeOOM then
        with_payload ''OOM'' OOMPayload_UnmarshalBinary apply_OOM (xe_Payload ext) enriched
      else if xe_EventType ext = EventTypeDNS then
        with_payload ''DNS'' DNSPayload_UnmarshalBinary apply_DNS (xe_Payload ext) enriched
      else if xe_EventType ext = EventTypeCgroup then
        with_payload ''cgroup resource'' CgroupResourcePayload_UnmarshalBinary apply_Cgroup
          (xe_Payload ext) enriched
      else if xe_EventType ext = EventTypeSecurity then
        with_payload ''network audit'' NetworkAuditPayload_UnmarshalBinary apply_Audit
          (xe_Payload ext) enriched
      else (enriched, None))"

section \<open>Refresh\<close>

record kubeletContainerStatus =
  kc_Name :: string
  kc_ContainerID :: string

record kubeletPod =
  kp_Name :: string
  kp_Namespace :: string
  kp_UID :: string
  kp_ContainerStatuses :: "kubeletContainerStatus list"

text \<open>
  The response to \<^verbatim>\<open>GET /pods\<close>: no response, or a status and the decoded body (\<open>None\<close> when it is not
  the expected JSON).  An entry of \<^verbatim>\<open>/proc\<close> carries the lines of its \<^verbatim>\<open>cgroup\<close> file (\<open>None\<close> when
  the file cannot be opened).
\<close>

datatype kubelet_response = RequestFailed | Response nat "kubeletPod list option"

record proc_entry =
  pe_Name :: string
  pe_IsDir :: bool
  pe_Cgroup :: "string list option"

datatype refresh_error =
  KubeletRequest | KubeletStatus nat | KubeletDecode | ReadProc

text \<open>\<^verbatim>\<open>strings.SplitN(s, sep, 2)\<close>: the text before and after the first occurrence of \<^verbatim>\<open>sep\<close>.\<close>

fun cut :: "string \<Rightarrow> string \<Rightarrow> (string \<times> string) option" where
  "cut sep [] = (if sep = [] then Some ([], []) else None)"
| "cut sep (c # cs) =
     (if prefix sep (c # cs) then Some ([], drop (length sep) (c # cs))
      else map_option (\<lambda>(a, b). (c # a, b)) (cut sep cs))"

definition contains :: "string \<Rightarrow> string \<Rightarrow> bool" where
  "contains s sub \<longleftrightarrow> list_ex (prefix sub) (suffixes s)"

definition readProcCgroup :: "string list option \<Rightarrow> string option" where
  "readProcCgroup file =
     (case file of None \<Rightarrow> None
      | Some ls \<Rightarrow> map_option (drop 3) (List.find (prefix ''0::'') ls))"

text \<open>\<^verbatim>\<open>filepath.Join("/sys/fs/cgroup", path)\<close>, which cleans its result.\<close>

fun clean_parts :: "string list \<Rightarrow> string list \<Rightarrow> string list" where
  "clean_parts acc [] = rev acc"
| "clean_parts acc (p # ps) =
     (if p = '''' \<or> p = ''.'' then clean_parts acc ps
      else if p = ''..'' then clean_parts (drop 1 acc) ps
      else clean_parts (p # acc) ps)"

definition cgroupFSPath :: "string \<Rightarrow> string" where
  "cgroupFSPath cgroupPath =
     CHR 0x2F # join ''/'' (clean_parts [] (split_on CHR 0x2F (''/sys/fs/cgroup/'' @ cgroupPath)))"

definition containers_of :: "string \<Rightarrow> kubeletPod list \<Rightarrow> (PodIdentity \<times> string) list" where
  "containers_of nodeName pods =
     concat (map (\<lambda>pod.
       List.map_filter (\<lambda>cs.
         case cut ''://'' (kc_ContainerID cs) of
           None \<Rightarrow> None
         | Some (scheme, idSuffix) \<Rightarrow>
             if idSuffix = '''' then None
             else Some (\<lparr>pi_PodName = kp_Name pod, pi_Namespace = kp_Namespace pod,
                         pi_ContainerName = kc_Name cs, pi_NodeName = nodeName\<rparr>, idSuffix))
         (kp_ContainerStatuses pod)) pods)"

text \<open>The inner loop for one process: the first container whose ID is in the path and whose cgroup
  can be stat'ed.\<close>

fun match_container ::
  "(string \<Rightarrow> 64 word option) \<Rightarrow> string \<Rightarrow> (PodIdentity \<times> string) list \<Rightarrow>
   (64 word \<times> PodIdentity) option" where
  "match_container cgroupInode cgroupPath [] = None"
| "match_container cgroupInode cgroupPath ((pod, idSuffix) # cs) =
     (if \<not> contains cgroupPath idSuffix then match_container cgroupInode cgroupPath cs
      else case cgroupInode (cgroupFSPath cgroupPath) of
             None \<Rightarrow> match_container cgroupInode cgroupPath cs
           | Some ino \<Rightarrow> Some (ino, pod))"

definition scan_entry ::
  "(string \<Rightarrow> 64 word option) \<Rightarrow> (PodIdentity \<times> string) list \<Rightarrow> proc_entry \<Rightarrow>
   (64 word, PodIdentity) mapping \<Rightarrow> (64 word, PodIdentity) mapping" where
  "scan_entry cgroupInode containers entry newCache =
     (if \<not> pe_IsDir entry then newCache
      else if atoi (pe_Name entry) = None then newCache
      else case readProcCgroup (pe_Cgroup entry) of
             None \<Rightarrow> newCache
           | Some cgroupPath \<Rightarrow>
               (case match_container cgroupInode cgroupPath containers of
                  None \<Rightarrow> newCache
                | Some (ino, pod) \<Rightarrow> Mapping.update ino pod newCache))"

definition refresh ::
  "kubelet_response \<Rightarrow> string \<Rightarrow> proc_entry list option \<Rightarrow> (string \<Rightarrow> 64 word option) \<Rightarrow>
   CgroupResolver \<Rightarrow> refresh_error option \<times> CgroupResolver" where
  "refresh resp goos proc cgroupInode cr =
    (if cr_kubeletURL cr = '''' then (None, cr)
     else case resp of
       RequestFailed \<Rightarrow> (Some KubeletRequest, cr)
     | Response status body \<Rightarrow>
         if status \<noteq> 200 then (Some (KubeletStatus status), cr)
         else (case body of
             None \<Rightarrow> (Some KubeletDecode, cr)
           | Some pods \<Rightarrow>
               if goos \<noteq> ''linux'' then (None, cr)
               else let containers = containers_of (cr_nodeName cr) pods in
                 if containers = [] then (None, cr)
                 else (case proc of
                     None \<Rightarrow> (Some ReadProc, cr)
                   | Some entries \<Rightarrow>
                       (None, cr\<lparr>cr_cache :=
                          fold (scan_entry cgroupInode containers) entries Mapping.empty\<rparr>))))"

section \<open>What the enrichment keeps\<close>

lemma Resolve_host: "Mapping.lookup (cr_cache cr) cg = None \<Longrightarrow>
    snd (Resolve cr cg comm) \<and> pi_NodeName (fst (Resolve cr cg comm)) = cr_nodeName cr"
  by (simp add: Resolve_def)

lemma Resolve_pod: "Mapping.lookup (cr_cache cr) cg = Some pod \<Longrightarrow> Resolve cr cg comm = (pod, False)"
  by (simp add: Resolve_def)

lemma apply_frame [simp]:
  "ev_NodeName (apply_VFS v e) = ev_NodeName e" "ev_EventType (apply_VFS v e) = ev_EventType e"
  "ev_Timestamp (apply_VFS v e) = ev_Timestamp e" "ev_PodName (apply_VFS v e) = ev_PodName e"
  "ev_NodeName (apply_OOM o' e) = ev_NodeName e" "ev_EventType (apply_OOM o' e) = ev_EventType e"
  "ev_Timestamp (apply_OOM o' e) = ev_Timestamp e" "ev_PodName (apply_OOM o' e) = ev_PodName e"
  "ev_NodeName (apply_DNS d e) = ev_NodeName e" "ev_EventType (apply_DNS d e) = ev_EventType e"
  "ev_Timestamp (apply_DNS d e) = ev_Timestamp e" "ev_PodName (apply_DNS d e) = ev_PodName e"
  "ev_NodeName (apply_Cgroup c e) = ev_NodeName e" "ev_EventType (apply_Cgroup c e) = ev_EventType e"
  "ev_Timestamp (apply_Cgroup c e) = ev_Timestamp e" "ev_PodName (apply_Cgroup c e) = ev_PodName e"
  "ev_NodeName (apply_Audit a e) = ev_NodeName e" "ev_EventType (apply_Audit a e) = ev_EventType e"
  "ev_Timestamp (apply_Audit a e) = ev_Timestamp e" "ev_PodName (apply_Audit a e) = ev_PodName e"
  by (simp_all add: apply_VFS_def apply_OOM_def apply_DNS_def apply_Cgroup_def apply_Audit_def)

lemma EnrichExtended_header_fields [simp]:
  "ev_Timestamp (EnrichExtended_header x pod h) = sint (xe_Timestamp x)"
  "ev_EventType (EnrichExtended_header x pod h) = ExtendedEvent_EventTypeString x"
  "ev_NodeName (EnrichExtended_header x pod h) = pi_NodeName pod"
  "ev_HostLevel (EnrichExtended_header x pod h) = h"
  "ev_PodName (EnrichExtended_header x pod h) = (if h then '''' else pi_PodName pod)"
  by (simp_all add: EnrichExtended_header_def Let_def zero_EnrichedEvent_def)

lemma with_payload_field:
  "(\<And>p. f (app p e) = f e) \<Longrightarrow> f (fst (with_payload l dec app bs e)) = f e"
  by (auto simp: with_payload_def split: sum.splits)

lemmas EnrichExtended_split = EnrichExtended_def Let_def split_beta

lemma EnrichExtended_common:
  "ev_Timestamp (fst (EnrichExtended cr x)) = sint (xe_Timestamp x)"
  "ev_EventType (fst (EnrichExtended cr x)) = ExtendedEvent_EventTypeString x"
  "ev_NodeName (fst (EnrichExtended cr x)) =
     pi_NodeName (fst (Resolve cr (xe_CgroupID x) (ExtendedEvent_CommString x)))"
  by (simp_all add: EnrichExtended_split with_payload_field)

lemma with_payload_error: "snd (with_payload l dec app bs e) = None \<longleftrightarrow> (\<exists>p. dec bs = Inr p)"
  by (auto simp: with_payload_def split: sum.splits)

text \<open>The size of the C struct that each event type needs as payload; other types carry none.\<close>

definition payload_need :: "byte \<Rightarrow> nat" where
  "payload_need t = (if t = 3 then 280 else if t = 4 then 36 else if t = 5 then 268 else if t = 6 then 32 else if t = 7 then 8 else 0)"

lemma EnrichExtended_ok_iff:
  "snd (EnrichExtended cr x) = None \<longleftrightarrow> payload_need (xe_EventType x) \<le> length (xe_Payload x)"
  by (simp add: EnrichExtended_split payload_need_def with_payload_error
      vfs_codec.accepts_iff oom_codec.accepts_iff dns_codec.accepts_iff
      cgroup_codec.accepts_iff audit_codec.accepts_iff ext_type_defs
      VFSPayloadSize_def OOMPayloadSize_def DNSPayloadSize_def CgroupResourcePayloadSize_def NetworkAuditPayloadSize_def)

text \<open>The error of a payload that is too short names both sizes.\<close>

lemma EnrichExtended_error:
  assumes "length (xe_Payload x) < payload_need (xe_EventType x)"
  shows "\<exists>label name. snd (EnrichExtended cr x) =
    Some (DecodePayload label (PayloadTooSmall name (length (xe_Payload x)) (payload_need (xe_EventType x))))"
  using assms
  by (auto simp: EnrichExtended_split payload_need_def with_payload_def ext_type_defs vfs_defs oom_defs dns_defs cgr_defs aud_defs
      VFSPayloadSize_def OOMPayloadSize_def DNSPayloadSize_def CgroupResourcePayloadSize_def NetworkAuditPayloadSize_def
      split: if_splits)

lemma with_payload_marshalled:
  "dec bs = Inr p \<Longrightarrow> with_payload l dec app bs e = (app p e, None)"
  by (simp add: with_payload_def)

text \<open>
  An event whose payload is an encoded record, possibly followed by padding, is enriched with that
  record.
\<close>

lemma EnrichExtended_decodes:
  fixes x :: ExtendedEvent and cr :: CgroupResolver
  defines "h0 \<equiv> EnrichExtended_header x (fst (Resolve cr (xe_CgroupID x) (ExtendedEvent_CommString x)))
    (snd (Resolve cr (xe_CgroupID x) (ExtendedEvent_CommString x)))"
  shows "xe_EventType x = EventTypeVFS \<Longrightarrow> wf_VFSPayload v \<Longrightarrow>
      xe_Payload x = VFSPayload_MarshalBinary v @ ys \<Longrightarrow> EnrichExtended cr x = (apply_VFS v h0, None)"
    and "xe_EventType x = EventTypeOOM \<Longrightarrow> wf_OOMPayload o' \<Longrightarrow>
      xe_Payload x = OOMPayload_MarshalBinary o' @ ys \<Longrightarrow> EnrichExtended cr x = (apply_OOM o' h0, None)"
    and "xe_EventType x = EventTypeDNS \<Longrightarrow> wf_DNSPayload d \<Longrightarrow>
      xe_Payload x = DNSPayload_MarshalBinary d @ ys \<Longrightarrow> EnrichExtended cr x = (apply_DNS d h0, None)"
    and "xe_EventType x = EventTypeCgroup \<Longrightarrow> wf_CgroupResourcePayload c \<Longrightarrow>
      xe_Payload x = CgroupResourcePayload_MarshalBinary c @ ys \<Longrightarrow>
      EnrichExtended cr x = (apply_Cgroup c h0, None)"
    and "xe_EventType x = EventTypeSecurity \<Longrightarrow> wf_NetworkAuditPayload a \<Longrightarrow>
      xe_Payload x = NetworkAuditPayload_MarshalBinary a @ ys \<Longrightarrow>
      EnrichExtended cr x = (apply_Audit a h0, None)"
  by (simp_all add: h0_def EnrichExtended_split ext_type_defs with_payload_marshalled
      vfs_codec.roundtrip_trailing oom_codec.roundtrip_trailing dns_codec.roundtrip_trailing
      cgroup_codec.roundtrip_trailing audit_codec.roundtrip_trailing)

section \<open>What the refresh does to the cache\<close>

lemma refresh_error_keeps: "fst (refresh resp goos proc ino cr) = Some e \<Longrightarrow> snd (refresh resp goos proc ino cr) = cr"
  by (auto simp: refresh_def Let_def split: if_splits kubelet_response.splits option.splits)

lemma refresh_frame [simp]:
  "cr_nodeName (snd (refresh resp goos proc ino cr)) = cr_nodeName cr"
  "cr_kubeletURL (snd (refresh resp goos proc ino cr)) = cr_kubeletURL cr"
  "cr_refreshRate (snd (refresh resp goos proc ino cr)) = cr_refreshRate cr"
  by (auto simp: refresh_def Let_def split: kubelet_response.splits option.splits)

text \<open>What one entry of \<^verbatim>\<open>/proc\<close> contributes.\<close>

definition entry_match ::
  "(string \<Rightarrow> 64 word option) \<Rightarrow> (PodIdentity \<times> string) list \<Rightarrow> proc_entry \<Rightarrow> (64 word \<times> PodIdentity) option" where
  "entry_match ino cs entry =
     (if pe_IsDir entry \<and> atoi (pe_Name entry) \<noteq> None
      then Option.bind (readProcCgroup (pe_Cgroup entry)) (\<lambda>path. match_container ino path cs)
      else None)"

lemma scan_entry_match:
  "scan_entry ino cs entry m =
     (case entry_match ino cs entry of None \<Rightarrow> m | Some (k, pod) \<Rightarrow> Mapping.update k pod m)"
  by (simp add: scan_entry_def entry_match_def split: option.splits)

lemma match_container_SomeD:
  "match_container ino path cs = Some (k, pod) \<Longrightarrow>
   ino (cgroupFSPath path) = Some k \<and> (\<exists>idSuffix. (pod, idSuffix) \<in> set cs \<and> contains path idSuffix)"
  by (induction ino path cs rule: match_container.induct) (auto split: if_splits option.splits)

lemma match_container_dom:
  "(\<exists>pod. match_container ino path cs = Some (k, pod)) \<longleftrightarrow>
     ino (cgroupFSPath path) = Some k \<and> (\<exists>(pod, idSuffix) \<in> set cs. contains path idSuffix)"
  by (induction ino path cs rule: match_container.induct) (auto split: option.splits)

lemma lookup_update_if: "Mapping.lookup (Mapping.update k v m) k' = (if k = k' then Some v else Mapping.lookup m k')"
  by (simp add: lookup_update')

lemma fold_scan_sound:
  "Mapping.lookup (fold (scan_entry ino cs) entries m) k = Some pod \<Longrightarrow>
   Mapping.lookup m k = Some pod \<or> (\<exists>e \<in> set entries. entry_match ino cs e = Some (k, pod))"
proof (induction entries arbitrary: m)
  case Nil
  then show ?case by simp
next
  case (Cons e es)
  then have "Mapping.lookup (scan_entry ino cs e m) k = Some pod \<or>
      (\<exists>e \<in> set es. entry_match ino cs e = Some (k, pod))" by simp
  then show ?case
    by (auto simp: scan_entry_match lookup_update_if split: option.splits prod.splits if_splits)
qed

lemma fold_scan_dom:
  "(\<exists>pod. Mapping.lookup (fold (scan_entry ino cs) entries m) k = Some pod) \<longleftrightarrow>
   (\<exists>pod. Mapping.lookup m k = Some pod) \<or>
   (\<exists>e \<in> set entries. \<exists>pod. entry_match ino cs e = Some (k, pod))"
proof (induction entries arbitrary: m)
  case Nil
  then show ?case by simp
next
  case (Cons e es)
  have "(\<exists>pod. Mapping.lookup (scan_entry ino cs e m) k = Some pod) \<longleftrightarrow>
      (\<exists>pod. Mapping.lookup m k = Some pod) \<or> (\<exists>pod. entry_match ino cs e = Some (k, pod))"
    by (auto simp: scan_entry_match lookup_update_if split: option.splits)
  with Cons.IH [of "scan_entry ino cs e m"] show ?case by auto
qed

lemma containers_of_node: "(pod, idSuffix) \<in> set (containers_of node pods) \<Longrightarrow> pi_NodeName pod = node"
  by (auto simp: containers_of_def List.map_filter_def split: option.splits if_splits)

section \<open>The cache names this node only\<close>

definition cache_on_node :: "CgroupResolver \<Rightarrow> bool" where
  "cache_on_node cr \<longleftrightarrow>
     (\<forall>k pod. Mapping.lookup (cr_cache cr) k = Some pod \<longrightarrow> pi_NodeName pod = cr_nodeName cr)"

lemma cache_on_node_new [preserves]: "cache_on_node (NewCgroupResolver n u r)"
  by (simp add: cache_on_node_def NewCgroupResolver_def lookup_empty)

lemma cache_on_node_refresh [preserves]:
  assumes "cache_on_node cr"
  shows "cache_on_node (snd (refresh resp goos proc ino cr))"
proof -
  have "pi_NodeName pod = cr_nodeName cr"
    if "Mapping.lookup (fold (scan_entry ino (containers_of (cr_nodeName cr) pods)) es Mapping.empty) k
        = Some pod" for pods es k pod
  proof -
    from fold_scan_sound [OF that] obtain e where
      "entry_match ino (containers_of (cr_nodeName cr) pods) e = Some (k, pod)"
      by (auto simp: lookup_empty)
    then show ?thesis
      by (auto simp: entry_match_def bind_eq_Some_conv split: if_splits
          dest!: match_container_SomeD containers_of_node)
  qed
  with assms show ?thesis
    by (auto simp: cache_on_node_def refresh_def Let_def split: kubelet_response.splits option.splits)
qed

lemma Resolve_on_node: "cache_on_node cr \<Longrightarrow> pi_NodeName (fst (Resolve cr cg comm)) = cr_nodeName cr"
  by (auto simp: cache_on_node_def Resolve_def split: option.splits)

lemma Resolver_Enrich_on_node: "cache_on_node cr \<Longrightarrow> ev_NodeName (Resolver_Enrich cr e) = cr_nodeName cr"
  using Resolve_on_node by (simp add: Resolver_Enrich_def split_beta)

lemma EnrichExtended_on_node: "cache_on_node cr \<Longrightarrow> ev_NodeName (fst (EnrichExtended cr x)) = cr_nodeName cr"
  by (simp add: EnrichExtended_common Resolve_on_node)

lemma EnrichExtended_on_nodeD:
  "EnrichExtended cr x = (e, r) \<Longrightarrow> cache_on_node cr \<Longrightarrow> ev_NodeName e = cr_nodeName cr"
  using EnrichExtended_on_node [of cr x] by simp

end
