(* ===== verification/ProbeManager.thy ===== *)
theory ProbeManager
  imports CgroupResolver
begin

text \<open>
  The event pipeline of \<^verbatim>\<open>src/src/agent/probe_manager.go\<close>: dispatch of a raw record by its type
  byte, decoding, enrichment and the non-blocking send to the bounded event channel with its drop
  counter.  The channel is its capacity and its buffer; no code of the agent closes it.  The
  current time, which \<^verbatim>\<open>recordDrop\<close> reads, is an argument, and the drop messages it logs are a
  field of the state.
\<close>

record ProbeManager =
  pm_resolver :: CgroupResolver
  pm_eventCh :: "AgentEnrichedEvent list"
  pm_chanCap :: nat
  pm_pollInterval :: Duration
  pm_droppedCnt :: "64 word"
  pm_lastDropLog :: Time
  pm_dropLogs :: "(Time \<times> 64 word) list"

definition NewProbeManager :: "CgroupResolver \<Rightarrow> nat \<Rightarrow> Duration \<Rightarrow> ProbeManager" where
  "NewProbeManager resolver chanCap pollInterval =
    \<lparr>pm_resolver = resolver, pm_eventCh = [], pm_chanCap = chanCap,
     pm_pollInterval = (if pollInterval \<le> 0 then dur_mul 100 Millisecond else pollInterval),
     pm_droppedCnt = 0, pm_lastDropLog = zero_time, pm_dropLogs = []\<rparr>"

definition DroppedEvents :: "ProbeManager \<Rightarrow> 64 word" where
  "DroppedEvents pm = pm_droppedCnt pm"

definition recordDrop :: "Time \<Rightarrow> ProbeManager \<Rightarrow> ProbeManager" where
  "recordDrop now pm0 =
    (let pm = pm0\<lparr>pm_droppedCnt := pm_droppedCnt pm0 + 1\<rparr>
     in if dur_mul 10 Second \<le> time_Sub now (pm_lastDropLog pm)
        then pm\<lparr>pm_lastDropLog := now,
                pm_dropLogs := (now, pm_droppedCnt pm) # pm_dropLogs pm\<rparr>
        else pm)"

text \<open>\<^verbatim>\<open>select { case pm.eventCh <- enriched: default: pm.recordDrop() }\<close>\<close>

definition offer :: "Time \<Rightarrow> AgentEnrichedEvent \<Rightarrow> ProbeManager \<Rightarrow> ProbeManager" where
  "offer now enriched pm =
    (if length (pm_eventCh pm) < pm_chanCap pm
     then pm\<lparr>pm_eventCh := pm_eventCh pm @ [enriched]\<rparr>
     else recordDrop now pm)"

definition ProcessEvent :: "Time \<Rightarrow> KernelEvent \<Rightarrow> ProbeManager \<Rightarrow> agent_error option \<times> ProbeManager" where
  "ProcessEvent now evt pm =
    (let enriched = Resolver_Enrich (pm_resolver pm) evt in (None, offer now enriched pm))"

definition processKernelEvent ::
  "Time \<Rightarrow> byte list \<Rightarrow> ProbeManager \<Rightarrow> agent_error option \<times> ProbeManager" where
  "processKernelEvent now data pm =
    (case DecodeKernelEvent data of
       Inl err \<Rightarrow> (Some (DecodeEvent err), pm)
     | Inr evt \<Rightarrow> ProcessEvent now evt pm)"

definition processExtendedEvent ::
  "Time \<Rightarrow> byte list \<Rightarrow> ProbeManager \<Rightarrow> agent_error option \<times> ProbeManager" where
  "processExtendedEvent now data pm =
    (case ExtendedEvent_UnmarshalBinary data of
       Inl err \<Rightarrow> (Some (DecodeExtendedEvent err), pm)
     | Inr ext \<Rightarrow>
         (case EnrichExtended (pm_resolver pm) ext of
            (enriched, Some err) \<Rightarrow> (Some (EnrichExtendedEvent err), pm)
          | (enriched, None) \<Rightarrow> (None, offer now enriched pm)))"

definition ProcessRawEvent ::
  "Time \<Rightarrow> byte list \<Rightarrow> ProbeManager \<Rightarrow> agent_error option \<times> ProbeManager" where
  "ProcessRawEvent now data pm =
    (if length data < 49 then (Some (RecordTooShort (length data)), pm)
     else if byte_at 48 data \<le> 2 then processKernelEvent now data pm
     else processExtendedEvent now data pm)"

section \<open>The pipeline as a decoder followed by a bounded queue\<close>

text \<open>The abstract view: what a raw record means, independent of the channel.\<close>

definition raw_meaning :: "CgroupResolver \<Rightarrow> byte list \<Rightarrow> agent_error + AgentEnrichedEvent" where
  "raw_meaning cr data =
    (if length data < 49 then Inl (RecordTooShort (length data))
     else if data ! 48 \<le> 2 then
       (case KernelEvent_UnmarshalBinary data of
          Inl err \<Rightarrow> Inl (DecodeEvent err)
        | Inr evt \<Rightarrow> Inr (Resolver_Enrich cr evt))
     else
       (case ExtendedEvent_UnmarshalBinary data of
          Inl err \<Rightarrow> Inl (DecodeExtendedEvent err)
        | Inr ext \<Rightarrow>
            (case EnrichExtended cr ext of
               (enriched, Some err) \<Rightarrow> Inl (EnrichExtendedEvent err)
             | (enriched, None) \<Rightarrow> Inr enriched)))"

lemma ProcessRawEvent_refines:
  "ProcessRawEvent now data pm =
    (case raw_meaning (pm_resolver pm) data of
       Inl err \<Rightarrow> (Some err, pm)
     | Inr enriched \<Rightarrow> (None, offer now enriched pm))"
  by (simp add: ProcessRawEvent_def raw_meaning_def processKernelEvent_def
      processExtendedEvent_def ProcessEvent_def DecodeKernelEvent_def byte_at_nth
      split: sum.splits prod.splits option.splits)

lemma recordDrop_fields [simp]:
  "pm_resolver (recordDrop now pm) = pm_resolver pm"
  "pm_eventCh (recordDrop now pm) = pm_eventCh pm"
  "pm_chanCap (recordDrop now pm) = pm_chanCap pm"
  "pm_droppedCnt (recordDrop now pm) = pm_droppedCnt pm + 1"
  by (simp_all add: recordDrop_def Let_def)

lemma offer_fields [simp]:
  "pm_resolver (offer now e pm) = pm_resolver pm"
  "pm_chanCap (offer now e pm) = pm_chanCap pm"
  "pm_eventCh (offer now e pm) =
     (if length (pm_eventCh pm) < pm_chanCap pm then pm_eventCh pm @ [e] else pm_eventCh pm)"
  "pm_droppedCnt (offer now e pm) =
     (if length (pm_eventCh pm) < pm_chanCap pm then pm_droppedCnt pm else pm_droppedCnt pm + 1)"
  by (simp_all add: offer_def)

text \<open>A run over several records, with no receiver in between.\<close>

fun process_all :: "(Time \<times> byte list) list \<Rightarrow> ProbeManager \<Rightarrow> ProbeManager" where
  "process_all [] pm = pm"
| "process_all ((now, data) # rs) pm = process_all rs (snd (ProcessRawEvent now data pm))"

fun meanings :: "CgroupResolver \<Rightarrow> (Time \<times> byte list) list \<Rightarrow> AgentEnrichedEvent list" where
  "meanings cr [] = []"
| "meanings cr ((now, data) # rs) =
     (case raw_meaning cr data of Inl err \<Rightarrow> meanings cr rs | Inr e \<Rightarrow> e # meanings cr rs)"

lemma process_all_resolver [simp]: "pm_resolver (process_all rs pm) = pm_resolver pm"
  by (induction rs pm rule: process_all.induct)
     (auto simp: ProcessRawEvent_refines split: sum.splits)

lemma process_all_cap [simp]: "pm_chanCap (process_all rs pm) = pm_chanCap pm"
  by (induction rs pm rule: process_all.induct)
     (auto simp: ProcessRawEvent_refines split: sum.splits)

lemma process_all_chan:
  "length (pm_eventCh pm) \<le> pm_chanCap pm \<Longrightarrow>
   pm_eventCh (process_all rs pm) =
     pm_eventCh pm @ take (pm_chanCap pm - length (pm_eventCh pm)) (meanings (pm_resolver pm) rs)"
proof (induction rs pm rule: process_all.induct)
  case (2 now data rs pm)
  show ?case
  proof (cases "raw_meaning (pm_resolver pm) data")
    case (Inl err)
    with 2 show ?thesis by (simp add: ProcessRawEvent_refines)
  next
    case (Inr e)
    show ?thesis
    proof (cases "length (pm_eventCh pm) < pm_chanCap pm")
      case True
      then have "pm_chanCap pm - length (pm_eventCh pm)
          = Suc (pm_chanCap pm - Suc (length (pm_eventCh pm)))" by simp
      with 2 Inr True show ?thesis by (simp add: ProcessRawEvent_refines)
    next
      case False
      with 2 Inr show ?thesis by (simp add: ProcessRawEvent_refines)
    qed
  qed
qed simp

lemma process_all_dropped:
  "length (pm_eventCh pm) \<le> pm_chanCap pm \<Longrightarrow>
   pm_droppedCnt (process_all rs pm) = pm_droppedCnt pm +
     of_nat (length (meanings (pm_resolver pm) rs) - (pm_chanCap pm - length (pm_eventCh pm)))"
proof (induction rs pm rule: process_all.induct)
  case (2 now data rs pm)
  show ?case
  proof (cases "raw_meaning (pm_resolver pm) data")
    case (Inl err)
    with 2 show ?thesis by (simp add: ProcessRawEvent_refines)
  next
    case (Inr e)
    let ?n = "length (meanings (pm_resolver pm) rs)"
    show ?thesis
    proof (cases "length (pm_eventCh pm) < pm_chanCap pm")
      case True
      then have "?n - (pm_chanCap pm - Suc (length (pm_eventCh pm)))
          = Suc ?n - (pm_chanCap pm - length (pm_eventCh pm))" by simp
      with 2 Inr True show ?thesis by (simp add: ProcessRawEvent_refines)
    next
      case False
      with 2 Inr show ?thesis by (simp add: ProcessRawEvent_refines ac_simps)
    qed
  qed
qed simp

section \<open>Drop messages are rate-limited\<close>

definition drop_log_inv :: "ProbeManager \<Rightarrow> bool" where
  "drop_log_inv pm \<longleftrightarrow>
     pm_lastDropLog pm = (case pm_dropLogs pm of [] \<Rightarrow> zero_time | (t, n) # _ \<Rightarrow> t) \<and>
     sorted_wrt (\<lambda>(t, _) (t', _). t' + 10 * 10 ^ 9 \<le> t) (pm_dropLogs pm)"

lemma ten_seconds: "dur_mul 10 Second \<le> time_Sub t u \<Longrightarrow> u + 10 * 10 ^ 9 \<le> t"
  by (auto simp: dur_mul_def Second_def time_Sub_def i64_defs split: if_splits)

lemma drop_log_inv_new [preserves]: "drop_log_inv (NewProbeManager cr n d)"
  by (simp add: drop_log_inv_def NewProbeManager_def)

lemma drop_log_inv_recordDrop [preserves]:
  assumes "drop_log_inv pm"
  shows "drop_log_inv (recordDrop now pm)"
proof (cases "dur_mul 10 Second \<le> time_Sub now (pm_lastDropLog pm)")
  case True
  then have gap: "pm_lastDropLog pm + 10 * 10 ^ 9 \<le> now" by (rule ten_seconds)
  have "t + 10 * 10 ^ 9 \<le> now" if "(t, n) \<in> set (pm_dropLogs pm)" for t n
    using assms gap that
    by (cases "pm_dropLogs pm") (fastforce simp: drop_log_inv_def)+
  with assms True show ?thesis
    by (auto simp: drop_log_inv_def recordDrop_def Let_def)
next
  case False
  with assms show ?thesis by (simp add: drop_log_inv_def recordDrop_def Let_def)
qed

lemma drop_log_inv_process [preserves]:
  "drop_log_inv pm \<Longrightarrow> drop_log_inv (snd (ProcessRawEvent now data pm))"
  by (auto simp: ProcessRawEvent_refines offer_def drop_log_inv_recordDrop split: sum.splits)
     (simp add: drop_log_inv_def)

lemma drop_log_inv_all [preserves]: "drop_log_inv pm \<Longrightarrow> drop_log_inv (process_all rs pm)"
  by (induction rs pm rule: process_all.induct) (auto simp: preserves)

end
