(* ===== verification/Agent.thy ===== *)
theory Agent
  imports ProbeManager
begin

text \<open>
  The agent process of \<^verbatim>\<open>src/src/agent/main.go\<close>: the event forwarder, which batches what it
  receives from the event channel and posts the batches, and the system in which it runs beside
  the probe manager and the resolver.  A post is an output of the model: \<^verbatim>\<open>sendBatch\<close> ignores the
  server's answer but for the log.
\<close>

section \<open>The forwarder\<close>

definition batchSize :: nat where "batchSize = 100"

record Forwarder =
  fw_batch :: "AgentEnrichedEvent list"
  fw_sent :: "AgentEnrichedEvent list list"

definition new_Forwarder :: Forwarder where
  "new_Forwarder = \<lparr>fw_batch = [], fw_sent = []\<rparr>"

text \<open>The three cases of the \<^verbatim>\<open>select\<close>.\<close>

datatype fw_input = CtxDone | Recv AgentEnrichedEvent | Tick

definition sendBatch :: "AgentEnrichedEvent list \<Rightarrow> Forwarder \<Rightarrow> Forwarder" where
  "sendBatch events fw = fw\<lparr>fw_sent := fw_sent fw @ [events]\<rparr>"

definition flush :: "Forwarder \<Rightarrow> Forwarder" where
  "flush fw = (sendBatch (fw_batch fw) fw)\<lparr>fw_batch := []\<rparr>"

text \<open>One iteration; the flag says that the function returned.\<close>

fun forward_step :: "fw_input \<Rightarrow> Forwarder \<Rightarrow> bool \<times> Forwarder" where
  "forward_step CtxDone fw = (True, if 0 < length (fw_batch fw) then flush fw else fw)"
| "forward_step (Recv evt) fw =
     (let fw' = fw\<lparr>fw_batch := fw_batch fw @ [evt]\<rparr>
      in (False, if batchSize \<le> length (fw_batch fw') then flush fw' else fw'))"
| "forward_step Tick fw = (False, if 0 < length (fw_batch fw) then flush fw else fw)"

fun forwardEvents :: "fw_input list \<Rightarrow> Forwarder \<Rightarrow> bool \<times> Forwarder" where
  "forwardEvents [] fw = (False, fw)"
| "forwardEvents (i # is) fw =
     (case forward_step i fw of (True, fw') \<Rightarrow> (True, fw') | (False, fw') \<Rightarrow> forwardEvents is fw')"

text \<open>What the forwarder has taken in: everything posted, then the open batch.\<close>

definition fw_content :: "Forwarder \<Rightarrow> AgentEnrichedEvent list" where
  "fw_content fw = concat (fw_sent fw) @ fw_batch fw"

fun received :: "fw_input list \<Rightarrow> AgentEnrichedEvent list" where
  "received [] = []"
| "received (CtxDone # is) = []"
| "received (Recv e # is) = e # received is"
| "received (Tick # is) = received is"

definition fw_inv :: "Forwarder \<Rightarrow> bool" where
  "fw_inv fw \<longleftrightarrow> length (fw_batch fw) < batchSize \<and>
     (\<forall>b \<in> set (fw_sent fw). 0 < length b \<and> length b \<le> batchSize)"

lemma fw_content_flush [simp]: "fw_content (flush fw) = fw_content fw"
  by (simp add: fw_content_def flush_def sendBatch_def)

lemma fw_content_step:
  "fw_content (snd (forward_step i fw)) =
     fw_content fw @ (case i of Recv e \<Rightarrow> [e] | _ \<Rightarrow> [])"
  by (cases i) (simp_all add: Let_def, simp add: fw_content_def)

lemma fw_inv_new [preserves]: "fw_inv new_Forwarder"
  by (simp add: fw_inv_def new_Forwarder_def batchSize_def)

lemma fw_inv_step [preserves]: "fw_inv fw \<Longrightarrow> fw_inv (snd (forward_step i fw))"
  by (cases i) (auto simp: fw_inv_def flush_def sendBatch_def batchSize_def Let_def)

lemma fw_step_done: "fst (forward_step i fw) \<longleftrightarrow> i = CtxDone"
  by (cases i) (simp_all add: Let_def)

lemma fw_done_empties: "fw_batch (snd (forward_step CtxDone fw)) = []"
  by (simp add: flush_def sendBatch_def)

lemma forwardEvents_inv [preserves]: "fw_inv fw \<Longrightarrow> fw_inv (snd (forwardEvents is fw))"
proof (induction "is" arbitrary: fw)
  case (Cons i "is")
  then have "fw_inv (snd (forward_step i fw))" by (intro fw_inv_step)
  with Cons.IH show ?case by (auto split: prod.splits bool.splits)
qed simp

lemma forwardEvents_content:
  "fw_content (snd (forwardEvents is fw)) = fw_content fw @ received is"
proof (induction "is" arbitrary: fw)
  case (Cons i "is")
  note step = fw_content_step [of i fw] and don = fw_step_done [of i fw]
  show ?case
    using step don Cons.IH by (cases i) (auto split: prod.splits bool.splits)
qed simp

lemma forwardEvents_done: "CtxDone \<in> set is \<Longrightarrow> fw_batch (snd (forwardEvents is fw)) = []"
proof (induction "is" arbitrary: fw)
  case (Cons i "is")
  note don = fw_step_done [of i fw] and emp = fw_done_empties [of fw]
  show ?case
    using don emp Cons by (cases i) (auto split: prod.splits bool.splits)
qed simp

section \<open>The agent as a system\<close>

text \<open>
  The goroutines of \<^verbatim>\<open>main\<close> move in any order: a raw record is handed to \<^verbatim>\<open>ProcessRawEvent\<close> (the
  loop of \<^verbatim>\<open>Start\<close> leaves the platform's ring-buffer read open, and \<open>raw\<close> stands for its call), the
  forwarder receives from the channel, its ticker fires, the resolver refreshes its
  cache, and the context is cancelled once.  \<open>sys_accepted\<close> is a history variable: every event that
  the channel accepted, in order.
\<close>

record AgentSys =
  sys_pm :: ProbeManager
  sys_fwd :: Forwarder
  sys_stopped :: bool
  sys_accepted :: "AgentEnrichedEvent list"

definition init_agent :: "string \<Rightarrow> string \<Rightarrow> Duration \<Rightarrow> Duration \<Rightarrow> AgentSys" where
  "init_agent nodeName kubeletURL pollInterval cgroupRefresh =
    \<lparr>sys_pm = NewProbeManager (NewCgroupResolver nodeName kubeletURL cgroupRefresh) 1024 pollInterval,
     sys_fwd = new_Forwarder, sys_stopped = False, sys_accepted = []\<rparr>"

inductive agent_step :: "AgentSys \<Rightarrow> AgentSys \<Rightarrow> bool" where
  raw: "snd (ProcessRawEvent now data (sys_pm s)) = pm' \<Longrightarrow>
    agent_step s (s\<lparr>sys_pm := pm',
      sys_accepted := sys_accepted s @ drop (length (pm_eventCh (sys_pm s))) (pm_eventCh pm')\<rparr>)"
| recv: "pm_eventCh (sys_pm s) = e # rest \<Longrightarrow> \<not> sys_stopped s \<Longrightarrow>
    agent_step s (s\<lparr>sys_pm := (sys_pm s)\<lparr>pm_eventCh := rest\<rparr>,
      sys_fwd := snd (forward_step (Recv e) (sys_fwd s))\<rparr>)"
| tick: "\<not> sys_stopped s \<Longrightarrow>
    agent_step s (s\<lparr>sys_fwd := snd (forward_step Tick (sys_fwd s))\<rparr>)"
| refresh: "agent_step s (s\<lparr>sys_pm := (sys_pm s)\<lparr>pm_resolver :=
      snd (CgroupResolver.refresh resp goos proc ino (pm_resolver (sys_pm s)))\<rparr>\<rparr>)"
| stop: "\<not> sys_stopped s \<Longrightarrow>
    agent_step s (s\<lparr>sys_fwd := snd (forward_step CtxDone (sys_fwd s)), sys_stopped := True\<rparr>)"

inductive_cases agent_step_cases: "agent_step s t"

inductive agent_reachable :: "AgentSys \<Rightarrow> AgentSys \<Rightarrow> bool" for s0 where
  start: "agent_reachable s0 s0"
| step: "agent_reachable s0 s \<Longrightarrow> agent_step s t \<Longrightarrow> agent_reachable s0 t"

definition agent_inv :: "string \<Rightarrow> AgentSys \<Rightarrow> bool" where
  "agent_inv node s \<longleftrightarrow>
     sys_accepted s = fw_content (sys_fwd s) @ pm_eventCh (sys_pm s) \<and>
     length (pm_eventCh (sys_pm s)) \<le> pm_chanCap (sys_pm s) \<and>
     fw_inv (sys_fwd s) \<and>
     (sys_stopped s \<longrightarrow> fw_batch (sys_fwd s) = []) \<and>
     cache_on_node (pm_resolver (sys_pm s)) \<and>
     cr_nodeName (pm_resolver (sys_pm s)) = node \<and>
     (\<forall>e \<in> set (sys_accepted s). ev_NodeName e = node \<and> is_i64 (ev_Timestamp e))"

lemma agent_inv_init: "agent_inv node (init_agent node url p r)"
  by (simp add: agent_inv_def init_agent_def NewProbeManager_def preserves fw_content_def
      new_Forwarder_def cache_on_node_new)
     (simp add: NewCgroupResolver_def preserves fw_inv_new [unfolded new_Forwarder_def])

lemma raw_meaning_on_node:
  "cache_on_node cr \<Longrightarrow> raw_meaning cr data = Inr e \<Longrightarrow> ev_NodeName e = cr_nodeName cr"
  by (auto simp: raw_meaning_def Resolver_Enrich_on_node dest: EnrichExtended_on_nodeD
      split: if_splits sum.splits prod.splits option.splits)

text \<open>A timestamp is the kernel's counter, read as a signed 64-bit number.\<close>

lemma is_i64_sint: "is_i64 (sint (w :: 64 word))"
  using sint_greater_eq [of w] sint_lt [of w] by (simp add: i64_defs)

lemma raw_meaning_i64: "raw_meaning cr data = Inr e \<Longrightarrow> is_i64 (ev_Timestamp e)"
  by (auto simp: raw_meaning_def Resolver_Enrich_def case_prod_beta is_i64_sint EnrichExtended_common(1)
      split: if_splits sum.splits option.splits)

lemma agent_inv_raw:
  assumes inv: "agent_inv node s" and pm': "snd (ProcessRawEvent now data (sys_pm s)) = pm'"
  shows "agent_inv node (s\<lparr>sys_pm := pm',
      sys_accepted := sys_accepted s @ drop (length (pm_eventCh (sys_pm s))) (pm_eventCh pm')\<rparr>)"
proof (cases "raw_meaning (pm_resolver (sys_pm s)) data")
  case (Inl err)
  with pm' have "pm' = sys_pm s" by (simp add: ProcessRawEvent_refines)
  with inv show ?thesis by (simp add: agent_inv_def)
next
  case (Inr e)
  with pm' have eq: "pm' = offer now e (sys_pm s)" by (simp add: ProcessRawEvent_refines)
  have "ev_NodeName e = node" "is_i64 (ev_Timestamp e)"
    using inv Inr raw_meaning_on_node raw_meaning_i64 by (auto simp: agent_inv_def)
  with inv eq show ?thesis by (auto simp: agent_inv_def)
qed

lemma agent_inv_step: "agent_step s t \<Longrightarrow> agent_inv node s \<Longrightarrow> agent_inv node t"
proof (induction rule: agent_step.induct)
  case (raw now data s pm')
  then show ?case by (intro agent_inv_raw)
next
  case (recv s e rest)
  then show ?case
    using fw_inv_step [of "sys_fwd s" "Recv e"] fw_content_step [of "Recv e" "sys_fwd s"]
    by (simp add: agent_inv_def del: forward_step.simps)
next
  case (tick s)
  then show ?case
    using fw_inv_step [of "sys_fwd s" Tick] fw_content_step [of Tick "sys_fwd s"]
    by (simp add: agent_inv_def del: forward_step.simps)
next
  case (refresh s resp goos proc ino)
  then show ?case by (simp add: agent_inv_def cache_on_node_refresh)
next
  case (stop s)
  then show ?case
    using fw_inv_step [of "sys_fwd s" CtxDone] fw_content_step [of CtxDone "sys_fwd s"]
      fw_done_empties [of "sys_fwd s"]
    by (simp add: agent_inv_def del: forward_step.simps)
qed

lemma agent_reachable_inv:
  "agent_reachable (init_agent node url p r) s \<Longrightarrow> agent_inv node s"
  by (induction rule: agent_reachable.induct) (auto intro: agent_inv_init agent_inv_step)

end
