(* ===== verification/AgentProperties.thy ===== *)
theory AgentProperties
  imports Agent
begin

text \<open>
  The properties of the agent: its wire formats against the C structs, the enrichment, the bounded
  event channel, the resolver's cache and the forwarder.  The sample values are the inputs at which
  the hypotheses of each property are shown to hold.
\<close>

section \<open>Sample values\<close>

definition kubelet_comm :: "byte list" where
  "kubelet_comm = [107, 117, 98, 101, 108, 101, 116] @ zeros 9"

definition sample_syscall :: KernelEvent where
  "sample_syscall =
    \<lparr>ke_Timestamp = 5000000000, ke_PID = 42, ke_PPID = 1, ke_TGID = 42, ke_CgroupID = 77,
     ke_Comm = kubelet_comm, ke_EventType = 0, ke_SyscallNr = 1, ke_RetVal = -1,
     ke_EntryTs = 1000000000, ke_ExitTs = 3500000000, ke_SlowSyscall = 1, ke_ChildPID = 0,
     ke_ExitCode = 0, ke_CriticalExit = 0, ke_SAddr = 0, ke_DAddr = 0, ke_SPort = 0, ke_DPort = 0,
     ke_NetEventType = 0, ke_RTTUs = 0\<rparr>"

definition sample_exit :: KernelEvent where
  "sample_exit = sample_syscall\<lparr>ke_EventType := 1, ke_ExitCode := 137, ke_CriticalExit := 1\<rparr>"

definition sample_rtt :: KernelEvent where
  "sample_rtt = sample_syscall\<lparr>ke_EventType := 2, ke_NetEventType := 2, ke_RTTUs := 600000\<rparr>"

definition sample_retransmit :: KernelEvent where
  "sample_retransmit = sample_syscall\<lparr>ke_EventType := 2, ke_NetEventType := 0, ke_RTTUs := 600000\<rparr>"

definition sample_audit :: NetworkAuditPayload where
  "sample_audit = \<lparr>aud_DstAddr = 0x0A000001, aud_DstPort = 443, aud_Protocol = 6\<rparr>"

definition sample_extended :: ExtendedEvent where
  "sample_extended =
    \<lparr>xe_Timestamp = 5000000000, xe_PID = 42, xe_PPID = 1, xe_TGID = 42, xe_CgroupID = 77,
     xe_Comm = kubelet_comm, xe_EventType = 7, xe_PayloadLen = 8,
     xe_Payload = NetworkAuditPayload_MarshalBinary sample_audit\<rparr>"

definition sample_pm :: ProbeManager where
  "sample_pm = NewProbeManager (NewCgroupResolver ''node-1'' '''' 0) 1 0"

lemma kubelet_comm_length: "length kubelet_comm = 16"
  by (simp add: kubelet_comm_def zeros_def)

lemma sample_wf:
  "wf_KernelEvent sample_syscall" "wf_KernelEvent sample_exit" "wf_KernelEvent sample_rtt"
  "wf_KernelEvent sample_retransmit" "wf_ExtendedEvent sample_extended" "len_ok sample_extended"
  by (simp_all add: wf_KernelEvent_def sample_syscall_def sample_exit_def sample_rtt_def
      sample_retransmit_def TaskCommLen_def wf_ExtendedEvent_def sample_extended_def
      kubelet_comm_length len_ok_def aud_defs wire)

section \<open>Wire formats\<close>

text \<open>C1: an encoded kernel event is 120 bytes long, the size the C struct has, and decodes to
  itself, whatever bytes the ring buffer left after it.\<close>

theorem kernel_event_wire_roundtrip:
  assumes "wf_KernelEvent e"
  shows "length (KernelEvent_MarshalBinary e) = c_sizeof c_kernel_event \<and>
    DecodeKernelEvent (KernelEvent_MarshalBinary e @ rest) = Inr e"
  using kernel_event_codec.roundtrip_trailing [OF assms]
  by (simp add: KernelEvent_length KernelEventSize_def c_kernel_event_size DecodeKernelEvent_def)

theorem kernel_event_wire_roundtrip_witness:
  "DecodeKernelEvent (KernelEvent_MarshalBinary sample_syscall @ [255, 255]) = Inr sample_syscall"
  using kernel_event_wire_roundtrip [OF sample_wf(1)] by blast

text \<open>The offsets at which the Go codec writes the fields are the offsets of the members of the
  C struct that the probes fill.\<close>

lemma kernel_event_layout:
  "map fst (KernelEvent_writes e) = c_offsets 0 c_kernel_event"
  by (simp add: KernelEvent_writes_def c_kernel_event_offsets)

text \<open>A record is decoded exactly when it is at least 120 bytes long; a shorter one gives the
  buffer error with both sizes, and never a partial event.\<close>

lemma kernel_event_decode_total:
  "DecodeKernelEvent bs =
     (if length bs < 120 then Inl (BufferTooSmall (length bs) 120)
      else Inr (KernelEvent_read (take 120 bs)))"
proof (cases "length bs < 120")
  case False
  have "KernelEvent_read (take 120 bs @ drop 120 bs) = KernelEvent_read (take 120 bs)"
    using False by (intro KernelEvent_read_append) (simp add: KernelEventSize_def)
  with False show ?thesis
    by (simp add: DecodeKernelEvent_def KernelEvent_UnmarshalBinary_def KernelEventSize_def)
qed (simp add: DecodeKernelEvent_def KernelEvent_UnmarshalBinary_def KernelEventSize_def)

text \<open>C26: the decoder of an extended event takes the declared length at its word: an encoding with
  trailing bytes decodes to itself when the length is the payload's, to the shorter payload when it
  is less, and is rejected with both sizes when it is more than what was written.\<close>

theorem extended_event_roundtrip:
  assumes "wf_ExtendedEvent e"
  shows "ExtendedEvent_UnmarshalBinary (ExtendedEvent_MarshalBinary e) =
      (if length (xe_Payload e) < unat (xe_PayloadLen e)
       then Inl (BufferTooSmallForPayload (52 + length (xe_Payload e)) (52 + unat (xe_PayloadLen e)))
       else Inr (e\<lparr>xe_Payload := take (unat (xe_PayloadLen e)) (xe_Payload e)\<rparr>)) \<and>
    (len_ok e \<longrightarrow>
      ExtendedEvent_UnmarshalBinary (ExtendedEvent_MarshalBinary e @ rest) = Inr e)"
  using ExtendedEvent_declared [OF assms] ExtendedEvent_trailing [OF ExtendedEvent_roundtrip [OF assms]]
  by blast

theorem extended_event_roundtrip_witness:
  "ExtendedEvent_UnmarshalBinary (ExtendedEvent_MarshalBinary sample_extended @ [9]) = Inr sample_extended"
  using extended_event_roundtrip [OF sample_wf(5)] sample_wf(6) by blast

text \<open>C27: each of the five payload records decodes to itself, with any padding after it, and its
  fields lie at the offsets of the members of the C struct.\<close>

theorem payload_roundtrips:
  assumes "wf_VFSPayload v" and "wf_OOMPayload o'" and "wf_DNSPayload d"
    and "wf_CgroupResourcePayload c" and "wf_NetworkAuditPayload a"
  shows "VFSPayload_UnmarshalBinary (VFSPayload_MarshalBinary v @ rest) = Inr v \<and>
    OOMPayload_UnmarshalBinary (OOMPayload_MarshalBinary o' @ rest) = Inr o' \<and>
    DNSPayload_UnmarshalBinary (DNSPayload_MarshalBinary d @ rest) = Inr d \<and>
    CgroupResourcePayload_UnmarshalBinary (CgroupResourcePayload_MarshalBinary c @ rest) = Inr c \<and>
    NetworkAuditPayload_UnmarshalBinary (NetworkAuditPayload_MarshalBinary a @ rest) = Inr a \<and>
    map fst (VFSPayload_writes v) = c_offsets 0 c_vfs_payload \<and>
    map fst (OOMPayload_writes o') = c_offsets 0 c_oom_payload \<and>
    map fst (DNSPayload_writes d) = c_offsets 0 c_dns_payload \<and>
    map fst (CgroupResourcePayload_writes c) = c_offsets 0 c_cgroup_resource_payload \<and>
    map fst (NetworkAuditPayload_writes a) = c_offsets 0 c_network_audit_payload"
  using assms
  by (simp add: vfs_codec.roundtrip_trailing oom_codec.roundtrip_trailing
      dns_codec.roundtrip_trailing cgroup_codec.roundtrip_trailing audit_codec.roundtrip_trailing
      c_payload_offsets)

definition sample_vfs :: VFSPayload where
  "sample_vfs = \<lparr>vfs_FilePath = zeros 256, vfs_LatencyNs = 7, vfs_BytesXfer = 8, vfs_SlowIO = 1,
     vfs_OpType = 0\<rparr>"

definition sample_oom :: OOMPayload where
  "sample_oom = \<lparr>oom_SubType = 0, oom_KilledPID = 9, oom_KilledComm = kubelet_comm,
     oom_OOMScoreAdj = 1, oom_PageOrder = 0, oom_GFPFlags = 0\<rparr>"

definition sample_dns :: DNSPayload where
  "sample_dns = \<lparr>dns_Domain = zeros 253, dns_LatencyNs = 5, dns_ResponseCode = 0, dns_TimedOut = 1\<rparr>"

definition sample_cgroup :: CgroupResourcePayload where
  "sample_cgroup = \<lparr>cgr_CPUUsageNs = 1, cgr_MemoryUsageBytes = 2, cgr_MemoryLimitBytes = 3,
     cgr_MemoryPressure = 1\<rparr>"

lemma sample_payloads_wf:
  "wf_VFSPayload sample_vfs" "wf_OOMPayload sample_oom" "wf_DNSPayload sample_dns"
  "wf_CgroupResourcePayload sample_cgroup" "wf_NetworkAuditPayload sample_audit"
  by (simp_all add: wf_VFSPayload_def sample_vfs_def wf_OOMPayload_def sample_oom_def TaskCommLen_def
      kubelet_comm_length wf_DNSPayload_def sample_dns_def wf_CgroupResourcePayload_def
      wf_NetworkAuditPayload_def zeros_def)

theorem payload_roundtrips_witness:
  "DNSPayload_UnmarshalBinary (DNSPayload_MarshalBinary sample_dns @ [0, 0, 0, 0]) = Inr sample_dns"
  using payload_roundtrips [OF sample_payloads_wf] by blast

section \<open>From a raw record to the event channel\<close>

lemma kernel_raw_byte:
  assumes "wf_KernelEvent e"
  shows "(KernelEvent_MarshalBinary e @ rest) ! 48 = ke_EventType e"
  using KernelEvent_type_byte [OF assms] by (simp add: nth_append KernelEvent_length KernelEventSize_def)

lemma raw_meaning_kernel:
  assumes "wf_KernelEvent e" and "ke_EventType e \<le> 2"
  shows "raw_meaning cr (KernelEvent_MarshalBinary e @ rest) = Inr (Resolver_Enrich cr e)"
  using assms kernel_event_codec.roundtrip_trailing [OF assms(1)]
  by (simp add: raw_meaning_def kernel_raw_byte KernelEvent_length KernelEventSize_def)



text \<open>
  What an event must say of its cgroup: the pod that the cache holds for it, or that it is of the host; and what
  becomes of it: it is the last of the channel, or, if that is full, one more event is counted as dropped.
\<close>

definition carries_identity :: "CgroupResolver \<Rightarrow> 64 word \<Rightarrow> AgentEnrichedEvent \<Rightarrow> bool" where
  "carries_identity cr cg ev \<longleftrightarrow> ev_CgroupID ev = cg \<and>
     (case Mapping.lookup (cr_cache cr) cg of
        None \<Rightarrow> ev_HostLevel ev \<and> ev_NodeName ev = cr_nodeName cr \<and>
          ev_PodName ev = '''' \<and> ev_Namespace ev = '''' \<and> ev_ContainerName ev = ''''
      | Some pod \<Rightarrow> \<not> ev_HostLevel ev \<and> ev_NodeName ev = pi_NodeName pod \<and>
          ev_PodName ev = pi_PodName pod \<and> ev_Namespace ev = pi_Namespace pod \<and> ev_ContainerName ev = pi_ContainerName pod)"

definition sent_or_dropped :: "ProbeManager \<Rightarrow> AgentEnrichedEvent \<Rightarrow> ProbeManager \<Rightarrow> bool" where
  "sent_or_dropped pm ev pm' \<longleftrightarrow> pm_resolver pm' = pm_resolver pm \<and> pm_chanCap pm' = pm_chanCap pm \<and>
     (if length (pm_eventCh pm) < pm_chanCap pm
      then pm_eventCh pm' = pm_eventCh pm @ [ev] \<and> DroppedEvents pm' = DroppedEvents pm
      else pm_eventCh pm' = pm_eventCh pm \<and> DroppedEvents pm' = DroppedEvents pm + 1)"

lemma offer_sent_or_dropped: "sent_or_dropped pm ev (offer now ev pm)"
  by (simp add: sent_or_dropped_def DroppedEvents_def)

lemma kernel_identity: "carries_identity cr (ke_CgroupID e) (Resolver_Enrich cr e)"
  by (simp add: carries_identity_def Resolver_Enrich_def Resolve_def split_beta split: option.split)

text \<open>The fields that a kernel event keeps, those of its own type included.\<close>

definition carries_kernel_fields :: "KernelEvent \<Rightarrow> AgentEnrichedEvent \<Rightarrow> bool" where
  "carries_kernel_fields e ev \<longleftrightarrow>
     ev_Timestamp ev = sint (ke_Timestamp e) \<and> ev_PID ev = ke_PID e \<and> ev_PPID ev = ke_PPID e \<and>
     ev_TGID ev = ke_TGID e \<and> ev_Comm ev = trimNullString (ke_Comm e) \<and>
     (ke_EventType e = 0 \<longrightarrow> ev_EventType ev = ''syscall'' \<and> ev_SyscallNr ev = ke_SyscallNr e \<and>
        ev_ReturnValue ev = ke_RetVal e \<and> unat (ev_LatencyNs ev) = unat (ke_ExitTs e) - unat (ke_EntryTs e) \<and>
        (ev_SlowSyscall ev \<longleftrightarrow> ke_SlowSyscall e = 1)) \<and>
     (ke_EventType e = 1 \<longrightarrow> ev_EventType ev = ''process'' \<and> ev_ChildPID ev = ke_ChildPID e \<and>
        ev_ExitCode ev = ke_ExitCode e \<and> (ev_CriticalExit ev \<longleftrightarrow> ke_CriticalExit e = 1)) \<and>
     (ke_EventType e = 2 \<longrightarrow> ev_EventType ev = ''network'' \<and> ev_SrcAddr ev = IPv4String (ke_SAddr e) \<and>
        ev_DstAddr ev = IPv4String (ke_DAddr e) \<and> ev_SrcPort ev = ke_SPort e \<and> ev_DstPort ev = ke_DPort e \<and>
        ev_RTTUs ev = ke_RTTUs e \<and>
        (ke_NetEventType e = 0 \<longrightarrow> ev_NetEventType ev = ''retransmit'') \<and>
        (ke_NetEventType e = 1 \<longrightarrow> ev_NetEventType ev = ''reset'') \<and>
        (ke_NetEventType e = 2 \<longrightarrow> ev_NetEventType ev = ''rtt_high''))"

lemma Enrich_latency_0: "ke_EventType e = 0 \<Longrightarrow> unat (ev_LatencyNs (KernelEvent_Enrich e pod h)) = unat (ke_ExitTs e) - unat (ke_EntryTs e)"
  by (rule Enrich_latency) (simp add: event_type_defs)

lemma kernel_fields: "carries_kernel_fields e (Resolver_Enrich cr e)"
proof -
  have "carries_kernel_fields e (KernelEvent_Enrich e pod h)" for pod h
    unfolding carries_kernel_fields_def using Enrich_latency_0 [of e pod h]
    by (simp add: KernelEvent_CommString_def KernelEvent_EventTypeString_def event_type_defs)
      (simp add: KernelEvent_Enrich_def event_type_defs NetEventTypeString_def net_event_defs Let_def)
  then show ?thesis by (simp add: Resolver_Enrich_def split_beta)
qed

text \<open>C23: a syscall, process or network event that a probe writes is decoded, without an error, to an event
  with the probe's values: time, process, parent, thread group, command, and the fields of its type.  It names the pod,
  namespace and container that the cache holds for its cgroup, or is of the host when it holds none.  The event is appended
  to the channel when there is room; when there is none the channel stays as it was and one more event is counted as
  dropped.\<close>

theorem kernel_event_delivery:
  assumes "wf_KernelEvent e" and "ke_EventType e \<le> 2"
  shows "\<exists>ev pm'. ProcessRawEvent now (KernelEvent_MarshalBinary e @ rest) pm = (None, pm') \<and>
    carries_kernel_fields e ev \<and> carries_identity (pm_resolver pm) (ke_CgroupID e) ev \<and> sent_or_dropped pm ev pm'"
  using offer_sent_or_dropped kernel_fields kernel_identity
  by (intro exI [of _ "Resolver_Enrich (pm_resolver pm) e"] exI [of _ "offer now (Resolver_Enrich (pm_resolver pm) e) pm"])
    (simp add: ProcessRawEvent_refines raw_meaning_kernel [OF assms])

theorem kernel_event_delivery_witness:
  "\<exists>ev. pm_eventCh (snd (ProcessRawEvent 0 (KernelEvent_MarshalBinary sample_exit @ [1]) sample_pm)) = [ev] \<and>
     ev_ExitCode ev = 137 \<and> ev_HostLevel ev \<and> ev_NodeName ev = ''node-1''"
proof -
  have t: "ke_EventType sample_exit \<le> 2" "ke_EventType sample_exit = 1" "ke_ExitCode sample_exit = 137"
    by (simp_all add: sample_exit_def)
  have pm: "pm_eventCh sample_pm = []" "pm_chanCap sample_pm = 1"
    "cr_nodeName (pm_resolver sample_pm) = ''node-1''"
    "Mapping.lookup (cr_cache (pm_resolver sample_pm)) k = None" for k
    by (simp_all add: sample_pm_def NewProbeManager_def NewCgroupResolver_def lookup_empty)
  from kernel_event_delivery [OF sample_wf(2) t(1), of 0 "[1]" sample_pm] show ?thesis
    by (auto simp: carries_kernel_fields_def carries_identity_def sent_or_dropped_def pm t(2,3))
qed







text \<open>A kernel event whose flags pass the validation means what the enriched event says: slow
  exactly above one second of latency, critical exactly for a kubelet that exits with a code other
  than zero, a high round trip exactly above 500 ms.\<close>

lemma validated_flags_meaning:
  assumes "ValidateFlags e"
  shows "(ke_EventType e = EventTypeSyscall \<longrightarrow>
      (ev_SlowSyscall (KernelEvent_Enrich e pod h) \<longleftrightarrow>
        10 ^ 9 < unat (ke_ExitTs e) - unat (ke_EntryTs e))) \<and>
    (ke_EventType e = EventTypeProcess \<longrightarrow>
      (ev_CriticalExit (KernelEvent_Enrich e pod h) \<longleftrightarrow>
        ev_Comm (KernelEvent_Enrich e pod h) = ''kubelet'' \<and>
        sint (ev_ExitCode (KernelEvent_Enrich e pod h)) \<noteq> 0)) \<and>
    (ke_EventType e = EventTypeNetwork \<longrightarrow>
      (ev_NetEventType (KernelEvent_Enrich e pod h) = ''rtt_high'' \<longleftrightarrow>
        500000 < unat (ev_RTTUs (KernelEvent_Enrich e pod h))))"
  using ValidateFlags_enriched [OF assms] Enrich_latency by simp_all

lemma validated_flags_meaning_witness:
  "ev_SlowSyscall (KernelEvent_Enrich sample_syscall
     \<lparr>pi_PodName = ''p'', pi_Namespace = ''n'', pi_ContainerName = ''c'', pi_NodeName = ''node-1''\<rparr> False)"
proof -
  have v: "ValidateFlags sample_syscall"
    by (simp add: ValidateFlags_def sample_syscall_def event_type_defs Let_def SlowSyscallNs_def)
  have t: "ke_EventType sample_syscall = EventTypeSyscall"
    by (simp add: sample_syscall_def event_type_defs)
  have "10 ^ 9 < unat (ke_ExitTs sample_syscall) - unat (ke_EntryTs sample_syscall)"
    by (simp add: sample_syscall_def)
  with validated_flags_meaning [OF v] t show ?thesis by blast
qed

text \<open>The validation rejects every retransmission whose round trip is above 500 ms, although its
  event type is right: a network event passes only when it is labelled as a high round trip.\<close>

lemma slow_retransmit_rejected:
  assumes "ke_EventType e = EventTypeNetwork" and "ke_NetEventType e = NetEventRetransmit"
  shows "ValidateFlags e \<longleftrightarrow> unat (ke_RTTUs e) \<le> 500000"
  using assms
  by (simp add: ValidateFlags_def Let_def event_type_defs net_event_defs RTTHighUs_def
      word_less_nat_alt not_less)

lemma slow_retransmit_rejected_witness: "\<not> ValidateFlags sample_retransmit"
  using slow_retransmit_rejected [of sample_retransmit]
  by (simp add: sample_retransmit_def event_type_defs net_event_defs)

section \<open>The bounded channel\<close>

text \<open>C25: over any sequence of raw records the channel holds the meanings of the decodable ones, in
  order, up to its capacity, and the counter has grown by exactly those that found no room.\<close>

theorem bounded_channel:
  assumes "length (pm_eventCh pm) \<le> pm_chanCap pm"
  shows "pm_eventCh (process_all rs pm) =
      pm_eventCh pm @ take (pm_chanCap pm - length (pm_eventCh pm)) (meanings (pm_resolver pm) rs) \<and>
    DroppedEvents (process_all rs pm) = DroppedEvents pm +
      of_nat (length (meanings (pm_resolver pm) rs) - (pm_chanCap pm - length (pm_eventCh pm)))"
  using process_all_chan [OF assms] process_all_dropped [OF assms] by (simp add: DroppedEvents_def)

theorem bounded_channel_witness:
  "DroppedEvents (process_all
     (replicate 3 (0, KernelEvent_MarshalBinary sample_exit @ [])) sample_pm) = 2"
proof -
  have t: "ke_EventType sample_exit \<le> 2" by (simp add: sample_exit_def)
  have len: "length (pm_eventCh sample_pm) \<le> pm_chanCap sample_pm"
    by (simp add: sample_pm_def NewProbeManager_def)
  have "length (meanings (pm_resolver sample_pm)
      (replicate 3 (0, KernelEvent_MarshalBinary sample_exit @ []))) = 3"
    using raw_meaning_kernel [OF sample_wf(2) t, of _ "[]"] by (simp add: numeral_3_eq_3)
  with bounded_channel [OF len] show ?thesis
    by (simp add: sample_pm_def NewProbeManager_def DroppedEvents_def)
qed

text \<open>However many events are dropped, two drop messages are at least ten seconds apart.\<close>

lemma drop_messages_rate_limited:
  "sorted_wrt (\<lambda>(t, _) (t', _). t' + 10 * 10 ^ 9 \<le> t)
     (pm_dropLogs (process_all rs (NewProbeManager cr cap poll)))"
  using drop_log_inv_all [OF drop_log_inv_new] by (simp add: drop_log_inv_def)

section \<open>The cgroup resolver\<close>

text \<open>A container that the kubelet's answer lists, with the part of its ID after the scheme; and a process of a cgroup.\<close>

definition listed :: "string \<Rightarrow> kubeletPod list \<Rightarrow> PodIdentity \<Rightarrow> string \<Rightarrow> bool" where
  "listed node pods pod idSuffix \<longleftrightarrow> (\<exists>p \<in> set pods. \<exists>cs \<in> set (kp_ContainerStatuses p). \<exists>scheme.
     cut ''://'' (kc_ContainerID cs) = Some (scheme, idSuffix) \<and> idSuffix \<noteq> '''' \<and>
     pod = \<lparr>pi_PodName = kp_Name p, pi_Namespace = kp_Namespace p, pi_ContainerName = kc_Name cs, pi_NodeName = node\<rparr>)"

definition process_in :: "(string \<Rightarrow> 64 word option) \<Rightarrow> proc_entry \<Rightarrow> string \<Rightarrow> 64 word \<Rightarrow> bool" where
  "process_in ino entry path k \<longleftrightarrow> pe_IsDir entry \<and> atoi (pe_Name entry) \<noteq> None \<and>
     readProcCgroup (pe_Cgroup entry) = Some path \<and> ino (cgroupFSPath path) = Some k"

lemma contains_sublist: "contains s sub \<longleftrightarrow> sublist sub s"
  by (auto simp: contains_def list_ex_iff sublist_altdef')

lemma in_map_filter: "y \<in> set (List.map_filter f xs) \<longleftrightarrow> (\<exists>x \<in> set xs. f x = Some y)"
  by (induction xs) (auto simp: map_filter_simps split: option.splits)

lemma containers_listed: "(pod, idSuffix) \<in> set (containers_of node pods) \<longleftrightarrow> listed node pods pod idSuffix"
proof -
  have one: "(case cut ''://'' (kc_ContainerID cs) of None \<Rightarrow> None
      | Some (scheme, i) \<Rightarrow> if i = [] then None else Some (f, i)) = Some (pod, idSuffix) \<longleftrightarrow>
      (\<exists>scheme. cut ''://'' (kc_ContainerID cs) = Some (scheme, idSuffix) \<and> idSuffix \<noteq> [] \<and> pod = f)" for cs f
    by (auto split: option.splits if_splits)
  show ?thesis unfolding containers_of_def listed_def set_concat set_map by (simp add: in_map_filter one)
qed

lemma containers_empty: "containers_of node pods = [] \<longleftrightarrow> (\<nexists>pod idSuffix. listed node pods pod idSuffix)"
proof
  assume "\<nexists>pod idSuffix. listed node pods pod idSuffix"
  then have "x \<notin> set (containers_of node pods)" for x using containers_listed by (cases x) blast
  then show "containers_of node pods = []" by (meson last_in_set)
qed (simp flip: containers_listed)

lemma entry_match_dom:
  "(\<exists>pod. entry_match ino (containers_of node pods) entry = Some (k, pod)) \<longleftrightarrow>
     (\<exists>path. process_in ino entry path k \<and> (\<exists>pod idSuffix. listed node pods pod idSuffix \<and> sublist idSuffix path))"
proof -
  have m: "(\<exists>pod. match_container ino path (containers_of node pods) = Some (k, pod)) \<longleftrightarrow>
      ino (cgroupFSPath path) = Some k \<and> (\<exists>pod idSuffix. listed node pods pod idSuffix \<and> sublist idSuffix path)" for path
    by (simp add: match_container_dom Bex_def split_paired_Ex containers_listed contains_sublist)
  have "(\<exists>pod. entry_match ino (containers_of node pods) entry = Some (k, pod)) \<longleftrightarrow>
      pe_IsDir entry \<and> atoi (pe_Name entry) \<noteq> None \<and>
      (\<exists>path. readProcCgroup (pe_Cgroup entry) = Some path \<and> (\<exists>pod. match_container ino path (containers_of node pods) = Some (k, pod)))"
    by (auto simp: entry_match_def bind_eq_Some_conv)
  then show ?thesis unfolding m process_in_def by blast
qed

lemma entry_match_listed:
  "entry_match ino (containers_of node pods) entry = Some (k, pod) \<Longrightarrow>
     \<exists>path idSuffix. process_in ino entry path k \<and> listed node pods pod idSuffix \<and> sublist idSuffix path"
  by (auto simp: entry_match_def bind_eq_Some_conv process_in_def contains_sublist containers_listed
      dest!: match_container_SomeD split: if_splits)

lemma refresh_cases:
  "refresh resp goos proc ino cr = (err, cr') \<longleftrightarrow>
     (if cr_kubeletURL cr = '''' then err = None \<and> cr' = cr
      else case resp of RequestFailed \<Rightarrow> err = Some KubeletRequest \<and> cr' = cr
      | Response status body \<Rightarrow>
          if status \<noteq> 200 then err = Some (KubeletStatus status) \<and> cr' = cr
          else case body of None \<Rightarrow> err = Some KubeletDecode \<and> cr' = cr
          | Some pods \<Rightarrow>
              if goos \<noteq> ''linux'' \<or> containers_of (cr_nodeName cr) pods = [] then err = None \<and> cr' = cr
              else case proc of None \<Rightarrow> err = Some ReadProc \<and> cr' = cr
              | Some entries \<Rightarrow> err = None \<and>
                  cr' = cr\<lparr>cr_cache := fold (scan_entry ino (containers_of (cr_nodeName cr) pods)) entries Mapping.empty\<rparr>)"
  by (auto simp: refresh_def Let_def split: kubelet_response.splits option.splits)

text \<open>C28: a refresh rebuilds the cache exactly when there is a kubelet to ask, it answers with pods that name at
  least one container, the system is Linux and \<^verbatim>\<open>/proc\<close> can be read; in every other case, with an error or without one,
  the resolver stays as it was.  A rebuilt cache maps a cgroup exactly when some process directory of \<^verbatim>\<open>/proc\<close> lies in it whose path
  contains the ID of a listed container, and then to the pod, namespace and container name of such a container.  An error
  is reported exactly when the request fails, its answer cannot be used, or \<^verbatim>\<open>/proc\<close> was needed and cannot be read.\<close>

theorem refresh_attribution:
  assumes "refresh resp goos proc ino cr = (err, cr')"
  shows "(\<forall>pods entries. cr_kubeletURL cr \<noteq> '''' \<and> resp = Response 200 (Some pods) \<and> goos = ''linux'' \<and>
        (\<exists>pod idSuffix. listed (cr_nodeName cr) pods pod idSuffix) \<and> proc = Some entries \<longrightarrow>
      cr' = cr\<lparr>cr_cache := cr_cache cr'\<rparr> \<and>
      (\<forall>k. (\<exists>pod. Mapping.lookup (cr_cache cr') k = Some pod) \<longleftrightarrow>
         (\<exists>entry \<in> set entries. \<exists>path. process_in ino entry path k \<and>
            (\<exists>pod idSuffix. listed (cr_nodeName cr) pods pod idSuffix \<and> sublist idSuffix path))) \<and>
      (\<forall>k pod. Mapping.lookup (cr_cache cr') k = Some pod \<longrightarrow>
         (\<exists>entry \<in> set entries. \<exists>path idSuffix. process_in ino entry path k \<and>
            listed (cr_nodeName cr) pods pod idSuffix \<and> sublist idSuffix path))) \<and>
    ((\<nexists>pods entries. cr_kubeletURL cr \<noteq> '''' \<and> resp = Response 200 (Some pods) \<and> goos = ''linux'' \<and>
        (\<exists>pod idSuffix. listed (cr_nodeName cr) pods pod idSuffix) \<and> proc = Some entries) \<longrightarrow> cr' = cr) \<and>
    (err = None \<longleftrightarrow> cr_kubeletURL cr = '''' \<or> (\<exists>pods. resp = Response 200 (Some pods) \<and>
       (goos = ''linux'' \<and> (\<exists>pod idSuffix. listed (cr_nodeName cr) pods pod idSuffix) \<longrightarrow> proc \<noteq> None)))"
proof (intro conjI allI impI)
  fix pods entries
  assume h: "cr_kubeletURL cr \<noteq> '''' \<and> resp = Response 200 (Some pods) \<and> goos = ''linux'' \<and>
    (\<exists>pod idSuffix. listed (cr_nodeName cr) pods pod idSuffix) \<and> proc = Some entries"
  then have c: "cr' = cr\<lparr>cr_cache := fold (scan_entry ino (containers_of (cr_nodeName cr) pods)) entries Mapping.empty\<rparr>"
    using assms by (simp add: refresh_cases containers_empty)
  then show "cr' = cr\<lparr>cr_cache := cr_cache cr'\<rparr>" by simp
  show "(\<exists>pod. Mapping.lookup (cr_cache cr') k = Some pod) \<longleftrightarrow>
      (\<exists>entry \<in> set entries. \<exists>path. process_in ino entry path k \<and>
         (\<exists>pod idSuffix. listed (cr_nodeName cr) pods pod idSuffix \<and> sublist idSuffix path))" for k
    by (simp add: c fold_scan_dom entry_match_dom lookup_empty)
  show "\<exists>entry \<in> set entries. \<exists>path idSuffix. process_in ino entry path k \<and>
      listed (cr_nodeName cr) pods pod idSuffix \<and> sublist idSuffix path"
    if "Mapping.lookup (cr_cache cr') k = Some pod" for k pod
    using that fold_scan_sound [of ino _ entries Mapping.empty k pod] entry_match_listed
    by (fastforce simp: c lookup_empty)
next
  assume "\<nexists>pods entries. cr_kubeletURL cr \<noteq> '''' \<and> resp = Response 200 (Some pods) \<and> goos = ''linux'' \<and>
    (\<exists>pod idSuffix. listed (cr_nodeName cr) pods pod idSuffix) \<and> proc = Some entries"
  then show "cr' = cr"
    using assms by (auto simp: refresh_cases containers_empty split: kubelet_response.splits option.splits if_splits)
next
  show "err = None \<longleftrightarrow> cr_kubeletURL cr = '''' \<or> (\<exists>pods. resp = Response 200 (Some pods) \<and>
      (goos = ''linux'' \<and> (\<exists>pod idSuffix. listed (cr_nodeName cr) pods pod idSuffix) \<longrightarrow> proc \<noteq> None))"
    using assms by (auto simp: refresh_cases containers_empty split: kubelet_response.splits option.splits if_splits)
qed

definition sample_pod :: kubeletPod where
  "sample_pod = \<lparr>kp_Name = ''web'', kp_Namespace = ''prod'', kp_UID = ''u'',
     kp_ContainerStatuses = [\<lparr>kc_Name = ''c'', kc_ContainerID = ''containerd://abc''\<rparr>]\<rparr>"

definition sample_proc :: proc_entry where
  "sample_proc = \<lparr>pe_Name = ''42'', pe_IsDir = True, pe_Cgroup = Some [''0::/kubepods/abc'']\<rparr>"

definition sample_cr :: CgroupResolver where
  "sample_cr = NewCgroupResolver ''node-1'' ''http://k'' 0"

definition sample_ino :: "string \<Rightarrow> 64 word option" where
  "sample_ino path = (if path = ''/sys/fs/cgroup/kubepods/abc'' then Some 77 else None)"

lemma sample_containers:
  "containers_of (cr_nodeName sample_cr) [sample_pod] =
     [(\<lparr>pi_PodName = ''web'', pi_Namespace = ''prod'', pi_ContainerName = ''c'',
        pi_NodeName = ''node-1''\<rparr>, ''abc'')]"
  by code_simp

lemma sample_path:
  "readProcCgroup (pe_Cgroup sample_proc) = Some ''/kubepods/abc''"
  "sample_ino (cgroupFSPath ''/kubepods/abc'') = Some 77"
  "contains ''/kubepods/abc'' ''abc''" "atoi (pe_Name sample_proc) = Some 42" "pe_IsDir sample_proc"
  by code_simp+

theorem refresh_attribution_witness:
  "\<exists>pod. Mapping.lookup (cr_cache (snd (refresh (Response 200 (Some [sample_pod])) ''linux''
     (Some [sample_proc]) sample_ino sample_cr))) 77 = Some pod \<and> pi_PodName pod = ''web''"
proof -
  let ?r = "refresh (Response 200 (Some [sample_pod])) ''linux'' (Some [sample_proc]) sample_ino sample_cr"
  have url: "cr_kubeletURL sample_cr \<noteq> ''''" by (simp add: sample_cr_def NewCgroupResolver_def)
  have l: "listed (cr_nodeName sample_cr) [sample_pod] pod idSuffix \<longleftrightarrow>
      pod = \<lparr>pi_PodName = ''web'', pi_Namespace = ''prod'', pi_ContainerName = ''c'', pi_NodeName = ''node-1''\<rparr> \<and>
      idSuffix = ''abc''" for pod idSuffix
    unfolding containers_listed [symmetric] sample_containers by auto
  have p: "process_in sample_ino sample_proc ''/kubepods/abc'' 77" "sublist ''abc'' ''/kubepods/abc''"
    using sample_path by (simp_all add: process_in_def flip: contains_sublist)
  have run: "?r = (fst ?r, snd ?r)" by simp
  show ?thesis using refresh_attribution [OF run] url l p by fastforce
qed

text \<open>Every failed refresh keeps the cache, and an entry that a refresh did not produce is never
  invented: a refreshed entry names a container listed by the kubelet on this node.\<close>

lemma refresh_keeps_or_rebuilds:
  assumes "refresh resp goos proc ino cr = (r, cr')"
  shows "(r \<noteq> None \<longrightarrow> cr' = cr) \<and>
    (cr' = cr \<or> (\<exists>pods. resp = Response 200 (Some pods) \<and>
       (\<forall>k pod. Mapping.lookup (cr_cache cr') k = Some pod \<longrightarrow>
          (\<exists>idSuffix. (pod, idSuffix) \<in> set (containers_of (cr_nodeName cr) pods)))))"
proof -
  have keep: "r \<noteq> None \<longrightarrow> cr' = cr"
    using refresh_error_keeps [of resp goos proc ino cr] assms by auto
  have cache: "\<exists>idSuffix. (pod, idSuffix) \<in> set cs"
    if "Mapping.lookup (fold (scan_entry ino cs) es Mapping.empty) k = Some pod" for cs es k pod
    using fold_scan_sound [OF that]
    by (auto simp: lookup_empty entry_match_def bind_eq_Some_conv split: if_splits
        dest!: match_container_SomeD)
  show ?thesis
    using assms keep cache
    by (auto simp: refresh_def Let_def split: if_splits kubelet_response.splits option.splits)
qed

lemma refresh_keeps_or_rebuilds_witness:
  "snd (refresh RequestFailed ''linux'' None sample_ino sample_cr) = sample_cr"
proof -
  have "refresh RequestFailed ''linux'' None sample_ino sample_cr = (Some KubeletRequest, sample_cr)"
    by (simp add: refresh_def sample_cr_def NewCgroupResolver_def)
  from refresh_keeps_or_rebuilds [OF this] this show ?thesis by simp
qed

section \<open>The forwarder and the agent\<close>

text \<open>No event that the forwarder received is lost, duplicated or reordered, whatever the
  interleaving of receives and ticks: batches hold between one and a hundred events, their
  concatenation with the open batch is what was received, and nothing stays open after the context is
  cancelled.\<close>

lemma forwarder_conserves:
  "concat (fw_sent (snd (forwardEvents is new_Forwarder))) @
      fw_batch (snd (forwardEvents is new_Forwarder)) = received is \<and>
   (\<forall>b \<in> set (fw_sent (snd (forwardEvents is new_Forwarder))). 1 \<le> length b \<and> length b \<le> 100) \<and>
   (CtxDone \<in> set is \<longrightarrow> fw_batch (snd (forwardEvents is new_Forwarder)) = [])"
  using forwardEvents_content [of "is" new_Forwarder] forwardEvents_inv [OF fw_inv_new]
    forwardEvents_done [of "is" new_Forwarder]
  by (auto simp: fw_content_def fw_inv_def batchSize_def new_Forwarder_def Suc_le_eq)

definition sample_enriched :: AgentEnrichedEvent where
  "sample_enriched = zero_EnrichedEvent\<lparr>ev_EventType := ''network_audit'', ev_NodeName := ''node-1''\<rparr>"

lemma forwarder_conserves_witness:
  "concat (fw_sent (snd (forwardEvents [Recv sample_enriched, Tick, CtxDone] new_Forwarder))) =
     [sample_enriched]"
proof -
  let ?is = "[Recv sample_enriched, Tick, CtxDone]"
  have "fw_batch (snd (forwardEvents ?is new_Forwarder)) = []"
    using forwarder_conserves [of ?is] by (metis list.set_intros(1,2))
  moreover have "concat (fw_sent (snd (forwardEvents ?is new_Forwarder))) @
      fw_batch (snd (forwardEvents ?is new_Forwarder)) = received ?is"
    using forwarder_conserves [of ?is] by (rule conjunct1)
  ultimately show ?thesis by (simp del: forwardEvents.simps)
qed

text \<open>C2: in every reachable state of the agent, however its goroutines interleave, the events that
  the channel accepted are those posted, then the open batch, then the channel, in order; the
  channel is within its 1024 slots; and after the stop nothing waits in the batch.\<close>

theorem agent_conserves:
  assumes "agent_reachable (init_agent node url poll refr) s"
  shows "sys_accepted s =
      concat (fw_sent (sys_fwd s)) @ fw_batch (sys_fwd s) @ pm_eventCh (sys_pm s) \<and>
    length (pm_eventCh (sys_pm s)) \<le> pm_chanCap (sys_pm s) \<and>
    length (fw_batch (sys_fwd s)) < 100 \<and>
    (sys_stopped s \<longrightarrow> fw_batch (sys_fwd s) = [])"
  using agent_reachable_inv [OF assms]
  by (simp add: agent_inv_def fw_content_def fw_inv_def batchSize_def)

definition sample_agent :: AgentSys where
  "sample_agent = init_agent ''node-1'' '''' 0 0"

lemma sample_agent_step:
  "\<exists>s. agent_step sample_agent s \<and> length (sys_accepted s) = 1"
proof -
  let ?data = "KernelEvent_MarshalBinary sample_exit @ []"
  let ?pm = "snd (ProcessRawEvent 0 ?data (sys_pm sample_agent))"
  let ?s = "sample_agent\<lparr>sys_pm := ?pm, sys_accepted := sys_accepted sample_agent @
    drop (length (pm_eventCh (sys_pm sample_agent))) (pm_eventCh ?pm)\<rparr>"
  have "agent_step sample_agent ?s" by (rule agent_step.raw) (rule refl)
  moreover have "ke_EventType sample_exit \<le> 2" by (simp add: sample_exit_def)
  then have "length (sys_accepted ?s) = 1"
    using raw_meaning_kernel [OF sample_wf(2), of "pm_resolver (sys_pm sample_agent)" "[]"]
    by (simp add: ProcessRawEvent_refines sample_agent_def init_agent_def NewProbeManager_def)
  ultimately show ?thesis by blast
qed

lemma sample_agent_reachable:
  "\<exists>s. agent_reachable sample_agent s \<and> length (sys_accepted s) = 1"
  using sample_agent_step agent_reachable.intros by blast

theorem agent_conserves_witness:
  "\<exists>s. agent_reachable sample_agent s \<and> sys_accepted s \<noteq> [] \<and>
     sys_accepted s = concat (fw_sent (sys_fwd s)) @ fw_batch (sys_fwd s) @ pm_eventCh (sys_pm s)"
proof -
  obtain s where r: "agent_reachable sample_agent s" and l: "length (sys_accepted s) = 1"
    using sample_agent_reachable by blast
  have "sys_accepted s = concat (fw_sent (sys_fwd s)) @ fw_batch (sys_fwd s) @ pm_eventCh (sys_pm s)"
    using agent_conserves [OF r [unfolded sample_agent_def]] by (rule conjunct1)
  moreover have "sys_accepted s \<noteq> []" using l by force
  ultimately show ?thesis using r by blast
qed

text \<open>Every event that the agent forwards carries the name of its own node, with every history of
  cache refreshes.\<close>

lemma agent_events_on_node:
  assumes "agent_reachable (init_agent node url poll refr) s"
  shows "\<forall>e \<in> set (concat (fw_sent (sys_fwd s))). ev_NodeName e = node"
  using agent_reachable_inv [OF assms] by (auto simp: agent_inv_def fw_content_def)

lemma sample_agent_posted:
  "\<exists>s. agent_reachable sample_agent s \<and> concat (fw_sent (sys_fwd s)) \<noteq> []"
proof -
  let ?data = "KernelEvent_MarshalBinary sample_exit @ []"
  let ?pm = "snd (ProcessRawEvent 0 ?data (sys_pm sample_agent))"
  let ?s = "sample_agent\<lparr>sys_pm := ?pm, sys_accepted := sys_accepted sample_agent @
    drop (length (pm_eventCh (sys_pm sample_agent))) (pm_eventCh ?pm)\<rparr>"
  let ?t = "?s\<lparr>sys_pm := (sys_pm ?s)\<lparr>pm_eventCh := []\<rparr>,
    sys_fwd := snd (forward_step (Recv (Resolver_Enrich (pm_resolver (sys_pm sample_agent)) sample_exit))
      (sys_fwd ?s))\<rparr>"
  let ?u = "?t\<lparr>sys_fwd := snd (forward_step Tick (sys_fwd ?t))\<rparr>"
  have ty: "ke_EventType sample_exit \<le> 2" by (simp add: sample_exit_def)
  have ch: "pm_eventCh (sys_pm ?s) = [Resolver_Enrich (pm_resolver (sys_pm sample_agent)) sample_exit]"
    using raw_meaning_kernel [OF sample_wf(2) ty, of "pm_resolver (sys_pm sample_agent)" "[]"]
    by (simp add: ProcessRawEvent_refines sample_agent_def init_agent_def NewProbeManager_def)
  have fwd: "sys_stopped sample_agent = False" "sys_fwd sample_agent = new_Forwarder"
    by (simp_all add: sample_agent_def init_agent_def)
  have "agent_step sample_agent ?s" by (rule agent_step.raw) (rule refl)
  moreover have "agent_step ?s ?t" by (rule agent_step.recv) (use ch fwd in simp_all)
  moreover have "agent_step ?t ?u" by (rule agent_step.tick) (use fwd in simp)
  ultimately have "agent_reachable sample_agent ?u"
    by (meson agent_reachable.intros)
  moreover have "concat (fw_sent (sys_fwd ?u)) \<noteq> []"
    by (simp add: fwd new_Forwarder_def flush_def sendBatch_def batchSize_def Let_def)
  ultimately show ?thesis by blast
qed

lemma agent_events_on_node_witness:
  "\<exists>s e. agent_reachable sample_agent s \<and> e \<in> set (concat (fw_sent (sys_fwd s))) \<and>
     ev_NodeName e = ''node-1''"
proof -
  obtain s where r: "agent_reachable sample_agent s" and ne: "concat (fw_sent (sys_fwd s)) \<noteq> []"
    using sample_agent_posted by blast
  have "hd (concat (fw_sent (sys_fwd s))) \<in> set (concat (fw_sent (sys_fwd s)))"
    using ne by (rule hd_in_set)
  with agent_events_on_node [OF r [unfolded sample_agent_def]] r show ?thesis by blast
qed

end
