(* ===== verification/EventStore.thy ===== *)
theory EventStore
  imports KernelTypes
begin

text \<open>
  The server's storage, \<^verbatim>\<open>src/src/server/store.go\<close>: the \<^verbatim>\<open>Store\<close> interface as a record of functions
  over a state, the contract that its clients rely on as locales, and the in-memory store, which
  meets the contract.
\<close>

section \<open>The interface\<close>

datatype store_error = StoreError string

record 's Store =
  st_Save :: "Heartbeat \<Rightarrow> 's \<Rightarrow> store_error option \<times> 's"
  st_GetByTimeRange :: "Time \<Rightarrow> Time \<Rightarrow> 's \<Rightarrow> store_error + Heartbeat list"
  st_GetLatestByNode :: "string \<Rightarrow> 's \<Rightarrow> store_error + Heartbeat option"
  st_Ping :: "'s \<Rightarrow> store_error option"
  st_SaveKernelEvent :: "EnrichedEvent \<Rightarrow> 's \<Rightarrow> store_error option \<times> 's"
  st_GetKernelEvents :: "string \<Rightarrow> Time \<Rightarrow> Time \<Rightarrow> 's \<Rightarrow> store_error + EnrichedEvent list"
  st_GetKernelEventsByType ::
    "string \<Rightarrow> string \<Rightarrow> Time \<Rightarrow> Time \<Rightarrow> 's \<Rightarrow> store_error + EnrichedEvent list"
  st_SaveCausalChain :: "CausalChain \<Rightarrow> 's \<Rightarrow> store_error option \<times> 's"
  st_GetCausalChains :: "string \<Rightarrow> Time \<Rightarrow> Time \<Rightarrow> 's \<Rightarrow> store_error + CausalChain list"

section \<open>The in-memory store\<close>

record MemoryStore =
  ms_heartbeats :: "Heartbeat list"
  ms_kernelEvents :: "EnrichedEvent list"
  ms_causalChains :: "CausalChain list"

definition NewMemoryStore :: MemoryStore where
  "NewMemoryStore = \<lparr>ms_heartbeats = [], ms_kernelEvents = [], ms_causalChains = []\<rparr>"

definition MemoryStore_Save :: "Heartbeat \<Rightarrow> MemoryStore \<Rightarrow> store_error option \<times> MemoryStore" where
  "MemoryStore_Save event m = (None, m\<lparr>ms_heartbeats := ms_heartbeats m @ [event]\<rparr>)"

definition MemoryStore_GetByTimeRange ::
  "Time \<Rightarrow> Time \<Rightarrow> MemoryStore \<Rightarrow> store_error + Heartbeat list" where
  "MemoryStore_GetByTimeRange from to m =
     Inr (filter (\<lambda>hb. \<not> Before (hb_Timestamp hb) from \<and> \<not> After (hb_Timestamp hb) to)
       (ms_heartbeats m))"

text \<open>The loop of \<^verbatim>\<open>GetLatestByNode\<close>, with \<^verbatim>\<open>latest\<close> as its accumulator.\<close>

fun latest_loop :: "string \<Rightarrow> Heartbeat option \<Rightarrow> Heartbeat list \<Rightarrow> Heartbeat option" where
  "latest_loop nodeName latest [] = latest"
| "latest_loop nodeName latest (hb # hbs) =
     latest_loop nodeName
       (if hb_NodeName hb = nodeName
        then (case latest of
                None \<Rightarrow> Some hb
              | Some l \<Rightarrow> if After (hb_Timestamp hb) (hb_Timestamp l) then Some hb else Some l)
        else latest) hbs"

definition MemoryStore_GetLatestByNode ::
  "string \<Rightarrow> MemoryStore \<Rightarrow> store_error + Heartbeat option" where
  "MemoryStore_GetLatestByNode nodeName m = Inr (latest_loop nodeName None (ms_heartbeats m))"

definition MemoryStore_Ping :: "MemoryStore \<Rightarrow> store_error option" where
  "MemoryStore_Ping m = None"

definition MemoryStore_SaveKernelEvent ::
  "EnrichedEvent \<Rightarrow> MemoryStore \<Rightarrow> store_error option \<times> MemoryStore" where
  "MemoryStore_SaveKernelEvent event m =
     (None, m\<lparr>ms_kernelEvents := ms_kernelEvents m @ [event]\<rparr>)"

definition MemoryStore_GetKernelEvents ::
  "string \<Rightarrow> Time \<Rightarrow> Time \<Rightarrow> MemoryStore \<Rightarrow> store_error + EnrichedEvent list" where
  "MemoryStore_GetKernelEvents nodeName from to m =
     Inr (filter (\<lambda>e. ev_NodeName e = nodeName \<and>
            \<not> Before (ev_Timestamp e) from \<and> \<not> After (ev_Timestamp e) to) (ms_kernelEvents m))"

definition MemoryStore_GetKernelEventsByType ::
  "string \<Rightarrow> string \<Rightarrow> Time \<Rightarrow> Time \<Rightarrow> MemoryStore \<Rightarrow> store_error + EnrichedEvent list" where
  "MemoryStore_GetKernelEventsByType nodeName eventType from to m =
     Inr (filter (\<lambda>e. ev_NodeName e = nodeName \<and> ev_EventType e = eventType \<and>
            \<not> Before (ev_Timestamp e) from \<and> \<not> After (ev_Timestamp e) to) (ms_kernelEvents m))"

definition MemoryStore_SaveCausalChain ::
  "CausalChain \<Rightarrow> MemoryStore \<Rightarrow> store_error option \<times> MemoryStore" where
  "MemoryStore_SaveCausalChain chain m =
     (None, m\<lparr>ms_causalChains := ms_causalChains m @ [chain]\<rparr>)"

definition MemoryStore_GetCausalChains ::
  "string \<Rightarrow> Time \<Rightarrow> Time \<Rightarrow> MemoryStore \<Rightarrow> store_error + CausalChain list" where
  "MemoryStore_GetCausalChains nodeName from to m =
     Inr (filter (\<lambda>c. cc_NodeName c = nodeName \<and>
            \<not> Before (cc_Timestamp c) from \<and> \<not> After (cc_Timestamp c) to) (ms_causalChains m))"

definition memory_store :: "MemoryStore Store" where
  "memory_store = \<lparr>
     st_Save = MemoryStore_Save,
     st_GetByTimeRange = MemoryStore_GetByTimeRange,
     st_GetLatestByNode = MemoryStore_GetLatestByNode,
     st_Ping = MemoryStore_Ping,
     st_SaveKernelEvent = MemoryStore_SaveKernelEvent,
     st_GetKernelEvents = MemoryStore_GetKernelEvents,
     st_GetKernelEventsByType = MemoryStore_GetKernelEventsByType,
     st_SaveCausalChain = MemoryStore_SaveCausalChain,
     st_GetCausalChains = MemoryStore_GetCausalChains\<rparr>"

lemma memory_store_ops [simp]:
  "st_Save memory_store = MemoryStore_Save"
  "st_GetByTimeRange memory_store = MemoryStore_GetByTimeRange"
  "st_GetLatestByNode memory_store = MemoryStore_GetLatestByNode"
  "st_Ping memory_store = MemoryStore_Ping"
  "st_SaveKernelEvent memory_store = MemoryStore_SaveKernelEvent"
  "st_GetKernelEvents memory_store = MemoryStore_GetKernelEvents"
  "st_GetKernelEventsByType memory_store = MemoryStore_GetKernelEventsByType"
  "st_SaveCausalChain memory_store = MemoryStore_SaveCausalChain"
  "st_GetCausalChains memory_store = MemoryStore_GetCausalChains"
  by (simp_all add: memory_store_def)

lemmas memory_store_defs = MemoryStore_Save_def MemoryStore_GetByTimeRange_def
  MemoryStore_GetLatestByNode_def MemoryStore_Ping_def MemoryStore_SaveKernelEvent_def
  MemoryStore_GetKernelEvents_def MemoryStore_GetKernelEventsByType_def
  MemoryStore_SaveCausalChain_def MemoryStore_GetCausalChains_def

section \<open>The contract\<close>

text \<open>
  What the anomaly detector relies on: a saved heartbeat is found again, and the latest heartbeat
  of a node, read right after a save, is not older than the one just saved.
\<close>

locale heartbeat_store =
  fixes S :: "'s Store"
    and heartbeats :: "'s \<Rightarrow> Heartbeat list"
  assumes save_heartbeats:
      "st_Save S hb s = (None, s') \<Longrightarrow> set (heartbeats s') = insert hb (set (heartbeats s))"
    and save_failed: "st_Save S hb s = (Some err, s') \<Longrightarrow> s' = s"
    and latest_after_save:
      "st_Save S hb s = (None, s') \<Longrightarrow> st_GetLatestByNode S (hb_NodeName hb) s' = Inr r \<Longrightarrow>
       \<exists>l. r = Some l \<and> hb_NodeName l = hb_NodeName hb \<and> hb_Timestamp hb \<le> hb_Timestamp l"
    and range_heartbeats:
      "st_GetByTimeRange S lo hi s = Inr hbs \<Longrightarrow>
       set hbs = {hb \<in> set (heartbeats s). in_range lo hi (hb_Timestamp hb)}"
begin

lemma saved_is_found:
  assumes "st_Save S hb s = (None, s')" and "st_GetByTimeRange S lo hi s' = Inr hbs"
    and "in_range lo hi (hb_Timestamp hb)"
  shows "hb \<in> set hbs"
  using save_heartbeats [OF assms(1)] range_heartbeats [OF assms(2)] assms(3) by auto

end

text \<open>What the causal chains, the predictions and the replay rely on.\<close>

locale kernel_event_store =
  fixes S :: "'s Store"
    and kernel_events :: "'s \<Rightarrow> EnrichedEvent list"
  assumes save_kernel_event:
      "st_SaveKernelEvent S e s = (None, s') \<Longrightarrow>
       set (kernel_events s') = insert e (set (kernel_events s))"
    and save_kernel_event_failed: "st_SaveKernelEvent S e s = (Some err, s') \<Longrightarrow> s' = s"
    and get_kernel_events:
      "st_GetKernelEvents S n lo hi s = Inr evs \<Longrightarrow>
       set evs = {e \<in> set (kernel_events s). ev_NodeName e = n \<and> in_range lo hi (ev_Timestamp e)}"
    and get_kernel_events_by_type:
      "st_GetKernelEventsByType S n t lo hi s = Inr evs \<Longrightarrow>
       set evs = {e \<in> set (kernel_events s).
         ev_NodeName e = n \<and> ev_EventType e = t \<and> in_range lo hi (ev_Timestamp e)}"
begin

lemma events_in_window:
  "st_GetKernelEvents S n lo hi s = Inr evs \<Longrightarrow> e \<in> set evs \<Longrightarrow>
   ev_NodeName e = n \<and> lo \<le> ev_Timestamp e \<and> ev_Timestamp e \<le> hi"
  using get_kernel_events by (auto simp: in_range_iff)

lemma events_narrow:
  assumes "st_GetKernelEvents S n lo hi s = Inr evs" and "st_GetKernelEvents S n lo' hi' s = Inr evs'"
    and "lo' \<le> lo" and "hi \<le> hi'"
  shows "set evs \<subseteq> set evs'"
  using get_kernel_events [OF assms(1)] get_kernel_events [OF assms(2)] assms(3,4)
  by (auto simp: in_range_iff)

lemma by_type_is_filter:
  assumes "st_GetKernelEvents S n lo hi s = Inr evs" and "st_GetKernelEventsByType S n t lo hi s = Inr evs'"
  shows "set evs' = {e \<in> set evs. ev_EventType e = t}"
  using get_kernel_events [OF assms(1)] get_kernel_events_by_type [OF assms(2)] by auto

end

locale causal_chain_store =
  fixes S :: "'s Store"
    and chains :: "'s \<Rightarrow> CausalChain list"
  assumes save_chain:
      "st_SaveCausalChain S c s = (None, s') \<Longrightarrow> set (chains s') = insert c (set (chains s))"
    and get_chains:
      "st_GetCausalChains S n lo hi s = Inr cs \<Longrightarrow>
       set cs = {c \<in> set (chains s). cc_NodeName c = n \<and> in_range lo hi (cc_Timestamp c)}"

locale event_store = heartbeat_store S heartbeats + kernel_event_store S kernel_events +
    causal_chain_store S chains
  for S :: "'s Store" and heartbeats kernel_events chains

section \<open>The in-memory store meets it\<close>

text \<open>The loop finds a heartbeat of the node with the greatest timestamp, the first of equals.\<close>

lemma latest_loop_None:
  "latest_loop n acc hbs = None \<longleftrightarrow> acc = None \<and> (\<forall>hb \<in> set hbs. hb_NodeName hb \<noteq> n)"
  by (induction n acc hbs rule: latest_loop.induct) (auto split: option.splits)

lemma latest_loop_max:
  assumes "latest_loop n acc hbs = Some l"
  shows "(\<forall>a. acc = Some a \<longrightarrow> hb_Timestamp a \<le> hb_Timestamp l) \<and>
     (\<forall>hb \<in> set hbs. hb_NodeName hb = n \<longrightarrow> hb_Timestamp hb \<le> hb_Timestamp l)"
  using assms
proof (induction n acc hbs rule: latest_loop.induct)
  case (2 n acc hb hbs)
  then show ?case
    by (cases "hb_NodeName hb = n"; cases acc) (force simp: After_def split: if_splits)+
qed simp

lemma latest_loop_mem:
  "latest_loop n acc hbs = Some l \<Longrightarrow> acc = Some l \<or> l \<in> set hbs \<and> hb_NodeName l = n"
  by (induction n acc hbs rule: latest_loop.induct) (auto split: if_splits option.splits)

lemma latest_after_memory_save:
  assumes "latest_loop (hb_NodeName hb) None (hbs @ [hb]) = r"
  shows "\<exists>l. r = Some l \<and> hb_NodeName l = hb_NodeName hb \<and> hb_Timestamp hb \<le> hb_Timestamp l"
proof (cases r)
  case None
  with assms show ?thesis by (auto simp: latest_loop_None)
next
  case (Some l)
  with assms show ?thesis
    using latest_loop_max latest_loop_mem by fastforce
qed

interpretation mem: event_store memory_store ms_heartbeats ms_kernelEvents ms_causalChains
proof
  show "st_Save memory_store hb s = (None, s') \<Longrightarrow>
      st_GetLatestByNode memory_store (hb_NodeName hb) s' = Inr r \<Longrightarrow>
      \<exists>l. r = Some l \<and> hb_NodeName l = hb_NodeName hb \<and> hb_Timestamp hb \<le> hb_Timestamp l"
    for hb s s' r
    using latest_after_memory_save [of hb "ms_heartbeats s"]
    by (auto simp: memory_store_defs)
qed (auto simp: memory_store_defs in_range_def)

end
