(* ===== verification/Float64.thy ===== *)
theory Float64
  imports Complex_Main "HOL-Library.Log_Nat"
begin

text \<open>
  The finite part of Go's \<^verbatim>\<open>float64\<close>: IEEE 754 binary64 values are rationals, and every
  arithmetic operation of the source is the exact rational operation followed by \<open>fl\<close>, which
  rounds to the nearest representable value, ties to even, with 53 bits of precision and the
  subnormal floor at \<open>2 powr -1074\<close>.  Overflow to infinity is not represented: the clients
  prove that their values stay in a small range.  No fused multiply-add is assumed (Go's amd64
  code generator rounds after each operation).
\<close>

type_synonym float64 = rat

section \<open>Powers of two and binary logarithm\<close>

definition pow2 :: "int \<Rightarrow> rat" where
  "pow2 e = (if 0 \<le> e then 2 ^ nat e else 1 / 2 ^ nat (- e))"

lemma pow2_pos [simp]: "0 < pow2 e"
  by (simp add: pow2_def)

lemma pow2_nonzero [simp]: "pow2 e \<noteq> 0"
  using pow2_pos [of e] by (metis less_irrefl)

lemma pow2_nat [simp]: "pow2 (int n) = 2 ^ n"
  by (simp add: pow2_def)

lemma pow2_Suc: "pow2 (e + 1) = 2 * pow2 e"
proof (cases "0 \<le> e")
  case True
  then show ?thesis by (simp add: pow2_def nat_add_distrib)
next
  case False
  then have "nat (- e) = Suc (nat (- (e + 1)))" by simp
  with False show ?thesis
    by (cases "e = - 1") (auto simp: pow2_def)
qed

lemma pow2_add_nat: "pow2 (e + int n) = pow2 e * 2 ^ n"
proof (induction n)
  case 0
  then show ?case by simp
next
  case (Suc n)
  have "pow2 (e + int (Suc n)) = pow2 ((e + int n) + 1)" by (simp add: algebra_simps)
  also have "\<dots> = 2 * pow2 (e + int n)" by (rule pow2_Suc)
  finally show ?case using Suc by simp
qed

lemma pow2_le: "a \<le> b \<Longrightarrow> pow2 a \<le> pow2 b"
proof -
  assume "a \<le> b"
  then have b: "b = a + int (nat (b - a))" by simp
  have "pow2 a * 1 \<le> pow2 a * 2 ^ nat (b - a)"
    by (rule mult_left_mono) (auto intro: less_imp_le)
  then show ?thesis by (subst b, subst pow2_add_nat) simp
qed

lemma pow2_less_D: "pow2 a < pow2 b \<Longrightarrow> a < b"
  using pow2_le [of b a] by linarith

definition ilog2 :: "rat \<Rightarrow> int" where
  "ilog2 x = (case quotient_of x of (p, q) \<Rightarrow>
     let k = bitlen p - bitlen q in if pow2 k \<le> x then k else k - 1)"

lemma pow2_bitlen: "0 < p \<Longrightarrow> pow2 (bitlen p - 1) \<le> of_int p \<and> of_int p < pow2 (bitlen p)"
proof -
  assume "0 < p"
  then have b: "2 ^ nat (bitlen p - 1) \<le> p" "p < 2 ^ nat (bitlen p)" "0 < bitlen p"
    using bitlen_bounds [of p] bitlen_eq_zero_iff [of p] bitlen_nonneg [of p] by auto
  from b(1) have "(of_int (2 ^ nat (bitlen p - 1)) :: rat) \<le> of_int p" by (simp only: of_int_le_iff)
  moreover from b(2) have "(of_int p :: rat) < of_int (2 ^ nat (bitlen p))" by (simp only: of_int_less_iff)
  ultimately show ?thesis using b(3) by (simp add: pow2_def)
qed

lemma pow2_diff: "pow2 (a - b) = pow2 a / pow2 b"
proof (cases "b \<le> a")
  case True
  then have "pow2 (b + int (nat (a - b))) = pow2 b * 2 ^ nat (a - b)" by (intro pow2_add_nat)
  with True show ?thesis by (simp add: pow2_def [of "a - b"] field_simps)
next
  case False
  then have "pow2 (a + int (nat (b - a))) = pow2 a * 2 ^ nat (b - a)" by (intro pow2_add_nat)
  with False show ?thesis by (simp add: pow2_def [of "a - b"] field_simps)
qed

lemma ilog2_bounds:
  assumes "0 < x"
  shows "pow2 (ilog2 x) \<le> x \<and> x < pow2 (ilog2 x + 1)"
proof -
  obtain p q where pq: "quotient_of x = (p, q)" by force
  have x: "x = of_int p / of_int q" and q: "0 < q"
    using quotient_of_div [OF pq] quotient_of_denom_pos [OF pq] by auto
  with assms have p: "0 < p" by (simp add: zero_less_divide_iff)
  let ?k = "bitlen p - bitlen q"
  note bp = pow2_bitlen [OF p] and bq = pow2_bitlen [OF q]
  have rq: "(0::rat) < of_int q" and rp: "(0::rat) < of_int p" using p q by auto
  have "pow2 ((bitlen p - 1) - bitlen q) \<le> x"
    unfolding x using bp bq rq rp by (subst pow2_diff, intro frac_le) auto
  then have lo: "pow2 (?k - 1) \<le> x" by (simp add: algebra_simps)
  have "x < pow2 (bitlen p - (bitlen q - 1))"
    unfolding x using bp bq rq rp by (subst pow2_diff, intro frac_less) auto
  then have hi: "x < pow2 (?k + 1)" by (simp add: algebra_simps)
  show ?thesis
    using lo hi pq by (auto simp: ilog2_def Let_def)
qed

lemma ilog2_mono: "0 < x \<Longrightarrow> x \<le> y \<Longrightarrow> ilog2 x \<le> ilog2 y"
proof -
  assume "0 < x" "x \<le> y"
  then have "pow2 (ilog2 x) < pow2 (ilog2 y + 1)"
    using ilog2_bounds [of x] ilog2_bounds [of y] by linarith
  then show ?thesis using pow2_less_D by fastforce
qed

section \<open>Rounding to nearest, ties to even\<close>

definition rnd_even :: "rat \<Rightarrow> int" where
  "rnd_even x = (let f = \<lfloor>x\<rfloor>; d = x - of_int f in
     if d < 1 / 2 then f else if 1 / 2 < d then f + 1 else if even f then f else f + 1)"

lemma rnd_even_of_int [simp]: "rnd_even (of_int n) = n"
  by (simp add: rnd_even_def)

lemma rnd_even_floor: "rnd_even x = \<lfloor>x\<rfloor> \<or> rnd_even x = \<lfloor>x\<rfloor> + 1"
  by (simp add: rnd_even_def Let_def)

lemma rnd_even_mono: "x \<le> y \<Longrightarrow> rnd_even x \<le> rnd_even y"
proof -
  assume le: "x \<le> y"
  then have fl: "\<lfloor>x\<rfloor> \<le> \<lfloor>y\<rfloor>" by (rule floor_mono)
  show ?thesis
  proof (cases "\<lfloor>x\<rfloor> = \<lfloor>y\<rfloor>")
    case True
    with le show ?thesis by (auto simp: rnd_even_def Let_def)
  next
    case False
    with fl have "\<lfloor>x\<rfloor> + 1 \<le> \<lfloor>y\<rfloor>" by simp
    then show ?thesis using rnd_even_floor [of x] rnd_even_floor [of y] by linarith
  qed
qed

lemma rnd_even_minus: "rnd_even (- x) = - rnd_even x"
proof (cases "x \<in> \<int>")
  case True
  then obtain n where x: "x = of_int n" by (auto elim: Ints_cases)
  have "rnd_even (- x) = rnd_even (of_int (- n))" by (simp add: x)
  then show ?thesis by (simp only: rnd_even_of_int x)
next
  case False
  define f where "f = \<lfloor>x\<rfloor>"
  have fx: "of_int f < x" and xf: "x < of_int f + 1"
    using False floor_correct [of x] by (auto simp: f_def order.order_iff_strict Ints_def)
  have m: "\<lfloor>- x\<rfloor> = - f - 1"
    using fx xf by (auto simp: floor_eq_iff)
  show ?thesis
    unfolding rnd_even_def m Let_def f_def [symmetric] by auto
qed

definition f64_exp :: "rat \<Rightarrow> int" where
  "f64_exp x = max (ilog2 \<bar>x\<bar> - 52) (- 1074)"

definition fl :: "rat \<Rightarrow> float64" where
  "fl x = (if x = 0 then 0
           else of_int (rnd_even (x / pow2 (f64_exp x))) * pow2 (f64_exp x))"

lemma fl_0 [simp]: "fl 0 = 0"
  by (simp add: fl_def)

lemma fl_minus: "fl (- x) = - fl x"
  by (simp add: fl_def f64_exp_def rnd_even_minus flip: minus_divide_left)

lemma fl_le_grid:
  assumes "0 < x" and "x \<le> of_int k * pow2 (f64_exp x)"
  shows "fl x \<le> of_int k * pow2 (f64_exp x)"
proof -
  have "x / pow2 (f64_exp x) \<le> of_int k" using assms by (simp add: pos_divide_le_eq)
  then have "rnd_even (x / pow2 (f64_exp x)) \<le> rnd_even (of_int k)" by (rule rnd_even_mono)
  then show ?thesis using assms(1) by (simp add: fl_def mult_right_mono less_imp_le)
qed

lemma fl_ge_grid:
  assumes "0 < x" and "of_int k * pow2 (f64_exp x) \<le> x"
  shows "of_int k * pow2 (f64_exp x) \<le> fl x"
proof -
  have "of_int k \<le> x / pow2 (f64_exp x)" using assms by (simp add: pos_le_divide_eq)
  then have "rnd_even (of_int k) \<le> rnd_even (x / pow2 (f64_exp x))" by (rule rnd_even_mono)
  then show ?thesis using assms(1) by (simp add: fl_def mult_right_mono less_imp_le)
qed

lemma pow2_grid: "e \<le> a \<Longrightarrow> pow2 a = of_int (2 ^ nat (a - e)) * pow2 e"
proof -
  assume "e \<le> a"
  then have "pow2 (e + int (nat (a - e))) = pow2 e * 2 ^ nat (a - e)" by (intro pow2_add_nat)
  with \<open>e \<le> a\<close> show ?thesis by (simp add: mult.commute)
qed

lemma fl_mono_pos:
  assumes x: "0 < x" and le: "x \<le> y"
  shows "fl x \<le> fl y"
proof -
  have y: "0 < y" using assms by linarith
  have il: "ilog2 x \<le> ilog2 y" using x le by (rule ilog2_mono)
  show ?thesis
  proof (cases "f64_exp x = f64_exp y")
    case True
    have "x / pow2 (f64_exp y) \<le> y / pow2 (f64_exp y)"
      using le by (intro divide_right_mono) (auto intro: less_imp_le)
    then show ?thesis using x y True
      by (simp add: fl_def rnd_even_mono mult_right_mono less_imp_le)
  next
    case False
    let ?b = "pow2 (ilog2 y)"
    have ey: "f64_exp y = ilog2 y - 52" and lt: "ilog2 x < ilog2 y"
      and ex: "f64_exp x \<le> ilog2 y"
      using il False x y by (auto simp: f64_exp_def max_def split: if_splits)
    have "x < pow2 (ilog2 x + 1)" using ilog2_bounds [OF x] by simp
    also have "\<dots> \<le> ?b" using lt by (intro pow2_le) simp
    finally have "x \<le> ?b" by simp
    then have "fl x \<le> ?b" using fl_le_grid [OF x] pow2_grid [OF ex] by metis
    moreover have "?b \<le> fl y"
      using fl_ge_grid [OF y] pow2_grid [of "f64_exp y" "ilog2 y"] ilog2_bounds [OF y] ey
      by (metis diff_le_eq le_add_same_cancel1 zero_le_numeral)
    ultimately show ?thesis by simp
  qed
qed

lemma fl_nonneg: "0 \<le> x \<Longrightarrow> 0 \<le> fl x"
  using fl_ge_grid [of x 0] by (cases "x = 0") auto

lemma fl_mono: "x \<le> y \<Longrightarrow> fl x \<le> fl y"
proof -
  assume le: "x \<le> y"
  consider "0 < x" | "x \<le> 0" "0 \<le> y" | "y < 0" by linarith
  then show ?thesis
  proof cases
    case 1
    with le show ?thesis by (intro fl_mono_pos)
  next
    case 2
    then show ?thesis using fl_nonneg [of "- x"] fl_nonneg [of y] by (simp add: fl_minus)
  next
    case 3
    with le have "fl (- y) \<le> fl (- x)" by (intro fl_mono_pos) auto
    then show ?thesis by (simp add: fl_minus)
  qed
qed

lemma fl_exact_pos:
  assumes m: "0 < m" "m < 2 ^ 53" and e: "- 1074 \<le> e"
  shows "fl (of_int m * pow2 e) = of_int m * pow2 e"
proof -
  let ?x = "of_int m * pow2 e"
  have x: "0 < ?x" using m by simp
  have mr: "(of_int m :: rat) < of_int (2 ^ 53)" using m(2) by (simp only: of_int_less_iff)
  have "pow2 (ilog2 ?x) \<le> ?x" using ilog2_bounds [OF x] by simp
  also have "?x < 2 ^ 53 * pow2 e" using mr by simp
  also have "\<dots> = pow2 (e + int 53)" by (simp only: pow2_add_nat mult.commute)
  finally have "ilog2 ?x < e + 53" using pow2_less_D by fastforce
  then have le: "f64_exp ?x \<le> e" using e x by (simp add: f64_exp_def abs_of_pos)
  have g: "?x = of_int (m * 2 ^ nat (e - f64_exp ?x)) * pow2 (f64_exp ?x)"
    using pow2_grid [OF le] by simp
  show ?thesis
    using fl_le_grid [OF x, of "m * 2 ^ nat (e - f64_exp ?x)"]
      fl_ge_grid [OF x, of "m * 2 ^ nat (e - f64_exp ?x)"] g by linarith
qed

lemma fl_exact:
  assumes "\<bar>m\<bar> < 2 ^ 53" and "- 1074 \<le> e"
  shows "fl (of_int m * pow2 e) = of_int m * pow2 e"
proof -
  consider "0 < m" | "m = 0" | "0 < - m" by linarith
  then show ?thesis
  proof cases
    case 3
    then show ?thesis using fl_exact_pos [of "- m" e] assms by (simp add: fl_minus)
  qed (use assms fl_exact_pos in auto)
qed

lemma fl_of_int: "\<bar>m\<bar> < 2 ^ 53 \<Longrightarrow> fl (of_int m) = of_int m"
  using fl_exact [of m 0] by (simp add: pow2_def)

lemma fl_1 [simp]: "fl 1 = 1"
  using fl_of_int [of 1] by simp

lemma fl_numeral: "numeral n < (2 ^ 53 :: int) \<Longrightarrow> fl (numeral n) = numeral n"
  using fl_of_int [of "numeral n"] by simp

lemma fl_of_nat: "n < 2 ^ 53 \<Longrightarrow> fl (of_nat n) = of_nat n"
  using fl_of_int [of "int n"] by simp

lemma fl_le_1: "x \<le> 1 \<Longrightarrow> fl x \<le> 1"
  using fl_mono [of x 1] by simp


text \<open>A rounded value is representable: rounding it again changes nothing.\<close>

lemma fl_grid_bound:
  assumes "0 < x"
  shows "rnd_even (x / pow2 (f64_exp x)) \<le> 2 ^ 53"
proof -
  have "x < pow2 (ilog2 x + 1)" using ilog2_bounds [OF assms] by simp
  also have "\<dots> \<le> pow2 (f64_exp x + int 53)"
    using assms by (intro pow2_le) (simp add: f64_exp_def)
  also have "\<dots> = pow2 (f64_exp x) * 2 ^ 53" by (rule pow2_add_nat)
  finally have "x / pow2 (f64_exp x) \<le> of_int (2 ^ 53)"
    by (simp add: pos_divide_le_eq mult.commute)
  then have "rnd_even (x / pow2 (f64_exp x)) \<le> rnd_even (of_int (2 ^ 53))" by (rule rnd_even_mono)
  then show ?thesis by (simp only: rnd_even_of_int)
qed

lemma fl_idem_pos:
  assumes x: "0 < x"
  shows "fl (fl x) = fl x"
proof -
  let ?m = "rnd_even (x / pow2 (f64_exp x))" and ?e = "f64_exp x"
  have fx: "fl x = of_int ?m * pow2 ?e" using x by (simp add: fl_def)
  have e: "- 1074 \<le> ?e" by (simp add: f64_exp_def)
  have m0: "0 \<le> ?m"
    using rnd_even_mono [of 0 "x / pow2 ?e"] rnd_even_of_int [of 0] x by (simp add: less_imp_le)
  consider "?m < 2 ^ 53" | "?m = 2 ^ 53" using fl_grid_bound [OF x] by linarith
  then show ?thesis
  proof cases
    case 1
    then show ?thesis unfolding fx using m0 e by (intro fl_exact) auto
  next
    case 2
    then have "fl x = of_int (2 ^ 52) * pow2 (?e + 1)" unfolding fx by (simp add: pow2_Suc)
    moreover have "fl (of_int (2 ^ 52) * pow2 (?e + 1)) = of_int (2 ^ 52) * pow2 (?e + 1)"
      using e by (intro fl_exact) auto
    ultimately show ?thesis by simp
  qed
qed

lemma fl_idem [simp]: "fl (fl x) = fl x"
proof -
  consider "0 < x" | "x = 0" | "0 < - x" by linarith
  then show ?thesis
  proof cases
    case 3
    then show ?thesis using fl_idem_pos [of "- x"] by (simp add: fl_minus)
  qed (simp_all add: fl_idem_pos)
qed

text \<open>
  A quotient of exact integers is rounded up to the right integer: above an integer it exceeds it by more
  than half the distance to the next representable number.
\<close>

lemma rnd_even_above: "of_int m + 1 / 2 < x \<Longrightarrow> m < rnd_even x"
proof -
  assume x: "of_int m + 1 / 2 < x"
  then have f: "m \<le> \<lfloor>x\<rfloor>" by linarith
  show "m < rnd_even x"
  proof (cases "\<lfloor>x\<rfloor> = m")
    case True
    with x show ?thesis by (simp add: rnd_even_def Let_def)
  next
    case False
    with f rnd_even_floor [of x] show ?thesis by linarith
  qed
qed

lemma fl_above_int:
  assumes m: "0 < m" "m < 2 ^ 53" and x: "of_int m + pow2 (ilog2 (of_int m) - 53) < x"
  shows "of_int m < fl x"
proof -
  let ?m = "of_int m :: rat" and ?l = "ilog2 (of_int m)"
  have mp: "0 < ?m" using m by simp
  have mx: "?m < x" using x pow2_pos [of "?l - 53"] by linarith
  then have xp: "0 < x" using mp by linarith
  have l: "0 \<le> ?l"
  proof -
    have "pow2 0 < pow2 (?l + 1)" using ilog2_bounds [OF mp] m by (simp add: pow2_def)
    then show ?thesis using pow2_less_D by fastforce
  qed
  show ?thesis
  proof (cases "ilog2 x = ?l")
    case True
    then have e: "f64_exp x = ?l - 52" using xp l by (simp add: f64_exp_def)
    have le: "?l - 52 \<le> 0"
    proof -
      have "?m < of_int (2 ^ 53)" using m(2) by (simp only: of_int_less_iff)
      then have "pow2 ?l < pow2 (int 53)" unfolding pow2_nat using ilog2_bounds [OF mp] by simp
      then show ?thesis using pow2_less_D by fastforce
    qed
    define k where "k = m * 2 ^ nat (0 - (?l - 52))"
    have k: "?m = of_int k * pow2 (?l - 52)" using pow2_grid [OF le] by (simp add: k_def pow2_def)
    have "pow2 (?l - 53 + 1) = 2 * pow2 (?l - 53)" by (rule pow2_Suc)
    then have "pow2 (?l - 53) = pow2 (?l - 52) / 2" by simp
    with x k have "(of_int k + 1 / 2) * pow2 (?l - 52) < x" by (simp add: algebra_simps)
    then have "of_int k + 1 / 2 < x / pow2 (?l - 52)" by (simp add: pos_less_divide_eq)
    from rnd_even_above [OF this]
    have "of_int k * pow2 (?l - 52) < of_int (rnd_even (x / pow2 (?l - 52))) * pow2 (?l - 52)" by simp
    moreover have "fl x = of_int (rnd_even (x / pow2 (?l - 52))) * pow2 (?l - 52)" using xp by (simp add: fl_def e)
    ultimately show ?thesis using k by (simp only:)
  next
    case False
    then have "?l + 1 \<le> ilog2 x" using ilog2_mono [OF mp, of x] mx by simp
    then have "pow2 (?l + 1) \<le> x" using pow2_le ilog2_bounds [OF xp] order_trans by blast
    then have "fl (pow2 (?l + 1)) \<le> fl x" by (rule fl_mono)
    moreover have "fl (pow2 (?l + 1)) = pow2 (?l + 1)" using fl_exact [of 1 "?l + 1"] l by simp
    moreover have "?m < pow2 (?l + 1)" using ilog2_bounds [OF mp] by simp
    ultimately show ?thesis by linarith
  qed
qed

lemma fl_ceiling_div:
  assumes a: "0 < a" "a < 2 ^ 53" and b: "0 < b" "b \<le> 2 ^ 53"
  shows "\<lceil>fl (of_int a / of_int b)\<rceil> = \<lceil>of_int a / of_int b :: rat\<rceil>"
proof -
  let ?q = "of_int a / of_int b :: rat"
  define n where "n = \<lceil>?q\<rceil>"
  have q: "0 < ?q" "of_int n - 1 < ?q" "?q \<le> of_int n" using a b by (simp_all add: n_def) linarith+
  have n1: "1 \<le> n" using q by linarith
  have "?q \<le> of_int a" using a b by (simp add: pos_divide_le_eq)
  then have na: "n \<le> a" unfolding n_def by (simp add: ceiling_le_iff)
  have up: "fl ?q \<le> of_int n" using fl_mono [OF q(3)] fl_of_int [of n] n1 na a by simp
  have "of_int n - 1 < fl ?q"
  proof (cases "n = 1")
    case True
    have "of_int b \<le> (of_int (2 ^ 53) :: rat)" using b(2) by (simp only: of_int_le_iff)
    then have "of_int b * pow2 (- 53) \<le> 2 ^ 53 * pow2 (- 53)" by (intro mult_right_mono) (simp_all add: less_imp_le)
    also have "\<dots> = 1" using pow2_add_nat [of "- 53" 53] by (simp add: pow2_def)
    also have "\<dots> \<le> of_int a" using a by simp
    finally have "pow2 (- 53) \<le> ?q" using b by (simp add: pos_le_divide_eq mult.commute)
    then have "fl (of_int 1 * pow2 (- 53)) \<le> fl ?q" using fl_mono by simp
    then have "pow2 (- 53) \<le> fl ?q" using fl_exact [of 1 "- 53"] by simp
    with pow2_pos have "0 < fl ?q" by (rule order_less_le_trans)
    with True show ?thesis by simp
  next
    case False
    define m where "m = n - 1"
    have m: "0 < m" "m < 2 ^ 53" using False n1 na a by (simp_all add: m_def)
    have mb: "of_int m * of_int b < (of_int a :: rat)" using q(2) b by (simp add: m_def pos_less_divide_eq)
    then have "m * b < a" by (metis of_int_less_iff of_int_mult)
    then have "of_int (m * b + 1) \<le> (of_int a :: rat)" by (simp only: of_int_le_iff)
    then have "(of_int m * of_int b + 1) / of_int b \<le> ?q" using b by (intro divide_right_mono) simp_all
    then have step: "of_int m + 1 / of_int b \<le> ?q" using b by (simp add: add_divide_distrib)
    have "of_int m * of_int b < (2 ^ 53 :: rat)"
    proof -
      have "of_int a < (of_int (2 ^ 53) :: rat)" using a(2) by (simp only: of_int_less_iff)
      with mb show ?thesis by simp
    qed
    then have "pow2 (ilog2 (of_int m)) * of_int b < 2 ^ 53"
      using ilog2_bounds [of "of_int m"] m b
      by (smt (verit) mult_right_mono of_int_0_less_iff order_le_less_trans order_less_imp_le)
    moreover have "pow2 (ilog2 (of_int m)) = pow2 (ilog2 (of_int m) - 53) * 2 ^ 53"
      using pow2_add_nat [of "ilog2 (of_int m) - 53" 53] by simp
    ultimately have "pow2 (ilog2 (of_int m) - 53) < 1 / of_int b" using b by (simp add: pos_less_divide_eq)
    with step have "of_int m + pow2 (ilog2 (of_int m) - 53) < ?q" by linarith
    from fl_above_int [OF m this] show ?thesis by (simp add: m_def)
  qed
  with up have "\<lceil>fl ?q\<rceil> = n" by (simp add: ceiling_eq_iff)
  then show ?thesis by (simp add: n_def)
qed

end
