(* ===== verification/ServerTypes.thy ===== *)
theory ServerTypes
  imports KernelTypes Float64
begin

text \<open>
  The server's message types: alerts (\<^verbatim>\<open>src/src/server/anomaly.go\<close>), predictions
  (\<^verbatim>\<open>src/src/server/prediction.go\<close>), connection records (\<^verbatim>\<open>src/src/server/network_topology.go\<close>) and
  the envelope in which the hub broadcasts them (\<^verbatim>\<open>src/src/server/ws.go\<close>).
\<close>

record Alert =
  al_NodeName :: string
  al_Namespace :: string
  al_Gap :: float64
  al_Severity :: string
  al_Timestamp :: Time
  al_KernelEvents :: "EnrichedEvent list"

record Prediction =
  pr_NodeName :: string
  pr_Confidence :: float64
  pr_TimeToFailure :: float64
  pr_Timestamp :: Time
  pr_Patterns :: "string list"
  pr_Outcome :: string

record ConnectionRecord =
  cn_SourcePod :: string
  cn_SourceNS :: string
  cn_DstAddr :: string
  cn_DstPort :: "16 word"
  cn_Protocol :: string
  cn_LastSeen :: Time
  cn_NodeName :: string

text \<open>
  \<^verbatim>\<open>WSMessage\<close> has a type string and an untyped payload; each \<^verbatim>\<open>Broadcast\<close> function builds one of
  the constructors, and \<open>ws_Type\<close> is the string it writes.
\<close>

datatype WSMessage =
    HeartbeatMsg Heartbeat
  | AlertMsg Alert
  | EbpfEventMsg EnrichedEvent
  | CausalChainMsg CausalChain
  | PredictionMsg Prediction
  | TopologyMsg ConnectionRecord

fun ws_Type :: "WSMessage \<Rightarrow> string" where
  "ws_Type (HeartbeatMsg _) = ''heartbeat''"
| "ws_Type (AlertMsg _) = ''alert''"
| "ws_Type (EbpfEventMsg _) = ''ebpf_event''"
| "ws_Type (CausalChainMsg _) = ''causal_chain''"
| "ws_Type (PredictionMsg _) = ''prediction''"
| "ws_Type (TopologyMsg _) = ''network_topology_update''"

end
