(* ===== verification/Anomaly.thy ===== *)
theory Anomaly
  imports EventStore ServerTypes
begin

text \<open>
  Anomaly detection and alert delivery: \<^verbatim>\<open>src/src/server/anomaly.go\<close> and
  \<^verbatim>\<open>src/src/server/alert.go\<close>.
\<close>

section \<open>The detector\<close>

record AnomalyDetector =
  ad_warningThreshold :: Duration
  ad_criticalThreshold :: Duration

definition NewAnomalyDetector :: "int \<Rightarrow> int \<Rightarrow> AnomalyDetector" where
  "NewAnomalyDetector warningSeconds criticalSeconds =
    \<lparr>ad_warningThreshold = dur_mul warningSeconds Second,
     ad_criticalThreshold = dur_mul criticalSeconds Second\<rparr>"

text \<open>\<^verbatim>\<open>Duration.Seconds\<close>: the whole seconds plus the remaining nanoseconds over 1e9, in floating
  point.\<close>

definition duration_Seconds :: "Duration \<Rightarrow> float64" where
  "duration_Seconds d =
     fl (fl (of_int (go_div d Second)) + fl (fl (of_int (go_mod d Second)) / 10 ^ 9))"

definition Evaluate :: "'s Store \<Rightarrow> AnomalyDetector \<Rightarrow> Heartbeat \<Rightarrow> 's \<Rightarrow> Alert option" where
  "Evaluate S ad event s =
    (case st_GetLatestByNode S (hb_NodeName event) s of
       Inl err \<Rightarrow> None
     | Inr None \<Rightarrow> None
     | Inr (Some latest) \<Rightarrow>
         let gap = time_Sub (hb_Timestamp event) (hb_Timestamp latest) in
         if gap \<le> ad_warningThreshold ad then None
         else
           let severity = (if ad_criticalThreshold ad < gap then ''critical'' else ''warning'');
               from' = time_Add (hb_Timestamp event) (- dur_mul 120 Second);
               alert = \<lparr>al_NodeName = hb_NodeName event,
                        al_Namespace = hb_Namespace event,
                        al_Gap = duration_Seconds gap,
                        al_Severity = severity,
                        al_Timestamp = hb_Timestamp event,
                        al_KernelEvents = []\<rparr>
           in Some (case st_GetKernelEvents S (hb_NodeName event) from' (hb_Timestamp event) s of
                Inl err \<Rightarrow> alert
              | Inr kernelEvents \<Rightarrow>
                  if 0 < length kernelEvents then alert\<lparr>al_KernelEvents := kernelEvents\<rparr>
                  else alert))"

section \<open>Delivery\<close>

text \<open>
  \<^verbatim>\<open>Dispatch\<close> broadcasts to the hub when a broadcast function is set, and posts to the webhook when
  a URL is set (in a goroutine; a failed post is only logged).
\<close>

record AlertDispatcher =
  dp_webhookURL :: string
  dp_hasBroadcast :: bool

datatype delivery = WSBroadcast WSMessage | WebhookPost string Alert

definition Dispatch :: "AlertDispatcher \<Rightarrow> Alert \<Rightarrow> delivery list" where
  "Dispatch d alert =
     (if dp_hasBroadcast d then [WSBroadcast (AlertMsg alert)] else []) @
     (if dp_webhookURL d \<noteq> '''' then [WebhookPost (dp_webhookURL d) alert] else [])"

section \<open>When an alert is raised\<close>

lemma seconds_in_range: "0 \<le> n \<Longrightarrow> n < 2 ^ 33 \<Longrightarrow> dur_mul n Second = n * 10 ^ 9"
  by (simp add: dur_mul_def Second_def i64_def)

lemma Evaluate_None_iff:
  "Evaluate S ad event s = None \<longleftrightarrow>
    (\<forall>latest. st_GetLatestByNode S (hb_NodeName event) s = Inr (Some latest) \<longrightarrow>
       time_Sub (hb_Timestamp event) (hb_Timestamp latest) \<le> ad_warningThreshold ad)"
  by (auto simp: Evaluate_def Let_def split: sum.splits option.splits)

lemma Evaluate_SomeD:
  assumes "Evaluate S ad event s = Some a"
  obtains latest where "st_GetLatestByNode S (hb_NodeName event) s = Inr (Some latest)"
    and "ad_warningThreshold ad < time_Sub (hb_Timestamp event) (hb_Timestamp latest)"
    and "al_NodeName a = hb_NodeName event" and "al_Timestamp a = hb_Timestamp event"
    and "al_Severity a = (if ad_criticalThreshold ad <
           time_Sub (hb_Timestamp event) (hb_Timestamp latest) then ''critical'' else ''warning'')"
    and "al_KernelEvents a =
      (case st_GetKernelEvents S (hb_NodeName event) (hb_Timestamp event - 120 * 10 ^ 9)
              (hb_Timestamp event) s of Inl err \<Rightarrow> [] | Inr evs \<Rightarrow> evs)"
  using assms
  by (auto simp: Evaluate_def Let_def time_Add_def seconds_in_range
      split: sum.splits option.splits if_splits)

context kernel_event_store
begin

lemma alert_events_in_window:
  assumes "Evaluate S ad event s = Some a" and "e \<in> set (al_KernelEvents a)"
  shows "ev_NodeName e = al_NodeName a \<and> al_Timestamp a - 120 * 10 ^ 9 \<le> ev_Timestamp e \<and>
    ev_Timestamp e \<le> al_Timestamp a"
  using assms(1)
proof (rule Evaluate_SomeD)
  assume n: "al_NodeName a = hb_NodeName event" and t: "al_Timestamp a = hb_Timestamp event"
    and k: "al_KernelEvents a =
      (case st_GetKernelEvents S (hb_NodeName event) (hb_Timestamp event - 120 * 10 ^ 9)
              (hb_Timestamp event) s of Inl err \<Rightarrow> [] | Inr evs \<Rightarrow> evs)"
  from k assms(2) show ?thesis
    unfolding n t by (auto split: sum.splits dest: events_in_window)
qed

end

text \<open>
  A heartbeat is saved before it is evaluated, so the latest heartbeat the detector reads is not
  older than the event itself and the gap is never positive.
\<close>

context heartbeat_store
begin

lemma no_alert_after_save:
  assumes "st_Save S hb s = (None, s')" and "0 \<le> ad_warningThreshold ad"
  shows "Evaluate S ad hb s' = None"
proof -
  have "time_Sub (hb_Timestamp hb) (hb_Timestamp l) \<le> ad_warningThreshold ad"
    if l: "st_GetLatestByNode S (hb_NodeName hb) s' = Inr (Some l)" for l
  proof -
    from latest_after_save [OF assms(1) l] have "hb_Timestamp hb \<le> hb_Timestamp l" by auto
    then show ?thesis using time_Sub_nonpos assms(2) by fastforce
  qed
  then show ?thesis by (auto simp: Evaluate_None_iff)
qed

end

end
