(* ===== verification/GoTime.thy ===== *)
theory GoTime
  imports GoBase "HOL-Library.Multiset"
begin

text \<open>
  Calendar text of an instant (\<^verbatim>\<open>Time.Format\<close> with the two layouts the program uses, in UTC) and the
  contract of \<^verbatim>\<open>sort.Slice\<close>, whose order among equal elements Go leaves open.
\<close>

section \<open>Calendar dates\<close>

text \<open>Days since 1970-01-01 to year, month and day, in the proleptic Gregorian calendar.\<close>

definition civil :: "int \<Rightarrow> int \<times> int \<times> int" where
  "civil days =
    (let z = days + 719468;
         era = z div 146097;
         doe = z mod 146097;
         yoe = (doe - doe div 1460 + doe div 36524 - doe div 146096) div 365;
         doy = doe - (365 * yoe + yoe div 4 - yoe div 100);
         mp = (5 * doy + 2) div 153;
         d = doy - (153 * mp + 2) div 5 + 1;
         m = (if mp < 10 then mp + 3 else mp - 9);
         y = yoe + era * 400 + (if m \<le> 2 then 1 else 0)
     in (y, m, d))"

definition pad_int :: "nat \<Rightarrow> int \<Rightarrow> string" where
  "pad_int w i =
    (let s = show_nat (nat \<bar>i\<bar>)
     in (if i < 0 then ''-'' else []) @ replicate (w - length s) CHR ''0'' @ s)"

definition clock :: "Time \<Rightarrow> int \<times> int \<times> int" where
  "clock t = (let s = t div 10 ^ 9 mod 86400 in (s div 3600, s mod 3600 div 60, s mod 60))"

text \<open>The layout \<^verbatim>\<open>time.RFC3339\<close>, and \<^verbatim>\<open>20060102T150405\<close> of the file names.\<close>

definition format_RFC3339 :: "Time \<Rightarrow> string" where
  "format_RFC3339 t =
    (case civil (t div 10 ^ 9 div 86400) of (y, m, d) \<Rightarrow>
     case clock t of (hh, mm, ss) \<Rightarrow>
       pad_int 4 y @ ''-'' @ pad_int 2 m @ ''-'' @ pad_int 2 d @ ''T'' @
       pad_int 2 hh @ '':'' @ pad_int 2 mm @ '':'' @ pad_int 2 ss @ ''Z'')"

definition format_compact :: "Time \<Rightarrow> string" where
  "format_compact t =
    (case civil (t div 10 ^ 9 div 86400) of (y, m, d) \<Rightarrow>
     case clock t of (hh, mm, ss) \<Rightarrow>
       pad_int 4 y @ pad_int 2 m @ pad_int 2 d @ ''T'' @
       pad_int 2 hh @ pad_int 2 mm @ pad_int 2 ss)"

lemma zero_time_format: "format_RFC3339 zero_time = ''0001-01-01T00:00:00Z''"
  by code_simp

lemma sample_format: "format_compact (1774387496 * 10 ^ 9) = ''20260324T212456''"
  by code_simp

section \<open>\<^verbatim>\<open>sort.Slice\<close>\<close>

text \<open>
  The result is a permutation, sorted by the key that the comparison reads.  It need not be stable,
  so clients take the sorting function as an argument and rely on this contract.
\<close>

locale slice_sort =
  fixes sorter :: "('a \<Rightarrow> 'a \<Rightarrow> bool) \<Rightarrow> 'a list \<Rightarrow> 'a list"
  assumes sorter_mset: "mset (sorter lt xs) = mset xs"
    and sorter_sorted: "sorted (map (key :: 'a \<Rightarrow> int) (sorter (\<lambda>a b. key a < key b) xs))"
begin

lemma sorter_set: "set (sorter lt xs) = set xs"
  using sorter_mset by (metis set_mset_mset)

lemma sorter_length: "length (sorter lt xs) = length xs"
  using sorter_mset by (metis size_mset)

lemma sorter_Nil: "sorter lt xs = [] \<longleftrightarrow> xs = []"
  using sorter_length by (metis length_0_conv)

lemma sorter_hd_least:
  "xs \<noteq> [] \<Longrightarrow> x \<in> set xs \<Longrightarrow> key (hd (sorter (\<lambda>a b. key a < key b) xs)) \<le> (key x :: int)"
proof -
  assume ne: "xs \<noteq> []" and x: "x \<in> set xs"
  let ?ys = "sorter (\<lambda>a b. key a < key b) xs"
  obtain y ys where ys: "?ys = y # ys" using ne sorter_Nil by (cases ?ys) auto
  have "x \<in> set ?ys" using x sorter_set by simp
  moreover have "sorted (map key ?ys)" by (rule sorter_sorted)
  ultimately show ?thesis unfolding ys by auto
qed

end

text \<open>
  The insertion sort that \<^verbatim>\<open>sort.Slice\<close> runs on short slices (at most 12 elements): each element in
  turn moves left past the greater ones.
\<close>

fun sift_left :: "('a \<Rightarrow> 'a \<Rightarrow> bool) \<Rightarrow> 'a \<Rightarrow> 'a list \<Rightarrow> 'a list" where
  "sift_left lt x [] = [x]"
| "sift_left lt x (y # ys) = (if lt x y then y # sift_left lt x ys else x # y # ys)"

text \<open>The accumulator holds the sorted prefix, last element first.\<close>

fun insertion_loop :: "('a \<Rightarrow> 'a \<Rightarrow> bool) \<Rightarrow> 'a list \<Rightarrow> 'a list \<Rightarrow> 'a list" where
  "insertion_loop lt acc [] = rev acc"
| "insertion_loop lt acc (x # xs) = insertion_loop lt (sift_left lt x acc) xs"

definition insertion_sort :: "('a \<Rightarrow> 'a \<Rightarrow> bool) \<Rightarrow> 'a list \<Rightarrow> 'a list" where
  "insertion_sort lt xs = insertion_loop lt [] xs"

lemma mset_sift_left: "mset (sift_left lt x ys) = add_mset x (mset ys)"
  by (induction ys) auto

lemma mset_insertion_loop: "mset (insertion_loop lt acc xs) = mset acc + mset xs"
  by (induction lt acc xs rule: insertion_loop.induct) (auto simp: mset_sift_left)

lemma set_sift_left: "set (sift_left lt x ys) = insert x (set ys)"
  by (metis mset_sift_left set_mset_add_mset_insert set_mset_mset)

lemma sorted_sift_left:
  fixes key :: "'a \<Rightarrow> 'k::linorder"
  assumes "sorted_wrt (\<lambda>a b. key b \<le> key a) ys"
  shows "sorted_wrt (\<lambda>a b. key b \<le> key a) (sift_left (\<lambda>a b. key a < key b) x ys)"
  using assms by (induction ys) (auto simp: set_sift_left)

lemma sorted_insertion_loop:
  fixes key :: "'a \<Rightarrow> 'k::linorder"
  assumes "sorted_wrt (\<lambda>a b. key b \<le> key a) acc"
  shows "sorted (map key (insertion_loop (\<lambda>a b. key a < key b) acc xs))"
  using assms
proof (induction xs arbitrary: acc)
  case Nil
  then show ?case by (simp add: sorted_wrt_rev sorted_wrt_map flip: rev_map)
next
  case (Cons x xs)
  then show ?case using sorted_sift_left [of key acc x] by simp
qed

interpretation go_insertion: slice_sort insertion_sort
  by unfold_locales
     (simp_all add: insertion_sort_def mset_insertion_loop sorted_insertion_loop)

end
