(* ===== verification/CausalChains.thy ===== *)
theory CausalChains
  imports EventStore ServerTypes GoTime
begin

text \<open>
  The causal chain of a NotReady transition, \<^verbatim>\<open>src/src/server/causal_chain.go\<close>: the kernel events of
  the preceding 120 seconds in time order, a summary and a root cause.  \<open>sorter\<close> is
  \<^verbatim>\<open>sort.Slice\<close>.
\<close>

section \<open>Summary\<close>

record EventCounts =
  n_slowSyscalls :: int
  n_criticalExits :: int
  n_netEvents :: int
  n_fsIOEvents :: int
  n_memPressureEvents :: int
  n_dnsEvents :: int
  n_cgroupEvents :: int
  n_auditEvents :: int

definition zero_counts :: EventCounts where
  "zero_counts = \<lparr>n_slowSyscalls = 0, n_criticalExits = 0, n_netEvents = 0, n_fsIOEvents = 0,
     n_memPressureEvents = 0, n_dnsEvents = 0, n_cgroupEvents = 0, n_auditEvents = 0\<rparr>"

text \<open>The body of the counting loop: an ordered switch on flags, then a switch on the type.\<close>

definition count_event :: "EnrichedEvent \<Rightarrow> EventCounts \<Rightarrow> EventCounts" where
  "count_event e c0 =
    (let c = (if ev_SlowSyscall e then c0\<lparr>n_slowSyscalls := n_slowSyscalls c0 + 1\<rparr>
              else if ev_CriticalExit e then c0\<lparr>n_criticalExits := n_criticalExits c0 + 1\<rparr>
              else if ev_EventType e = ''network'' then c0\<lparr>n_netEvents := n_netEvents c0 + 1\<rparr>
              else c0)
     in if ev_EventType e = ''filesystem_io'' then c\<lparr>n_fsIOEvents := n_fsIOEvents c + 1\<rparr>
        else if ev_EventType e = ''memory_pressure''
          then c\<lparr>n_memPressureEvents := n_memPressureEvents c + 1\<rparr>
        else if ev_EventType e = ''dns_resolution'' then c\<lparr>n_dnsEvents := n_dnsEvents c + 1\<rparr>
        else if ev_EventType e = ''cgroup_resource'' then c\<lparr>n_cgroupEvents := n_cgroupEvents c + 1\<rparr>
        else if ev_EventType e = ''network_audit'' then c\<lparr>n_auditEvents := n_auditEvents c + 1\<rparr>
        else c)"

definition part_if :: "int \<Rightarrow> string \<Rightarrow> string list" where
  "part_if n msg = (if 0 < n then [show_int n @ msg] else [])"

definition generateSummary :: "string \<Rightarrow> Time \<Rightarrow> EnrichedEvent list \<Rightarrow> string" where
  "generateSummary nodeName transitionTime events =
    (let c = fold count_event events zero_counts in
     join ''. ''
       ([''Node '' @ nodeName @ '' went NotReady at '' @ format_RFC3339 transitionTime @ ''.''] @
        part_if (n_slowSyscalls c) '' slow syscall(s) detected'' @
        part_if (n_criticalExits c) '' critical process exit(s)'' @
        part_if (n_netEvents c) '' network event(s)'' @
        part_if (n_fsIOEvents c) '' filesystem I/O event(s)'' @
        part_if (n_memPressureEvents c) '' memory pressure event(s)'' @
        part_if (n_dnsEvents c) '' DNS resolution event(s)'' @
        part_if (n_cgroupEvents c) '' cgroup resource event(s)'' @
        part_if (n_auditEvents c) '' network audit event(s)'' @
        [''Total '' @ show_int (int (length events)) @ '' kernel events in 120s window'']))"

section \<open>Root cause\<close>

text \<open>
  One entry per loop of \<^verbatim>\<open>detectRootCause\<close>, in its order: the test, and the text for the first
  event that passes it.
\<close>

definition root_cause_rules :: "((EnrichedEvent \<Rightarrow> bool) \<times> (EnrichedEvent \<Rightarrow> string)) list" where
  "root_cause_rules =
    [(\<lambda>e. ev_CriticalExit e,
      \<lambda>e. ''critical_exit: '' @ ev_Comm e @ '' (pid='' @ show_uword (ev_PID e) @ '', exit_code='' @
          show_sword (ev_ExitCode e) @ '')''),
     (\<lambda>e. ev_EventType e = ''memory_pressure'' \<and> ev_OOMSubType e = ''oom_kill'',
      \<lambda>e. ''oom_kill: '' @ ev_KilledComm e @ '' (killed_pid='' @ show_uword (ev_KilledPID e) @ '')''),
     (\<lambda>e. ev_EventType e = ''filesystem_io'' \<and> ev_SlowIO e,
      \<lambda>e. ''filesystem_io_bottleneck: '' @ ev_FilePath e @ '' (latency='' @
          show_uword (ev_IOLatencyNs e) @ ''ns)''),
     (\<lambda>e. ev_EventType e = ''dns_resolution'' \<and> ev_TimedOut e,
      \<lambda>e. ''dns_timeout: '' @ ev_Domain e),
     (\<lambda>e. ev_SlowSyscall e,
      \<lambda>e. ''slow_syscall: '' @ ev_Comm e @ '' (latency='' @ show_uword (ev_LatencyNs e) @ ''ns)''),
     (\<lambda>e. ev_EventType e = ''network'' \<and> ev_NetEventType e = ''rtt_high'',
      \<lambda>e. ''network_degradation: high RTT '' @ show_uword (ev_RTTUs e) @ ''us'')]"

fun first_rule ::
  "((EnrichedEvent \<Rightarrow> bool) \<times> (EnrichedEvent \<Rightarrow> string)) list \<Rightarrow> EnrichedEvent list \<Rightarrow> string" where
  "first_rule [] events = ''unknown_cause''"
| "first_rule ((test, msg) # rules) events =
     (case List.find test events of Some e \<Rightarrow> msg e | None \<Rightarrow> first_rule rules events)"

definition detectRootCause :: "EnrichedEvent list \<Rightarrow> string" where
  "detectRootCause events = first_rule root_cause_rules events"

section \<open>The builder\<close>

record CausalChainBuilder =
  cb_hasHub :: bool
  cb_windowSize :: Duration

definition defaultLookbackWindow :: Duration where
  "defaultLookbackWindow = dur_mul 120 Second"

definition NewCausalChainBuilder :: "bool \<Rightarrow> CausalChainBuilder" where
  "NewCausalChainBuilder hasHub = \<lparr>cb_hasHub = hasHub, cb_windowSize = defaultLookbackWindow\<rparr>"

type_synonym event_sorter =
  "(EnrichedEvent \<Rightarrow> EnrichedEvent \<Rightarrow> bool) \<Rightarrow> EnrichedEvent list \<Rightarrow> EnrichedEvent list"

definition by_timestamp :: "EnrichedEvent \<Rightarrow> EnrichedEvent \<Rightarrow> bool" where
  "by_timestamp a b = Before (ev_Timestamp a) (ev_Timestamp b)"

definition buildChain :: "event_sorter \<Rightarrow> string \<Rightarrow> Time \<Rightarrow> EnrichedEvent list \<Rightarrow> CausalChain" where
  "buildChain sorter nodeName transitionTime events0 =
    (let events = sorter by_timestamp events0 in
     if length events = 0 then
       \<lparr>cc_NodeName = nodeName, cc_Timestamp = transitionTime, cc_Events = events,
        cc_Summary = ''Node '' @ nodeName @ '' went NotReady at '' @ format_RFC3339 transitionTime @
          '' with no correlated kernel events found'',
        cc_RootCause = ''unknown_cause''\<rparr>
     else
       \<lparr>cc_NodeName = nodeName, cc_Timestamp = transitionTime, cc_Events = events,
        cc_Summary = generateSummary nodeName transitionTime events,
        cc_RootCause = detectRootCause events\<rparr>)"

datatype chain_error = QueryKernelEvents store_error | SaveCausalChain store_error

text \<open>The result, the store afterwards and the messages handed to the hub.\<close>

definition OnNotReady ::
  "event_sorter \<Rightarrow> 's Store \<Rightarrow> CausalChainBuilder \<Rightarrow> string \<Rightarrow> Time \<Rightarrow> 's \<Rightarrow>
   (chain_error + CausalChain) \<times> 's \<times> WSMessage list" where
  "OnNotReady sorter S ccb nodeName transitionTime s =
    (let from' = time_Add transitionTime (- cb_windowSize ccb);
         to' = transitionTime
     in case st_GetKernelEvents S nodeName from' to' s of
          Inl err \<Rightarrow> (Inl (QueryKernelEvents err), s, [])
        | Inr events \<Rightarrow>
            let chain = buildChain sorter nodeName transitionTime events in
            (case st_SaveCausalChain S chain s of
               (Some err, s') \<Rightarrow> (Inl (SaveCausalChain err), s', [])
             | (None, s') \<Rightarrow>
                 (Inr chain, s', if cb_hasHub ccb then [CausalChainMsg chain] else [])))"

section \<open>The counters\<close>

text \<open>An optimised-away view: each counter is the number of events that its branch takes.\<close>

lemma count_event_fields:
  "n_slowSyscalls (count_event e c) = n_slowSyscalls c + (if ev_SlowSyscall e then 1 else 0)"
  "n_criticalExits (count_event e c) =
     n_criticalExits c + (if \<not> ev_SlowSyscall e \<and> ev_CriticalExit e then 1 else 0)"
  "n_netEvents (count_event e c) =
     n_netEvents c + (if \<not> ev_SlowSyscall e \<and> \<not> ev_CriticalExit e \<and> ev_EventType e = ''network''
       then 1 else 0)"
  "n_fsIOEvents (count_event e c) = n_fsIOEvents c + (if ev_EventType e = ''filesystem_io'' then 1 else 0)"
  "n_memPressureEvents (count_event e c) =
     n_memPressureEvents c + (if ev_EventType e = ''memory_pressure'' then 1 else 0)"
  "n_dnsEvents (count_event e c) = n_dnsEvents c + (if ev_EventType e = ''dns_resolution'' then 1 else 0)"
  "n_cgroupEvents (count_event e c) =
     n_cgroupEvents c + (if ev_EventType e = ''cgroup_resource'' then 1 else 0)"
  "n_auditEvents (count_event e c) =
     n_auditEvents c + (if ev_EventType e = ''network_audit'' then 1 else 0)"
  by (simp_all add: count_event_def Let_def)

lemma fold_counter:
  assumes "\<And>e c. f (count_event e c) = (f c :: int) + (if P e then 1 else 0)"
  shows "f (fold count_event events c) = f c + int (length (filter P events))"
  by (induction events arbitrary: c) (auto simp: assms)

lemmas fold_counters =
  fold_counter [where f = n_slowSyscalls, OF count_event_fields(1)]
  fold_counter [where f = n_criticalExits, OF count_event_fields(2)]
  fold_counter [where f = n_netEvents, OF count_event_fields(3)]
  fold_counter [where f = n_fsIOEvents, OF count_event_fields(4)]
  fold_counter [where f = n_memPressureEvents, OF count_event_fields(5)]
  fold_counter [where f = n_dnsEvents, OF count_event_fields(6)]
  fold_counter [where f = n_cgroupEvents, OF count_event_fields(7)]
  fold_counter [where f = n_auditEvents, OF count_event_fields(8)]

section \<open>The priority of root causes\<close>

lemma first_rule_skip:
  "\<forall>(test, msg) \<in> set rs. \<forall>e \<in> set events. \<not> test e \<Longrightarrow> first_rule (rs @ rs') events = first_rule rs' events"
proof (induction rs)
  case (Cons r rs)
  then show ?case
    by (cases r) (auto simp: find_None_iff_all [THEN iffD2])
qed simp

lemma first_rule_hit:
  assumes "\<forall>(test, msg) \<in> set rs. \<forall>e \<in> set events. \<not> test e"
    and "List.find test events = Some e"
  shows "first_rule (rs @ (test, msg) # rs') events = msg e"
  using first_rule_skip [OF assms(1), of "(test, msg) # rs'"] assms(2) by simp

lemma first_rule_unknown:
  "\<forall>(test, msg) \<in> set rs. \<forall>e \<in> set events. \<not> test e \<Longrightarrow> first_rule rs events = ''unknown_cause''"
  using first_rule_skip [of rs events "[]"] by simp

text \<open>Conversely, a cause other than \<open>unknown_cause\<close> comes from an event that passes a test.\<close>

lemma first_rule_cases:
  "first_rule rs events = ''unknown_cause'' \<or>
   (\<exists>(test, msg) \<in> set rs. \<exists>e \<in> set events. test e \<and> first_rule rs events = msg e)"
proof (induction rs)
  case (Cons r rs)
  obtain test msg where r: "r = (test, msg)" by force
  show ?case
  proof (cases "List.find test events")
    case None
    with Cons r show ?thesis by auto
  next
    case (Some e)
    with r show ?thesis by (auto dest: find_SomeD)
  qed
qed simp

lemma rule_texts_known:
  "(test, msg) \<in> set root_cause_rules \<Longrightarrow> msg e \<noteq> ''unknown_cause''"
  by (auto simp: root_cause_rules_def)

lemma first_rule_unknown_iff:
  assumes "\<forall>(test, msg) \<in> set rs. \<forall>e. msg e \<noteq> ''unknown_cause''"
  shows "first_rule rs events = ''unknown_cause'' \<longleftrightarrow>
     (\<forall>(test, msg) \<in> set rs. \<forall>e \<in> set events. \<not> test e)"
  using assms
proof (induction rs)
  case (Cons r rs)
  obtain test msg where r: "r = (test, msg)" by force
  show ?case
  proof (cases "List.find test events")
    case None
    moreover have "\<forall>e \<in> set events. \<not> test e"
      using None by (simp add: find_None_iff_all)
    ultimately show ?thesis using Cons r by simp
  next
    case (Some e)
    with Cons.prems r show ?thesis by (auto dest: find_SomeD)
  qed
qed simp

lemma detectRootCause_unknown:
  "detectRootCause events = ''unknown_cause'' \<longleftrightarrow>
     (\<forall>(test, msg) \<in> set root_cause_rules. \<forall>e \<in> set events. \<not> test e)"
  unfolding detectRootCause_def
  by (rule first_rule_unknown_iff) (auto dest: rule_texts_known)

text \<open>The rules in their order of priority, each after the failure of the earlier ones.\<close>

lemma detectRootCause_cases:
  "detectRootCause events =
     (case List.find ev_CriticalExit events of
        Some e \<Rightarrow> ''critical_exit: '' @ ev_Comm e @ '' (pid='' @ show_uword (ev_PID e) @
          '', exit_code='' @ show_sword (ev_ExitCode e) @ '')''
      | None \<Rightarrow> first_rule (tl root_cause_rules) events)"
  by (simp add: detectRootCause_def root_cause_rules_def split: option.split)

section \<open>The chain that a transition builds\<close>

lemma buildChain_fields [simp]:
  "cc_NodeName (buildChain sorter n t evs) = n"
  "cc_Timestamp (buildChain sorter n t evs) = t"
  "cc_Events (buildChain sorter n t evs) = sorter by_timestamp evs"
  by (simp_all add: buildChain_def Let_def)

lemma by_timestamp_key: "by_timestamp = (\<lambda>a b. ev_Timestamp a < ev_Timestamp b)"
  by (auto simp: by_timestamp_def Before_def fun_eq_iff)

context slice_sort
begin

lemma by_key_cong:
  "(\<And>a b. lt a b \<longleftrightarrow> key a < (key b :: int)) \<Longrightarrow> sorted (map key (sorter lt xs))"
  using sorter_sorted [of key xs] by presburger

end

text \<open>
  What \<^verbatim>\<open>buildChain\<close> promises for any sorting function and any events: the events of the chain are
  those given, in time order.
\<close>

definition chain_of_events :: "string \<Rightarrow> Time \<Rightarrow> EnrichedEvent list \<Rightarrow> CausalChain \<Rightarrow> bool" where
  "chain_of_events n t evs c \<longleftrightarrow>
     cc_NodeName c = n \<and> cc_Timestamp c = t \<and> mset (cc_Events c) = mset evs \<and>
     sorted (map ev_Timestamp (cc_Events c)) \<and>
     cc_RootCause c = detectRootCause (cc_Events c)"

lemma buildChain_chain:
  assumes "slice_sort sorter"
  shows "chain_of_events n t evs (buildChain sorter n t evs)"
proof -
  note ms = slice_sort.sorter_mset [OF assms]
  have "sorted (map ev_Timestamp (sorter by_timestamp evs))"
    unfolding by_timestamp_key by (rule slice_sort.sorter_sorted [OF assms])
  moreover have "cc_RootCause (buildChain sorter n t evs) = detectRootCause (sorter by_timestamp evs)"
    by (simp add: buildChain_def Let_def detectRootCause_def root_cause_rules_def)
  ultimately show ?thesis by (simp add: chain_of_events_def ms)
qed

lemma OnNotReady_ok_iff:
  "fst (OnNotReady sorter S ccb n t s) = Inr chain \<longleftrightarrow>
     (\<exists>evs s'. st_GetKernelEvents S n (time_Add t (- cb_windowSize ccb)) t s = Inr evs \<and>
        chain = buildChain sorter n t evs \<and> st_SaveCausalChain S chain s = (None, s'))"
  by (auto simp: OnNotReady_def Let_def split: sum.splits prod.splits option.splits)

lemma OnNotReady_ok_effect:
  assumes "OnNotReady sorter S ccb n t s = (Inr chain, s', msgs)"
  shows "st_SaveCausalChain S chain s = (None, s')"
    and "msgs = (if cb_hasHub ccb then [CausalChainMsg chain] else [])"
  using assms by (auto simp: OnNotReady_def Let_def split: sum.splits prod.splits option.splits)

lemma OnNotReady_error:
  assumes "OnNotReady sorter S ccb n t s = (Inl err, s', msgs)"
  shows "msgs = []"
  using assms by (auto simp: OnNotReady_def Let_def split: sum.splits prod.splits option.splits)

context kernel_event_store
begin

lemma OnNotReady_events:
  assumes sort: "slice_sort sorter"
    and run: "OnNotReady sorter S ccb n t s = (Inr chain, s', msgs)"
  shows "set (cc_Events chain) = {e \<in> set (kernel_events s). ev_NodeName e = n \<and>
           time_Add t (- cb_windowSize ccb) \<le> ev_Timestamp e \<and> ev_Timestamp e \<le> t}"
    and "sorted (map ev_Timestamp (cc_Events chain))"
    and "cc_RootCause chain = detectRootCause (cc_Events chain)"
proof -
  obtain evs where evs: "st_GetKernelEvents S n (time_Add t (- cb_windowSize ccb)) t s = Inr evs"
    and c: "chain = buildChain sorter n t evs"
    using OnNotReady_ok_iff [of sorter S ccb n t s chain] run by auto
  have chain: "chain_of_events n t evs chain"
    unfolding c by (rule buildChain_chain [OF sort])
  then have "set (cc_Events chain) = set evs"
    by (metis chain_of_events_def set_mset_mset)
  then show "set (cc_Events chain) = {e \<in> set (kernel_events s). ev_NodeName e = n \<and>
           time_Add t (- cb_windowSize ccb) \<le> ev_Timestamp e \<and> ev_Timestamp e \<le> t}"
    using get_kernel_events [OF evs] by (auto simp: in_range_iff)
  show "sorted (map ev_Timestamp (cc_Events chain))"
    and "cc_RootCause chain = detectRootCause (cc_Events chain)"
    using chain by (simp_all add: chain_of_events_def)
qed

end

text \<open>With the in-memory store the operation always succeeds.\<close>

lemma OnNotReady_memory_total:
  "\<exists>chain s' msgs. OnNotReady sorter memory_store ccb n t s = (Inr chain, s', msgs)"
  by (simp add: OnNotReady_def Let_def memory_store_defs)

end
