(* ===== verification/Predictions.thy ===== *)
theory Predictions
  imports EventStore ServerTypes
begin

text \<open>
  Failure prediction, \<^verbatim>\<open>src/src/server/prediction.go\<close>: seven pattern detectors, each giving a score,
  the combined confidence, and the bookkeeping of outcomes.  Scores are \<^verbatim>\<open>float64\<close>, rounded after
  every operation.
\<close>

section \<open>The detectors\<close>

text \<open>The number of positions whose latency exceeds the one before it.\<close>

fun count_increasing :: "64 word list \<Rightarrow> nat" where
  "count_increasing (x # y # ys) = (if x < y then 1 else 0) + count_increasing (y # ys)"
| "count_increasing _ = 0"

definition increasing_ratio :: "64 word list \<Rightarrow> float64" where
  "increasing_ratio latencies =
     fl (fl (of_nat (count_increasing latencies)) / fl (of_nat (length latencies - 1)))"

definition detectSyscallLatencyTrend :: "EnrichedEvent list \<Rightarrow> float64" where
  "detectSyscallLatencyTrend events =
    (let latencies = map ev_LatencyNs
           (filter (\<lambda>e. ev_EventType e = ''syscall'' \<and> 0 < ev_LatencyNs e) events)
     in if length latencies < 3 then 0
        else let ratio = increasing_ratio latencies in
          if fl (6 / 10) < ratio then fl (ratio * fl (4 / 10)) else 0)"

definition detectRetransmitSpike :: "EnrichedEvent list \<Rightarrow> float64" where
  "detectRetransmitSpike events =
    (let retransmits = length
           (filter (\<lambda>e. ev_EventType e = ''network'' \<and> ev_NetEventType e = ''retransmit'') events)
     in if 5 \<le> retransmits then min (fl (fl (of_nat retransmits) / 10)) (fl (5 / 10)) else 0)"

definition detectCriticalExits :: "EnrichedEvent list \<Rightarrow> float64" where
  "detectCriticalExits events = (if list_ex ev_CriticalExit events then fl (8 / 10) else 0)"

definition detectHighRTT :: "EnrichedEvent list \<Rightarrow> float64" where
  "detectHighRTT events =
    (let highRTT = length
           (filter (\<lambda>e. ev_EventType e = ''network'' \<and> ev_NetEventType e = ''rtt_high'') events)
     in if 3 \<le> highRTT then min (fl (fl (of_nat highRTT) / 8)) (fl (4 / 10)) else 0)"

definition detectFilesystemIODegradation :: "EnrichedEvent list \<Rightarrow> float64" where
  "detectFilesystemIODegradation events =
    (let latencies = map ev_IOLatencyNs
           (filter (\<lambda>e. ev_EventType e = ''filesystem_io'' \<and> 0 < ev_IOLatencyNs e) events)
     in if length latencies < 3 then 0
        else let ratio = increasing_ratio latencies in
          if fl (6 / 10) < ratio then fl (ratio * fl (4 / 10)) else 0)"

definition detectMemoryPressureEscalation :: "EnrichedEvent list \<Rightarrow> float64" where
  "detectMemoryPressureEscalation events =
    (let oomKills = length
           (filter (\<lambda>e. ev_EventType e = ''memory_pressure'' \<and> ev_OOMSubType e = ''oom_kill'') events);
         pressureCount = length
           (filter (\<lambda>e. ev_EventType e = ''cgroup_resource'' \<and> ev_MemoryPressure e) events)
     in if 0 < oomKills
          then min (fl (fl (8 / 10) + fl (fl (of_nat oomKills) * fl (5 / 100)))) 1
        else if 2 \<le> pressureCount
          then min (fl (fl (of_nat pressureCount) * fl (15 / 100))) (fl (6 / 10))
        else 0)"

definition detectDNSResolutionDegradation :: "EnrichedEvent list \<Rightarrow> float64" where
  "detectDNSResolutionDegradation events =
    (let dns = filter (\<lambda>e. ev_EventType e = ''dns_resolution'') events;
         timedOutCount = length (filter ev_TimedOut dns);
         latencies = map ev_DNSLatencyNs (filter (\<lambda>e. 0 < ev_DNSLatencyNs e) dns)
     in if 0 < timedOutCount
          then min (fl (fl (5 / 10) + fl (fl (of_nat timedOutCount) * fl (1 / 10)))) (fl (8 / 10))
        else if 3 \<le> length latencies
          then let ratio = increasing_ratio latencies in
            if fl (6 / 10) < ratio then fl (ratio * fl (35 / 100)) else 0
        else 0)"

definition estimateTTF :: "float64 \<Rightarrow> float64" where
  "estimateTTF confidence =
    (if confidence \<le> 0 then 60
     else let ttf = fl (60 - fl (confidence * 50)) in if ttf < 1 then 1 else ttf)"

section \<open>The engine\<close>

record PredictionEngine =
  pe_hasHub :: bool
  pe_windowSize :: Duration
  pe_predictions :: "Prediction list"

definition NewPredictionEngine :: "bool \<Rightarrow> PredictionEngine" where
  "NewPredictionEngine hasHub =
     \<lparr>pe_hasHub = hasHub, pe_windowSize = dur_mul 5 Minute, pe_predictions = []\<rparr>"

text \<open>One of the seven blocks of \<^verbatim>\<open>Analyze\<close>: name and score are recorded when the score is positive.\<close>

definition add_pattern :: "string \<Rightarrow> float64 \<Rightarrow> string list \<times> float64 \<Rightarrow> string list \<times> float64" where
  "add_pattern name score pc =
     (if 0 < score then (fst pc @ [name], fl (snd pc + score)) else pc)"

definition pattern_scores :: "EnrichedEvent list \<Rightarrow> (string \<times> float64) list" where
  "pattern_scores events =
    [(''syscall_latency_trend'', detectSyscallLatencyTrend events),
     (''retransmit_spike'', detectRetransmitSpike events),
     (''critical_exit'', detectCriticalExits events),
     (''high_rtt'', detectHighRTT events),
     (''filesystem_io_degradation'', detectFilesystemIODegradation events),
     (''memory_pressure_escalation'', detectMemoryPressureEscalation events),
     (''dns_resolution_degradation'', detectDNSResolutionDegradation events)]"

definition combine :: "(string \<times> float64) list \<Rightarrow> string list \<times> float64" where
  "combine scores = fold (\<lambda>(name, score). add_pattern name score) scores ([], 0)"

text \<open>The combined confidence: at least 0.7 when three patterns fire, then clamped.\<close>

definition confidence_of :: "nat \<Rightarrow> float64 \<Rightarrow> float64" where
  "confidence_of n c0 =
    (let c1 = (if 3 \<le> n then max c0 (fl (7 / 10)) else c0) in max (min c1 1) 0)"

text \<open>
  \<open>now\<close> is the reading of the clock.  The result, the engine afterwards and the messages handed to
  the hub.
\<close>

definition Analyze ::
  "Time \<Rightarrow> string \<Rightarrow> EnrichedEvent list \<Rightarrow> PredictionEngine \<Rightarrow>
   Prediction option \<times> PredictionEngine \<times> WSMessage list" where
  "Analyze now nodeName events pe =
    (if length events = 0 then (None, pe, [])
     else
       let pc = combine (pattern_scores events); patterns = fst pc; c0 = snd pc in
       if length patterns = 0 then (None, pe, [])
       else
         let confidence = confidence_of (length patterns) c0;
             pred = \<lparr>pr_NodeName = nodeName, pr_Confidence = confidence,
               pr_TimeToFailure = estimateTTF confidence, pr_Timestamp = now,
               pr_Patterns = patterns, pr_Outcome = ''pending''\<rparr>
         in (Some pred, pe\<lparr>pe_predictions := pe_predictions pe @ [pred]\<rparr>,
             if pe_hasHub pe then [PredictionMsg pred] else []))"

definition AnalyzeFromStore ::
  "'s Store \<Rightarrow> Time \<Rightarrow> Time \<Rightarrow> string \<Rightarrow> 's \<Rightarrow> PredictionEngine \<Rightarrow>
   Prediction option \<times> PredictionEngine \<times> WSMessage list" where
  "AnalyzeFromStore S t now nodeName s pe =
    (let to' = t; from' = time_Add to' (- pe_windowSize pe) in
     case st_GetKernelEvents S nodeName from' to' s of
       Inl err \<Rightarrow> (None, pe, [])
     | Inr events \<Rightarrow> Analyze now nodeName events pe)"

fun record_outcome :: "string \<Rightarrow> Time \<Rightarrow> string \<Rightarrow> Prediction list \<Rightarrow> Prediction list" where
  "record_outcome nodeName predictionTime outcome [] = []"
| "record_outcome nodeName predictionTime outcome (p # ps) =
     (if pr_NodeName p = nodeName \<and> pr_Timestamp p = predictionTime \<and> pr_Outcome p = ''pending''
      then p\<lparr>pr_Outcome := outcome\<rparr> # ps
      else p # record_outcome nodeName predictionTime outcome ps)"

definition RecordOutcome :: "string \<Rightarrow> Time \<Rightarrow> string \<Rightarrow> PredictionEngine \<Rightarrow> PredictionEngine" where
  "RecordOutcome nodeName predictionTime outcome pe =
     pe\<lparr>pe_predictions := record_outcome nodeName predictionTime outcome (pe_predictions pe)\<rparr>"

record AccuracyMetrics =
  am_TotalPredictions :: nat
  am_TruePositives :: nat
  am_FalsePositives :: nat
  am_TrueNegatives :: nat
  am_FalseNegatives :: nat
  am_TruePositiveRate :: float64
  am_FalsePositiveRate :: float64

definition with_outcome :: "string \<Rightarrow> Prediction list \<Rightarrow> nat" where
  "with_outcome o' ps = length (filter (\<lambda>p. pr_Outcome p = o') ps)"

definition ComputeAccuracy :: "Prediction list \<Rightarrow> AccuracyMetrics" where
  "ComputeAccuracy predictions =
    (let tp = with_outcome ''true_positive'' predictions;
         fp = with_outcome ''false_positive'' predictions;
         tn = with_outcome ''true_negative'' predictions;
         fn = with_outcome ''false_negative'' predictions
     in \<lparr>am_TotalPredictions = length predictions, am_TruePositives = tp, am_FalsePositives = fp,
         am_TrueNegatives = tn, am_FalseNegatives = fn,
         am_TruePositiveRate =
           (if 0 < tp + fn then fl (fl (of_nat tp) / fl (of_nat (tp + fn))) else 0),
         am_FalsePositiveRate =
           (if 0 < fp + tn then fl (fl (of_nat fp) / fl (of_nat (fp + tn))) else 0)\<rparr>)"

definition Accuracy :: "PredictionEngine \<Rightarrow> AccuracyMetrics" where
  "Accuracy pe = ComputeAccuracy (pe_predictions pe)"

section \<open>Scores\<close>

lemma fl_ratio_bounds: "0 \<le> fl (fl (of_nat a) / fl (of_nat b))"
  by (simp add: fl_nonneg)

lemma fl_ratio_le_1: "a \<le> b \<Longrightarrow> fl (fl (of_nat a) / fl (of_nat b)) \<le> 1"
proof (rule fl_le_1)
  assume "a \<le> b"
  then have "fl (of_nat a) \<le> fl (of_nat b)" by (intro fl_mono) simp
  moreover have "0 \<le> fl (of_nat b)" by (simp add: fl_nonneg)
  ultimately show "fl (of_nat a) / fl (of_nat b) \<le> 1"
    by (cases "fl (of_nat b) = 0") (auto simp: divide_le_eq_1)
qed

lemma count_increasing_le: "count_increasing xs \<le> length xs - 1"
  by (induction xs rule: count_increasing.induct) auto

lemma increasing_ratio_bounds: "0 \<le> increasing_ratio xs \<and> increasing_ratio xs \<le> 1"
  unfolding increasing_ratio_def using fl_ratio_bounds fl_ratio_le_1 count_increasing_le by blast

lemma trend_score_nonneg: "0 \<le> q \<Longrightarrow> 0 \<le> fl (increasing_ratio xs * fl q)"
  using increasing_ratio_bounds by (simp add: fl_nonneg)

lemma scores_nonneg:
  assumes "(name, score) \<in> set (pattern_scores events)"
  shows "0 \<le> score"
  using assms
  by (auto simp: pattern_scores_def detectSyscallLatencyTrend_def detectRetransmitSpike_def
      detectCriticalExits_def detectHighRTT_def detectFilesystemIODegradation_def
      detectMemoryPressureEscalation_def detectDNSResolutionDegradation_def Let_def
      fl_nonneg trend_score_nonneg)

lemma combine_snoc:
  "combine (xs @ [(name, score)]) = add_pattern name score (combine xs)"
  by (simp add: combine_def)

text \<open>The patterns that fire are the names of the positive scores, in order.\<close>

lemma combine_patterns:
  "fst (combine scores) = map fst (filter (\<lambda>(name, score). 0 < score) scores)"
proof (induction scores rule: rev_induct)
  case (snoc x xs)
  then show ?case by (cases x) (simp add: combine_snoc add_pattern_def)
qed (simp add: combine_def)

lemma add_pattern_snd: "snd (add_pattern n s pc) = (if 0 < s then fl (snd pc + s) else snd pc)"
  by (simp add: add_pattern_def)

lemma combine_nonneg: "0 \<le> snd (combine scores)"
proof (induction scores rule: rev_induct)
  case (snoc x xs)
  then show ?case
    by (cases x) (simp add: combine_snoc add_pattern_snd fl_nonneg)
qed (simp add: combine_def)

text \<open>Rounding never loses a score that is already a \<^verbatim>\<open>float64\<close>: the sum dominates each of them.\<close>

lemma combine_dominates:
  assumes "(n0, s0) \<in> set scores" and "0 < s0" and "fl s0 = s0"
    and "\<And>name score. (name, score) \<in> set scores \<Longrightarrow> 0 \<le> score"
  shows "s0 \<le> snd (combine scores)"
  using assms
proof (induction scores rule: rev_induct)
  case (snoc x xs)
  obtain name score where x: "x = (name, score)" by force
  have nn: "0 \<le> snd (combine xs)" and score: "0 \<le> score"
    using snoc.prems(4) [of name score] x by (simp_all add: combine_nonneg)
  show ?case
  proof (cases "(n0, s0) \<in> set xs")
    case True
    then have "s0 \<le> snd (combine xs)"
      using snoc.prems(2-4) by (intro snoc.IH) auto
    moreover from this score have "fl s0 \<le> fl (snd (combine xs) + score)" by (intro fl_mono) simp
    ultimately show ?thesis using snoc.prems(3) x by (simp add: combine_snoc add_pattern_snd)
  next
    case False
    then have "score = s0" using snoc.prems(1) x by auto
    moreover have "fl s0 \<le> fl (snd (combine xs) + s0)" using nn by (intro fl_mono) simp
    ultimately show ?thesis using snoc.prems(2,3) x by (simp add: combine_snoc add_pattern_snd)
  qed
qed simp

section \<open>Predictions\<close>

lemma estimateTTF_bounds:
  assumes "0 \<le> c" and "c \<le> 1"
  shows "10 \<le> estimateTTF c \<and> estimateTTF c \<le> 60"
proof -
  have f0: "fl 0 = 0" and f10: "fl 10 = 10" and f50: "fl 50 = 50" and f60: "fl 60 = 60"
    by (simp_all add: fl_numeral)
  have "fl (c * 50) \<le> fl 50" using assms by (intro fl_mono) simp
  then have p: "0 \<le> fl (c * 50)" "fl (c * 50) \<le> 50" using assms by (simp_all add: fl_nonneg f50)
  then have "fl 10 \<le> fl (60 - fl (c * 50))" and "fl (60 - fl (c * 50)) \<le> fl 60"
    by (auto intro!: fl_mono)
  then show ?thesis by (simp add: estimateTTF_def Let_def f10 f60)
qed

text \<open>A higher confidence never gives a later failure.\<close>

lemma estimateTTF_antimono:
  assumes "0 \<le> c" and "c \<le> d" and "d \<le> 1"
  shows "estimateTTF d \<le> estimateTTF c"
proof (cases "c \<le> 0")
  case True
  with assms have "estimateTTF c = 60" by (simp add: estimateTTF_def)
  then show ?thesis using estimateTTF_bounds [of d] assms by simp
next
  case False
  have "fl (c * 50) \<le> fl (d * 50)" using assms by (intro fl_mono) simp
  then have "fl (60 - fl (d * 50)) \<le> fl (60 - fl (c * 50))" by (intro fl_mono) simp
  with False assms show ?thesis by (simp add: estimateTTF_def Let_def)
qed

lemma AnalyzeD:
  assumes "Analyze now n events pe = (Some p, pe', msgs)"
  shows "pr_NodeName p = n" and "pr_Timestamp p = now" and "pr_Outcome p = ''pending''"
    and "pr_Patterns p = fst (combine (pattern_scores events))"
    and "pr_Patterns p \<noteq> []"
    and "pr_TimeToFailure p = estimateTTF (pr_Confidence p)"
    and "pr_Confidence p =
       confidence_of (length (pr_Patterns p)) (snd (combine (pattern_scores events)))"
    and "pe_predictions pe' = pe_predictions pe @ [p]"
    and "msgs = (if pe_hasHub pe then [PredictionMsg p] else [])"
  using assms by (auto simp: Analyze_def Let_def split: if_splits)

lemma Analyze_None:
  assumes "Analyze now n events pe = (None, pe', msgs)"
  shows "pe' = pe \<and> msgs = []"
  using assms by (auto simp: Analyze_def Let_def split: if_splits)

lemma pattern_scores_Nil: "fst (combine (pattern_scores [])) = []"
  by (simp add: combine_patterns pattern_scores_def detectSyscallLatencyTrend_def
      detectRetransmitSpike_def detectCriticalExits_def detectHighRTT_def
      detectFilesystemIODegradation_def detectMemoryPressureEscalation_def
      detectDNSResolutionDegradation_def Let_def)

text \<open>A prediction is made exactly when some detector fires.\<close>

lemma Analyze_Some_iff:
  "fst (Analyze now n events pe) \<noteq> None \<longleftrightarrow>
     (\<exists>(name, score) \<in> set (pattern_scores events). 0 < score)"
proof -
  have "fst (Analyze now n events pe) \<noteq> None \<longleftrightarrow> fst (combine (pattern_scores events)) \<noteq> []"
    using pattern_scores_Nil by (auto simp: Analyze_def Let_def)
  also have "\<dots> \<longleftrightarrow> (\<exists>(name, score) \<in> set (pattern_scores events). 0 < score)"
    by (auto simp: combine_patterns filter_empty_conv)
  finally show ?thesis .
qed

lemma fl_seven_tenths: "0 < fl (7 / 10) \<and> fl (7 / 10) \<le> 1"
  by code_simp

lemma confidence_of_bounds: "0 \<le> confidence_of n c" "confidence_of n c \<le> 1"
  by (simp_all add: confidence_of_def Let_def)

lemma confidence_of_ge: "q \<le> c \<Longrightarrow> q \<le> 1 \<Longrightarrow> q \<le> confidence_of n c"
  by (simp add: confidence_of_def Let_def le_max_iff_disj)

lemma confidence_of_three: "3 \<le> n \<Longrightarrow> fl (7 / 10) \<le> confidence_of n c"
  using fl_seven_tenths by (simp add: confidence_of_def Let_def le_max_iff_disj)

lemma Analyze_confidence:
  assumes "Analyze now n events pe = (Some p, pe', msgs)"
  shows "0 \<le> pr_Confidence p" and "pr_Confidence p \<le> 1"
    and "3 \<le> length (pr_Patterns p) \<Longrightarrow> fl (7 / 10) \<le> pr_Confidence p"
  by (simp_all add: AnalyzeD(7) [OF assms] confidence_of_bounds confidence_of_three)

lemma fl_eight_tenths: "0 < fl (8 / 10)" "fl (8 / 10) \<le> 1" "fl (fl (8 / 10)) = fl (8 / 10)"
  by code_simp+

lemma critical_exit_predicts:
  assumes "e \<in> set events" and "ev_CriticalExit e"
  shows "\<exists>p pe' msgs. Analyze now n events pe = (Some p, pe', msgs) \<and>
     ''critical_exit'' \<in> set (pr_Patterns p) \<and> fl (8 / 10) \<le> pr_Confidence p"
proof -
  have mem: "(''critical_exit'', fl (8 / 10)) \<in> set (pattern_scores events)"
    using assms by (auto simp: pattern_scores_def detectCriticalExits_def list_ex_iff)
  then have "fst (Analyze now n events pe) \<noteq> None"
    using Analyze_Some_iff fl_eight_tenths by fastforce
  then obtain p pe' msgs where run: "Analyze now n events pe = (Some p, pe', msgs)"
    by (metis option.exhaust prod.collapse)
  have "fl (8 / 10) \<le> snd (combine (pattern_scores events))"
    using combine_dominates [OF mem] fl_eight_tenths scores_nonneg by blast
  then have "fl (8 / 10) \<le> pr_Confidence p"
    using fl_eight_tenths(2) unfolding AnalyzeD(7) [OF run] by (rule confidence_of_ge)
  moreover have "''critical_exit'' \<in> set (pr_Patterns p)"
    using mem fl_eight_tenths(1) by (force simp: AnalyzeD(4) [OF run] combine_patterns)
  ultimately show ?thesis using run by blast
qed

text \<open>On fewer than two events only three of the seven patterns can fire.\<close>

lemma length_filter_one: "length xs \<le> 1 \<Longrightarrow> 2 \<le> k \<Longrightarrow> k \<le> length (filter P xs) \<longleftrightarrow> False"
proof
  assume "length xs \<le> 1" "2 \<le> k" "k \<le> length (filter P xs)"
  with length_filter_le [of P xs] show False by linarith
qed simp

lemma short_window_patterns:
  assumes "length events \<le> 1"
    and "(name, score) \<in> set (pattern_scores events)" and "0 < score"
  shows "name \<in> {''critical_exit'', ''memory_pressure_escalation'', ''dns_resolution_degradation''}"
proof -
  note short = length_filter_one [OF assms(1)]
  have lt: "length (filter P events) < 3" for P
    using length_filter_le [of P events] assms(1) by linarith
  have "detectSyscallLatencyTrend events = 0" "detectRetransmitSpike events = 0"
    "detectHighRTT events = 0" "detectFilesystemIODegradation events = 0"
    by (simp_all add: detectSyscallLatencyTrend_def detectRetransmitSpike_def
        detectHighRTT_def detectFilesystemIODegradation_def Let_def short lt)
  with assms(2,3) show ?thesis by (auto simp: pattern_scores_def)
qed

section \<open>Outcomes\<close>

lemma record_outcome_length [simp]: "length (record_outcome n t o' ps) = length ps"
  by (induction ps) auto

lemma record_outcome_none:
  "(\<forall>p \<in> set ps. \<not> (pr_NodeName p = n \<and> pr_Timestamp p = t \<and> pr_Outcome p = ''pending'')) \<Longrightarrow>
   record_outcome n t o' ps = ps"
  by (induction ps) auto

lemma record_outcome_first:
  assumes "\<forall>q \<in> set ps. \<not> (pr_NodeName q = n \<and> pr_Timestamp q = t \<and> pr_Outcome q = ''pending'')"
    and "pr_NodeName p = n" and "pr_Timestamp p = t" and "pr_Outcome p = ''pending''"
  shows "record_outcome n t o' (ps @ p # qs) = ps @ p\<lparr>pr_Outcome := o'\<rparr> # qs"
  using assms by (induction ps) auto

text \<open>Everything but one outcome of a pending prediction stays.\<close>

lemma record_outcome_frame:
  "map (\<lambda>p. p\<lparr>pr_Outcome := []\<rparr>) (record_outcome n t o' ps) = map (\<lambda>p. p\<lparr>pr_Outcome := []\<rparr>) ps"
  by (induction ps) auto

lemma record_outcome_settled:
  "i < length ps \<Longrightarrow> pr_Outcome (ps ! i) \<noteq> ''pending'' \<Longrightarrow> record_outcome n t o' ps ! i = ps ! i"
  by (induction ps arbitrary: i) (auto simp: nth_Cons split: nat.splits)

section \<open>Accuracy\<close>

lemma with_outcome_counts:
  "with_outcome ''true_positive'' ps + with_outcome ''false_positive'' ps +
   with_outcome ''true_negative'' ps + with_outcome ''false_negative'' ps \<le> length ps"
  by (induction ps) (auto simp: with_outcome_def)

lemma ComputeAccuracy_rates:
  "0 \<le> am_TruePositiveRate (ComputeAccuracy ps)" "am_TruePositiveRate (ComputeAccuracy ps) \<le> 1"
  "0 \<le> am_FalsePositiveRate (ComputeAccuracy ps)" "am_FalsePositiveRate (ComputeAccuracy ps) \<le> 1"
  by (simp_all add: ComputeAccuracy_def Let_def fl_ratio_bounds fl_ratio_le_1 del: of_nat_add)


end
