(* ===== verification/Topology.thy ===== *)
theory Topology
  imports ServerTypes
begin

text \<open>
  The network topology, \<^verbatim>\<open>src/src/server/network_topology.go\<close>: connections seen in audit events,
  keyed by pod, destination, port and protocol, with the time they were last seen.
\<close>

record NetworkTopologyMap =
  tm_connections :: "string \<rightharpoonup> ConnectionRecord"
  tm_window :: Duration
  tm_hasHub :: bool

definition NewNetworkTopologyMap :: "Duration \<Rightarrow> bool \<Rightarrow> NetworkTopologyMap" where
  "NewNetworkTopologyMap window hasHub =
     \<lparr>tm_connections = Map.empty, tm_window = window, tm_hasHub = hasHub\<rparr>"

definition connectionKey :: "string \<Rightarrow> string \<Rightarrow> string \<Rightarrow> 16 word \<Rightarrow> string \<Rightarrow> string" where
  "connectionKey pod ns addr port proto =
     pod @ ''|'' @ ns @ ''|'' @ addr @ ''|'' @ show_uword port @ ''|'' @ proto"

definition event_key :: "EnrichedEvent \<Rightarrow> string" where
  "event_key event = connectionKey (ev_PodName event) (ev_Namespace event) (ev_AuditDstAddr event)
     (ev_AuditDstPort event) (ev_AuditProtocol event)"

text \<open>The result, the map afterwards and the messages handed to the hub.\<close>

definition Record ::
  "EnrichedEvent \<Rightarrow> NetworkTopologyMap \<Rightarrow> bool \<times> NetworkTopologyMap \<times> WSMessage list" where
  "Record event m =
    (let key = event_key event in
     case tm_connections m key of
       Some existing \<Rightarrow>
         (False, m\<lparr>tm_connections := (tm_connections m)
            (key \<mapsto> existing\<lparr>cn_LastSeen := ev_Timestamp event\<rparr>)\<rparr>, [])
     | None \<Rightarrow>
         let r = \<lparr>cn_SourcePod = ev_PodName event, cn_SourceNS = ev_Namespace event,
                    cn_DstAddr = ev_AuditDstAddr event, cn_DstPort = ev_AuditDstPort event,
                    cn_Protocol = ev_AuditProtocol event, cn_LastSeen = ev_Timestamp event,
                    cn_NodeName = ev_NodeName event\<rparr>
         in (True, m\<lparr>tm_connections := (tm_connections m)(key \<mapsto> r)\<rparr>,
             if tm_hasHub m then [TopologyMsg r] else []))"

text \<open>\<open>now\<close> is the reading of the clock.\<close>

definition Expire :: "Time \<Rightarrow> NetworkTopologyMap \<Rightarrow> NetworkTopologyMap" where
  "Expire now m =
    (let cutoff = time_Add now (- tm_window m) in
     m\<lparr>tm_connections := (\<lambda>key.
         case tm_connections m key of
           None \<Rightarrow> None
         | Some r \<Rightarrow> if Before (cn_LastSeen r) cutoff then None else Some r)\<rparr>)"

text \<open>\<open>order\<close> is the order in which the runtime iterates over the map's keys.\<close>

definition Connections :: "string list \<Rightarrow> NetworkTopologyMap \<Rightarrow> ConnectionRecord list" where
  "Connections order m = List.map_filter (tm_connections m) order"

definition iteration_order :: "string list \<Rightarrow> NetworkTopologyMap \<Rightarrow> bool" where
  "iteration_order order m \<longleftrightarrow> distinct order \<and> set order = dom (tm_connections m)"

section \<open>Keys\<close>

definition record_key :: "ConnectionRecord \<Rightarrow> string" where
  "record_key r = connectionKey (cn_SourcePod r) (cn_SourceNS r) (cn_DstAddr r) (cn_DstPort r)
     (cn_Protocol r)"

lemma show_nat_no_bar: "CHR ''|'' \<notin> set (show_nat n)"
  by (rule show_nat_not_in) simp

text \<open>The key determines the tuple, as long as pod, namespace and address hold no bar.\<close>

lemma connectionKey_inj:
  assumes "CHR ''|'' \<notin> set pod \<union> set ns \<union> set addr"
    and "CHR ''|'' \<notin> set pod' \<union> set ns' \<union> set addr'"
    and "connectionKey pod ns addr port proto = connectionKey pod' ns' addr' port' proto'"
  shows "pod = pod' \<and> ns = ns' \<and> addr = addr' \<and> port = port' \<and> proto = proto'"
proof -
  note sep = append_sep_inj [of "CHR ''|''"]
  have "pod = pod' \<and> ns @ ''|'' @ addr @ ''|'' @ show_uword port @ ''|'' @ proto =
      ns' @ ''|'' @ addr' @ ''|'' @ show_uword port' @ ''|'' @ proto'"
    using assms by (intro sep) (auto simp: connectionKey_def)
  moreover from this have "ns = ns' \<and> addr @ ''|'' @ show_uword port @ ''|'' @ proto =
      addr' @ ''|'' @ show_uword port' @ ''|'' @ proto'"
    using assms by (intro sep) auto
  moreover from this have "addr = addr' \<and> show_uword port @ ''|'' @ proto =
      show_uword port' @ ''|'' @ proto'"
    using assms by (intro sep) auto
  moreover from this have "show_uword port = show_uword port' \<and> proto = proto'"
    by (intro sep) (auto simp: show_uword_def show_nat_no_bar)
  ultimately show ?thesis by (auto simp: show_uword_inj)
qed

section \<open>A sequence of audit events\<close>

fun record_all ::
  "EnrichedEvent list \<Rightarrow> NetworkTopologyMap \<Rightarrow> NetworkTopologyMap \<times> WSMessage list" where
  "record_all [] m = (m, [])"
| "record_all (e # es) m =
     (let (_, m1, msgs1) = Record e m; (m2, msgs2) = record_all es m1 in (m2, msgs1 @ msgs2))"

text \<open>
  What the map promises: a key is present when an event has it; its record describes the first such
  event and was last seen at the time of the last one.
\<close>

definition connection_of :: "EnrichedEvent \<Rightarrow> Time \<Rightarrow> ConnectionRecord" where
  "connection_of e t =
     \<lparr>cn_SourcePod = ev_PodName e, cn_SourceNS = ev_Namespace e, cn_DstAddr = ev_AuditDstAddr e,
      cn_DstPort = ev_AuditDstPort e, cn_Protocol = ev_AuditProtocol e, cn_LastSeen = t,
      cn_NodeName = ev_NodeName e\<rparr>"

definition summary_of :: "EnrichedEvent list \<Rightarrow> ConnectionRecord option" where
  "summary_of es = (if es = [] then None else Some (connection_of (hd es) (ev_Timestamp (last es))))"

definition spec_connections :: "EnrichedEvent list \<Rightarrow> string \<rightharpoonup> ConnectionRecord" where
  "spec_connections es key = summary_of (filter (\<lambda>e. event_key e = key) es)"

lemma Record_conns:
  "tm_connections (fst (snd (Record e m))) =
     (tm_connections m)(event_key e \<mapsto>
        (case tm_connections m (event_key e) of
           None \<Rightarrow> connection_of e (ev_Timestamp e)
         | Some r \<Rightarrow> r\<lparr>cn_LastSeen := ev_Timestamp e\<rparr>))"
  by (simp add: Record_def Let_def connection_of_def split: option.split)

lemma Record_frame [simp]:
  "tm_window (fst (snd (Record e m))) = tm_window m"
  "tm_hasHub (fst (snd (Record e m))) = tm_hasHub m"
  by (simp_all add: Record_def Let_def split: option.split)

lemma Record_msgs:
  "snd (snd (Record e m)) =
     (if tm_connections m (event_key e) = None \<and> tm_hasHub m
      then [TopologyMsg (connection_of e (ev_Timestamp e))] else [])"
  by (simp add: Record_def Let_def connection_of_def split: option.split)

lemma Record_new_iff: "fst (Record e m) \<longleftrightarrow> event_key e \<notin> dom (tm_connections m)"
  by (auto simp: Record_def Let_def split: option.split)

lemma spec_snoc:
  "spec_connections (es @ [e]) =
     (spec_connections es)(event_key e \<mapsto>
        (case spec_connections es (event_key e) of
           None \<Rightarrow> connection_of e (ev_Timestamp e)
         | Some r \<Rightarrow> r\<lparr>cn_LastSeen := ev_Timestamp e\<rparr>))"
  by (auto simp: fun_eq_iff spec_connections_def summary_of_def connection_of_def hd_append
      split: option.split)

lemma record_all_snoc:
  "record_all (es @ [e]) m =
     (let (m1, msgs1) = record_all es m; (_, m2, msgs2) = Record e m1 in (m2, msgs1 @ msgs2))"
  by (induction es arbitrary: m) (simp_all add: Let_def split_beta)

lemma record_all_frame [simp]:
  "tm_window (fst (record_all es m)) = tm_window m"
  "tm_hasHub (fst (record_all es m)) = tm_hasHub m"
  by (induction es arbitrary: m) (simp_all add: Let_def split_beta)

lemma record_all_spec:
  "tm_connections (fst (record_all es (NewNetworkTopologyMap w hub))) = spec_connections es"
proof (induction es rule: rev_induct)
  case Nil
  show ?case
    by (simp add: NewNetworkTopologyMap_def spec_connections_def summary_of_def fun_eq_iff)
next
  case (snoc e es)
  then show ?case
    by (simp add: record_all_snoc Let_def split_beta Record_conns spec_snoc)
qed

text \<open>The hub hears of each key once: at the first event that has it.\<close>

fun new_keys :: "string set \<Rightarrow> EnrichedEvent list \<Rightarrow> EnrichedEvent list" where
  "new_keys known [] = []"
| "new_keys known (e # es) =
     (if event_key e \<in> known then new_keys known es
      else e # new_keys (insert (event_key e) known) es)"


lemma record_all_msgs:
  "snd (record_all es m) =
     (if tm_hasHub m
      then map (\<lambda>e. TopologyMsg (connection_of e (ev_Timestamp e)))
             (new_keys (dom (tm_connections m)) es)
      else [])"
proof (induction es arbitrary: m)
  case (Cons e es)
  have d: "dom (tm_connections (fst (snd (Record e m)))) = insert (event_key e) (dom (tm_connections m))"
    by (simp add: Record_conns)
  show ?case
    by (cases "event_key e \<in> dom (tm_connections m)")
       (auto simp: Let_def split_beta Cons.IH d Record_msgs insert_absorb)
qed simp

lemma distinct_new_keys:
  "distinct (map event_key (new_keys known es)) \<and> event_key ` set (new_keys known es) \<inter> known = {}"
  by (induction known es rule: new_keys.induct) auto

lemma set_new_keys: "event_key ` set (new_keys known es) = event_key ` set es - known"
  by (induction known es rule: new_keys.induct) auto

section \<open>Expiry and listing\<close>

lemma Expire_conns:
  "tm_connections (Expire now m) key = Some r \<longleftrightarrow>
     tm_connections m key = Some r \<and> now - tm_window m \<le> cn_LastSeen r"
  by (auto simp: Expire_def Let_def time_Add_def Before_def split: option.splits)

lemma Expire_frame [simp]:
  "tm_window (Expire now m) = tm_window m" "tm_hasHub (Expire now m) = tm_hasHub m"
  by (simp_all add: Expire_def Let_def)

lemma Expire_Expire:
  assumes "t \<le> t'"
  shows "Expire t' (Expire t m) = Expire t' m"
proof -
  have "tm_connections (Expire t' (Expire t m)) k = tm_connections (Expire t' m) k" for k
    using assms
    by (auto simp: Expire_def Let_def time_Add_def Before_def split: option.splits)
  then show ?thesis by (simp add: Expire_def Let_def fun_eq_iff)
qed

lemma Connections_set:
  assumes "iteration_order order m"
  shows "set (Connections order m) = ran (tm_connections m)"
    and "length (Connections order m) = card (dom (tm_connections m))"
proof -
  have o: "distinct order" "set order = dom (tm_connections m)"
    using assms by (simp_all add: iteration_order_def)
  have *: "Connections order m = map (\<lambda>k. the (tm_connections m k)) order"
    if "set order \<subseteq> dom (tm_connections m)"
    using that by (induction order) (auto simp: Connections_def map_filter_simps)
  show "set (Connections order m) = ran (tm_connections m)"
    using o(2) * by (force simp: ran_def image_def)
  show "length (Connections order m) = card (dom (tm_connections m))"
    using o * by (simp flip: distinct_card)
qed

end
