(* ===== verification/Http.thy ===== *)
theory Http
  imports GoBase
begin

text \<open>
  What the server's handlers use of \<^verbatim>\<open>net/http\<close>: the request's method and query parameters, and
  the response a handler writes, with the JSON errors of \<^verbatim>\<open>src/src/server/errors.go\<close>.
\<close>

datatype http_method = GET | POST | OPTIONS | OtherMethod string

fun method_name :: "http_method \<Rightarrow> string" where
  "method_name GET = ''GET''"
| "method_name POST = ''POST''"
| "method_name OPTIONS = ''OPTIONS''"
| "method_name (OtherMethod m) = m"

text \<open>
  \<^verbatim>\<open>r.URL.Query().Get(k)\<close> is the first value of \<open>k\<close>, or the empty string when there is none.
\<close>

definition query_get :: "string \<Rightarrow> (string \<times> string) list \<Rightarrow> string" where
  "query_get k params = (case map_of params k of None \<Rightarrow> [] | Some v \<Rightarrow> v)"

text \<open>A response: the status, the headers set before it, and the value the body encodes.\<close>

datatype 'b body = NoBody | TextBody string | ErrorBody string | JsonBody 'b

record 'b response =
  rs_status :: nat
  rs_headers :: "(string \<times> string) list"
  rs_body :: "'b body"

definition StatusOK :: nat where "StatusOK = 200"
definition StatusCreated :: nat where "StatusCreated = 201"
definition StatusBadRequest :: nat where "StatusBadRequest = 400"
definition StatusNotFound :: nat where "StatusNotFound = 404"
definition StatusMethodNotAllowed :: nat where "StatusMethodNotAllowed = 405"
definition StatusInternalServerError :: nat where "StatusInternalServerError = 500"
definition StatusServiceUnavailable :: nat where "StatusServiceUnavailable = 503"

lemmas status_defs = StatusOK_def StatusCreated_def StatusBadRequest_def StatusNotFound_def
  StatusMethodNotAllowed_def
  StatusInternalServerError_def StatusServiceUnavailable_def

definition content_type :: "string \<times> string" where
  "content_type = (''Content-Type'', ''application/json'')"

definition writeJSONError :: "string \<Rightarrow> nat \<Rightarrow> 'b response" where
  "writeJSONError msg status =
     \<lparr>rs_status = status, rs_headers = [content_type], rs_body = ErrorBody msg\<rparr>"

definition json_ok :: "'b \<Rightarrow> 'b response" where
  "json_ok v = \<lparr>rs_status = StatusOK, rs_headers = [content_type], rs_body = JsonBody v\<rparr>"

definition empty_response :: "nat \<Rightarrow> 'b response" where
  "empty_response status = \<lparr>rs_status = status, rs_headers = [], rs_body = NoBody\<rparr>"

text \<open>The answer of a \<^verbatim>\<open>ServeMux\<close> for a path without a handler.\<close>

definition not_found :: "'b response" where
  "not_found = \<lparr>rs_status = StatusNotFound,
     rs_headers = [(''Content-Type'', ''text/plain; charset=utf-8''),
       (''X-Content-Type-Options'', ''nosniff'')],
     rs_body = TextBody (''404 page not found'' @ [char_of (10 :: nat)])\<rparr>"

lemma response_simps [simp]:
  "rs_status (writeJSONError msg status) = status"
  "rs_body (writeJSONError msg status) = ErrorBody msg"
  "rs_status (json_ok v) = StatusOK"
  "rs_body (json_ok v) = JsonBody v"
  "rs_status (empty_response status) = status"
  by (simp_all add: writeJSONError_def json_ok_def empty_response_def)

end
