(* ===== verification/Replay.thy ===== *)
theory Replay
  imports EventStore GoTime Http
begin

text \<open>
  Post-mortem replay, \<^verbatim>\<open>src/src/server/replay.go\<close>: the query on stored events, its filters, the
  chronological order and the pages.
\<close>

section \<open>The query\<close>

definition defaultPageSize :: int where "defaultPageSize = 1000"

definition defaultRetention :: Duration where "defaultRetention = dur_mul 24 Hour"

record ReplayQuery =
  q_NodeName :: string
  q_From :: Time
  q_To :: Time
  q_EventTypes :: "string list"
  q_PodName :: string
  q_MinLatencyNs :: int
  q_Page :: int
  q_PageSize :: int

record ReplayResponse =
  rr_Events :: "EnrichedEvent list"
  rr_TotalCount :: int
  rr_Page :: int
  rr_PageSize :: int

record ReplayStore =
  rp_retention :: Duration

definition NewReplayStore :: "Duration \<Rightarrow> ReplayStore" where
  "NewReplayStore retention =
     \<lparr>rp_retention = (if retention \<le> 0 then defaultRetention else retention)\<rparr>"

text \<open>The loop body of \<^verbatim>\<open>filterEvents\<close>: an event stays when no filter skips it.\<close>

definition keeps_event :: "ReplayQuery \<Rightarrow> EnrichedEvent \<Rightarrow> bool" where
  "keeps_event q e =
    (if 1 < card (set (q_EventTypes q)) \<and> ev_EventType e \<notin> set (q_EventTypes q) then False
     else if q_PodName q \<noteq> [] \<and> ev_PodName e \<noteq> q_PodName q then False
     else if 0 < q_MinLatencyNs q \<and> sint (ev_LatencyNs e) < q_MinLatencyNs q then False
     else True)"

definition filterEvents :: "EnrichedEvent list \<Rightarrow> ReplayQuery \<Rightarrow> EnrichedEvent list" where
  "filterEvents events q = filter (keeps_event q) events"

datatype replay_error = StoreFailed store_error | SlicePanic

text \<open>The page of the sorted list, with the arithmetic of \<^verbatim>\<open>int\<close>.\<close>

definition paginate :: "int \<Rightarrow> int \<Rightarrow> 'a list \<Rightarrow> 'a list option" where
  "paginate page pageSize xs =
    (let totalCount = int (length xs);
         start = i64 (i64 (page - 1) * pageSize)
     in if totalCount \<le> start then Some []
        else let end' = i64 (start + pageSize) in
          go_slice xs start (if totalCount < end' then totalCount else end'))"

type_synonym event_sorter =
  "(EnrichedEvent \<Rightarrow> EnrichedEvent \<Rightarrow> bool) \<Rightarrow> EnrichedEvent list \<Rightarrow> EnrichedEvent list"

definition earlier :: "EnrichedEvent \<Rightarrow> EnrichedEvent \<Rightarrow> bool" where
  "earlier a b = Before (ev_Timestamp a) (ev_Timestamp b)"

text \<open>The query with its defaults and the retention window applied; \<open>now\<close> is the clock.\<close>

definition effective :: "ReplayStore \<Rightarrow> Time \<Rightarrow> ReplayQuery \<Rightarrow> ReplayQuery" where
  "effective rps now q0 =
    (let q1 = (if q_PageSize q0 \<le> 0 then q0\<lparr>q_PageSize := defaultPageSize\<rparr> else q0);
         q2 = (if q_Page q1 < 1 then q1\<lparr>q_Page := 1\<rparr> else q1);
         earliest = time_Add now (- rp_retention rps)
     in if Before (q_From q2) earliest then q2\<lparr>q_From := earliest\<rparr> else q2)"

definition fetch :: "'s Store \<Rightarrow> ReplayQuery \<Rightarrow> 's \<Rightarrow> store_error + EnrichedEvent list" where
  "fetch S q s =
    (case q_EventTypes q of
       [t] \<Rightarrow> st_GetKernelEventsByType S (q_NodeName q) t (q_From q) (q_To q) s
     | _ \<Rightarrow> st_GetKernelEvents S (q_NodeName q) (q_From q) (q_To q) s)"

definition Query ::
  "event_sorter \<Rightarrow> 's Store \<Rightarrow> ReplayStore \<Rightarrow> Time \<Rightarrow> ReplayQuery \<Rightarrow> 's \<Rightarrow>
   replay_error + (EnrichedEvent list \<times> int)" where
  "Query sorter S rps now q0 s =
    (let q = effective rps now q0 in
     case fetch S q s of
       Inl err \<Rightarrow> Inl (StoreFailed err)
     | Inr events \<Rightarrow>
         let filtered = sorter earlier (filterEvents events q);
             totalCount = int (length filtered)
         in case paginate (q_Page q) (q_PageSize q) filtered of
              None \<Rightarrow> Inl SlicePanic
            | Some page \<Rightarrow> Inr (page, totalCount))"

section \<open>The handler\<close>

text \<open>
  \<open>parse_time\<close> is \<^verbatim>\<open>time.Parse(time.RFC3339, s)\<close>; \<open>clocks\<close> are the three readings of
  the clock, for the default \<^verbatim>\<open>From\<close>, the default \<^verbatim>\<open>To\<close> and the retention window.  A query that panics writes no response: the
  result is \<open>None\<close>, and \<^verbatim>\<open>net/http\<close> drops the connection.
\<close>

definition time_param :: "(string \<Rightarrow> Time option) \<Rightarrow> string \<Rightarrow> Time" where
  "time_param parse_time str =
    (if str \<noteq> [] then (case parse_time str of Some t \<Rightarrow> t | None \<Rightarrow> zero_time) else zero_time)"

definition int_param :: "string \<Rightarrow> int" where
  "int_param str = (if str \<noteq> [] then (case atoi str of Some v \<Rightarrow> v | None \<Rightarrow> 0) else 0)"

definition parse_query ::
  "(string \<Rightarrow> Time option) \<Rightarrow> Time \<Rightarrow> Time \<Rightarrow> (string \<times> string) list \<Rightarrow> ReplayQuery" where
  "parse_query parse_time now1 now2 params =
    (let from0 = time_param parse_time (query_get ''from'' params);
         to0 = time_param parse_time (query_get ''to'' params);
         typeStr = query_get ''type'' params
     in \<lparr>q_NodeName = query_get ''node'' params,
         q_From = (if from0 = zero_time then time_Add now1 (- dur_mul 1 Hour) else from0),
         q_To = (if to0 = zero_time then now2 else to0),
         q_EventTypes = (if typeStr \<noteq> [] then [typeStr] else []),
         q_PodName = query_get ''pod'' params,
         q_MinLatencyNs = int_param (query_get ''minLatency'' params),
         q_Page = int_param (query_get ''page'' params),
         q_PageSize = int_param (query_get ''pageSize'' params)\<rparr>)"

definition replayHandler ::
  "event_sorter \<Rightarrow> (string \<Rightarrow> Time option) \<Rightarrow> 's Store \<Rightarrow> ReplayStore \<Rightarrow> Time \<times> Time \<times> Time \<Rightarrow>
   http_method \<Rightarrow> (string \<times> string) list \<Rightarrow> 's \<Rightarrow> ReplayResponse response option" where
  "replayHandler sorter parse_time S rps clocks method params s =
    (case clocks of (now1, now2, now3) \<Rightarrow>
     if method \<noteq> GET then Some (writeJSONError ''Method not allowed'' StatusMethodNotAllowed)
     else if query_get ''node'' params = []
       then Some (writeJSONError ''node parameter is required'' StatusBadRequest)
     else
       let q = parse_query parse_time now1 now2 params in
       case Query sorter S rps now3 q s of
         Inl (StoreFailed err) \<Rightarrow>
           Some (writeJSONError ''Internal server error'' StatusInternalServerError)
       | Inl SlicePanic \<Rightarrow> None
       | Inr (events, totalCount) \<Rightarrow>
           Some (json_ok \<lparr>rr_Events = events, rr_TotalCount = totalCount, rr_Page = q_Page q,
             rr_PageSize = q_PageSize q\<rparr>))"

section \<open>Pages\<close>

text \<open>
  When the product does not overflow, a page is the stretch of the list its number names, and the
  last one may be short.
\<close>

lemma paginate_ok:
  assumes "1 \<le> page" and "1 \<le> sz" and "is_i64 (page - 1)" and "is_i64 sz"
    and "is_i64 ((page - 1) * sz)" and "int (length xs) < 2 ^ 62"
  shows "paginate page sz xs = Some (take (nat sz) (drop (nat ((page - 1) * sz)) xs))"
proof -
  let ?s = "(page - 1) * sz"
  have start: "i64 (i64 (page - 1) * sz) = ?s" using assms(3,5) by (simp add: i64_id)
  have s0: "0 \<le> ?s" using assms(1,2) by simp
  show ?thesis
  proof (cases "int (length xs) \<le> ?s")
    case True
    then show ?thesis by (simp add: paginate_def start nat_le_iff le_nat_iff)
  next
    case False
    have "sz \<le> ?s \<or> ?s = 0"
      using assms(1,2) by (cases "page = 1") (auto simp: mult_le_cancel_right1)
    with False assms(4,6) s0 have e: "i64 (?s + sz) = ?s + sz"
      by (intro i64_id) (auto simp: i64_defs)
    show ?thesis
    proof (cases "int (length xs) < ?s + sz")
      case True
      with False s0 show ?thesis
        by (simp add: paginate_def start e Let_def go_slice_def nat_diff_distrib)
    next
      case False': False
      with False s0 assms(2) show ?thesis
        by (simp add: paginate_def start e Let_def go_slice_def flip: nat_diff_distrib)
    qed
  qed
qed

text \<open>Past the range of \<^verbatim>\<open>int\<close> the start wraps below zero and slicing panics.\<close>

lemma paginate_panic:
  assumes "i64 (i64 (page - 1) * sz) < 0"
  shows "paginate page sz xs = None"
  using assms by (simp add: paginate_def Let_def go_slice_def)

text \<open>It panics only where the page ends past the range.\<close>

lemma paginate_panic_only:
  assumes "paginate page sz xs = None" and "1 \<le> page" and "1 \<le> sz"
  shows "2 ^ 63 \<le> page * sz"
proof (rule ccontr)
  assume "\<not> 2 ^ 63 \<le> page * sz"
  then have lt: "page * sz < 2 ^ 63" by simp
  have le: "page \<le> page * sz" "sz \<le> page * sz"
    using assms(2,3) mult_left_mono [of 1 sz page] mult_right_mono [of 1 page sz] by simp_all
  have "is_i64 (page - 1)" "is_i64 (page * sz - sz)" "is_i64 (page * sz)"
    unfolding i64_defs using lt le assms(2,3) by linarith+
  moreover have e: "(page - 1) * sz = page * sz - sz" by (simp add: algebra_simps)
  ultimately have "i64 (i64 (page - 1) * sz) = (page - 1) * sz" and "i64 ((page - 1) * sz + sz) = page * sz"
    by (simp_all add: i64_id)
  moreover have "0 \<le> (page - 1) * sz" "(page - 1) * sz \<le> page * sz" using assms(2,3) e by simp_all
  ultimately show False using assms(1) by (auto simp: paginate_def Let_def go_slice_def split: if_splits)
qed

lemma pages_concat:
  "concat (map (\<lambda>i. take n (drop (i * n) xs)) [0..<k]) = take (k * n) xs"
proof (induction k)
  case (Suc k)
  have "take (k * n) xs @ take n (drop (k * n) xs) = take (k * n + n) xs"
    by (simp add: take_add)
  with Suc show ?case by (simp add: add.commute)
qed simp

section \<open>What a query returns\<close>

lemma effective_fields [simp]:
  "q_NodeName (effective rps now q) = q_NodeName q"
  "q_To (effective rps now q) = q_To q"
  "q_EventTypes (effective rps now q) = q_EventTypes q"
  "q_PodName (effective rps now q) = q_PodName q"
  "q_MinLatencyNs (effective rps now q) = q_MinLatencyNs q"
  "q_Page (effective rps now q) = (if q_Page q < 1 then 1 else q_Page q)"
  "q_PageSize (effective rps now q) = (if q_PageSize q \<le> 0 then defaultPageSize else q_PageSize q)"
  "q_From (effective rps now q) = max (q_From q) (now - rp_retention rps)"
  by (simp_all add: effective_def Let_def Before_def time_Add_def)

text \<open>The filter that a query asks for: every criterion it names.\<close>

definition matches :: "ReplayQuery \<Rightarrow> EnrichedEvent \<Rightarrow> bool" where
  "matches q e \<longleftrightarrow>
     ev_NodeName e = q_NodeName q \<and> q_From q \<le> ev_Timestamp e \<and> ev_Timestamp e \<le> q_To q \<and>
     (q_EventTypes q = [] \<or> ev_EventType e \<in> set (q_EventTypes q)) \<and>
     (q_PodName q = [] \<or> ev_PodName e = q_PodName q) \<and>
     (q_MinLatencyNs q \<le> 0 \<or> q_MinLatencyNs q \<le> sint (ev_LatencyNs e))"

lemma card_set_le1: "distinct ts \<Longrightarrow> card (set ts) = length ts"
  by (rule distinct_card)

context kernel_event_store
begin

text \<open>Fetching and filtering leave exactly the events that match, when no type is named twice.\<close>

lemma filtered_iff:
  assumes "fetch S q s = Inr events" and "distinct (q_EventTypes q)"
  shows "e \<in> set (filterEvents events q) \<longleftrightarrow> e \<in> set (kernel_events s) \<and> matches q e"
proof (cases "q_EventTypes q" rule: remdups_adj.cases)
  case 1
  with assms get_kernel_events show ?thesis
    by (auto simp: fetch_def filterEvents_def keeps_event_def matches_def in_range_iff)
next
  case (2 t)
  with assms get_kernel_events_by_type show ?thesis
    by (auto simp: fetch_def filterEvents_def keeps_event_def matches_def in_range_iff)
next
  case (3 t u ts)
  with assms(2) have "1 < card (set (q_EventTypes q))"
    by (simp add: card_set_le1)
  moreover have "set events = {e \<in> set (kernel_events s).
      ev_NodeName e = q_NodeName q \<and> in_range (q_From q) (q_To q) (ev_Timestamp e)}"
    using assms(1) 3 get_kernel_events by (simp add: fetch_def)
  ultimately show ?thesis using 3
    by (auto simp: filterEvents_def keeps_event_def matches_def in_range_iff)
qed

end

lemma Query_okE:
  assumes "Query sorter S rps now q s = Inr (page, cnt)"
  obtains events where "fetch S (effective rps now q) s = Inr events"
    and "cnt = int (length (sorter earlier (filterEvents events (effective rps now q))))"
    and "paginate (q_Page (effective rps now q)) (q_PageSize (effective rps now q))
           (sorter earlier (filterEvents events (effective rps now q))) = Some page"
  using assms by (auto simp: Query_def Let_def split: sum.splits option.splits)

lemma paginate_sublist:
  assumes "paginate p sz xs = Some ys"
  shows "\<exists>a b. ys = take a (drop b xs)"
proof -
  have "ys = [] \<or> (\<exists>lo hi. go_slice xs lo hi = Some ys)"
    using assms unfolding paginate_def Let_def by (metis option.inject)
  then show ?thesis
  proof
    assume "ys = []"
    then show ?thesis by (metis take0)
  next
    assume "\<exists>lo hi. go_slice xs lo hi = Some ys"
    then show ?thesis unfolding go_slice_def by (metis option.distinct(1) option.inject)
  qed
qed

lemma earlier_key: "earlier = (\<lambda>a b. ev_Timestamp a < ev_Timestamp b)"
  by (auto simp: earlier_def Before_def fun_eq_iff)

lemma sorted_sublist: "sorted (map f xs) \<Longrightarrow> sorted (map f (take a (drop b xs)))"
  by (simp flip: take_map drop_map add: sorted_wrt_take sorted_wrt_drop)

context kernel_event_store
begin

lemma Query_sound:
  assumes sort: "slice_sort sorter"
    and ok: "Query sorter S rps now q s = Inr (page, cnt)"
    and types: "distinct (q_EventTypes q)"
  shows "set page \<subseteq> {e \<in> set (kernel_events s). matches (effective rps now q) e}"
    and "sorted (map ev_Timestamp page)"
proof -
  obtain events where f: "fetch S (effective rps now q) s = Inr events"
    and p: "paginate (q_Page (effective rps now q)) (q_PageSize (effective rps now q))
           (sorter earlier (filterEvents events (effective rps now q))) = Some page"
    using Query_okE [OF ok] by metis
  obtain a b where page: "page = take a (drop b (sorter earlier (filterEvents events (effective rps now q))))"
    using paginate_sublist [OF p] by blast
  then have "set page \<subseteq> set (filterEvents events (effective rps now q))"
    using slice_sort.sorter_set [OF sort] set_take_subset set_drop_subset by fast
  then show "set page \<subseteq> {e \<in> set (kernel_events s). matches (effective rps now q) e}"
    using filtered_iff [OF f] types by auto
  show "sorted (map ev_Timestamp page)"
    unfolding page earlier_key
    by (rule sorted_sublist, rule slice_sort.sorter_sorted [OF sort])
qed

end

text \<open>On the in-memory store the filtered list is the stored one, restricted to the matches.\<close>

lemmas keeps_matches_defs = keeps_event_def matches_def Before_def After_def

lemma filtered_memory:
  assumes "distinct (q_EventTypes q)" and "fetch memory_store q m = Inr events"
  shows "filterEvents events q = filter (matches q) (ms_kernelEvents m)"
proof -
  have all: "events = filter (\<lambda>e. ev_NodeName e = q_NodeName q \<and>
      \<not> Before (ev_Timestamp e) (q_From q) \<and> \<not> After (ev_Timestamp e) (q_To q)) (ms_kernelEvents m)"
    if "length (q_EventTypes q) \<noteq> 1"
    using assms(2) that
    by (auto simp: fetch_def MemoryStore_GetKernelEvents_def split: list.splits)
  have one: "events = filter (\<lambda>e. ev_NodeName e = q_NodeName q \<and> ev_EventType e = t \<and>
      \<not> Before (ev_Timestamp e) (q_From q) \<and> \<not> After (ev_Timestamp e) (q_To q)) (ms_kernelEvents m)"
    if "q_EventTypes q = [t]" for t
    using assms(2) that by (simp add: fetch_def MemoryStore_GetKernelEventsByType_def)
  show ?thesis
  proof (cases "q_EventTypes q" rule: remdups_adj.cases)
    case 1
    with all show ?thesis
      by (simp add: filterEvents_def) (rule filter_cong, auto simp: keeps_matches_defs)
  next
    case (2 t)
    with one [OF 2] show ?thesis
      by (simp add: filterEvents_def) (rule filter_cong, auto simp: keeps_matches_defs)
  next
    case (3 t u ts)
    with assms(1) have "1 < card (set (q_EventTypes q))" by (simp add: card_set_le1)
    with all 3 show ?thesis
      by (simp add: filterEvents_def) (rule filter_cong, auto simp: keeps_matches_defs)
  qed
qed

text \<open>A type named twice is no filter at all.\<close>

lemma duplicate_type_keeps:
  "q_EventTypes q = [t, t] \<Longrightarrow> q_PodName q = [] \<Longrightarrow> q_MinLatencyNs q \<le> 0 \<Longrightarrow>
   filterEvents events q = events"
  by (simp add: filterEvents_def keeps_event_def)

end
