(* ===== verification/Configs.thy ===== *)
theory Configs
  imports GoBase
begin

text \<open>
  Configuration from environment variables: the server's \<^verbatim>\<open>src/src/server/config.go\<close> and the probe
  thresholds of \<^verbatim>\<open>src/src/agent/config.go\<close>.  The environment is a function that gives the empty
  string for an unset variable, as \<^verbatim>\<open>os.Getenv\<close> does.
\<close>

type_synonym env = "string \<Rightarrow> string"

section \<open>The server\<close>

record Config =
  cfg_Port :: int
  cfg_LogFilePath :: string
  cfg_CORSOrigins :: "string list"
  cfg_StoreType :: string
  cfg_RedisAddr :: string
  cfg_WarningThresholdS :: int
  cfg_CriticalThresholdS :: int
  cfg_WebhookURL :: string
  cfg_TopologyWindowS :: int

definition default_Config :: Config where
  "default_Config =
    \<lparr>cfg_Port = 8080, cfg_LogFilePath = ''earthworm.log'', cfg_CORSOrigins = [''*''],
     cfg_StoreType = ''memory'', cfg_RedisAddr = ''localhost:6379'', cfg_WarningThresholdS = 10,
     cfg_CriticalThresholdS = 40, cfg_WebhookURL = '''', cfg_TopologyWindowS = 300\<rparr>"

text \<open>\<^verbatim>\<open>if v := os.Getenv(name); v != "" { ... }\<close>, with and without \<^verbatim>\<open>strconv.Atoi\<close>.\<close>

definition env_string :: "env \<Rightarrow> string \<Rightarrow> string \<Rightarrow> string" where
  "env_string env name current = (if env name \<noteq> [] then env name else current)"

definition env_int :: "env \<Rightarrow> string \<Rightarrow> int \<Rightarrow> int" where
  "env_int env name current =
     (if env name \<noteq> [] then (case atoi (env name) of Some t \<Rightarrow> t | None \<Rightarrow> current) else current)"

definition LoadConfig :: "env \<Rightarrow> Config" where
  "LoadConfig env =
    (let c = default_Config;
         v = env ''EARTHWORM_CORS_ORIGINS'';
         w = env ''EARTHWORM_TOPOLOGY_WINDOW_S''
     in \<lparr>cfg_Port = env_int env ''EARTHWORM_PORT'' (cfg_Port c),
         cfg_LogFilePath = env_string env ''EARTHWORM_LOG_FILE'' (cfg_LogFilePath c),
         cfg_CORSOrigins = (if v \<noteq> [] then split_on CHR '','' v else cfg_CORSOrigins c),
         cfg_StoreType = env_string env ''EARTHWORM_STORE'' (cfg_StoreType c),
         cfg_RedisAddr = env_string env ''EARTHWORM_REDIS_ADDR'' (cfg_RedisAddr c),
         cfg_WarningThresholdS =
           env_int env ''EARTHWORM_WARNING_THRESHOLD'' (cfg_WarningThresholdS c),
         cfg_CriticalThresholdS =
           env_int env ''EARTHWORM_CRITICAL_THRESHOLD'' (cfg_CriticalThresholdS c),
         cfg_WebhookURL = env_string env ''EARTHWORM_WEBHOOK_URL'' (cfg_WebhookURL c),
         cfg_TopologyWindowS =
           (if w \<noteq> [] then
              (case atoi w of
                 Some t \<Rightarrow> if 10 \<le> t \<and> t \<le> 86400 then t else cfg_TopologyWindowS c
               | None \<Rightarrow> cfg_TopologyWindowS c)
            else cfg_TopologyWindowS c)\<rparr>)"

section \<open>The probes\<close>

record ProbeConfig =
  pc_SlowIOThresholdMs :: int
  pc_DNSTimeoutMs :: int
  pc_CgroupSampleIntervalS :: int
  pc_TopologyWindowS :: int
  pc_MemoryPressurePct :: int

definition DefaultProbeConfig :: ProbeConfig where
  "DefaultProbeConfig =
    \<lparr>pc_SlowIOThresholdMs = 100, pc_DNSTimeoutMs = 5000, pc_CgroupSampleIntervalS = 10,
     pc_TopologyWindowS = 300, pc_MemoryPressurePct = 90\<rparr>"

definition parseEnvInt :: "env \<Rightarrow> string \<Rightarrow> int \<Rightarrow> int \<Rightarrow> int \<Rightarrow> int" where
  "parseEnvInt env envVar defaultVal minVal maxVal =
    (let raw = env envVar in
     if raw = [] then defaultVal
     else case atoi raw of
            None \<Rightarrow> defaultVal
          | Some val \<Rightarrow> if val < minVal \<or> maxVal < val then defaultVal else val)"

definition LoadProbeConfig :: "env \<Rightarrow> ProbeConfig" where
  "LoadProbeConfig env =
    (let c = DefaultProbeConfig in
     \<lparr>pc_SlowIOThresholdMs =
        parseEnvInt env ''EARTHWORM_SLOW_IO_THRESHOLD_MS'' (pc_SlowIOThresholdMs c) 1 60000,
      pc_DNSTimeoutMs = parseEnvInt env ''EARTHWORM_DNS_TIMEOUT_MS'' (pc_DNSTimeoutMs c) 100 60000,
      pc_CgroupSampleIntervalS =
        parseEnvInt env ''EARTHWORM_CGROUP_SAMPLE_INTERVAL_S'' (pc_CgroupSampleIntervalS c) 1 3600,
      pc_TopologyWindowS =
        parseEnvInt env ''EARTHWORM_TOPOLOGY_WINDOW_S'' (pc_TopologyWindowS c) 10 86400,
      pc_MemoryPressurePct =
        parseEnvInt env ''EARTHWORM_MEMORY_PRESSURE_PCT'' (pc_MemoryPressurePct c) 1 100\<rparr>)"

section \<open>Ranges\<close>

lemma parseEnvInt_range:
  "lo \<le> d \<Longrightarrow> d \<le> hi \<Longrightarrow> lo \<le> parseEnvInt env v d lo hi \<and> parseEnvInt env v d lo hi \<le> hi"
  by (simp add: parseEnvInt_def Let_def split: option.split)

text \<open>Every value in range can be configured: its decimal text is read back.\<close>

lemma show_int_Nil [simp]: "show_int i \<noteq> []"
  by (simp add: show_int_def)

lemma parseEnvInt_show:
  assumes "env v = show_int i" and "lo \<le> i" and "i \<le> hi" and "is_i64 i"
  shows "parseEnvInt env v d lo hi = i"
  using assms by (simp add: parseEnvInt_def atoi_show_int Let_def)

lemma parseEnvInt_default:
  "env v = [] \<or> atoi (env v) = None \<Longrightarrow> parseEnvInt env v d lo hi = d"
  by (auto simp: parseEnvInt_def Let_def)

lemma LoadConfig_fields:
  "cfg_Port (LoadConfig env) = env_int env ''EARTHWORM_PORT'' 8080"
  "cfg_StoreType (LoadConfig env) = env_string env ''EARTHWORM_STORE'' ''memory''"
  "cfg_WarningThresholdS (LoadConfig env) = env_int env ''EARTHWORM_WARNING_THRESHOLD'' 10"
  "cfg_CriticalThresholdS (LoadConfig env) = env_int env ''EARTHWORM_CRITICAL_THRESHOLD'' 40"
  "cfg_WebhookURL (LoadConfig env) = env_string env ''EARTHWORM_WEBHOOK_URL'' []"
  "cfg_TopologyWindowS (LoadConfig env) =
     parseEnvInt env ''EARTHWORM_TOPOLOGY_WINDOW_S'' 300 10 86400"
  by (simp_all add: LoadConfig_def Let_def default_Config_def parseEnvInt_def not_less not_le
      split: option.split)

lemma LoadConfig_origins:
  "cfg_CORSOrigins (LoadConfig env) \<noteq> []"
  "env ''EARTHWORM_CORS_ORIGINS'' \<noteq> [] \<Longrightarrow>
   join '','' (cfg_CORSOrigins (LoadConfig env)) = env ''EARTHWORM_CORS_ORIGINS''"
  by (simp_all add: LoadConfig_def Let_def default_Config_def join_split split: option.split)

lemma LoadConfig_i64:
  "is_i64 (cfg_Port (LoadConfig env))" "is_i64 (cfg_WarningThresholdS (LoadConfig env))"
  "is_i64 (cfg_CriticalThresholdS (LoadConfig env))"
  by (auto simp: LoadConfig_fields env_int_def i64_defs dest!: atoi_i64 split: option.split)

text \<open>The server and the agent read the topology window by the same rule.\<close>

lemma topology_window_agrees:
  "cfg_TopologyWindowS (LoadConfig env) = pc_TopologyWindowS (LoadProbeConfig env)"
  by (simp add: LoadConfig_fields LoadProbeConfig_def DefaultProbeConfig_def Let_def)

end
