(* ===== verification/Server.thy ===== *)
theory Server
  imports Anomaly CausalChains Predictions Topology Replay Configs
begin

text \<open>
  The server of \<^verbatim>\<open>src/src/server/main.go\<close> and \<^verbatim>\<open>src/src/server/middleware.go\<close>: its handlers over the
  global components, the routes, and the live heartbeats.  The store is a \<open>Store\<close> over any state;
  messages handed to the hub and webhook posts are logs, in order.  The decoders of \<^verbatim>\<open>encoding/json\<close>
  are an argument, given in \<open>EventJson\<close>.
\<close>

section \<open>State\<close>

record 's Server =
  sv_store :: 's
  sv_hub :: bool
  sv_detector :: "AnomalyDetector option"
  sv_dispatcher :: "AlertDispatcher option"
  sv_chainBuilder :: CausalChainBuilder
  sv_predEngine :: "PredictionEngine option"
  sv_replayStore :: ReplayStore
  sv_topoMap :: "NetworkTopologyMap option"
  sv_outbox :: "WSMessage list"
  sv_posts :: "(string \<times> Alert) list"
  sv_log :: "(string \<times> string \<times> nat) list"

text \<open>The initialisation in \<^verbatim>\<open>main\<close>, on the state of the store it opened.\<close>

definition start_server :: "Config \<Rightarrow> 's \<Rightarrow> 's Server" where
  "start_server c s =
    \<lparr>sv_store = s, sv_hub = True,
     sv_detector = Some (NewAnomalyDetector (cfg_WarningThresholdS c) (cfg_CriticalThresholdS c)),
     sv_dispatcher = Some \<lparr>dp_webhookURL = cfg_WebhookURL c, dp_hasBroadcast = True\<rparr>,
     sv_chainBuilder = NewCausalChainBuilder True,
     sv_predEngine = Some (NewPredictionEngine True),
     sv_replayStore = NewReplayStore defaultRetention,
     sv_topoMap = Some (NewNetworkTopologyMap (dur_mul (cfg_TopologyWindowS c) Second) True),
     sv_outbox = [], sv_posts = [], sv_log = []\<rparr>"

definition send_hub :: "WSMessage list \<Rightarrow> 's Server \<Rightarrow> 's Server" where
  "send_hub msgs sv = sv\<lparr>sv_outbox := sv_outbox sv @ msgs\<rparr>"

fun deliver_alert :: "delivery list \<Rightarrow> 's Server \<Rightarrow> 's Server" where
  "deliver_alert [] sv = sv"
| "deliver_alert (WSBroadcast m # ds) sv = deliver_alert ds (send_hub [m] sv)"
| "deliver_alert (WebhookPost url a # ds) sv =
     deliver_alert ds (sv\<lparr>sv_posts := sv_posts sv @ [(url, a)]\<rparr>)"

section \<open>Requests\<close>

record request =
  rq_method :: http_method
  rq_path :: string
  rq_params :: "(string \<times> string) list"
  rq_body :: string

text \<open>Decoding a request body gives the value or the text of the error.\<close>

record json_codec =
  decode_Heartbeat :: "string \<Rightarrow> string + Heartbeat"
  decode_EnrichedEvents :: "string \<Rightarrow> string + EnrichedEvent list"
  unmarshal_EnrichedEvent :: "string \<Rightarrow> EnrichedEvent option"

datatype api_body =
    HeartbeatsBody "Heartbeat list"
  | TopologyBody "ConnectionRecord list"
  | ReplayBody ReplayResponse
  | AccuracyBody AccuracyMetrics

text \<open>A handler that panics writes no response.\<close>

type_synonym 's handled = "api_body response option \<times> 's Server"

section \<open>Handlers\<close>

text \<open>The body of the loop over the posted events; \<open>now\<close> is the clock that \<^verbatim>\<open>Analyze\<close> reads.\<close>

definition ebpf_event_step ::
  "'s Store \<Rightarrow> Time \<Rightarrow> EnrichedEvent \<Rightarrow> 's Server \<Rightarrow> 's Server" where
  "ebpf_event_step S now event sv =
    (case st_SaveKernelEvent S event (sv_store sv) of
       (Some err, s') \<Rightarrow> sv\<lparr>sv_store := s'\<rparr>
     | (None, s') \<Rightarrow>
         let sv1 = sv\<lparr>sv_store := s'\<rparr>;
             sv2 = (if sv_hub sv1 then send_hub [EbpfEventMsg event] sv1 else sv1);
             sv3 = (case sv_predEngine sv2 of
                      None \<Rightarrow> sv2
                    | Some pe \<Rightarrow>
                        (case Analyze now (ev_NodeName event) [event] pe of
                           (_, pe', msgs) \<Rightarrow> send_hub msgs (sv2\<lparr>sv_predEngine := Some pe'\<rparr>)))
         in case sv_topoMap sv3 of
              None \<Rightarrow> sv3
            | Some m \<Rightarrow>
                if ev_EventType event = ''network_audit''
                then (case Record event m of
                        (_, m', msgs) \<Rightarrow> send_hub msgs (sv3\<lparr>sv_topoMap := Some m'\<rparr>))
                else sv3)"

definition ebpfEventsHandler ::
  "json_codec \<Rightarrow> 's Store \<Rightarrow> Time \<Rightarrow> request \<Rightarrow> 's Server \<Rightarrow> 's handled" where
  "ebpfEventsHandler J S now r sv =
    (if rq_method r \<noteq> POST
     then (Some (writeJSONError ''Method not allowed'' StatusMethodNotAllowed), sv)
     else
       let decoded = (case decode_EnrichedEvents J (rq_body r) of
                Inr events \<Rightarrow> Inr events
              | Inl err \<Rightarrow>
                  (case unmarshal_EnrichedEvent J err of
                     None \<Rightarrow> Inl err
                   | Some single \<Rightarrow> Inr [single]))
       in case decoded of
            Inl err \<Rightarrow> (Some (writeJSONError (''Invalid JSON: '' @ err) StatusBadRequest), sv)
          | Inr events \<Rightarrow>
              (Some (empty_response StatusCreated), fold (ebpf_event_step S now) events sv))"

definition evaluate_and_dispatch :: "'s Store \<Rightarrow> Heartbeat \<Rightarrow> 's Server \<Rightarrow> 's Server" where
  "evaluate_and_dispatch S hb sv =
    (case sv_detector sv of
       None \<Rightarrow> sv
     | Some ad \<Rightarrow>
         (case Evaluate S ad hb (sv_store sv) of
            None \<Rightarrow> sv
          | Some alert \<Rightarrow>
              (case sv_dispatcher sv of
                 None \<Rightarrow> sv
               | Some d \<Rightarrow> deliver_alert (Dispatch d alert) sv)))"

definition heartbeatHandler ::
  "json_codec \<Rightarrow> 's Store \<Rightarrow> request \<Rightarrow> 's Server \<Rightarrow> 's handled" where
  "heartbeatHandler J S r sv =
    (if rq_method r \<noteq> POST
     then (Some (writeJSONError ''Method not allowed'' StatusMethodNotAllowed), sv)
     else case decode_Heartbeat J (rq_body r) of
       Inl err \<Rightarrow> (Some (writeJSONError (''Invalid JSON: '' @ err) StatusBadRequest), sv)
     | Inr hb \<Rightarrow>
         (case st_Save S hb (sv_store sv) of
            (Some err, s') \<Rightarrow>
              (Some (writeJSONError ''Internal server error'' StatusInternalServerError),
               sv\<lparr>sv_store := s'\<rparr>)
          | (None, s') \<Rightarrow>
              let sv1 = sv\<lparr>sv_store := s'\<rparr>;
                  sv2 = (if sv_hub sv1 then send_hub [HeartbeatMsg hb] sv1 else sv1)
              in (Some (empty_response StatusCreated), evaluate_and_dispatch S hb sv2)))"

definition getHeartbeatsHandler ::
  "'s Store \<Rightarrow> Time \<Rightarrow> request \<Rightarrow> 's Server \<Rightarrow> 's handled" where
  "getHeartbeatsHandler S now r sv =
    (if rq_method r \<noteq> GET
     then (Some (writeJSONError ''Method not allowed'' StatusMethodNotAllowed), sv)
     else case st_GetByTimeRange S zero_time (time_Add now (dur_mul 24 Hour)) (sv_store sv) of
       Inl err \<Rightarrow> (Some (writeJSONError ''Service unavailable'' StatusServiceUnavailable), sv)
     | Inr hbs \<Rightarrow> (Some (json_ok (HeartbeatsBody hbs)), sv))"

text \<open>\<open>order\<close> is the iteration order of the topology's map; without a map the call panics.\<close>

definition networkTopologyHandler :: "string list \<Rightarrow> request \<Rightarrow> 's Server \<Rightarrow> 's handled" where
  "networkTopologyHandler order r sv =
    (if rq_method r \<noteq> GET
     then (Some (writeJSONError ''Method not allowed'' StatusMethodNotAllowed), sv)
     else case sv_topoMap sv of
       None \<Rightarrow> (None, sv)
     | Some m \<Rightarrow> (Some (json_ok (TopologyBody (Connections order m))), sv))"

definition predictionAccuracyHandler :: "request \<Rightarrow> 's Server \<Rightarrow> 's handled" where
  "predictionAccuracyHandler r sv =
    (if rq_method r \<noteq> GET
     then (Some (writeJSONError ''Method not allowed'' StatusMethodNotAllowed), sv)
     else case sv_predEngine sv of
       None \<Rightarrow> (None, sv)
     | Some pe \<Rightarrow> (Some (json_ok (AccuracyBody (Accuracy pe))), sv))"

definition map_body :: "('a \<Rightarrow> 'b) \<Rightarrow> 'a response \<Rightarrow> 'b response" where
  "map_body f r = \<lparr>rs_status = rs_status r, rs_headers = rs_headers r,
     rs_body = (case rs_body r of NoBody \<Rightarrow> NoBody | TextBody t \<Rightarrow> TextBody t
       | ErrorBody m \<Rightarrow> ErrorBody m | JsonBody v \<Rightarrow> JsonBody (f v))\<rparr>"

section \<open>Middleware and routes\<close>

type_synonym 's handler = "request \<Rightarrow> 's Server \<Rightarrow> 's handled"

definition cors_headers :: "string list \<Rightarrow> (string \<times> string) list" where
  "cors_headers origins =
    [(''Access-Control-Allow-Origin'', if 0 < length origins then origins ! 0 else ''*''),
     (''Access-Control-Allow-Methods'', ''GET, POST, OPTIONS''),
     (''Access-Control-Allow-Headers'', ''Content-Type'')]"

definition setCORS :: "'s handler \<Rightarrow> string list \<Rightarrow> 's handler" where
  "setCORS next' origins r sv =
    (if rq_method r = OPTIONS
     then (Some \<lparr>rs_status = StatusOK, rs_headers = cors_headers origins, rs_body = NoBody\<rparr>, sv)
     else case next' r sv of
            (resp, sv') \<Rightarrow>
              (map_option (\<lambda>x. x\<lparr>rs_headers := cors_headers origins @ rs_headers x\<rparr>) resp, sv'))"

text \<open>The line that is logged: method, path and the status code of the response.\<close>

definition LoggingMiddleware :: "'s handler \<Rightarrow> 's handler" where
  "LoggingMiddleware next' r sv =
    (case next' r sv of
       (None, sv') \<Rightarrow> (None, sv')
     | (Some resp, sv') \<Rightarrow>
         (Some resp, sv'\<lparr>sv_log := sv_log sv' @
            [(method_name (rq_method r), rq_path r, rs_status resp)]\<rparr>))"

text \<open>What the run-time supplies to one request: clocks, sort, map order, time parsing.\<close>

record runtime =
  rt_now :: Time
  rt_clocks :: "Time \<times> Time \<times> Time"
  rt_sorter :: event_sorter
  rt_order :: "string list"
  rt_parse_time :: "string \<Rightarrow> Time option"

definition apiMux :: "json_codec \<Rightarrow> 's Store \<Rightarrow> runtime \<Rightarrow> 's handler" where
  "apiMux J S rt r sv =
    (if rq_path r = ''/api/heartbeat'' then heartbeatHandler J S r sv
     else if rq_path r = ''/api/heartbeats'' then getHeartbeatsHandler S (rt_now rt) r sv
     else if rq_path r = ''/api/ebpf/events'' then ebpfEventsHandler J S (rt_now rt) r sv
     else if rq_path r = ''/api/network/topology'' then networkTopologyHandler (rt_order rt) r sv
     else if rq_path r = ''/api/replay'' then
       (map_option (map_body ReplayBody)
          (replayHandler (rt_sorter rt) (rt_parse_time rt) S (sv_replayStore sv) (rt_clocks rt)
             (rq_method r) (rq_params r) (sv_store sv)), sv)
     else if rq_path r = ''/api/predictions/accuracy'' then predictionAccuracyHandler r sv
     else (Some not_found, sv))"

definition serve_api :: "Config \<Rightarrow> json_codec \<Rightarrow> 's Store \<Rightarrow> runtime \<Rightarrow> 's handler" where
  "serve_api c J S rt = LoggingMiddleware (setCORS (apiMux J S rt) (cfg_CORSOrigins c))"

section \<open>The live heartbeats\<close>

text \<open>
  One tick: the node is chosen by the clock, the error of \<^verbatim>\<open>Save\<close> is ignored.  \<open>nanos\<close> is the first
  reading of the clock, \<open>now\<close> the second; without nodes the remainder panics.
\<close>

definition live_tick ::
  "'s Store \<Rightarrow> (string \<times> string) list \<Rightarrow> int \<Rightarrow> Time \<Rightarrow> 's Server \<Rightarrow> 's Server option" where
  "live_tick S nodes nanos now sv =
    (let idx = go_mod nanos (int (length nodes)) in
     if nodes = [] \<or> idx < 0 then None
     else
       let node = nodes ! nat idx;
           hb = \<lparr>hb_NodeName = fst node, hb_Namespace = ''default'', hb_Timestamp = now,
                 hb_Status = snd node, hb_EbpfPID = 0, hb_EbpfComm = []\<rparr>;
           sv1 = sv\<lparr>sv_store := snd (st_Save S hb (sv_store sv))\<rparr>;
           sv2 = (if sv_hub sv1 then send_hub [HeartbeatMsg hb] sv1 else sv1)
       in Some (evaluate_and_dispatch S hb sv2))"

section \<open>Requests that only read\<close>

lemma apiMux_read_only:
  "rq_method r \<noteq> POST \<Longrightarrow> snd (apiMux J S rt r sv) = sv"
  by (simp add: apiMux_def heartbeatHandler_def getHeartbeatsHandler_def ebpfEventsHandler_def
      networkTopologyHandler_def predictionAccuracyHandler_def split: sum.split option.split)

lemma serve_api_read_only:
  "rq_method r \<noteq> POST \<Longrightarrow>
   \<exists>lines. snd (serve_api c J S rt r sv) = sv\<lparr>sv_log := sv_log sv @ lines\<rparr>"
  using apiMux_read_only [of r J S rt sv]
  by (auto simp: serve_api_def LoggingMiddleware_def setCORS_def split_beta
      split: option.split intro: exI [of _ "[]"])

text \<open>Every response carries the CORS headers, and its status is logged.\<close>

lemma serve_api_headers:
  assumes "serve_api c J S rt r sv = (Some resp, sv')"
  shows "(''Access-Control-Allow-Origin'',
      if cfg_CORSOrigins c = [] then ''*'' else hd (cfg_CORSOrigins c)) \<in> set (rs_headers resp)"
    and "\<exists>l. sv_log sv' = l @ [(method_name (rq_method r), rq_path r, rs_status resp)]"
  using assms
  by (auto simp: serve_api_def LoggingMiddleware_def setCORS_def cors_headers_def hd_conv_nth
      split: option.splits prod.splits if_splits)

text \<open>Only the replay can panic once the components are set up.\<close>

lemma apiMux_panic:
  assumes "fst (apiMux J S rt r sv) = None" and "sv_topoMap sv \<noteq> None" and "sv_predEngine sv \<noteq> None"
  shows "rq_path r = ''/api/replay'' \<and>
    Query (rt_sorter rt) S (sv_replayStore sv) (snd (snd (rt_clocks rt)))
      (parse_query (rt_parse_time rt) (fst (rt_clocks rt)) (fst (snd (rt_clocks rt))) (rq_params r))
      (sv_store sv) = Inl SlicePanic"
  using assms
  by (auto simp: apiMux_def heartbeatHandler_def getHeartbeatsHandler_def ebpfEventsHandler_def
      networkTopologyHandler_def predictionAccuracyHandler_def replayHandler_def Let_def
      split: sum.splits option.splits prod.splits if_splits replay_error.splits)

section \<open>The posted events\<close>

definition audits :: "EnrichedEvent list \<Rightarrow> EnrichedEvent list" where
  "audits = filter (\<lambda>e. ev_EventType e = ''network_audit'')"

definition ebpf_messages :: "WSMessage list \<Rightarrow> EnrichedEvent list" where
  "ebpf_messages msgs = List.map_filter (\<lambda>m. case m of EbpfEventMsg e \<Rightarrow> Some e | _ \<Rightarrow> None) msgs"

lemma ebpf_messages_append [simp]: "ebpf_messages (xs @ ys) = ebpf_messages xs @ ebpf_messages ys"
  by (simp add: ebpf_messages_def map_filter_def)

lemma ebpf_messages_simps [simp]:
  "ebpf_messages [] = []"
  "ebpf_messages (EbpfEventMsg e # msgs) = e # ebpf_messages msgs"
  "ebpf_messages (HeartbeatMsg hb # msgs) = ebpf_messages msgs"
  "ebpf_messages (AlertMsg a # msgs) = ebpf_messages msgs"
  "ebpf_messages (CausalChainMsg cc # msgs) = ebpf_messages msgs"
  "ebpf_messages (PredictionMsg p # msgs) = ebpf_messages msgs"
  "ebpf_messages (TopologyMsg t # msgs) = ebpf_messages msgs"
  by (simp_all add: ebpf_messages_def map_filter_simps)

lemma Analyze_ebpf_messages: "ebpf_messages (snd (snd (Analyze now n es pe))) = []"
  by (simp add: Analyze_def Let_def)

lemma Record_ebpf_messages: "ebpf_messages (snd (snd (Record e m))) = []"
  by (simp add: Record_msgs)

lemma send_hub_sel [simp]:
  "sv_store (send_hub ms sv) = sv_store sv" "sv_hub (send_hub ms sv) = sv_hub sv"
  "sv_detector (send_hub ms sv) = sv_detector sv" "sv_dispatcher (send_hub ms sv) = sv_dispatcher sv"
  "sv_predEngine (send_hub ms sv) = sv_predEngine sv" "sv_topoMap (send_hub ms sv) = sv_topoMap sv"
  "sv_replayStore (send_hub ms sv) = sv_replayStore sv"
  "sv_outbox (send_hub ms sv) = sv_outbox sv @ ms" "sv_posts (send_hub ms sv) = sv_posts sv"
  "sv_log (send_hub ms sv) = sv_log sv"
  by (simp_all add: send_hub_def)

text \<open>One saved event: stored, broadcast, analysed alone, and recorded when it is an audit event.\<close>

lemma ebpf_event_step_saved:
  assumes "st_SaveKernelEvent S e (sv_store sv) = (None, s')"
  shows "sv_store (ebpf_event_step S now e sv) = s'"
    and "ebpf_messages (sv_outbox (ebpf_event_step S now e sv)) =
           ebpf_messages (sv_outbox sv) @ (if sv_hub sv then [e] else [])"
    and "sv_topoMap (ebpf_event_step S now e sv) =
           map_option (\<lambda>m. fst (record_all (audits [e]) m)) (sv_topoMap sv)"
    and "sv_predEngine (ebpf_event_step S now e sv) =
           map_option (\<lambda>pe. fst (snd (Analyze now (ev_NodeName e) [e] pe))) (sv_predEngine sv)"
  by (simp_all add: ebpf_event_step_def assms Let_def split_beta audits_def Analyze_ebpf_messages
      Record_ebpf_messages split: option.split)

lemma ebpf_event_step_frame [simp]:
  "sv_hub (ebpf_event_step S now e sv) = sv_hub sv"
  "sv_detector (ebpf_event_step S now e sv) = sv_detector sv"
  "sv_dispatcher (ebpf_event_step S now e sv) = sv_dispatcher sv"
  "sv_replayStore (ebpf_event_step S now e sv) = sv_replayStore sv"
  "sv_posts (ebpf_event_step S now e sv) = sv_posts sv"
  "sv_log (ebpf_event_step S now e sv) = sv_log sv"
  by (simp_all add: ebpf_event_step_def Let_def split_beta split: option.split prod.split)

lemma record_all_append: "fst (record_all (xs @ ys) m) = fst (record_all ys (fst (record_all xs m)))"
  by (induction xs arbitrary: m) (simp_all add: Let_def split_beta)

lemma fold_ebpf_memory:
  "sv_store (fold (ebpf_event_step memory_store now) events sv) =
     (sv_store sv)\<lparr>ms_kernelEvents := ms_kernelEvents (sv_store sv) @ events\<rparr>"
  "sv_hub sv \<Longrightarrow> ebpf_messages (sv_outbox (fold (ebpf_event_step memory_store now) events sv)) =
     ebpf_messages (sv_outbox sv) @ events"
  "sv_topoMap (fold (ebpf_event_step memory_store now) events sv) =
     map_option (\<lambda>m. fst (record_all (audits events) m)) (sv_topoMap sv)"
proof -
  have save: "st_SaveKernelEvent memory_store e s =
      (None, s\<lparr>ms_kernelEvents := ms_kernelEvents s @ [e]\<rparr>)" for e s
    by (simp add: MemoryStore_SaveKernelEvent_def)
  note step = ebpf_event_step_saved [OF save]
  show "sv_store (fold (ebpf_event_step memory_store now) events sv) =
     (sv_store sv)\<lparr>ms_kernelEvents := ms_kernelEvents (sv_store sv) @ events\<rparr>"
    by (induction events arbitrary: sv) (simp_all add: step(1))
  show "sv_hub sv \<Longrightarrow> ebpf_messages (sv_outbox (fold (ebpf_event_step memory_store now) events sv)) =
     ebpf_messages (sv_outbox sv) @ events"
    by (induction events arbitrary: sv) (simp_all add: step(2))
  show "sv_topoMap (fold (ebpf_event_step memory_store now) events sv) =
     map_option (\<lambda>m. fst (record_all (audits events) m)) (sv_topoMap sv)"
  proof (induction events arbitrary: sv)
    case Nil
    show ?case by (cases "sv_topoMap sv") (simp_all add: audits_def)
  next
    case (Cons e events)
    have "audits (e # events) = audits [e] @ audits events" by (simp add: audits_def)
    then show ?case
      by (simp add: Cons.IH step(3) option.map_comp record_all_append comp_def)
  qed
qed

section \<open>The running server\<close>

text \<open>
  The states of a server on the in-memory store: any requests, one after the other, and any live
  ticks.
\<close>

inductive server_reach ::
  "Config \<Rightarrow> json_codec \<Rightarrow> (string \<times> string) list \<Rightarrow> MemoryStore Server \<Rightarrow> bool"
  for c J nodes where
  start: "server_reach c J nodes (start_server c NewMemoryStore)"
| request: "server_reach c J nodes sv \<Longrightarrow> serve_api c J memory_store rt r sv = (resp, sv') \<Longrightarrow>
    server_reach c J nodes sv'"
| tick: "server_reach c J nodes sv \<Longrightarrow> live_tick memory_store nodes nanos now sv = Some sv' \<Longrightarrow>
    server_reach c J nodes sv'"

definition no_alerts :: "'s Server \<Rightarrow> bool" where
  "no_alerts sv \<longleftrightarrow> sv_posts sv = [] \<and> (\<forall>m \<in> set (sv_outbox sv). ws_Type m \<noteq> ''alert'')"

definition prediction_ok :: "Prediction \<Rightarrow> bool" where
  "prediction_ok p \<longleftrightarrow> 0 \<le> pr_Confidence p \<and> pr_Confidence p \<le> 1 \<and>
     10 \<le> pr_TimeToFailure p \<and> pr_TimeToFailure p \<le> 60 \<and> pr_Outcome p = ''pending'' \<and>
     pr_Patterns p \<noteq> [] \<and> set (pr_Patterns p) \<subseteq>
       {''critical_exit'', ''memory_pressure_escalation'', ''dns_resolution_degradation''}"

text \<open>
  What holds between requests: the hub heard of every stored event, the topology is the one of the
  stored audit events, predictions are in range, and nothing was alerted.
\<close>

definition server_inv :: "Config \<Rightarrow> MemoryStore Server \<Rightarrow> bool" where
  "server_inv c sv \<longleftrightarrow>
     sv_hub sv \<and>
     sv_detector sv = Some (NewAnomalyDetector (cfg_WarningThresholdS c) (cfg_CriticalThresholdS c)) \<and>
     ebpf_messages (sv_outbox sv) = ms_kernelEvents (sv_store sv) \<and>
     (\<exists>m. sv_topoMap sv = Some m \<and>
        tm_connections m = spec_connections (audits (ms_kernelEvents (sv_store sv)))) \<and>
     (\<exists>pe. sv_predEngine sv = Some pe \<and> (\<forall>p \<in> set (pe_predictions pe). prediction_ok p)) \<and>
     no_alerts sv"

lemma Analyze_single_ok:
  assumes "\<forall>p \<in> set (pe_predictions pe). prediction_ok p"
  shows "\<forall>p \<in> set (pe_predictions (fst (snd (Analyze now n [e] pe)))). prediction_ok p"
proof -
  obtain r pe' msgs where run: "Analyze now n [e] pe = (r, pe', msgs)"
    by (metis prod_cases3)
  show ?thesis
  proof (cases r)
    case None
    with run assms show ?thesis using Analyze_None by fastforce
  next
    case (Some p)
    note run = run [unfolded Some]
    have "set (pr_Patterns p) \<subseteq>
       {''critical_exit'', ''memory_pressure_escalation'', ''dns_resolution_degradation''}"
      unfolding AnalyzeD(4) [OF run] combine_patterns
      using short_window_patterns [of "[e]"] by force
    then have "prediction_ok p"
      using Analyze_confidence(1,2) [OF run] AnalyzeD(3,5,6) [OF run] estimateTTF_bounds
      by (simp add: prediction_ok_def)
    then show ?thesis using assms run AnalyzeD(8) [OF run] by simp
  qed
qed

lemma no_alerts_send: "no_alerts (send_hub ms sv) \<longleftrightarrow>
    no_alerts sv \<and> (\<forall>m \<in> set ms. ws_Type m \<noteq> ''alert'')"
  by (auto simp: no_alerts_def)

lemma no_alerts_cong:
  "sv_posts sv = sv_posts sv' \<Longrightarrow> sv_outbox sv = sv_outbox sv' \<Longrightarrow> no_alerts sv \<longleftrightarrow> no_alerts sv'"
  by (simp add: no_alerts_def)

lemma Analyze_no_alert: "\<forall>m \<in> set (snd (snd (Analyze now n es pe))). ws_Type m \<noteq> ''alert''"
  by (simp add: Analyze_def Let_def)

lemma Record_no_alert: "\<forall>m \<in> set (snd (snd (Record e m))). ws_Type m \<noteq> ''alert''"
  by (simp add: Record_msgs)

lemma ebpf_event_step_outbox:
  "\<exists>ms. sv_outbox (ebpf_event_step S now e sv) = sv_outbox sv @ ms \<and>
     (\<forall>m \<in> set ms. ws_Type m \<noteq> ''alert'')"
  using Analyze_no_alert [of now "ev_NodeName e" "[e]"] Record_no_alert [of e]
  by (auto simp: ebpf_event_step_def Let_def split_beta split: option.split prod.split)

lemma ebpf_event_step_no_alerts:
  "no_alerts sv \<Longrightarrow> no_alerts (ebpf_event_step S now e sv)"
  using ebpf_event_step_outbox [of S now e sv] by (auto simp: no_alerts_def)

lemma ebpf_event_step_inv:
  assumes "server_inv c sv"
  shows "server_inv c (ebpf_event_step memory_store now e sv)"
proof -
  have save: "st_SaveKernelEvent memory_store e (sv_store sv) =
      (None, (sv_store sv)\<lparr>ms_kernelEvents := ms_kernelEvents (sv_store sv) @ [e]\<rparr>)"
    by (simp add: MemoryStore_SaveKernelEvent_def)
  note step = ebpf_event_step_saved [OF save]
  obtain m pe where m: "sv_topoMap sv = Some m"
      "tm_connections m = spec_connections (audits (ms_kernelEvents (sv_store sv)))"
    and pe: "sv_predEngine sv = Some pe" "\<forall>p \<in> set (pe_predictions pe). prediction_ok p"
    using assms by (auto simp: server_inv_def)
  have topo: "tm_connections (fst (record_all (audits [e]) m)) =
      spec_connections (audits (ms_kernelEvents (sv_store sv) @ [e]))"
    by (cases "ev_EventType e = ''network_audit''")
       (simp_all add: audits_def m(2) spec_snoc Record_conns Let_def split_beta)
  show ?thesis
    using assms Analyze_single_ok [OF pe(2)]
    by (simp add: server_inv_def step topo m(1) pe(1) ebpf_event_step_no_alerts)
qed

lemma server_inv_cong:
  assumes "server_inv c sv"
    and "sv_hub sv' = sv_hub sv" "sv_detector sv' = sv_detector sv"
    and "ms_kernelEvents (sv_store sv') = ms_kernelEvents (sv_store sv)"
    and "sv_topoMap sv' = sv_topoMap sv" "sv_predEngine sv' = sv_predEngine sv"
    and "sv_posts sv' = sv_posts sv"
    and "sv_outbox sv' = sv_outbox sv @ ms" "\<forall>m \<in> set ms. ws_Type m = ''heartbeat''"
  shows "server_inv c sv'"
proof -
  have "ebpf_messages ms = []"
    using assms(9) by (induction ms) (auto elim: ws_Type.elims)
  moreover have "no_alerts sv'"
    using assms by (auto simp: server_inv_def no_alerts_def)
  ultimately show ?thesis using assms by (simp add: server_inv_def)
qed

text \<open>A heartbeat that was just saved raises no alert.\<close>

lemma evaluate_saved:
  assumes "sv_detector sv = Some ad" and "0 \<le> ad_warningThreshold ad"
    and "st_Save memory_store hb s = (None, sv_store sv)"
  shows "evaluate_and_dispatch memory_store hb sv = sv"
  using mem.no_alert_after_save [OF assms(3,2)] assms(1)
  by (simp add: evaluate_and_dispatch_def)

lemma heartbeat_effect:
  assumes "server_inv c sv" and "0 \<le> cfg_WarningThresholdS c" and "cfg_WarningThresholdS c < 2 ^ 33"
    and "st_Save memory_store hb (sv_store sv) = (err, s')"
  shows "server_inv c (evaluate_and_dispatch memory_store hb
     (send_hub [HeartbeatMsg hb] (sv\<lparr>sv_store := s'\<rparr>)))"
proof -
  let ?sv = "send_hub [HeartbeatMsg hb] (sv\<lparr>sv_store := s'\<rparr>)"
  have d: "sv_detector ?sv = Some (NewAnomalyDetector (cfg_WarningThresholdS c) (cfg_CriticalThresholdS c))"
    using assms(1) by (simp add: server_inv_def)
  have w: "0 \<le> ad_warningThreshold
      (NewAnomalyDetector (cfg_WarningThresholdS c) (cfg_CriticalThresholdS c))"
    using assms(2,3) by (simp add: NewAnomalyDetector_def seconds_in_range)
  have s: "st_Save memory_store hb (sv_store sv) = (None, sv_store ?sv)"
    using assms(4) by (simp add: MemoryStore_Save_def)
  have "server_inv c ?sv"
    using assms(1,4) by (intro server_inv_cong [OF assms(1)]) (auto simp: MemoryStore_Save_def)
  then show ?thesis by (simp add: evaluate_saved [OF d w s])
qed

lemma fold_ebpf_inv:
  "server_inv c sv \<Longrightarrow> server_inv c (fold (ebpf_event_step memory_store now) events sv)"
  by (induction events arbitrary: sv) (simp_all add: ebpf_event_step_inv)

lemma apiMux_inv:
  assumes inv: "server_inv c sv"
    and w: "0 \<le> cfg_WarningThresholdS c" "cfg_WarningThresholdS c < 2 ^ 33"
  shows "server_inv c (snd (apiMux J memory_store rt r sv))"
proof (cases "rq_method r = POST")
  case False
  with inv show ?thesis by (simp add: apiMux_read_only)
next
  case post: True
  have hub: "sv_hub sv" using inv by (simp add: server_inv_def)
  have hb: "server_inv c (snd (heartbeatHandler J memory_store r sv))"
  proof (cases "decode_Heartbeat J (rq_body r)")
    case (Inr hb)
    obtain s' where s: "st_Save memory_store hb (sv_store sv) = (None, s')"
      by (simp add: MemoryStore_Save_def)
    show ?thesis
      using heartbeat_effect [OF inv w s] post Inr s hub by (simp add: heartbeatHandler_def)
  qed (use inv post in \<open>simp add: heartbeatHandler_def\<close>)
  have ev: "server_inv c (snd (ebpfEventsHandler J memory_store (rt_now rt) r sv))"
    using post inv by (auto simp: ebpfEventsHandler_def Let_def fold_ebpf_inv split: sum.split option.split)
  show ?thesis
    using inv hb ev post
    by (simp add: apiMux_def getHeartbeatsHandler_def networkTopologyHandler_def
        predictionAccuracyHandler_def split: sum.split option.split)
qed

lemma server_inv_log [simp]: "server_inv c (sv\<lparr>sv_log := l\<rparr>) = server_inv c sv"
  by (simp add: server_inv_def no_alerts_def)

lemma serve_api_state:
  "\<exists>l. snd (serve_api c J S rt r sv) = (snd (apiMux J S rt r sv))\<lparr>sv_log := l\<rparr> \<or>
       snd (serve_api c J S rt r sv) = sv\<lparr>sv_log := l\<rparr>"
proof -
  have id: "\<exists>l. x = x\<lparr>sv_log := l\<rparr>" for x :: "'a Server"
    by (rule exI [of _ "sv_log x"]) simp
  show ?thesis
    by (cases "apiMux J S rt r sv"; cases "fst (apiMux J S rt r sv)")
       (auto simp: serve_api_def LoggingMiddleware_def setCORS_def ex_disj_distrib id
         split: option.split)
qed

lemma start_inv: "server_inv c (start_server c NewMemoryStore)"
  by (simp add: server_inv_def start_server_def no_alerts_def NewMemoryStore_def
      NewNetworkTopologyMap_def NewPredictionEngine_def audits_def spec_connections_def
      summary_of_def fun_eq_iff)

lemma live_tick_inv:
  assumes inv: "server_inv c sv"
    and w: "0 \<le> cfg_WarningThresholdS c" "cfg_WarningThresholdS c < 2 ^ 33"
    and "live_tick memory_store nodes nanos now sv = Some sv'"
  shows "server_inv c sv'"
proof -
  have hub: "sv_hub sv" using inv by (simp add: server_inv_def)
  with assms(4) obtain hb where "sv' = evaluate_and_dispatch memory_store hb
     (send_hub [HeartbeatMsg hb] (sv\<lparr>sv_store := snd (st_Save memory_store hb (sv_store sv))\<rparr>))"
    by (auto simp: live_tick_def Let_def split: if_splits)
  then show ?thesis
    using heartbeat_effect [OF inv w, of hb] by (metis prod.collapse)
qed

lemma server_reach_inv:
  assumes "server_reach c J nodes sv"
    and "0 \<le> cfg_WarningThresholdS c" and "cfg_WarningThresholdS c < 2 ^ 33"
  shows "server_inv c sv"
  using assms(1)
proof induction
  case start
  show ?case by (rule start_inv)
next
  case (request sv rt r resp sv')
  then show ?case
    using serve_api_state [of c J memory_store rt r sv] apiMux_inv [OF request.IH assms(2,3)] by auto
next
  case (tick sv nanos now sv')
  then show ?case using live_tick_inv assms(2,3) by blast
qed

end
