(* ===== verification/Hub.thy ===== *)
theory Hub
  imports ServerTypes "HOL-Library.Sublist"
begin

text \<open>
  The WebSocket hub of \<^verbatim>\<open>src/src/server/ws.go\<close>: the event loop \<^verbatim>\<open>Run\<close>, the broadcast functions
  and the connections that \<^verbatim>\<open>ServeWS\<close> opens.  A client is a number, its \<^verbatim>\<open>send\<close> channel lives in
  a store from clients to channels, and an operation that Go would panic on (a send on a closed
  channel, a second close) is \<open>None\<close>.  The messages are bytes of any type \<open>'m\<close>:
  \<^verbatim>\<open>encoding/json\<close> is a parameter of the broadcast functions.
\<close>

section \<open>Channels\<close>

record 'm chan =
  ch_cap :: nat
  ch_buf :: "'m list"
  ch_closed :: bool

definition make_chan :: "nat \<Rightarrow> 'm chan" where
  "make_chan n = \<lparr>ch_cap = n, ch_buf = [], ch_closed = False\<rparr>"

definition close_chan :: "'m chan \<Rightarrow> 'm chan option" where
  "close_chan c = (if ch_closed c then None else Some (c\<lparr>ch_closed := True\<rparr>))"

text \<open>\<^verbatim>\<open>select { case c <- m: ... default: ... }\<close>: \<open>Some None\<close> is the default branch.\<close>

definition select_send :: "'m \<Rightarrow> 'm chan \<Rightarrow> 'm chan option option" where
  "select_send m c =
    (if ch_closed c then None
     else if length (ch_buf c) < ch_cap c then Some (Some (c\<lparr>ch_buf := ch_buf c @ [m]\<rparr>))
     else Some None)"

section \<open>The hub\<close>

definition broadcastCap :: nat where "broadcastCap = 256"
definition sendCap :: nat where "sendCap = 256"

record 'm Hub =
  hub_clients :: "nat set"
  hub_broadcast :: "'m list"
  hub_send :: "nat \<Rightarrow> 'm chan"

definition NewHub :: "'m Hub" where
  "NewHub = \<lparr>hub_clients = {}, hub_broadcast = [], hub_send = (\<lambda>_. make_chan sendCap)\<rparr>"

text \<open>The three cases of \<^verbatim>\<open>Run\<close>.\<close>

definition on_register :: "nat \<Rightarrow> 'm Hub \<Rightarrow> 'm Hub" where
  "on_register client h = h\<lparr>hub_clients := insert client (hub_clients h)\<rparr>"

definition on_unregister :: "nat \<Rightarrow> 'm Hub \<Rightarrow> 'm Hub option" where
  "on_unregister client h =
    (if client \<in> hub_clients h
     then case close_chan (hub_send h client) of
            None \<Rightarrow> None
          | Some c \<Rightarrow> Some (h\<lparr>hub_clients := hub_clients h - {client},
                             hub_send := (hub_send h)(client := c)\<rparr>)
     else Some h)"

definition deliver :: "'m \<Rightarrow> nat \<Rightarrow> 'm Hub \<Rightarrow> 'm Hub option" where
  "deliver message client h =
    (case select_send message (hub_send h client) of
       None \<Rightarrow> None
     | Some (Some c) \<Rightarrow> Some (h\<lparr>hub_send := (hub_send h)(client := c)\<rparr>)
     | Some None \<Rightarrow>
         (case close_chan (hub_send h client) of
            None \<Rightarrow> None
          | Some c \<Rightarrow> Some (h\<lparr>hub_send := (hub_send h)(client := c),
                             hub_clients := hub_clients h - {client}\<rparr>)))"

text \<open>The range over the client map visits the clients in an order that Go does not fix.\<close>

fun on_broadcast :: "'m \<Rightarrow> nat list \<Rightarrow> 'm Hub \<Rightarrow> 'm Hub option" where
  "on_broadcast message [] h = Some h"
| "on_broadcast message (client # order) h =
     (case deliver message client h of None \<Rightarrow> None | Some h' \<Rightarrow> on_broadcast message order h')"

text \<open>A broadcast function blocks while the broadcast channel is full (\<open>None\<close>); a message that cannot
  be marshalled is dropped.\<close>

definition broadcast_msg :: "(WSMessage \<Rightarrow> 'm option) \<Rightarrow> WSMessage \<Rightarrow> 'm Hub \<Rightarrow> 'm Hub option" where
  "broadcast_msg json msg h =
    (case json msg of
       None \<Rightarrow> Some h
     | Some data \<Rightarrow>
         if length (hub_broadcast h) < broadcastCap
         then Some (h\<lparr>hub_broadcast := hub_broadcast h @ [data]\<rparr>) else None)"

definition BroadcastHeartbeat :: "(WSMessage \<Rightarrow> 'm option) \<Rightarrow> Heartbeat \<Rightarrow> 'm Hub \<Rightarrow> 'm Hub option" where
  "BroadcastHeartbeat json event = broadcast_msg json (HeartbeatMsg event)"

definition BroadcastAlert :: "(WSMessage \<Rightarrow> 'm option) \<Rightarrow> Alert \<Rightarrow> 'm Hub \<Rightarrow> 'm Hub option" where
  "BroadcastAlert json alert = broadcast_msg json (AlertMsg alert)"

definition BroadcastEbpfEvent ::
  "(WSMessage \<Rightarrow> 'm option) \<Rightarrow> EnrichedEvent \<Rightarrow> 'm Hub \<Rightarrow> 'm Hub option" where
  "BroadcastEbpfEvent json event = broadcast_msg json (EbpfEventMsg event)"

definition BroadcastCausalChain ::
  "(WSMessage \<Rightarrow> 'm option) \<Rightarrow> CausalChain \<Rightarrow> 'm Hub \<Rightarrow> 'm Hub option" where
  "BroadcastCausalChain json chain = broadcast_msg json (CausalChainMsg chain)"

definition BroadcastPrediction ::
  "(WSMessage \<Rightarrow> 'm option) \<Rightarrow> Prediction \<Rightarrow> 'm Hub \<Rightarrow> 'm Hub option" where
  "BroadcastPrediction json prediction = broadcast_msg json (PredictionMsg prediction)"

definition BroadcastTopologyUpdate ::
  "(WSMessage \<Rightarrow> 'm option) \<Rightarrow> ConnectionRecord \<Rightarrow> 'm Hub \<Rightarrow> 'm Hub option" where
  "BroadcastTopologyUpdate json rec = broadcast_msg json (TopologyMsg rec)"

section \<open>One broadcast, in closed form\<close>

definition full :: "'m chan \<Rightarrow> bool" where
  "full c \<longleftrightarrow> ch_cap c \<le> length (ch_buf c)"

definition delivered_chan :: "'m \<Rightarrow> 'm chan \<Rightarrow> 'm chan" where
  "delivered_chan m c =
    (if full c then c\<lparr>ch_closed := True\<rparr> else c\<lparr>ch_buf := ch_buf c @ [m]\<rparr>)"

lemma deliver_open:
  "\<not> ch_closed (hub_send h client) \<Longrightarrow>
   deliver m client h = Some (h\<lparr>hub_send := (hub_send h)(client := delivered_chan m (hub_send h client)),
     hub_clients := (if full (hub_send h client) then hub_clients h - {client} else hub_clients h)\<rparr>)"
  by (simp add: deliver_def select_send_def close_chan_def delivered_chan_def full_def not_less)

text \<open>
  The outcome does not depend on the order of the range: every visited client's channel gets the
  message or is closed, and the closed ones leave the map.
\<close>

lemma on_broadcast_closed_form:
  assumes "distinct order" and "\<forall>i \<in> set order. \<not> ch_closed (hub_send h i)"
  shows "on_broadcast m order h = Some (h\<lparr>
     hub_send := (\<lambda>i. if i \<in> set order then delivered_chan m (hub_send h i) else hub_send h i),
     hub_clients := hub_clients h - {i \<in> set order. full (hub_send h i)}\<rparr>)"
  using assms
proof (induction order arbitrary: h)
  case Nil
  then show ?case by simp
next
  case (Cons i order)
  let ?h = "h\<lparr>hub_send := (hub_send h)(i := delivered_chan m (hub_send h i)),
     hub_clients := (if full (hub_send h i) then hub_clients h - {i} else hub_clients h)\<rparr>"
  from Cons.prems have i: "i \<notin> set order" and d: "deliver m i h = Some ?h"
    by (auto simp: deliver_open)
  have "on_broadcast m order ?h = Some (?h\<lparr>
     hub_send := (\<lambda>j. if j \<in> set order then delivered_chan m (hub_send ?h j) else hub_send ?h j),
     hub_clients := hub_clients ?h - {j \<in> set order. full (hub_send ?h j)}\<rparr>)"
    by (rule Cons.IH) (use Cons.prems i in auto)
  moreover have "(\<lambda>j. if j \<in> set order then delivered_chan m (hub_send ?h j) else hub_send ?h j)
      = (\<lambda>j. if j \<in> set (i # order) then delivered_chan m (hub_send h j) else hub_send h j)"
    using i by (auto simp: fun_eq_iff)
  moreover have "hub_clients ?h - {j \<in> set order. full (hub_send ?h j)}
      = hub_clients h - {j \<in> set (i # order). full (hub_send h j)}"
    using i by auto
  ultimately show ?case using d by simp
qed

section \<open>The hub with its connections\<close>

text \<open>
  \<^verbatim>\<open>ServeWS\<close> makes a client with a fresh channel, registers it and starts its two goroutines: the
  reader, which sends one unregister request when it ends, and the writer, which takes messages
  from the channel (also after it was closed).  \<open>hs_log\<close>, \<open>hs_joined\<close> and \<open>hs_written\<close> are history:
  the messages \<^verbatim>\<open>Run\<close> has broadcast, the length of that log when a client registered, and what
  its writer took.
\<close>

record 'm HubSys =
  hs_hub :: "'m Hub"
  hs_used :: "nat set"
  hs_readers :: "nat set"
  hs_log :: "'m list"
  hs_joined :: "nat \<Rightarrow> nat"
  hs_written :: "nat \<Rightarrow> 'm list"

definition init_hub :: "'m HubSys" where
  "init_hub = \<lparr>hs_hub = NewHub, hs_used = {}, hs_readers = {}, hs_log = [],
     hs_joined = (\<lambda>_. 0), hs_written = (\<lambda>_. [])\<rparr>"

definition ServeWS :: "nat \<Rightarrow> 'm HubSys \<Rightarrow> 'm HubSys" where
  "ServeWS client s = s\<lparr>
     hs_hub := on_register client
       ((hs_hub s)\<lparr>hub_send := (hub_send (hs_hub s))(client := make_chan sendCap)\<rparr>),
     hs_used := insert client (hs_used s),
     hs_readers := insert client (hs_readers s),
     hs_joined := (hs_joined s)(client := length (hs_log s))\<rparr>"

text \<open>\<open>None\<close> is a state after a panic.\<close>

inductive hub_step :: "'m HubSys \<Rightarrow> 'm HubSys option \<Rightarrow> bool" where
  serve: "client \<notin> hs_used s \<Longrightarrow> hub_step s (Some (ServeWS client s))"
| unregister: "client \<in> hs_readers s \<Longrightarrow>
    hub_step s (map_option (\<lambda>h. s\<lparr>hs_hub := h, hs_readers := hs_readers s - {client}\<rparr>)
      (on_unregister client (hs_hub s)))"
| enqueue: "length (hub_broadcast (hs_hub s)) < broadcastCap \<Longrightarrow>
    hub_step s (Some (s\<lparr>hs_hub :=
      (hs_hub s)\<lparr>hub_broadcast := hub_broadcast (hs_hub s) @ [m]\<rparr>\<rparr>))"
| broadcast: "hub_broadcast (hs_hub s) = m # rest \<Longrightarrow> distinct order \<Longrightarrow>
    set order = hub_clients (hs_hub s) \<Longrightarrow>
    hub_step s (map_option (\<lambda>h. s\<lparr>hs_hub := h, hs_log := hs_log s @ [m]\<rparr>)
      (on_broadcast m order ((hs_hub s)\<lparr>hub_broadcast := rest\<rparr>)))"
| writer: "client \<in> hs_used s \<Longrightarrow> ch_buf (hub_send (hs_hub s) client) = m # rest \<Longrightarrow>
    hub_step s (Some (s\<lparr>hs_hub := (hs_hub s)\<lparr>hub_send :=
        (hub_send (hs_hub s))(client := (hub_send (hs_hub s) client)\<lparr>ch_buf := rest\<rparr>)\<rparr>,
      hs_written := (hs_written s)(client := hs_written s client @ [m])\<rparr>))"

inductive hub_reachable :: "'m HubSys \<Rightarrow> bool" where
  start: "hub_reachable init_hub"
| step: "hub_reachable s \<Longrightarrow> hub_step s (Some t) \<Longrightarrow> hub_reachable t"

text \<open>What a client's connection has been given: written out, then still in its channel.\<close>

definition stream :: "'m HubSys \<Rightarrow> nat \<Rightarrow> 'm list" where
  "stream s i = hs_written s i @ ch_buf (hub_send (hs_hub s) i)"

definition chan_ok :: "'m HubSys \<Rightarrow> nat \<Rightarrow> bool" where
  "chan_ok s i \<longleftrightarrow>
     (ch_closed (hub_send (hs_hub s) i) \<longleftrightarrow> i \<notin> hub_clients (hs_hub s)) \<and>
     ch_cap (hub_send (hs_hub s) i) = sendCap \<and>
     length (ch_buf (hub_send (hs_hub s) i)) \<le> sendCap \<and>
     hs_joined s i \<le> length (hs_log s) \<and>
     prefix (stream s i) (drop (hs_joined s i) (hs_log s)) \<and>
     (i \<in> hub_clients (hs_hub s) \<longrightarrow> stream s i = drop (hs_joined s i) (hs_log s))"

definition hub_inv :: "'m HubSys \<Rightarrow> bool" where
  "hub_inv s \<longleftrightarrow> finite (hs_used s) \<and> hub_clients (hs_hub s) \<subseteq> hs_used s \<and>
     hs_readers s \<subseteq> hs_used s \<and>
     length (hub_broadcast (hs_hub s)) \<le> broadcastCap \<and>
     (\<forall>i. i \<notin> hs_used s \<longrightarrow> hs_written s i = []) \<and>
     (\<forall>i \<in> hs_used s. chan_ok s i)"

lemmas hub_inv_defs = hub_inv_def chan_ok_def stream_def

lemma hub_inv_init: "hub_inv init_hub"
  by (simp add: hub_inv_def init_hub_def NewHub_def broadcastCap_def)

lemma hub_inv_chan: "hub_inv s \<Longrightarrow> i \<in> hs_used s \<Longrightarrow> chan_ok s i"
  by (simp add: hub_inv_def)

text \<open>The invariant after a step that leaves the set of used clients alone.\<close>

lemma hub_inv_keep:
  assumes "hub_inv s" and "hs_used t = hs_used s"
    and "hub_clients (hs_hub t) \<subseteq> hub_clients (hs_hub s)" and "hs_readers t \<subseteq> hs_readers s"
    and "length (hub_broadcast (hs_hub t)) \<le> broadcastCap"
    and "\<And>i. i \<notin> hs_used s \<Longrightarrow> hs_written t i = hs_written s i"
    and "\<And>i. i \<in> hs_used s \<Longrightarrow> chan_ok t i"
  shows "hub_inv t"
proof -
  have sub: "hub_clients (hs_hub s) \<subseteq> hs_used s" "hs_readers s \<subseteq> hs_used s" "finite (hs_used s)"
    and new: "\<forall>i. i \<notin> hs_used s \<longrightarrow> hs_written s i = []"
    using assms(1) by (simp_all add: hub_inv_def)
  show ?thesis
    unfolding hub_inv_def assms(2)
    using sub new assms(3-7) by (intro conjI allI ballI impI) (auto simp: subset_iff)
qed

lemma chan_ok_frame:
  "chan_ok s i \<Longrightarrow> hub_send (hs_hub t) i = hub_send (hs_hub s) i \<Longrightarrow>
   (i \<in> hub_clients (hs_hub t) \<longleftrightarrow> i \<in> hub_clients (hs_hub s)) \<Longrightarrow>
   hs_joined t i = hs_joined s i \<Longrightarrow> hs_log t = hs_log s \<Longrightarrow> hs_written t i = hs_written s i \<Longrightarrow>
   chan_ok t i"
  by (simp add: chan_ok_def stream_def)

lemma ServeWS_fields [simp]:
  "hs_used (ServeWS client s) = insert client (hs_used s)"
  "hs_readers (ServeWS client s) = insert client (hs_readers s)"
  "hs_log (ServeWS client s) = hs_log s"
  "hs_written (ServeWS client s) = hs_written s"
  "hs_joined (ServeWS client s) = (hs_joined s)(client := length (hs_log s))"
  "hub_clients (hs_hub (ServeWS client s)) = insert client (hub_clients (hs_hub s))"
  "hub_broadcast (hs_hub (ServeWS client s)) = hub_broadcast (hs_hub s)"
  "hub_send (hs_hub (ServeWS client s)) = (hub_send (hs_hub s))(client := make_chan sendCap)"
  by (simp_all add: ServeWS_def on_register_def)

lemma chan_ok_serve:
  assumes "hub_inv s" and "client \<notin> hs_used s"
  shows "chan_ok (ServeWS client s) client"
proof -
  have "hs_written s client = []" using assms by (simp add: hub_inv_def)
  then show ?thesis by (simp add: chan_ok_def stream_def make_chan_def)
qed

lemma hub_inv_serve:
  assumes "hub_inv s" and "client \<notin> hs_used s"
  shows "hub_inv (ServeWS client s)"
proof -
  have "chan_ok (ServeWS client s) i" if "i \<in> hs_used s" for i
  proof (rule chan_ok_frame [of s i])
    show "chan_ok s i" using assms that by (simp add: hub_inv_def)
    have "i \<noteq> client" using assms that by auto
    then show "hub_send (hs_hub (ServeWS client s)) i = hub_send (hs_hub s) i"
      and "i \<in> hub_clients (hs_hub (ServeWS client s)) \<longleftrightarrow> i \<in> hub_clients (hs_hub s)"
      and "hs_joined (ServeWS client s) i = hs_joined s i" by simp_all
  qed simp_all
  with chan_ok_serve [OF assms] have "\<forall>i \<in> insert client (hs_used s). chan_ok (ServeWS client s) i"
    by blast
  moreover have "finite (hs_used s)" "hub_clients (hs_hub s) \<subseteq> hs_used s" "hs_readers s \<subseteq> hs_used s"
    "length (hub_broadcast (hs_hub s)) \<le> broadcastCap" "\<forall>i. i \<notin> hs_used s \<longrightarrow> hs_written s i = []"
    using assms(1) by (simp_all add: hub_inv_def)
  ultimately show ?thesis unfolding hub_inv_def ServeWS_fields by blast
qed

lemma on_unregister_inv:
  assumes inv: "hub_inv s" and c: "client \<in> hs_used s"
  shows "\<exists>h. on_unregister client (hs_hub s) = Some h \<and>
    hub_inv (s\<lparr>hs_hub := h, hs_readers := hs_readers s - {client}\<rparr>)"
proof (cases "client \<in> hub_clients (hs_hub s)")
  case False
  have "hub_inv (s\<lparr>hs_readers := hs_readers s - {client}\<rparr>)"
  proof (rule hub_inv_keep [OF inv])
    show "chan_ok (s\<lparr>hs_readers := hs_readers s - {client}\<rparr>) i" if "i \<in> hs_used s" for i
      using hub_inv_chan [OF inv that] by (rule chan_ok_frame) simp_all
  qed (use inv in \<open>simp_all add: hub_inv_def Diff_subset\<close>)
  with False show ?thesis by (simp add: on_unregister_def)
next
  case True
  let ?c = "(hub_send (hs_hub s) client)\<lparr>ch_closed := True\<rparr>"
  let ?h = "(hs_hub s)\<lparr>hub_clients := hub_clients (hs_hub s) - {client},
    hub_send := (hub_send (hs_hub s))(client := ?c)\<rparr>"
  let ?t = "s\<lparr>hs_hub := ?h, hs_readers := hs_readers s - {client}\<rparr>"
  note ok = hub_inv_chan [OF inv c]
  with True have u: "on_unregister client (hs_hub s) = Some ?h"
    by (simp add: on_unregister_def close_chan_def chan_ok_def)
  have "hub_inv ?t"
  proof (rule hub_inv_keep [OF inv])
    show "chan_ok ?t i" if "i \<in> hs_used s" for i
    proof (cases "i = client")
      case True
      with ok show ?thesis by (simp add: chan_ok_def stream_def)
    next
      case False
      from hub_inv_chan [OF inv that] show ?thesis by (rule chan_ok_frame) (use False in simp_all)
    qed
  qed (use inv in \<open>simp_all add: hub_inv_def Diff_subset\<close>)
  with u show ?thesis by simp
qed

text \<open>One broadcast for one client: an open channel gets the message or is closed.\<close>

lemma chan_ok_delivered:
  assumes ok: "chan_ok s i" and c: "i \<in> hub_clients (hs_hub s)"
    and t: "hub_send (hs_hub t) i = delivered_chan m (hub_send (hs_hub s) i)"
      "i \<in> hub_clients (hs_hub t) \<longleftrightarrow> \<not> full (hub_send (hs_hub s) i)"
      "hs_joined t i = hs_joined s i" "hs_log t = hs_log s @ [m]" "hs_written t i = hs_written s i"
  shows "chan_ok t i"
proof (cases "full (hub_send (hs_hub s) i)")
  case True
  have "stream t i = stream s i" using t True by (simp add: stream_def delivered_chan_def)
  moreover have "prefix (stream s i) (drop (hs_joined t i) (hs_log t))"
    using ok c t by (simp add: chan_ok_def)
  ultimately show ?thesis using ok c t True
    by (simp add: chan_ok_def delivered_chan_def)
next
  case False
  have "stream t i = stream s i @ [m]" using t False by (simp add: stream_def delivered_chan_def)
  then have st: "stream t i = drop (hs_joined t i) (hs_log t)"
    using ok c t by (simp add: chan_ok_def)
  then have "prefix (stream t i) (drop (hs_joined t i) (hs_log t))" by simp
  with st ok c t False show ?thesis
    by (simp add: chan_ok_def delivered_chan_def full_def)
qed

lemma chan_ok_log_grows:
  assumes "chan_ok s i" and "i \<notin> hub_clients (hs_hub s)"
    and "hub_send (hs_hub t) i = hub_send (hs_hub s) i" and "i \<notin> hub_clients (hs_hub t)"
    and "hs_joined t i = hs_joined s i" "hs_log t = hs_log s @ [m]" "hs_written t i = hs_written s i"
  shows "chan_ok t i"
proof -
  have "stream t i = stream s i" using assms by (simp add: stream_def)
  moreover have "prefix (stream s i) (drop (hs_joined t i) (hs_log t))"
    using assms by (simp add: chan_ok_def)
  ultimately show ?thesis using assms by (simp add: chan_ok_def)
qed

lemma on_broadcast_inv:
  assumes inv: "hub_inv s" and q: "hub_broadcast (hs_hub s) = m # rest"
    and ord: "distinct order" "set order = hub_clients (hs_hub s)"
  shows "\<exists>h. on_broadcast m order ((hs_hub s)\<lparr>hub_broadcast := rest\<rparr>) = Some h \<and>
    hub_inv (s\<lparr>hs_hub := h, hs_log := hs_log s @ [m]\<rparr>)"
proof -
  let ?g = "(hs_hub s)\<lparr>hub_broadcast := rest\<rparr>"
  let ?h = "?g\<lparr>
     hub_send := (\<lambda>i. if i \<in> set order then delivered_chan m (hub_send ?g i) else hub_send ?g i),
     hub_clients := hub_clients ?g - {i \<in> set order. full (hub_send ?g i)}\<rparr>"
  let ?t = "s\<lparr>hs_hub := ?h, hs_log := hs_log s @ [m]\<rparr>"
  have open_chans: "\<forall>i \<in> set order. \<not> ch_closed (hub_send ?g i)"
    using inv ord by (auto simp: hub_inv_def chan_ok_def)
  have b: "on_broadcast m order ?g = Some ?h"
    using ord(1) open_chans by (rule on_broadcast_closed_form)
  have "hub_inv ?t"
  proof (rule hub_inv_keep [OF inv])
    show "chan_ok ?t i" if i: "i \<in> hs_used s" for i
    proof (cases "i \<in> hub_clients (hs_hub s)")
      case True
      with hub_inv_chan [OF inv i] ord show ?thesis
        by (intro chan_ok_delivered [of s i ?t m]) simp_all
    next
      case False
      with hub_inv_chan [OF inv i] ord show ?thesis
        by (intro chan_ok_log_grows [of s i ?t m]) simp_all
    qed
  qed (use inv q in \<open>simp_all add: hub_inv_def Diff_subset\<close>)
  with b show ?thesis by simp
qed

lemma hub_inv_write:
  assumes inv: "hub_inv s" and c: "client \<in> hs_used s"
    and b: "ch_buf (hub_send (hs_hub s) client) = m # rest"
  shows "hub_inv (s\<lparr>hs_hub := (hs_hub s)\<lparr>hub_send :=
        (hub_send (hs_hub s))(client := (hub_send (hs_hub s) client)\<lparr>ch_buf := rest\<rparr>)\<rparr>,
      hs_written := (hs_written s)(client := hs_written s client @ [m])\<rparr>)" (is "hub_inv ?t")
proof -
  have st: "stream ?t i = stream s i" for i using b by (simp add: stream_def)
  show ?thesis
  proof (rule hub_inv_keep [OF inv])
    show "chan_ok ?t i" if "i \<in> hs_used s" for i
      using hub_inv_chan [OF inv that] b st [of i] by (auto simp: chan_ok_def)
  qed (use inv c in \<open>auto simp: hub_inv_def\<close>)
qed

lemma hub_step_inv:
  assumes "hub_step s r" and "hub_inv s"
  shows "\<exists>t. r = Some t \<and> hub_inv t"
  using assms
proof (induction rule: hub_step.induct)
  case (serve client s)
  then show ?case by (simp add: hub_inv_serve)
next
  case (unregister client s)
  then have "client \<in> hs_used s" by (auto simp: hub_inv_def)
  from on_unregister_inv [OF unregister.prems this] show ?case by auto
next
  case (enqueue s m)
  let ?t = "s\<lparr>hs_hub := (hs_hub s)\<lparr>hub_broadcast := hub_broadcast (hs_hub s) @ [m]\<rparr>\<rparr>"
  have "hub_inv ?t"
  proof (rule hub_inv_keep [OF enqueue.prems])
    show "chan_ok ?t i" if "i \<in> hs_used s" for i
      using hub_inv_chan [OF enqueue.prems that] by (rule chan_ok_frame) simp_all
  qed (use enqueue in simp_all)
  then show ?case by simp
next
  case (broadcast s m rest order)
  from on_broadcast_inv [OF broadcast.prems broadcast.hyps] show ?case by auto
next
  case (writer client s m rest)
  from hub_inv_write [OF writer.prems writer.hyps] show ?case by simp
qed

lemma hub_reachable_inv: "hub_reachable s \<Longrightarrow> hub_inv s"
proof (induction rule: hub_reachable.induct)
  case start
  show ?case by (rule hub_inv_init)
next
  case (step s t)
  then show ?case using hub_step_inv by fastforce
qed

end
