(* ===== verification/ServerProperties.thy ===== *)
theory ServerProperties
  imports Server Hub
begin

text \<open>
  The properties of the server: storage and alerts, the hub, causal chains, predictions, topology,
  replay, configuration and the handlers.  The sample values are the inputs at which the hypotheses
  of each property are shown to hold.
\<close>

section \<open>Sample values\<close>

definition sample_hb :: Heartbeat where
  "sample_hb = \<lparr>hb_NodeName = ''node-1'', hb_Namespace = ''default'',
     hb_Timestamp = 1700000000 * 10 ^ 9, hb_Status = ''Ready'', hb_EbpfPID = 0, hb_EbpfComm = ''''\<rparr>"

definition late_hb :: Heartbeat where
  "late_hb = sample_hb\<lparr>hb_Timestamp := 1700000060 * 10 ^ 9\<rparr>"

definition exit_event :: EnrichedEvent where
  "exit_event = zero_EnrichedEvent\<lparr>ev_NodeName := ''node-1'', ev_EventType := ''process'',
     ev_Timestamp := 1700000030 * 10 ^ 9, ev_CriticalExit := True, ev_Comm := ''kubelet''\<rparr>"

definition old_event :: EnrichedEvent where
  "old_event = exit_event\<lparr>ev_Timestamp := 1690000000 * 10 ^ 9\<rparr>"

definition audit_event :: EnrichedEvent where
  "audit_event = zero_EnrichedEvent\<lparr>ev_NodeName := ''node-1'', ev_EventType := ''network_audit'',
     ev_Timestamp := 1700000020 * 10 ^ 9, ev_PodName := ''web'', ev_Namespace := ''prod'',
     ev_AuditDstAddr := ''10.0.0.1'', ev_AuditDstPort := 443, ev_AuditProtocol := ''tcp''\<rparr>"

definition sample_store :: MemoryStore where
  "sample_store = \<lparr>ms_heartbeats = [sample_hb], ms_kernelEvents = [exit_event, audit_event, old_event],
     ms_causalChains = []\<rparr>"

lemmas sample_defs = sample_hb_def late_hb_def exit_event_def old_event_def audit_event_def
  sample_store_def

section \<open>The store and the alerts\<close>

text \<open>The latest heartbeat of a node, read from the in-memory store, is a stored heartbeat of that
  node and no stored heartbeat of the node is newer; there is none exactly when the node has none.\<close>

lemma latest_heartbeat_is_newest:
  "\<exists>r. MemoryStore_GetLatestByNode n m = Inr r \<and>
     (case r of
        None \<Rightarrow> \<not> (\<exists>hb. hb \<in> set (ms_heartbeats m) \<and> hb_NodeName hb = n)
      | Some l \<Rightarrow> l \<in> set (ms_heartbeats m) \<and> hb_NodeName l = n \<and>
          \<not> (\<exists>hb. hb \<in> set (ms_heartbeats m) \<and> hb_NodeName hb = n \<and> hb_Timestamp l < hb_Timestamp hb))"
proof (cases "latest_loop n None (ms_heartbeats m)")
  case None
  then have "\<forall>hb \<in> set (ms_heartbeats m). hb_NodeName hb \<noteq> n" by (simp add: latest_loop_None)
  with None show ?thesis by (auto simp: MemoryStore_GetLatestByNode_def)
next
  case (Some l)
  with latest_loop_max [OF Some] latest_loop_mem [OF Some] show ?thesis
    by (fastforce simp: MemoryStore_GetLatestByNode_def)
qed

text \<open>The detector alerts exactly when the stored latest heartbeat of the node lies further back
  than the warning threshold; the severity is critical exactly beyond the critical threshold, and the
  attached kernel events are those of the node in the 120 seconds before the heartbeat.\<close>

lemma alert_conditions:
  assumes "MemoryStore_GetLatestByNode (hb_NodeName hb) m = Inr (Some l)"
  shows "if ad_warningThreshold ad < time_Sub (hb_Timestamp hb) (hb_Timestamp l)
    then \<exists>a. Evaluate memory_store ad hb m = Some a \<and> al_NodeName a = hb_NodeName hb \<and>
      (al_Severity a = ''critical'' \<longleftrightarrow>
         ad_criticalThreshold ad < time_Sub (hb_Timestamp hb) (hb_Timestamp l)) \<and>
      set (al_KernelEvents a) = {e \<in> set (ms_kernelEvents m). ev_NodeName e = hb_NodeName hb \<and>
         hb_Timestamp hb - 120 * 10 ^ 9 \<le> ev_Timestamp e \<and> ev_Timestamp e \<le> hb_Timestamp hb}
    else Evaluate memory_store ad hb m = None"
proof (cases "ad_warningThreshold ad < time_Sub (hb_Timestamp hb) (hb_Timestamp l)")
  case True
  have "Evaluate memory_store ad hb m \<noteq> None"
    using True assms by (auto simp: Evaluate_None_iff)
  then obtain a where a: "Evaluate memory_store ad hb m = Some a" by blast
  then show ?thesis
  proof (rule Evaluate_SomeD)
    fix latest
    assume lt: "st_GetLatestByNode memory_store (hb_NodeName hb) m = Inr (Some latest)"
      and n: "al_NodeName a = hb_NodeName hb"
      and sev: "al_Severity a = (if ad_criticalThreshold ad <
           time_Sub (hb_Timestamp hb) (hb_Timestamp latest) then ''critical'' else ''warning'')"
      and k: "al_KernelEvents a =
        (case st_GetKernelEvents memory_store (hb_NodeName hb) (hb_Timestamp hb - 120 * 10 ^ 9)
              (hb_Timestamp hb) m of Inl err \<Rightarrow> [] | Inr evs \<Rightarrow> evs)"
    have l: "latest = l" using lt assms by simp
    have "set (al_KernelEvents a) = {e \<in> set (ms_kernelEvents m). ev_NodeName e = hb_NodeName hb \<and>
         hb_Timestamp hb - 120 * 10 ^ 9 \<le> ev_Timestamp e \<and> ev_Timestamp e \<le> hb_Timestamp hb}"
      by (auto simp: k MemoryStore_GetKernelEvents_def Before_def After_def)
    with True a n sev l show ?thesis by simp
  qed
next
  case False
  with assms show ?thesis by (simp add: Evaluate_None_iff)
qed

lemma alert_conditions_witness:
  "\<exists>a. Evaluate memory_store (NewAnomalyDetector 10 40) late_hb sample_store = Some a \<and>
     al_Severity a = ''critical'' \<and> exit_event \<in> set (al_KernelEvents a) \<and>
     old_event \<notin> set (al_KernelEvents a)"
proof -
  have l: "MemoryStore_GetLatestByNode (hb_NodeName late_hb) sample_store = Inr (Some sample_hb)"
    by (simp add: MemoryStore_GetLatestByNode_def sample_defs)
  have gap: "time_Sub (hb_Timestamp late_hb) (hb_Timestamp sample_hb) = 60 * 10 ^ 9"
    by (simp add: sample_defs time_Sub_def i64_defs)
  have ad: "ad_warningThreshold (NewAnomalyDetector 10 40) = 10 * 10 ^ 9"
    "ad_criticalThreshold (NewAnomalyDetector 10 40) = 40 * 10 ^ 9"
    by (simp_all add: NewAnomalyDetector_def seconds_in_range)
  obtain a where a: "Evaluate memory_store (NewAnomalyDetector 10 40) late_hb sample_store = Some a"
    "al_Severity a = ''critical'' \<longleftrightarrow> ad_criticalThreshold (NewAnomalyDetector 10 40) <
       time_Sub (hb_Timestamp late_hb) (hb_Timestamp sample_hb)"
    "set (al_KernelEvents a) = {e \<in> set (ms_kernelEvents sample_store).
       ev_NodeName e = hb_NodeName late_hb \<and>
       hb_Timestamp late_hb - 120 * 10 ^ 9 \<le> ev_Timestamp e \<and> ev_Timestamp e \<le> hb_Timestamp late_hb}"
    using alert_conditions [OF l, of "NewAnomalyDetector 10 40"] by (auto simp: gap ad)
  have "exit_event \<in> set (al_KernelEvents a)" "old_event \<notin> set (al_KernelEvents a)"
    unfolding a(3) by (simp_all add: sample_defs)
  with a(1,2) show ?thesis by (simp add: gap ad)
qed

text \<open>The running server never raises an alert: a handler saves a heartbeat before it evaluates it,
  so the gap it sees is never positive.  No alert is broadcast and no webhook is called, for every
  sequence of requests and live heartbeats.\<close>

lemma server_never_alerts:
  assumes "server_reach c J nodes sv"
    and "0 \<le> cfg_WarningThresholdS c" and "cfg_WarningThresholdS c < 2 ^ 33"
  shows "sv_posts sv = [] \<and> ''alert'' \<notin> ws_Type ` set (sv_outbox sv)"
  using server_reach_inv [OF assms] by (auto simp: server_inv_def no_alerts_def)

definition sample_codec :: json_codec where
  "sample_codec = \<lparr>decode_Heartbeat =
       (\<lambda>b. if b = ''hb'' then Inr sample_hb else if b = ''late'' then Inr late_hb else Inl ''EOF''),
     decode_EnrichedEvents =
       (\<lambda>b. if b = ''events'' then Inr [exit_event, audit_event] else Inl ''EOF''),
     unmarshal_EnrichedEvent = (\<lambda>_. None)\<rparr>"

definition sample_runtime :: runtime where
  "sample_runtime = \<lparr>rt_now = 1700000100 * 10 ^ 9, rt_clocks = (0, 0, 0), rt_sorter = insertion_sort,
     rt_order = [], rt_parse_time = (\<lambda>_. None)\<rparr>"

definition post :: "string \<Rightarrow> string \<Rightarrow> request" where
  "post path body = \<lparr>rq_method = POST, rq_path = path, rq_params = [], rq_body = body\<rparr>"

definition sample_run :: "request list \<Rightarrow> MemoryStore Server" where
  "sample_run rs = fold (\<lambda>r sv. snd (serve_api default_Config sample_codec memory_store sample_runtime r sv))
     rs (start_server default_Config NewMemoryStore)"

lemma fold_reach:
  "server_reach c J nodes sv \<Longrightarrow>
   server_reach c J nodes (fold (\<lambda>r sv. snd (serve_api c J memory_store rt r sv)) rs sv)"
proof (induction rs arbitrary: sv)
  case (Cons r rs)
  have "server_reach c J nodes (snd (serve_api c J memory_store rt r sv))"
    by (rule server_reach.request [OF Cons.prems prod.collapse [symmetric]])
  with Cons.IH show ?case by simp
qed simp

lemma sample_run_reach: "server_reach default_Config sample_codec [] (sample_run rs)"
  unfolding sample_run_def by (rule fold_reach) (rule server_reach.start)

lemma server_never_alerts_witness:
  "sv_posts (sample_run [post ''/api/heartbeat'' ''hb'', post ''/api/heartbeat'' ''late'']) = []"
  using server_never_alerts [OF sample_run_reach] by (simp add: default_Config_def)

section \<open>The hub\<close>

text \<open>The hub never panics: from every reachable state, each step of the event loop, of a
  connection or of a broadcast function succeeds, so no closed channel is sent to or closed again.\<close>

lemma hub_never_panics:
  assumes "hub_reachable s" and "hub_step s r"
  shows "r \<noteq> None"
  using hub_step_inv [OF assms(2) hub_reachable_inv [OF assms(1)]] by auto

text \<open>A client's connection gets the broadcasts that follow its registration without a gap, in
  order and once: all of them while it is registered, a prefix of them after it was dropped.\<close>

lemma client_stream_gap_free:
  assumes "hub_reachable s" and "i \<in> hs_used s"
  shows "prefix (hs_written s i @ ch_buf (hub_send (hs_hub s) i)) (drop (hs_joined s i) (hs_log s)) \<and>
    (i \<in> hub_clients (hs_hub s) \<longrightarrow>
      hs_written s i @ ch_buf (hub_send (hs_hub s) i) = drop (hs_joined s i) (hs_log s))"
  using hub_inv_chan [OF hub_reachable_inv [OF assms(1)] assms(2)] by (simp add: chan_ok_def stream_def)

definition one_client :: "string HubSys" where
  "one_client = ServeWS 0 init_hub"

definition one_queued :: "string HubSys" where
  "one_queued = one_client\<lparr>hs_hub := (hs_hub one_client)\<lparr>hub_broadcast := [''m'']\<rparr>\<rparr>"

lemma one_client_reachable: "hub_reachable one_client"
proof -
  have "hub_step init_hub (Some one_client)"
    unfolding one_client_def by (rule hub_step.serve) (simp add: init_hub_def)
  then show ?thesis by (rule hub_reachable.step [OF hub_reachable.start])
qed

lemma one_queued_reachable: "hub_reachable one_queued"
proof -
  have "hub_broadcast (hs_hub one_client) = []" by (simp add: one_client_def init_hub_def NewHub_def)
  then have "hub_step one_client (Some one_queued)"
    using hub_step.enqueue [of one_client "''m''"] by (simp add: one_queued_def broadcastCap_def)
  then show ?thesis by (rule hub_reachable.step [OF one_client_reachable])
qed

lemma one_queued_fields:
  "hub_broadcast (hs_hub one_queued) = [''m'']" "hub_clients (hs_hub one_queued) = {0}"
  "hs_used one_queued = {0}" "hub_send (hs_hub one_queued) 0 = make_chan sendCap"
  "hs_written one_queued 0 = []" "hs_joined one_queued 0 = 0" "hs_log one_queued = []"
  by (simp_all add: one_queued_def one_client_def init_hub_def NewHub_def)

definition one_sent :: "string HubSys option" where
  "one_sent = map_option (\<lambda>h. one_queued\<lparr>hs_hub := h, hs_log := hs_log one_queued @ [''m'']\<rparr>)
     (on_broadcast ''m'' [0] ((hs_hub one_queued)\<lparr>hub_broadcast := []\<rparr>))"

lemma one_sent_step: "hub_step one_queued one_sent"
  unfolding one_sent_def by (rule hub_step.broadcast) (simp_all add: one_queued_fields)

lemma hub_never_panics_witness: "one_sent \<noteq> None"
  by (rule hub_never_panics [OF one_queued_reachable one_sent_step])

lemma one_sent_Some: "\<exists>s. one_sent = Some s \<and> hs_log s = [''m''] \<and> hs_used s = {0} \<and>
    hs_joined s 0 = 0 \<and> 0 \<in> hub_clients (hs_hub s)"
  by (simp add: one_sent_def deliver_def select_send_def one_queued_fields make_chan_def sendCap_def)

lemma client_stream_gap_free_witness:
  "\<exists>s. hub_reachable s \<and> hs_log s = [''m''] \<and>
     hs_written s 0 @ ch_buf (hub_send (hs_hub s) 0) = [''m'']"
proof -
  obtain s where s: "one_sent = Some s" "hs_log s = [''m'']" "hs_used s = {0}" "hs_joined s 0 = 0"
      "0 \<in> hub_clients (hs_hub s)"
    using one_sent_Some by blast
  have r: "hub_reachable s"
    using hub_reachable.step [OF one_queued_reachable] one_sent_step s(1) by simp
  have "0 \<in> hs_used s" using s(3) by simp
  from client_stream_gap_free [OF r this] s r show ?thesis by auto
qed

text \<open>The order in which Go ranges over the client map has no effect on a broadcast: every open
  channel gets the message, and exactly the clients whose buffer is full are closed and removed.\<close>

lemma broadcast_order_irrelevant:
  assumes "distinct order" and "distinct order'" and "set order' = set order"
    and "\<forall>i \<in> set order. \<not> ch_closed (hub_send h i)"
  shows "on_broadcast m order h = on_broadcast m order' h \<and>
    (\<exists>h'. on_broadcast m order h = Some h' \<and>
       hub_clients h' = hub_clients h - {i \<in> set order. ch_cap (hub_send h i) \<le> length (ch_buf (hub_send h i))})"
proof -
  have "\<forall>i \<in> set order'. \<not> ch_closed (hub_send h i)" using assms(3,4) by simp
  from on_broadcast_closed_form [OF assms(2) this, of m] on_broadcast_closed_form [OF assms(1,4), of m]
  show ?thesis by (simp add: assms(3) full_def)
qed

lemma broadcast_order_irrelevant_witness:
  "on_broadcast ''m'' [0, 1] (NewHub\<lparr>hub_clients := {0, 1}\<rparr>) =
   on_broadcast ''m'' [1, 0] (NewHub\<lparr>hub_clients := {0, 1}\<rparr>)"
proof -
  have d: "distinct [0, 1 :: nat]" "distinct [1, 0 :: nat]" "set [1, 0 :: nat] = set [0, 1]"
    by auto
  have o: "\<forall>i \<in> set [0, 1]. \<not> ch_closed (hub_send (NewHub\<lparr>hub_clients := {0, 1}\<rparr>) i)"
    by (simp add: NewHub_def make_chan_def)
  from broadcast_order_irrelevant [OF d o, of "''m''"] show ?thesis by (rule conjunct1)
qed

section \<open>Causal chains\<close>

text \<open>C15: the chain built for a NotReady transition holds exactly the stored kernel events of that
  node in the 120 seconds before the transition, each as often as it is stored, in time order; it is
  stored, and handed to the hub once.\<close>

theorem causal_chain_contents:
  assumes "slice_sort sorter"
    and "OnNotReady sorter memory_store (NewCausalChainBuilder hub) n t m = (r, m', msgs)"
  shows "\<exists>chain. r = Inr chain \<and> cc_NodeName chain = n \<and> cc_Timestamp chain = t \<and>
    mset (cc_Events chain) = mset (filter (\<lambda>e. ev_NodeName e = n \<and>
      t - 120 * 10 ^ 9 \<le> ev_Timestamp e \<and> ev_Timestamp e \<le> t) (ms_kernelEvents m)) \<and>
    sorted (map ev_Timestamp (cc_Events chain)) \<and>
    cc_RootCause chain = detectRootCause (cc_Events chain) \<and>
    ms_causalChains m' = ms_causalChains m @ [chain] \<and> ms_kernelEvents m' = ms_kernelEvents m \<and>
    msgs = (if hub then [CausalChainMsg chain] else [])"
proof -
  let ?evs = "filter (\<lambda>e. ev_NodeName e = n \<and> t - 120 * 10 ^ 9 \<le> ev_Timestamp e \<and> ev_Timestamp e \<le> t)
    (ms_kernelEvents m)"
  have w: "cb_windowSize (NewCausalChainBuilder hub) = 120 * 10 ^ 9"
    by (simp add: NewCausalChainBuilder_def defaultLookbackWindow_def seconds_in_range)
  have evs: "st_GetKernelEvents memory_store n
      (time_Add t (- cb_windowSize (NewCausalChainBuilder hub))) t m = Inr ?evs"
    by (simp add: MemoryStore_GetKernelEvents_def w time_Add_def Before_def After_def not_less)
  have run: "OnNotReady sorter memory_store (NewCausalChainBuilder hub) n t m =
     (Inr (buildChain sorter n t ?evs),
      m\<lparr>ms_causalChains := ms_causalChains m @ [buildChain sorter n t ?evs]\<rparr>,
      if hub then [CausalChainMsg (buildChain sorter n t ?evs)] else [])"
    using evs by (simp add: OnNotReady_def Let_def MemoryStore_SaveCausalChain_def NewCausalChainBuilder_def)
  have "chain_of_events n t ?evs (buildChain sorter n t ?evs)"
    by (rule buildChain_chain [OF assms(1)])
  with assms(2) run show ?thesis by (auto simp: chain_of_events_def)
qed

theorem causal_chain_contents_witness:
  "\<exists>chain. fst (OnNotReady insertion_sort memory_store (NewCausalChainBuilder True) ''node-1''
       (1700000060 * 10 ^ 9) sample_store) = Inr chain \<and>
     mset (cc_Events chain) = {#audit_event, exit_event#} \<and>
     sorted (map ev_Timestamp (cc_Events chain))"
proof -
  let ?run = "OnNotReady insertion_sort memory_store (NewCausalChainBuilder True) ''node-1''
    (1700000060 * 10 ^ 9) sample_store"
  obtain r m' msgs where run: "?run = (r, m', msgs)" by (metis prod_cases3)
  have f: "filter (\<lambda>e. ev_NodeName e = ''node-1'' \<and>
      1700000060 * 10 ^ 9 - 120 * 10 ^ 9 \<le> ev_Timestamp e \<and> ev_Timestamp e \<le> 1700000060 * 10 ^ 9)
      (ms_kernelEvents sample_store) = [exit_event, audit_event]"
    by (simp add: sample_defs)
  have m: "mset [exit_event, audit_event] = {#audit_event, exit_event#}" by simp
  from causal_chain_contents [OF go_insertion.slice_sort_axioms run] show ?thesis
    unfolding f m run by auto
qed

text \<open>The root cause of a chain follows the documented order: it names a critical exit exactly when
  some event is one, otherwise an OOM kill, otherwise slow file I/O, otherwise a DNS timeout, otherwise
  a slow syscall, otherwise a high round trip, and is unknown exactly when no event is any of these.\<close>

lemma root_cause_priority:
  "takeWhile (\<lambda>c. c \<noteq> CHR '':'') (detectRootCause es) =
    (if list_ex ev_CriticalExit es then ''critical_exit''
     else if list_ex (\<lambda>e. ev_EventType e = ''memory_pressure'' \<and> ev_OOMSubType e = ''oom_kill'') es
       then ''oom_kill''
     else if list_ex (\<lambda>e. ev_EventType e = ''filesystem_io'' \<and> ev_SlowIO e) es
       then ''filesystem_io_bottleneck''
     else if list_ex (\<lambda>e. ev_EventType e = ''dns_resolution'' \<and> ev_TimedOut e) es then ''dns_timeout''
     else if list_ex ev_SlowSyscall es then ''slow_syscall''
     else if list_ex (\<lambda>e. ev_EventType e = ''network'' \<and> ev_NetEventType e = ''rtt_high'') es
       then ''network_degradation''
     else ''unknown_cause'')"
proof -
  have hit: "(case List.find P es of Some e \<Rightarrow> f e | None \<Rightarrow> x) =
      (if list_ex P es then f (the (List.find P es)) else x)" for P f and x :: string
    using find_None_iff_all [of P es] by (cases "List.find P es") (auto simp: list_ex_iff)
  show ?thesis
    unfolding detectRootCause_def root_cause_rules_def first_rule.simps hit
    by (simp add: if_distrib [of "takeWhile _"])
qed

section \<open>Predictions\<close>

text \<open>C37: a prediction is made exactly when some detector fires; its confidence lies between 0 and 1
  and is at least 0.7 when three patterns fired, the time to failure lies between 10 and 60 seconds,
  and it is appended to the engine as pending and handed to the hub.\<close>

theorem prediction_bounds:
  "case Analyze now n es pe of
     (None, pe', msgs) \<Rightarrow> \<not> (\<exists>name score. (name, score) \<in> set (pattern_scores es) \<and> 0 < score) \<and>
       pe' = pe \<and> msgs = []
   | (Some p, pe', msgs) \<Rightarrow> 0 \<le> pr_Confidence p \<and> pr_Confidence p \<le> 1 \<and>
       (3 \<le> length (pr_Patterns p) \<longrightarrow> fl (7 / 10) \<le> pr_Confidence p) \<and>
       10 \<le> pr_TimeToFailure p \<and> pr_TimeToFailure p \<le> 60 \<and>
       pr_Patterns p = map fst (filter (\<lambda>(name, score). 0 < score) (pattern_scores es)) \<and>
       pr_Patterns p \<noteq> [] \<and> pe_predictions pe' = pe_predictions pe @ [p] \<and>
       pr_Outcome p = ''pending'' \<and> msgs = (if pe_hasHub pe then [PredictionMsg p] else [])"
proof -
  obtain r pe' msgs where run: "Analyze now n es pe = (r, pe', msgs)" by (metis prod_cases3)
  show ?thesis
  proof (cases r)
    case None
    with run Analyze_None [of now n es pe pe' msgs] Analyze_Some_iff [of now n es pe]
    show ?thesis by fastforce
  next
    case (Some p)
    note run = run [unfolded Some]
    from AnalyzeD [OF run] Analyze_confidence [OF run] estimateTTF_bounds
    show ?thesis by (simp add: run combine_patterns)
  qed
qed

theorem prediction_bounds_witness:
  "\<exists>p. fst (Analyze 0 ''node-1'' [exit_event] (NewPredictionEngine True)) = Some p \<and>
     pr_Confidence p \<le> 1 \<and> pr_TimeToFailure p \<le> 60"
proof -
  have "fst (Analyze 0 ''node-1'' [exit_event] (NewPredictionEngine True)) \<noteq> None"
    using critical_exit_predicts [of exit_event "[exit_event]" 0 "''node-1''" "NewPredictionEngine True"]
    by (auto simp: exit_event_def)
  with prediction_bounds [where now = 0 and n = "''node-1''" and es = "[exit_event]" and
      pe = "NewPredictionEngine True"]
  show ?thesis by (auto split: prod.splits option.splits)
qed

text \<open>A critical process exit anywhere in the window makes a prediction with the pattern
  \<open>critical_exit\<close> and a confidence of at least 0.8: adding further scores in floating point never
  loses it.\<close>

lemma critical_exit_is_predicted:
  assumes "e \<in> set es" and "ev_CriticalExit e"
  shows "\<exists>p. fst (Analyze now n es pe) = Some p \<and> ''critical_exit'' \<in> set (pr_Patterns p) \<and>
    fl (8 / 10) \<le> pr_Confidence p"
  using critical_exit_predicts [OF assms] by (metis fst_conv)

lemma critical_exit_is_predicted_witness:
  "\<exists>p. fst (Analyze 0 ''node-1'' [audit_event, exit_event] (NewPredictionEngine True)) = Some p \<and>
     fl (8 / 10) \<le> pr_Confidence p"
proof -
  have "exit_event \<in> set [audit_event, exit_event]" "ev_CriticalExit exit_event"
    by (simp_all add: exit_event_def)
  from critical_exit_is_predicted [OF this] show ?thesis by blast
qed

text \<open>The running server predicts only from single events: every prediction it holds has one of
  three patterns only and stays pending, so the accuracy it serves is zero whatever was posted.\<close>

lemma server_predictions_stay_pending:
  assumes "server_reach c J nodes sv"
    and "0 \<le> cfg_WarningThresholdS c" and "cfg_WarningThresholdS c < 2 ^ 33"
  shows "\<exists>pe. sv_predEngine sv = Some pe \<and> (\<forall>p \<in> set (pe_predictions pe). prediction_ok p) \<and>
    am_TruePositives (Accuracy pe) = 0 \<and> am_FalsePositives (Accuracy pe) = 0 \<and>
    am_TruePositiveRate (Accuracy pe) = 0 \<and> am_FalsePositiveRate (Accuracy pe) = 0"
proof -
  obtain pe where pe: "sv_predEngine sv = Some pe" "\<forall>p \<in> set (pe_predictions pe). prediction_ok p"
    using server_reach_inv [OF assms] by (auto simp: server_inv_def)
  have "with_outcome o' (pe_predictions pe) = 0" if "o' \<noteq> ''pending''" for o'
    using pe(2) that by (auto simp: with_outcome_def prediction_ok_def filter_empty_conv)
  with pe show ?thesis by (simp add: Accuracy_def ComputeAccuracy_def Let_def)
qed

lemma server_predictions_stay_pending_witness:
  "\<exists>pe. sv_predEngine (sample_run [post ''/api/ebpf/events'' ''events'']) = Some pe \<and>
     am_TruePositives (Accuracy pe) = 0"
  using server_predictions_stay_pending [OF sample_run_reach] by (auto simp: default_Config_def)

text \<open>Recording an outcome settles the first pending prediction of that node and time and leaves
  every other one, and every other field, as it was; without such a prediction nothing changes.\<close>

lemma record_outcome_settles_first:
  "case List.find (\<lambda>p. pr_NodeName p = n \<and> pr_Timestamp p = t \<and> pr_Outcome p = ''pending'')
       (pe_predictions pe) of
     None \<Rightarrow> RecordOutcome n t out pe = pe
   | Some p \<Rightarrow> \<exists>ps qs. pe_predictions pe = ps @ p # qs \<and>
       pe_predictions (RecordOutcome n t out pe) = ps @ p\<lparr>pr_Outcome := out\<rparr> # qs"
proof (cases "List.find (\<lambda>p. pr_NodeName p = n \<and> pr_Timestamp p = t \<and> pr_Outcome p = ''pending'')
       (pe_predictions pe)")
  case None
  then have "record_outcome n t out (pe_predictions pe) = pe_predictions pe"
    by (intro record_outcome_none) (auto simp: find_None_iff_all)
  with None show ?thesis by (simp add: RecordOutcome_def)
next
  case (Some p)
  then obtain ps qs where "pe_predictions pe = ps @ p # qs"
    and "\<forall>q \<in> set ps. \<not> (pr_NodeName q = n \<and> pr_Timestamp q = t \<and> pr_Outcome q = ''pending'')"
    and "pr_NodeName p = n" "pr_Timestamp p = t" "pr_Outcome p = ''pending''"
    by (auto dest!: find_split)
  with Some show ?thesis
    by (auto simp: RecordOutcome_def record_outcome_first)
qed

section \<open>Topology\<close>

text \<open>After any sequence of audit events the topology holds one connection for each tuple of pod,
  destination, port and protocol that occurred, described by the first such event and last seen at the
  time of the last one; the hub heard of each of them once, in the order they first occurred.\<close>

lemma topology_summarises_audits:
  "tm_connections (fst (record_all es (NewNetworkTopologyMap w True))) = spec_connections es \<and>
   (\<exists>firsts. snd (record_all es (NewNetworkTopologyMap w True)) =
       map (\<lambda>e. TopologyMsg (connection_of e (ev_Timestamp e))) firsts \<and>
     distinct (map event_key firsts) \<and> event_key ` set firsts = event_key ` set es)"
  using record_all_spec [of es w True] record_all_msgs [of es "NewNetworkTopologyMap w True"]
    distinct_new_keys [of "{}" es] set_new_keys [of "{}" es]
  by (auto simp: NewNetworkTopologyMap_def)

text \<open>Two connections share a key only when pod, namespace, address, port and protocol all agree,
  provided the first three hold no bar.\<close>

lemma connection_keys_distinct:
  assumes "CHR ''|'' \<notin> set pod \<union> set ns \<union> set addr"
    and "CHR ''|'' \<notin> set pod' \<union> set ns' \<union> set addr'"
    and "connectionKey pod ns addr port proto = connectionKey pod' ns' addr' port' proto'"
  shows "pod = pod' \<and> ns = ns' \<and> addr = addr' \<and> port = port' \<and> proto = proto'"
  by (rule connectionKey_inj [OF assms])

lemma connection_keys_distinct_witness:
  "connectionKey ''web'' ''prod'' ''10.0.0.1'' 443 ''tcp'' \<noteq>
   connectionKey ''web'' ''prod'' ''10.0.0.1'' 44 ''3tcp''"
  using connection_keys_distinct [of "''web''" "''prod''" "''10.0.0.1''" "''web''" "''prod''" "''10.0.0.1''"
      443 "''tcp''" 44 "''3tcp''"]
  by auto

text \<open>Expiry removes exactly the connections last seen before the window, and expiring again at a
  later time is the same as expiring then.\<close>

lemma expiry_removes_the_old:
  assumes "t \<le> t'"
  shows "(tm_connections (Expire t m) k = Some r \<longleftrightarrow>
      tm_connections m k = Some r \<and> t - tm_window m \<le> cn_LastSeen r) \<and>
    Expire t' (Expire t m) = Expire t' m"
  using Expire_conns Expire_Expire [OF assms] by blast

lemma expiry_removes_the_old_witness:
  "tm_connections (Expire (1700000100 * 10 ^ 9)
      (fst (snd (Record audit_event (NewNetworkTopologyMap (dur_mul 10 Second) True)))))
      (event_key audit_event) = None"
proof -
  let ?m = "fst (snd (Record audit_event (NewNetworkTopologyMap (dur_mul 10 Second) True)))"
  have c: "tm_connections ?m (event_key audit_event) = Some (connection_of audit_event (1700000020 * 10 ^ 9))"
    by (simp add: Record_conns NewNetworkTopologyMap_def) (simp add: audit_event_def)
  have w: "tm_window ?m = 10 * 10 ^ 9"
    by (simp add: NewNetworkTopologyMap_def seconds_in_range)
  have "tm_connections (Expire (1700000100 * 10 ^ 9) ?m) (event_key audit_event) \<noteq> Some r" for r
  proof
    assume a: "tm_connections (Expire (1700000100 * 10 ^ 9) ?m) (event_key audit_event) = Some r"
    with expiry_removes_the_old [OF order_refl, of "1700000100 * 10 ^ 9" ?m "event_key audit_event" r]
    have "r = connection_of audit_event (1700000020 * 10 ^ 9)"
      and "1700000100 * 10 ^ 9 - 10 * 10 ^ 9 \<le> cn_LastSeen r"
      unfolding c w by simp_all
    then show False by (simp add: connection_of_def)
  qed
  then show ?thesis by auto
qed

section \<open>Replay\<close>

text \<open>C17: a replay query returns only stored events that match every criterion it names within the
  retention window, in time order, and reports how many match: provided no event type is named
  twice.\<close>

theorem replay_sound:
  assumes "slice_sort sorter" and "distinct (q_EventTypes q)"
    and "Query sorter memory_store rps now q m = Inr (page, cnt)"
  shows "set page \<subseteq> {e \<in> set (ms_kernelEvents m). matches (effective rps now q) e} \<and>
    sorted (map ev_Timestamp page) \<and>
    cnt = int (length (filter (matches (effective rps now q)) (ms_kernelEvents m)))"
proof -
  obtain events where f: "fetch memory_store (effective rps now q) m = Inr events"
    and c: "cnt = int (length (sorter earlier (filterEvents events (effective rps now q))))"
    using Query_okE [OF assms(3)] by metis
  have "filterEvents events (effective rps now q) =
      filter (matches (effective rps now q)) (ms_kernelEvents m)"
    using f assms(2) by (intro filtered_memory) simp_all
  with c mem.Query_sound [OF assms(1,3,2)] show ?thesis
    by (simp add: slice_sort.sorter_length [OF assms(1)])
qed

definition sample_query :: ReplayQuery where
  "sample_query = \<lparr>q_NodeName = ''node-1'', q_From = 0, q_To = 1800000000 * 10 ^ 9,
     q_EventTypes = [''process'', ''network_audit''], q_PodName = '''', q_MinLatencyNs = 0,
     q_Page = 1, q_PageSize = 10\<rparr>"

lemma sample_query_runs:
  "case Query insertion_sort memory_store (NewReplayStore 0) (1700000100 * 10 ^ 9) sample_query
     sample_store of Inl err \<Rightarrow> False | Inr (page, cnt) \<Rightarrow> 2 \<le> length page"
  by code_simp

theorem replay_sound_witness:
  "\<exists>page cnt. Query insertion_sort memory_store (NewReplayStore 0) (1700000100 * 10 ^ 9) sample_query
     sample_store = Inr (page, cnt) \<and> 2 \<le> length page \<and> set page \<subseteq> set (ms_kernelEvents sample_store)"
proof -
  obtain page cnt where q: "Query insertion_sort memory_store (NewReplayStore 0) (1700000100 * 10 ^ 9)
      sample_query sample_store = Inr (page, cnt)" and l: "2 \<le> length page"
    using sample_query_runs by (auto split: sum.splits prod.splits)
  have "distinct (q_EventTypes sample_query)" by (simp add: sample_query_def)
  from replay_sound [OF go_insertion.slice_sort_axioms this q] q l show ?thesis by auto
qed




lemma memory_fetches: "\<exists>events. fetch memory_store q m = Inr events"
  by (cases "q_EventTypes q" rule: remdups_adj.cases)
    (simp_all add: fetch_def MemoryStore_GetKernelEvents_def MemoryStore_GetKernelEventsByType_def)




lemma Query_overflow:
  assumes "1 \<le> q_Page q" and "1 \<le> q_PageSize q"
    and "i64 (i64 (q_Page q - 1) * q_PageSize q) < 0"
  shows "Query sorter memory_store rps now q m = Inl SlicePanic"
proof -
  obtain events where "fetch memory_store (effective rps now q) m = Inr events" using memory_fetches by blast
  then show ?thesis
    using assms(1,2) by (simp add: Query_def Let_def paginate_panic [OF assms(3)])
qed

text \<open>C39: a page number whose offset wraps below zero makes the query panic on a slice with a negative
  bound, however few events are stored: the page and the size of a request are not bounded.\<close>

theorem replay_page_overflow_panics:
  assumes "1 \<le> q_Page q" and "1 \<le> q_PageSize q"
    and "i64 (i64 (q_Page q - 1) * q_PageSize q) < 0"
  shows "Query sorter memory_store rps now q m = Inl SlicePanic"
  using assms by (rule Query_overflow)

definition overflow_params :: "(string \<times> string) list" where
  "overflow_params =
     [(''node'', ''node-1''), (''page'', ''9223372036854775807''), (''pageSize'', ''1000'')]"

lemma overflow_values:
  "int_param ''9223372036854775807'' = 9223372036854775807" "int_param ''1000'' = 1000"
  by (simp_all add: int_param_def atoi_def Let_def i64_defs digit_val_def)

theorem replay_page_overflow_panics_witness:
  "replayHandler insertion_sort (\<lambda>_. None) memory_store (NewReplayStore 0) (0, 0, 0) GET
     overflow_params sample_store = None"
proof -
  let ?q = "parse_query (\<lambda>_. None) 0 0 overflow_params"
  have "q_Page ?q = 9223372036854775807" "q_PageSize ?q = 1000"
    by (simp_all add: parse_query_def Let_def query_get_def overflow_params_def overflow_values)
  then have "Query insertion_sort memory_store (NewReplayStore 0) 0 ?q sample_store = Inl SlicePanic"
    by (intro replay_page_overflow_panics) (simp_all add: i64_def)
  moreover have "query_get ''node'' overflow_params \<noteq> ''''"
    by (simp add: query_get_def overflow_params_def)
  ultimately show ?thesis by (simp add: replayHandler_def Let_def)
qed

section \<open>Configuration\<close>

text \<open>Every probe threshold lies in its documented range whatever the environment holds, and the
  topology window that the server reads is the one the agent reads.\<close>

lemma probe_config_in_range:
  "1 \<le> pc_SlowIOThresholdMs (LoadProbeConfig env) \<and> pc_SlowIOThresholdMs (LoadProbeConfig env) \<le> 60000 \<and>
   100 \<le> pc_DNSTimeoutMs (LoadProbeConfig env) \<and> pc_DNSTimeoutMs (LoadProbeConfig env) \<le> 60000 \<and>
   1 \<le> pc_CgroupSampleIntervalS (LoadProbeConfig env) \<and>
   pc_CgroupSampleIntervalS (LoadProbeConfig env) \<le> 3600 \<and>
   10 \<le> pc_TopologyWindowS (LoadProbeConfig env) \<and> pc_TopologyWindowS (LoadProbeConfig env) \<le> 86400 \<and>
   1 \<le> pc_MemoryPressurePct (LoadProbeConfig env) \<and> pc_MemoryPressurePct (LoadProbeConfig env) \<le> 100 \<and>
   cfg_TopologyWindowS (LoadConfig env) = pc_TopologyWindowS (LoadProbeConfig env)"
  unfolding topology_window_agrees
  by (simp add: LoadProbeConfig_def DefaultProbeConfig_def Let_def parseEnvInt_range)

text \<open>A value in range is read back from its decimal text, and any other text leaves the
  default.\<close>

lemma env_int_roundtrip:
  assumes "lo \<le> i" and "i \<le> hi" and "is_i64 i"
  shows "parseEnvInt (\<lambda>_. show_int i) v d lo hi = i \<and>
    (atoi s = None \<longrightarrow> parseEnvInt (\<lambda>_. s) v d lo hi = d)"
  using parseEnvInt_show [of "\<lambda>_. show_int i" v i lo hi d] assms
    parseEnvInt_default [of "\<lambda>_. s" v d lo hi] by blast

lemma env_int_roundtrip_witness:
  "parseEnvInt (\<lambda>_. show_int 250) ''EARTHWORM_DNS_TIMEOUT_MS'' 5000 100 60000 = 250"
  using env_int_roundtrip [of 100 250 60000] by (simp add: i64_defs)

section \<open>The handlers\<close>

text \<open>A request that is not a POST changes nothing of the server but the request log.\<close>

lemma only_posts_change_state:
  assumes "rq_method r \<noteq> POST"
  shows "\<exists>lines. snd (serve_api c J S rt r sv) = sv\<lparr>sv_log := sv_log sv @ lines\<rparr>"
  by (rule serve_api_read_only [OF assms])

lemma only_posts_change_state_witness:
  "sv_store (snd (serve_api default_Config sample_codec memory_store sample_runtime
     (post ''/api/heartbeat'' ''hb''\<lparr>rq_method := GET\<rparr>)
     (start_server default_Config NewMemoryStore))) = NewMemoryStore"
proof -
  have "rq_method (post ''/api/heartbeat'' ''hb''\<lparr>rq_method := GET\<rparr>) \<noteq> POST" by simp
  from only_posts_change_state [OF this, of default_Config sample_codec memory_store sample_runtime
      "start_server default_Config NewMemoryStore"]
  show ?thesis by (auto simp: start_server_def)
qed

text \<open>A posted batch that decodes is stored whole and in order, every event of it is handed to the
  hub in that order, its audit events are recorded in the topology, and the answer is 201.\<close>

lemma posted_events_are_processed:
  assumes "rq_method r = POST" and "decode_EnrichedEvents J (rq_body r) = Inr es"
    and "ebpfEventsHandler J memory_store now r sv = (resp, sv')" and "sv_hub sv"
  shows "map_option rs_status resp = Some 201 \<and>
    ms_kernelEvents (sv_store sv') = ms_kernelEvents (sv_store sv) @ es \<and>
    ebpf_messages (sv_outbox sv') = ebpf_messages (sv_outbox sv) @ es \<and>
    sv_topoMap sv' = map_option (\<lambda>m. fst (record_all (audits es) m)) (sv_topoMap sv)"
proof -
  have "resp = Some (empty_response StatusCreated)" "sv' = fold (ebpf_event_step memory_store now) es sv"
    using assms(1-3) by (auto simp: ebpfEventsHandler_def)
  with fold_ebpf_memory [where now = now and events = es and sv = sv] assms(4) show ?thesis by (simp add: StatusCreated_def)
qed

lemma posted_events_are_processed_witness:
  "ms_kernelEvents (sv_store (snd (ebpfEventsHandler sample_codec memory_store 0
     (post ''/api/ebpf/events'' ''events'') (start_server default_Config NewMemoryStore)))) =
   [exit_event, audit_event]"
proof -
  have r: "rq_method (post ''/api/ebpf/events'' ''events'') = POST"
    "decode_EnrichedEvents sample_codec (rq_body (post ''/api/ebpf/events'' ''events'')) =
       Inr [exit_event, audit_event]"
    by (simp_all add: post_def sample_codec_def)
  have h: "sv_hub (start_server default_Config NewMemoryStore)" by (simp add: start_server_def)
  from posted_events_are_processed [OF r prod.collapse [symmetric] h] show ?thesis
    by (simp add: start_server_def NewMemoryStore_def)
qed

text \<open>A batch that does not decode is answered with 400 and changes nothing: the retry as a single
  event parses the text of the error, not the body.\<close>

lemma undecodable_events_rejected:
  assumes "rq_method r = POST" and "decode_EnrichedEvents J (rq_body r) = Inl err"
    and "unmarshal_EnrichedEvent J err = None"
  shows "ebpfEventsHandler J S now r sv =
    (Some (writeJSONError (''Invalid JSON: '' @ err) StatusBadRequest), sv)"
  using assms by (simp add: ebpfEventsHandler_def)

lemma undecodable_events_rejected_witness:
  "snd (ebpfEventsHandler sample_codec memory_store 0 (post ''/api/ebpf/events'' ''{}'')
     (start_server default_Config NewMemoryStore)) = start_server default_Config NewMemoryStore"
proof -
  have "rq_method (post ''/api/ebpf/events'' ''{}'') = POST"
    "decode_EnrichedEvents sample_codec (rq_body (post ''/api/ebpf/events'' ''{}'')) = Inl ''EOF''"
    "unmarshal_EnrichedEvent sample_codec ''EOF'' = None"
    by (simp_all add: post_def sample_codec_def)
  from undecodable_events_rejected [OF this, where S = memory_store and now = 0 and
      sv = "start_server default_Config NewMemoryStore"]
  show ?thesis by simp
qed

end
