(* ===== verification/GoRand.thy ===== *)
theory GoRand
  imports Float64 GoBase
begin

text \<open>
  Conversions between \<^verbatim>\<open>float64\<close> and integers, and the random source of \<^verbatim>\<open>math/rand\<close>.  A generator is
  the tape of the raw values it will produce; after its end it produces zeros.  The consumers are
  functions of the tape, so a fact that holds for every tape holds for every seed.
\<close>

section \<open>Conversions\<close>

text \<open>
  A conversion to \<^verbatim>\<open>int64\<close> truncates towards zero; a value out of range gives the least integer, as
  the conversion instruction of amd64 does (the language leaves it open).
\<close>

definition trunc :: "rat \<Rightarrow> int" where
  "trunc x = (if 0 \<le> x then \<lfloor>x\<rfloor> else \<lceil>x\<rceil>)"

definition i64_of_f64 :: "float64 \<Rightarrow> int" where
  "i64_of_f64 x = (let n = trunc x in if is_i64 n then n else i64_min)"

definition f64_of_i64 :: "int \<Rightarrow> float64" where
  "f64_of_i64 n = fl (of_int n)"

text \<open>\<^verbatim>\<open>math.Round\<close>: half away from zero.\<close>

definition go_round :: "float64 \<Rightarrow> float64" where
  "go_round x = of_int (if 0 \<le> x then \<lfloor>x + 1 / 2\<rfloor> else - \<lfloor>- x + 1 / 2\<rfloor>)"

lemma is_i64_of_f64 [simp]: "is_i64 (i64_of_f64 x)"
  by (auto simp: i64_of_f64_def Let_def i64_defs)

lemma trunc_of_int [simp]: "trunc (of_int n) = n"
  by (simp add: trunc_def)

lemma i64_of_f64_of_int [simp]: "is_i64 n \<Longrightarrow> i64_of_f64 (of_int n) = n"
  by (simp add: i64_of_f64_def)

lemma trunc_nonneg: "0 \<le> x \<Longrightarrow> 0 \<le> trunc x"
  by (simp add: trunc_def)

lemma go_round_nonneg: "0 \<le> x \<Longrightarrow> 0 \<le> go_round x"
  by (simp add: go_round_def)

section \<open>Random draws\<close>

record Rand =
  raw :: "int list"
  normal :: "float64 list"

fun next_raw :: "Rand \<Rightarrow> int \<times> Rand" where
  "next_raw r = (case raw r of [] \<Rightarrow> (0, r) | x # xs \<Rightarrow> (x, r\<lparr>raw := xs\<rparr>))"

text \<open>\<^verbatim>\<open>Intn(n)\<close> returns a value from 0 to n - 1; the program only calls it with positive constants.\<close>

definition Intn :: "int \<Rightarrow> Rand \<Rightarrow> int \<times> Rand" where
  "Intn n r = (case next_raw r of (x, r') \<Rightarrow> (x mod n, r'))"

text \<open>
  \<^verbatim>\<open>Float64()\<close> is a 63-bit integer over \<open>2 ^ 63\<close>, drawn again while the quotient rounds to 1, which
  the last 512 integers do.
\<close>

definition rand_Float64 :: "Rand \<Rightarrow> float64 \<times> Rand" where
  "rand_Float64 r =
     (case next_raw r of (x, r') \<Rightarrow> (fl (of_int (x mod (2 ^ 63 - 512)) / 2 ^ 63), r'))"

text \<open>\<^verbatim>\<open>NormFloat64()\<close> returns any finite value.\<close>

definition NormFloat64 :: "Rand \<Rightarrow> float64 \<times> Rand" where
  "NormFloat64 r = (case normal r of [] \<Rightarrow> (0, r) | x # xs \<Rightarrow> (fl x, r\<lparr>normal := xs\<rparr>))"

text \<open>What the clients rely on.\<close>

locale random_source =
  fixes intn :: "int \<Rightarrow> 'r \<Rightarrow> int \<times> 'r"
    and unit :: "'r \<Rightarrow> float64 \<times> 'r"
  assumes intn_range: "0 < n \<Longrightarrow> 0 \<le> fst (intn n r) \<and> fst (intn n r) < n"
    and unit_nonneg: "0 \<le> fst (unit r)"
begin

text \<open>An event of probability zero does not happen.\<close>

lemma never: "\<not> fst (unit r) < 0"
  using unit_nonneg [of r] by simp

lemma intn_plus: "0 < n \<Longrightarrow> a \<le> a + fst (intn n r) \<and> a + fst (intn n r) \<le> a + n - 1"
  using intn_range [of n r] by simp

lemma intn_index: "xs \<noteq> [] \<Longrightarrow> xs ! nat (fst (intn (int (length xs)) r)) \<in> set xs"
  using intn_range [of "int (length xs)" r] by (intro nth_mem) (auto simp: nat_less_iff)

end

interpretation go_rand: random_source Intn rand_Float64
  by unfold_locales
     (auto simp: Intn_def rand_Float64_def fl_nonneg split: prod.splits)

end
