(* ===== verification/Simulation.thy ===== *)
theory Simulation
  imports GoRand GoTime "HOL-Library.List_Lexorder" "HOL-Library.Word"
begin

text \<open>
  The simulation engine of \<^verbatim>\<open>src/kubernetes/simulation.go\<close>: configuration, distribution of the nodes over
  the namespaces, and the tick of one second with its health transitions, its rolling deployments
  and its leases.  Nodes are reached through the slice \<^verbatim>\<open>se.nodes\<close> alone, so the pointers of the code
  are positions of a list; an active scenario and a drained node are named by their index for the
  same reason.  A Go map is the list of its entries in the order in which \<^verbatim>\<open>range\<close> visits them.
\<close>

section \<open>Data\<close>

text \<open>\<open>OtherProfile\<close> is any string that is not one of the named profiles, the empty one included.\<close>

datatype NodeHealthProfile =
  ProfileStable | ProfileNormal | ProfileDrifting | ProfileVolatile | OtherProfile string

text \<open>\<open>NoCause\<close> is the empty string, \<open>CauseDrain\<close> the literal \<^verbatim>\<open>"drain"\<close> of a rolling deployment.\<close>

datatype NotReadyCause =
  NoCause | CauseNetworkBlip | CauseOOMKill | CauseDiskPressure | CauseKubeletRestart | CauseDrain

record ScenarioConfig =
  sc_Type :: string
  sc_TriggerAt :: Duration
  sc_NodeCount :: int
  sc_StaggerInterval :: Duration
  sc_ReplacementDelay :: Duration

record SimulationConfig =
  sim_NodeCount :: int
  sim_Duration :: Duration
  sim_BaseInterval :: Duration
  sim_JitterStdDev :: Duration
  sim_FileSegmentWindow :: Duration
  sim_NamespaceRatios :: "(string \<times> float64) list"
  sim_NamespaceProfiles :: "(string \<times> NodeHealthProfile) list"
  sim_Scenarios :: "ScenarioConfig list"
  sim_MaxDriftIncrease :: Duration
  sim_Seed :: int

record NotReadyTransition =
  nt_Timestamp :: Time
  nt_Cause :: NotReadyCause
  nt_Duration :: Duration

record LeaseEvent =
  le_Timestamp :: Time
  le_NodeName :: string
  le_Namespace :: string

record SimEbpfEvent =
  be_Timestamp :: Time
  be_PID :: "32 word"
  be_PPID :: "32 word"
  be_Comm :: string
  be_Syscall :: string
  be_CgroupPath :: string
  be_NodeName :: string
  be_Namespace :: string

record SimNode =
  sn_Name :: string
  sn_Namespace :: string
  sn_Profile :: NodeHealthProfile
  sn_Status :: string
  sn_NotReadyCause :: NotReadyCause
  sn_NotReadyUntil :: Time
  sn_BaseInterval :: Duration
  sn_CurrentDrift :: Duration
  sn_LastLeaseTime :: Time
  sn_LeaseHistory :: "LeaseEvent list"
  sn_EbpfEvents :: "SimEbpfEvent list"
  sn_TransitionHistory :: "NotReadyTransition list"

record drainedNodeInfo =
  di_nodeName :: string
  di_drainTime :: Time
  di_replacementAt :: Time
  di_replaced :: bool
  di_replacementName :: string

record activeScenario =
  as_config :: ScenarioConfig
  as_started :: bool
  as_drainIndex :: int
  as_drainedNodes :: "drainedNodeInfo list"
  as_nextDrainAt :: Duration

record SimulationEngine =
  se_config :: SimulationConfig
  se_nodes :: "SimNode list"
  se_clock :: Time
  se_startTime :: Time
  se_rng :: Rand
  se_scenarios :: "ScenarioConfig list"
  se_activeScenarios :: "activeScenario list"
  se_nextNodeID :: int

definition maxSimulationDuration :: Duration where
  "maxSimulationDuration = 7 * 24 * Hour"

definition defaultBaseInterval :: Duration where
  "defaultBaseInterval = 10 * Second"

definition defaultJitterStdDev :: Duration where
  "defaultJitterStdDev = 500 * Millisecond"

definition defaultSegmentWindow :: Duration where
  "defaultSegmentWindow = 5 * Minute"

definition defaultMaxDrift :: Duration where
  "defaultMaxDrift = 3 * Second"

section \<open>Configuration\<close>

text \<open>
  The sum of the ratios is a floating-point sum in the order of the visit.  The code divides in place, in the map
  that the caller passed in; here the result is a new list, which the returned configuration holds, and the caller's map is
  not represented.
\<close>

definition normalizeRatios :: "(string \<times> float64) list \<Rightarrow> (string \<times> float64) list" where
  "normalizeRatios ratios =
     (let sum = foldl (\<lambda>s v. fl (s + v)) 0 (map snd ratios)
      in if sum = 0 then ratios else map (\<lambda>(k, v). (k, fl (v / sum))) ratios)"

datatype config_error =
    NodeCountError int
  | DurationError Duration
  | DurationTooLong Duration

definition ValidateConfig :: "SimulationConfig \<Rightarrow> config_error + SimulationConfig" where
  "ValidateConfig cfg =
    (if sim_NodeCount cfg \<le> 0 then Inl (NodeCountError (sim_NodeCount cfg))
     else if sim_Duration cfg \<le> 0 then Inl (DurationError (sim_Duration cfg))
     else if maxSimulationDuration < sim_Duration cfg then Inl (DurationTooLong (sim_Duration cfg))
     else Inr (cfg\<lparr>
       sim_BaseInterval := (if sim_BaseInterval cfg = 0 then defaultBaseInterval
                            else sim_BaseInterval cfg),
       sim_JitterStdDev := (if sim_JitterStdDev cfg = 0 then defaultJitterStdDev
                            else sim_JitterStdDev cfg),
       sim_FileSegmentWindow := (if sim_FileSegmentWindow cfg = 0 then defaultSegmentWindow
                                 else sim_FileSegmentWindow cfg),
       sim_MaxDriftIncrease := (if sim_MaxDriftIncrease cfg = 0 then defaultMaxDrift
                                else sim_MaxDriftIncrease cfg),
       sim_NamespaceRatios := normalizeRatios
         (if sim_NamespaceRatios cfg = []
          then [(''kube-system'', fl (2 / 10)), (''production'', fl (5 / 10)),
                (''staging'', fl (3 / 10))]
          else sim_NamespaceRatios cfg),
       sim_NamespaceProfiles :=
         (if sim_NamespaceProfiles cfg = []
          then [(''kube-system'', ProfileStable), (''production'', ProfileNormal),
                (''staging'', ProfileVolatile)]
          else sim_NamespaceProfiles cfg)\<rparr>))"

section \<open>Distribution of the nodes\<close>

definition sortedKeys :: "(string \<times> float64) list \<Rightarrow> string list" where
  "sortedKeys m = insertion_sort (\<lambda>a b. a < b) (map fst m)"

definition ratio_of :: "(string \<times> float64) list \<Rightarrow> string \<Rightarrow> float64" where
  "ratio_of m ns = (case map_of m ns of None \<Rightarrow> 0 | Some v \<Rightarrow> v)"

text \<open>The last namespace takes what remains.\<close>

fun nsCounts :: "SimulationConfig \<Rightarrow> int \<Rightarrow> string list \<Rightarrow> (string \<times> int) list" where
  "nsCounts cfg remaining [] = []"
| "nsCounts cfg remaining [ns] = [(ns, remaining)]"
| "nsCounts cfg remaining (ns # ns' # rest) =
    (let count0 = i64_of_f64 (go_round (fl (ratio_of (sim_NamespaceRatios cfg) ns
                                           * f64_of_i64 (sim_NodeCount cfg))));
         count = (if remaining < count0 then remaining else count0)
     in (ns, count) # nsCounts cfg (i64 (remaining - count)) (ns' # rest))"

definition profile_for :: "SimulationConfig \<Rightarrow> string \<Rightarrow> NodeHealthProfile" where
  "profile_for cfg ns =
    (case map_of (sim_NamespaceProfiles cfg) ns of
       None \<Rightarrow> ProfileNormal
     | Some p \<Rightarrow> if p = OtherProfile [] then ProfileNormal else p)"

text \<open>The struct literal of a node: every field that is not named is zero.\<close>

definition new_node :: "string \<Rightarrow> string \<Rightarrow> NodeHealthProfile \<Rightarrow> Duration \<Rightarrow> SimNode" where
  "new_node name ns profile base =
     \<lparr>sn_Name = name, sn_Namespace = ns, sn_Profile = profile, sn_Status = ''Ready'',
      sn_NotReadyCause = NoCause, sn_NotReadyUntil = zero_time, sn_BaseInterval = base,
      sn_CurrentDrift = 0, sn_LastLeaseTime = zero_time, sn_LeaseHistory = [],
      sn_EbpfEvents = [], sn_TransitionHistory = []\<rparr>"

definition node_name :: "nat \<Rightarrow> string" where
  "node_name i = ''node-'' @ pad_int 3 (int i)"

fun make_nodes :: "SimulationConfig \<Rightarrow> nat \<Rightarrow> (string \<times> int) list \<Rightarrow> SimNode list" where
  "make_nodes cfg nodeIdx [] = []"
| "make_nodes cfg nodeIdx ((ns, c) # rest) =
     map (\<lambda>i. new_node (node_name i) ns (profile_for cfg ns) (sim_BaseInterval cfg))
         [nodeIdx..<nodeIdx + nat c]
     @ make_nodes cfg (nodeIdx + nat c) rest"

definition distributeNodes :: "SimulationConfig \<Rightarrow> SimNode list" where
  "distributeNodes cfg =
     make_nodes cfg 0 (nsCounts cfg (sim_NodeCount cfg) (sortedKeys (sim_NamespaceRatios cfg)))"

definition new_activeScenario :: "ScenarioConfig \<Rightarrow> activeScenario" where
  "new_activeScenario sc =
     \<lparr>as_config = sc, as_started = False, as_drainIndex = 0, as_drainedNodes = [],
      as_nextDrainAt = sc_TriggerAt sc\<rparr>"

text \<open>
  The clock is \<^verbatim>\<open>time.Now()\<close>, read once for the seed (when none is configured) and once for the
  start; \<open>source\<close> is the tape of a seed.
\<close>

definition NewSimulationEngine ::
  "(int \<Rightarrow> Rand) \<Rightarrow> Time \<Rightarrow> Time \<Rightarrow> SimulationConfig \<Rightarrow> config_error + SimulationEngine" where
  "NewSimulationEngine source now0 now cfg0 =
    (case ValidateConfig cfg0 of
       Inl err \<Rightarrow> Inl err
     | Inr cfg \<Rightarrow>
         let seed = (if sim_Seed cfg = 0 then i64 now0 else sim_Seed cfg);
             nodes = distributeNodes cfg
         in Inr \<lparr>se_config = cfg, se_nodes = nodes, se_clock = now, se_startTime = now,
                 se_rng = source seed, se_scenarios = sim_Scenarios cfg,
                 se_activeScenarios = map new_activeScenario (sim_Scenarios cfg),
                 se_nextNodeID = int (length nodes)\<rparr>)"

section \<open>Events\<close>

definition uint32 :: "int \<Rightarrow> 32 word" where
  "uint32 n = word_of_int n"

definition sim_event ::
  "string \<Rightarrow> string \<Rightarrow> SimNode \<Rightarrow> Time \<Rightarrow> Rand \<Rightarrow> SimEbpfEvent \<times> Rand" where
  "sim_event comm syscall node ts r =
    (case Intn 32000 r of (pid, r1) \<Rightarrow>
     case Intn 32000 r1 of (ppid, r2) \<Rightarrow>
       (\<lparr>be_Timestamp = ts, be_PID = uint32 (pid + 1), be_PPID = uint32 (ppid + 1),
         be_Comm = comm, be_Syscall = syscall,
         be_CgroupPath = ''/sys/fs/cgroup/kubepods/'' @ sn_Name node,
         be_NodeName = sn_Name node, be_Namespace = sn_Namespace node\<rparr>, r2))"

definition append_event ::
  "string \<Rightarrow> string \<Rightarrow> Time \<Rightarrow> SimNode \<Rightarrow> Rand \<Rightarrow> SimNode \<times> Rand" where
  "append_event comm syscall ts node r =
    (case sim_event comm syscall node ts r of (e, r') \<Rightarrow>
       (node\<lparr>sn_EbpfEvents := sn_EbpfEvents node @ [e]\<rparr>, r'))"

definition generateCorrelatedEbpf ::
  "Time \<Rightarrow> SimNode \<Rightarrow> NotReadyCause \<Rightarrow> Rand \<Rightarrow> SimNode \<times> Rand" where
  "generateCorrelatedEbpf clk node cause r =
    (case cause of
       CauseKubeletRestart \<Rightarrow>
         (case Intn 2001 r of (offsetMs, r1) \<Rightarrow>
            append_event ''kubelet'' ''exit'' (time_Add clk (- (offsetMs * Millisecond))) node r1)
     | CauseOOMKill \<Rightarrow>
         (case Intn 1001 r of (offsetMs, r1) \<Rightarrow>
          case Intn 2 r1 of (side, r2) \<Rightarrow>
            let offset = (if side = 0 then - offsetMs else offsetMs)
            in append_event ''oom_reaper'' ''kill'' (time_Add clk (offset * Millisecond)) node r2)
     | _ \<Rightarrow> (node, r))"

definition generateBackgroundEbpf :: "SimNode \<Rightarrow> Time \<Rightarrow> Rand \<Rightarrow> SimNode \<times> Rand" where
  "generateBackgroundEbpf node ts r = append_event ''kubelet'' ''write'' ts node r"

definition generateReplacementForkEbpf :: "SimNode \<Rightarrow> Time \<Rightarrow> Rand \<Rightarrow> SimNode \<times> Rand" where
  "generateReplacementForkEbpf node firstLeaseTime r =
    (case Intn 1001 r of (offsetMs, r1) \<Rightarrow>
       append_event ''kubelet'' ''fork'' (time_Add firstLeaseTime (offsetMs * Millisecond)) node r1)"

section \<open>Health transitions\<close>

definition allCauses :: "NotReadyCause list" where
  "allCauses = [CauseNetworkBlip, CauseOOMKill, CauseDiskPressure, CauseKubeletRestart]"

definition notReadyProbabilityPerTick :: "NodeHealthProfile \<Rightarrow> float64" where
  "notReadyProbabilityPerTick profile =
    (case profile of
       ProfileStable \<Rightarrow> 0
     | ProfileNormal \<Rightarrow> fl (30 / 10 ^ 6)
     | ProfileDrifting \<Rightarrow> fl (30 / 10 ^ 6)
     | ProfileVolatile \<Rightarrow> fl (60 / 10 ^ 6)
     | OtherProfile _ \<Rightarrow> fl (30 / 10 ^ 6))"

text \<open>The branch that takes a node down.\<close>

definition go_not_ready :: "Time \<Rightarrow> SimNode \<Rightarrow> Rand \<Rightarrow> SimNode \<times> Rand" where
  "go_not_ready clk node r =
    (case Intn (int (length allCauses)) r of (c, r1) \<Rightarrow>
     case Intn 116 r1 of (d, r2) \<Rightarrow>
       let cause = allCauses ! nat c;
           duration = dur_mul (5 + d) Second;
           node' = node\<lparr>sn_Status := ''NotReady'', sn_NotReadyCause := cause,
                        sn_NotReadyUntil := time_Add clk duration,
                        sn_TransitionHistory := sn_TransitionHistory node @
                          [\<lparr>nt_Timestamp = clk, nt_Cause = cause, nt_Duration = duration\<rparr>]\<rparr>
       in generateCorrelatedEbpf clk node' cause r2)"

definition health_step :: "Time \<Rightarrow> SimNode \<Rightarrow> Rand \<Rightarrow> SimNode \<times> Rand" where
  "health_step clk node r =
    (if sn_Status node = ''NotReady'' then
       (if sn_NotReadyCause node = CauseDrain then (node, r)
        else if \<not> Before clk (sn_NotReadyUntil node)
        then (node\<lparr>sn_Status := ''Ready'', sn_NotReadyCause := NoCause\<rparr>, r)
        else (node, r))
     else if sn_Profile node = ProfileStable then (node, r)
     else case rand_Float64 r of (x, r1) \<Rightarrow>
       if x < notReadyProbabilityPerTick (sn_Profile node) then go_not_ready clk node r1
       else (node, r1))"

text \<open>A loop over the nodes that draws from the generator.\<close>

fun each_node :: "(SimNode \<Rightarrow> Rand \<Rightarrow> SimNode \<times> Rand) \<Rightarrow> SimNode list \<Rightarrow> Rand \<Rightarrow> SimNode list \<times> Rand" where
  "each_node f [] r = ([], r)"
| "each_node f (n # ns) r =
    (case f n r of (n', r1) \<Rightarrow> case each_node f ns r1 of (ns', r2) \<Rightarrow> (n' # ns', r2))"

definition update_nodes ::
  "(SimNode \<Rightarrow> Rand \<Rightarrow> SimNode \<times> Rand) \<Rightarrow> SimulationEngine \<Rightarrow> SimulationEngine" where
  "update_nodes f se =
    (case each_node f (se_nodes se) (se_rng se) of (ns, r) \<Rightarrow> se\<lparr>se_nodes := ns, se_rng := r\<rparr>)"

definition applyHealthTransitions :: "SimulationEngine \<Rightarrow> SimulationEngine" where
  "applyHealthTransitions se = update_nodes (health_step (se_clock se)) se"

section \<open>Leases\<close>

definition drift_at :: "SimulationConfig \<Rightarrow> Duration \<Rightarrow> SimNode \<Rightarrow> SimNode" where
  "drift_at cfg elapsed node =
    (if sn_Profile node = ProfileDrifting \<and> 0 < sim_Duration cfg
     then let p0 = fl (f64_of_i64 elapsed / f64_of_i64 (sim_Duration cfg));
              progress = (if 1 < p0 then 1 else p0)
          in node\<lparr>sn_CurrentDrift :=
               i64_of_f64 (fl (f64_of_i64 (sim_MaxDriftIncrease cfg) * progress))\<rparr>
     else node)"

definition next_interval :: "SimulationConfig \<Rightarrow> SimNode \<Rightarrow> float64 \<Rightarrow> Duration" where
  "next_interval cfg node z =
    (let effectiveBase = i64 (sn_BaseInterval node + sn_CurrentDrift node);
         jitter = i64_of_f64 (fl (z * f64_of_i64 (sim_JitterStdDev cfg)));
         nextInterval = i64 (effectiveBase + jitter)
     in if nextInterval < Second then Second else nextInterval)"

definition append_lease :: "Time \<Rightarrow> SimNode \<Rightarrow> SimNode" where
  "append_lease ts node =
     node\<lparr>sn_LastLeaseTime := ts,
          sn_LeaseHistory := sn_LeaseHistory node @
            [\<lparr>le_Timestamp = ts, le_NodeName = sn_Name node, le_Namespace = sn_Namespace node\<rparr>]\<rparr>"

definition generateLeaseForNode ::
  "SimulationConfig \<Rightarrow> Time \<Rightarrow> Duration \<Rightarrow> SimNode \<Rightarrow> Rand \<Rightarrow> SimNode \<times> Rand" where
  "generateLeaseForNode cfg clk elapsed node0 r =
    (if sn_Status node0 = ''NotReady'' then (node0, r)
     else let node = drift_at cfg elapsed node0
       in case NormFloat64 r of (z, r1) \<Rightarrow>
         let nextInterval = next_interval cfg node z
         in if sn_LastLeaseTime node = zero_time
            then generateBackgroundEbpf (append_lease clk node) clk r1
            else if nextInterval \<le> time_Sub clk (sn_LastLeaseTime node)
            then generateBackgroundEbpf (append_lease clk node) clk r1
            else (node, r1))"

text \<open>The offset of the i-th of the burst leases.\<close>

definition burst_offset :: "Duration \<Rightarrow> nat \<Rightarrow> nat \<Rightarrow> Duration" where
  "burst_offset window n i =
     i64_of_f64 (fl (fl (f64_of_i64 window * fl (of_nat i)) / fl (of_nat n)))"

fun burst_from :: "Time \<Rightarrow> nat \<Rightarrow> Duration \<Rightarrow> nat list \<Rightarrow> SimNode \<Rightarrow> Rand \<Rightarrow> SimNode \<times> Rand" where
  "burst_from startTime n window [] node r = (node, r)"
| "burst_from startTime n window (i # is) node r =
    (let ts = (if i = 0 then startTime else time_Add startTime (burst_offset window n i))
     in case generateBackgroundEbpf (append_lease ts node) ts r of (node', r') \<Rightarrow>
          burst_from startTime n window is node' r')"

definition generateBurstLeases ::
  "SimNode \<Rightarrow> Time \<Rightarrow> nat \<Rightarrow> Duration \<Rightarrow> Rand \<Rightarrow> SimNode \<times> Rand" where
  "generateBurstLeases node startTime n window r = burst_from startTime n window [0..<n] node r"

section \<open>Rolling deployments\<close>

definition isNodeDrained :: "SimulationEngine \<Rightarrow> string \<Rightarrow> bool" where
  "isNodeDrained se name \<longleftrightarrow>
     list_ex (\<lambda>sc. list_ex (\<lambda>di. di_nodeName di = name) (as_drainedNodes sc))
       (se_activeScenarios se)"

definition drain_node :: "SimulationEngine \<Rightarrow> SimNode \<Rightarrow> SimNode" where
  "drain_node se node =
     node\<lparr>sn_Status := ''NotReady'', sn_NotReadyCause := CauseDrain,
          sn_NotReadyUntil := time_Add (se_clock se) (sim_Duration (se_config se))\<rparr>"

definition drainable :: "SimulationEngine \<Rightarrow> SimNode \<Rightarrow> bool" where
  "drainable se node \<longleftrightarrow> sn_Status node = ''Ready'' \<and> \<not> isNodeDrained se (sn_Name node)"

text \<open>The search loop: the first node that satisfies the condition is changed and returned.\<close>

fun change_first :: "('a \<Rightarrow> bool) \<Rightarrow> ('a \<Rightarrow> 'a) \<Rightarrow> 'a list \<Rightarrow> ('a \<times> 'a list) option" where
  "change_first P f [] = None"
| "change_first P f (x # xs) =
    (if P x then Some (x, f x # xs)
     else map_option (\<lambda>(y, ys). (y, x # ys)) (change_first P f xs))"

definition record_drain :: "SimulationEngine \<Rightarrow> string \<Rightarrow> activeScenario \<Rightarrow> activeScenario" where
  "record_drain se name sc =
    (let i = as_drainIndex sc + 1
     in sc\<lparr>as_drainedNodes := as_drainedNodes sc @
             [\<lparr>di_nodeName = name, di_drainTime = se_clock se,
               di_replacementAt = time_Add (se_clock se) (sc_ReplacementDelay (as_config sc)),
               di_replaced = False, di_replacementName = []\<rparr>],
           as_drainIndex := i,
           as_nextDrainAt := i64 (sc_TriggerAt (as_config sc)
                                  + dur_mul i (sc_StaggerInterval (as_config sc)))\<rparr>)"

definition scenario_due :: "Duration \<Rightarrow> nat \<Rightarrow> SimulationEngine \<Rightarrow> bool" where
  "scenario_due elapsed k se \<longleftrightarrow>
     k < length (se_activeScenarios se) \<and>
     (let sc = se_activeScenarios se ! k
      in as_drainIndex sc < sc_NodeCount (as_config sc) \<and> as_nextDrainAt sc \<le> elapsed)"

text \<open>One pass of the drain loop; \<open>None\<close> when no node is left to drain.\<close>

definition drain_one :: "nat \<Rightarrow> SimulationEngine \<Rightarrow> SimulationEngine option" where
  "drain_one k se =
    (case change_first (drainable se) (drain_node se) (se_nodes se) of
       None \<Rightarrow> None
     | Some (node, nodes) \<Rightarrow>
         Some (se\<lparr>se_nodes := nodes,
                  se_activeScenarios := (se_activeScenarios se)
                    [k := record_drain se (sn_Name node) (se_activeScenarios se ! k)]\<rparr>))"

definition drains_left :: "nat \<Rightarrow> SimulationEngine \<Rightarrow> nat" where
  "drains_left k se =
    (let sc = se_activeScenarios se ! k in nat (sc_NodeCount (as_config sc) - as_drainIndex sc))"

function drain_loop :: "Duration \<Rightarrow> nat \<Rightarrow> SimulationEngine \<Rightarrow> SimulationEngine" where
  "drain_loop elapsed k se =
    (if scenario_due elapsed k se
     then case drain_one k se of None \<Rightarrow> se | Some se' \<Rightarrow> drain_loop elapsed k se'
     else se)"
  by pat_completeness auto
termination
  by (relation "measure (\<lambda>(elapsed, k, se). drains_left k se)")
     (auto simp: drain_one_def scenario_due_def drains_left_def record_drain_def Let_def
           split: option.splits)

declare drain_loop.simps [simp del]

definition replacement_name :: "int \<Rightarrow> string" where
  "replacement_name i = ''node-repl-'' @ pad_int 3 i"

definition namespace_of :: "SimNode list \<Rightarrow> string \<Rightarrow> string" where
  "namespace_of nodes name =
    (case List.find (\<lambda>n. sn_Name n = name) nodes of
       None \<Rightarrow> ''production'' | Some n \<Rightarrow> sn_Namespace n)"

definition replacement_node :: "SimulationEngine \<Rightarrow> string \<Rightarrow> SimNode \<times> Rand" where
  "replacement_node se drained =
    (case generateBurstLeases
            (new_node (replacement_name (se_nextNodeID se)) (namespace_of (se_nodes se) drained)
               ProfileNormal (sim_BaseInterval (se_config se)))
            (se_clock se) 3 (5 * Second) (se_rng se) of
       (node, r) \<Rightarrow> generateReplacementForkEbpf node (se_clock se) r)"

definition replace_one :: "nat \<Rightarrow> SimulationEngine \<Rightarrow> nat \<Rightarrow> SimulationEngine" where
  "replace_one k se i =
    (let sc = se_activeScenarios se ! k; di = as_drainedNodes sc ! i
     in if di_replaced di then se
        else if \<not> Before (se_clock se) (di_replacementAt di)
        then case replacement_node se (di_nodeName di) of (node, r) \<Rightarrow>
          se\<lparr>se_nodes := se_nodes se @ [node], se_rng := r,
             se_nextNodeID := i64 (se_nextNodeID se + 1),
             se_activeScenarios := (se_activeScenarios se)
               [k := sc\<lparr>as_drainedNodes := (as_drainedNodes sc)
                  [i := di\<lparr>di_replaced := True,
                           di_replacementName := replacement_name (se_nextNodeID se)\<rparr>]\<rparr>]\<rparr>
        else se)"

definition scenario_step :: "Duration \<Rightarrow> SimulationEngine \<Rightarrow> nat \<Rightarrow> SimulationEngine" where
  "scenario_step elapsed se k =
    (if sc_Type (as_config (se_activeScenarios se ! k)) \<noteq> ''rolling_deployment'' then se
     else let se1 = drain_loop elapsed k se
          in foldl (replace_one k) se1 [0..<length (as_drainedNodes (se_activeScenarios se1 ! k))])"

definition applyScenarios :: "Duration \<Rightarrow> SimulationEngine \<Rightarrow> SimulationEngine" where
  "applyScenarios elapsed se =
     foldl (scenario_step elapsed) se [0..<length (se_activeScenarios se)]"

section \<open>The tick\<close>

definition lease_pass :: "Duration \<Rightarrow> SimulationEngine \<Rightarrow> SimulationEngine" where
  "lease_pass elapsed se =
     update_nodes (generateLeaseForNode (se_config se) (se_clock se) elapsed) se"

definition tick :: "Duration \<Rightarrow> SimulationEngine \<Rightarrow> SimulationEngine" where
  "tick elapsed se = lease_pass elapsed (applyScenarios elapsed (applyHealthTransitions se))"

text \<open>The clock of the i-th pass is the start plus i seconds.\<close>

definition tick_at :: "Time \<Rightarrow> SimulationEngine \<Rightarrow> nat \<Rightarrow> SimulationEngine" where
  "tick_at startTime se i =
    (let elapsed = dur_mul (int i) Second
     in tick elapsed (se\<lparr>se_clock := time_Add startTime elapsed\<rparr>))"

definition run_ticks :: "nat \<Rightarrow> SimulationEngine \<Rightarrow> SimulationEngine" where
  "run_ticks n se0 =
    (let se = se0\<lparr>se_startTime := se_clock se0\<rparr>
     in foldl (tick_at (se_startTime se)) se [0..<n])"

end
