(* ===== verification/SimulationOutput.thy ===== *)
theory SimulationOutput
  imports Simulation
begin

text \<open>
  The run of the simulation, the split of its output into time-windowed files, the manifests, and
  the writing of the files (\<^verbatim>\<open>simulation.go\<close> from \<^verbatim>\<open>Run\<close> on, and \<^verbatim>\<open>file_output.go\<close>).  A map from
  namespace to points is a partial function; the encoder of the files and the file system are
  arguments.
\<close>

section \<open>Data\<close>

record LeasePoint =
  lp_X :: int
  lp_Y :: int

record LeaseFileOutput =
  lf_Filename :: string
  lf_Data :: "string \<rightharpoonup> LeasePoint list"

record EbpfFileOutput =
  ef_Filename :: string
  ef_Events :: "SimEbpfEvent list"

record SimulationStats =
  st_TotalNodes :: int
  st_TotalLeases :: int
  st_TotalEbpfEvents :: int
  st_NotReadyCount :: int
  st_ScenarioCount :: int

record SimulationResult =
  sr_LeaseFiles :: "LeaseFileOutput list"
  sr_EbpfFiles :: "EbpfFileOutput list"
  sr_Manifest :: "string list"
  sr_EbpfManifest :: "string list"
  sr_Stats :: SimulationStats

section \<open>File segmentation\<close>

definition num_files :: "SimulationEngine \<Rightarrow> int" where
  "num_files se =
    (let n = i64_of_f64 (of_int \<lceil>fl (f64_of_i64 (sim_Duration (se_config se))
                                    / f64_of_i64 (sim_FileSegmentWindow (se_config se)))\<rceil>)
     in if n < 1 then 1 else n)"

definition window_start :: "SimulationEngine \<Rightarrow> int \<Rightarrow> Time" where
  "window_start se i =
     time_Add (se_startTime se) (dur_mul i (sim_FileSegmentWindow (se_config se)))"

definition file_names :: "string \<Rightarrow> SimulationEngine \<Rightarrow> string list" where
  "file_names pre se =
     map (\<lambda>i. pre @ format_compact (window_start se (int i)) @ ''.json'')
       [0..<nat (num_files se)]"

text \<open>The index of the file of an instant: its window, moved into the range of the files.\<close>

definition file_index :: "SimulationEngine \<Rightarrow> Time \<Rightarrow> nat" where
  "file_index se ts =
    (let elapsed = time_Sub ts (se_startTime se);
         idx0 = i64 (go_div elapsed (sim_FileSegmentWindow (se_config se)));
         idx = (if num_files se \<le> idx0 then num_files se - 1 else idx0)
     in nat (if idx < 0 then 0 else idx))"

definition UnixMilli_of :: "Time \<Rightarrow> int" where
  "UnixMilli_of ts = go_div (i64 ts) Millisecond"

definition add_point :: "string \<Rightarrow> Time \<Rightarrow> LeaseFileOutput \<Rightarrow> LeaseFileOutput" where
  "add_point ns ts f =
    (let pts = (case lf_Data f ns of None \<Rightarrow> [] | Some ps \<Rightarrow> ps)
     in f\<lparr>lf_Data := (lf_Data f)(ns \<mapsto> pts @ [\<lparr>lp_X = int (length pts), lp_Y = UnixMilli_of ts\<rparr>])\<rparr>)"

definition place_lease ::
  "SimulationEngine \<Rightarrow> LeaseFileOutput list \<Rightarrow> LeaseEvent \<Rightarrow> LeaseFileOutput list" where
  "place_lease se files lease =
    (let i = file_index se (le_Timestamp lease)
     in files[i := add_point (le_Namespace lease) (le_Timestamp lease) (files ! i)])"

definition all_leases :: "SimulationEngine \<Rightarrow> LeaseEvent list" where
  "all_leases se = concat (map sn_LeaseHistory (se_nodes se))"

definition SegmentLeaseFiles :: "SimulationEngine \<Rightarrow> LeaseFileOutput list" where
  "SegmentLeaseFiles se =
     foldl (place_lease se)
       (map (\<lambda>name. \<lparr>lf_Filename = name, lf_Data = Map.empty\<rparr>) (file_names ''leases'' se))
       (all_leases se)"

definition all_events :: "SimulationEngine \<Rightarrow> SimEbpfEvent list" where
  "all_events se = concat (map sn_EbpfEvents (se_nodes se))"

definition place_event ::
  "SimulationEngine \<Rightarrow> EbpfFileOutput list \<Rightarrow> SimEbpfEvent \<Rightarrow> EbpfFileOutput list" where
  "place_event se files evt =
    (let i = file_index se (be_Timestamp evt)
     in files[i := (files ! i)\<lparr>ef_Events := ef_Events (files ! i) @ [evt]\<rparr>])"

definition SegmentEbpfFiles :: "SimulationEngine \<Rightarrow> EbpfFileOutput list" where
  "SegmentEbpfFiles se =
     foldl (place_event se)
       (map (\<lambda>name. \<lparr>ef_Filename = name, ef_Events = []\<rparr>) (file_names ''ebpf-leases'' se))
       (all_events se)"

definition GenerateLeaseManifest :: "LeaseFileOutput list \<Rightarrow> string list" where
  "GenerateLeaseManifest files = map lf_Filename files"

definition GenerateEbpfManifest :: "EbpfFileOutput list \<Rightarrow> string list" where
  "GenerateEbpfManifest files = map ef_Filename files"

section \<open>The run\<close>

text \<open>\<^verbatim>\<open>Duration.Seconds()\<close> is a floating-point number: whole seconds plus a fraction.\<close>

definition Duration_Seconds :: "Duration \<Rightarrow> float64" where
  "Duration_Seconds d =
     fl (f64_of_i64 (go_div d Second) + fl (f64_of_i64 (go_mod d Second) / f64_of_i64 Second))"

definition hadNotReadyTransition :: "SimNode \<Rightarrow> Duration \<Rightarrow> bool" where
  "hadNotReadyTransition node baseInterval \<longleftrightarrow>
     list_ex (\<lambda>(a, b). dur_mul 2 baseInterval < time_Sub (le_Timestamp b) (le_Timestamp a))
       (zip (sn_LeaseHistory node) (tl (sn_LeaseHistory node)))"

definition run_stats :: "SimulationEngine \<Rightarrow> SimulationStats" where
  "run_stats se =
     \<lparr>st_TotalNodes = int (length (se_nodes se)),
      st_TotalLeases = sum_list (map (\<lambda>n. int (length (sn_LeaseHistory n))) (se_nodes se)),
      st_TotalEbpfEvents = sum_list (map (\<lambda>n. int (length (sn_EbpfEvents n))) (se_nodes se)),
      st_NotReadyCount = int (length (remdups (map sn_Name
        (filter (\<lambda>n. hadNotReadyTransition n (sim_BaseInterval (se_config se))) (se_nodes se))))),
      st_ScenarioCount = int (length (sim_Scenarios (se_config se)))\<rparr>"

definition Run :: "SimulationEngine \<Rightarrow> SimulationResult \<times> SimulationEngine" where
  "Run se0 =
    (let totalSeconds = i64_of_f64 (Duration_Seconds (sim_Duration (se_config se0)));
         se = run_ticks (nat (totalSeconds + 1)) se0;
         lease_files = SegmentLeaseFiles se;
         ebpf_files = SegmentEbpfFiles se
     in (\<lparr>sr_LeaseFiles = lease_files, sr_EbpfFiles = ebpf_files,
          sr_Manifest = GenerateLeaseManifest lease_files,
          sr_EbpfManifest = GenerateEbpfManifest ebpf_files,
          sr_Stats = run_stats se\<rparr>, se))"

section \<open>Writing the files\<close>

record EbpfEventJSON =
  ej_Timestamp :: int
  ej_Namespace :: string
  ej_Pod :: string
  ej_PID :: "32 word"
  ej_Comm :: string
  ej_Syscall :: string

definition EbpfEventJSON_of :: "SimEbpfEvent \<Rightarrow> EbpfEventJSON" where
  "EbpfEventJSON_of evt =
     \<lparr>ej_Timestamp = UnixMilli_of (be_Timestamp evt), ej_Namespace = be_Namespace evt,
      ej_Pod = be_NodeName evt, ej_PID = be_PID evt, ej_Comm = be_Comm evt,
      ej_Syscall = be_Syscall evt\<rparr>"

text \<open>What is encoded as JSON; the encoding cannot fail on these values.\<close>

datatype file_content =
    LeaseData "string \<rightharpoonup> LeasePoint list"
  | EbpfData "EbpfEventJSON list"
  | ManifestData "string list"

definition output_files :: "SimulationResult \<Rightarrow> (string \<times> file_content) list" where
  "output_files res =
     map (\<lambda>f. (lf_Filename f, LeaseData (lf_Data f))) (sr_LeaseFiles res) @
     map (\<lambda>f. (ef_Filename f, EbpfData (map EbpfEventJSON_of (ef_Events f)))) (sr_EbpfFiles res) @
     [(''leases.manifest.json'', ManifestData (sr_Manifest res)),
      (''ebpf-leases.manifest.json'', ManifestData (sr_EbpfManifest res))]"

datatype write_error = MkdirError | WriteError string

fun write_files ::
  "(string \<Rightarrow> bool) \<Rightarrow> (string \<times> file_content) list
   \<Rightarrow> write_error option \<times> (string \<times> file_content) list" where
  "write_files ok [] = (None, [])"
| "write_files ok ((name, c) # rest) =
    (if ok name then (case write_files ok rest of (err, ws) \<Rightarrow> (err, (name, c) # ws))
     else (Some (WriteError name), []))"

text \<open>\<open>ok\<close> says which files of the directory can be written; the written files come in order.\<close>

definition WriteSimulationOutput ::
  "bool \<Rightarrow> (string \<Rightarrow> bool) \<Rightarrow> SimulationResult
   \<Rightarrow> write_error option \<times> (string \<times> file_content) list" where
  "WriteSimulationOutput dir_ok ok res =
     (if dir_ok then write_files ok (output_files res) else (Some MkdirError, []))"

end
