(* ===== verification/SimulationDistribution.thy ===== *)
theory SimulationDistribution
  imports SimulationOutput
begin

text \<open>
  The nodes of a new simulation: the counts per namespace add up to the configured number, and the
  names are pairwise different.
\<close>

section \<open>Distribution\<close>

lemma foldl_fl_sum_mono:
  assumes "\<forall>v \<in> set vs. 0 \<le> v" and "0 \<le> s" and "fl s = s"
  shows "s \<le> foldl (\<lambda>s v. fl (s + v)) s vs"
  using assms
proof (induction vs arbitrary: s)
  case (Cons v vs)
  have "fl s \<le> fl (s + v)" using Cons.prems by (intro fl_mono) simp
  moreover have "fl (s + v) \<le> foldl (\<lambda>s v. fl (s + v)) (fl (s + v)) vs"
    using Cons.prems by (intro Cons.IH) (auto simp: fl_nonneg)
  ultimately show ?case using Cons.prems(3) by simp
qed simp

lemma foldl_fl_sum_dominates:
  assumes "\<forall>v \<in> set vs. 0 \<le> v \<and> fl v = v" and "0 \<le> s" and "fl s = s" and "v \<in> set vs"
  shows "v \<le> foldl (\<lambda>s v. fl (s + v)) s vs"
  using assms
proof (induction vs arbitrary: s)
  case (Cons w vs)
  have r: "0 \<le> fl (s + w)" using Cons.prems by (simp add: fl_nonneg)
  show ?case
  proof (cases "v \<in> set vs")
    case True
    then show ?thesis using Cons.prems r by (simp add: Cons.IH)
  next
    case False
    then have "v = w" using Cons.prems by simp
    moreover have "fl w \<le> fl (s + w)" using Cons.prems by (intro fl_mono) simp
    moreover have "fl (s + w) \<le> foldl (\<lambda>s v. fl (s + v)) (fl (s + w)) vs"
      using Cons.prems r by (intro foldl_fl_sum_mono) auto
    ultimately show ?thesis using Cons.prems by simp
  qed
qed simp

lemma normalizeRatios_bounds:
  assumes "\<forall>(k, v) \<in> set m. 0 \<le> v \<and> fl v = v" and "(k, w) \<in> set (normalizeRatios m)"
  shows "0 \<le> w \<and> w \<le> 1"
proof -
  let ?sum = "foldl (\<lambda>s v. fl (s + v)) 0 (map snd m)"
  have nn: "\<forall>v \<in> set (map snd m). 0 \<le> v \<and> fl v = v" using assms(1) by auto
  have dom: "v \<le> ?sum" if "v \<in> set (map snd m)" for v
    using nn that by (intro foldl_fl_sum_dominates) auto
  have s0: "0 \<le> ?sum" using nn by (intro foldl_fl_sum_mono) auto
  show ?thesis
  proof (cases "?sum = 0")
    case True
    then have "(k, w) \<in> set m" using assms(2) by (simp add: normalizeRatios_def)
    then have w: "w \<in> set (map snd m)" by (metis in_set_conv_decomp image_eqI set_map snd_conv)
    then show ?thesis using dom [OF w] nn True by auto
  next
    case False
    then obtain v where v: "(k, v) \<in> set m" "w = fl (v / ?sum)"
      using assms(2) by (auto simp: normalizeRatios_def Let_def)
    then have vm: "v \<in> set (map snd m)" by (metis image_eqI set_map snd_conv)
    then have "0 \<le> v / ?sum" "v / ?sum \<le> 1"
      using nn dom s0 False by (auto simp: divide_le_eq_1)
    then show ?thesis using v(2) by (simp add: fl_nonneg fl_le_1)
  qed
qed

lemma normalizeRatios_Nil [simp]: "normalizeRatios m = [] \<longleftrightarrow> m = []"
  by (simp add: normalizeRatios_def Let_def)

lemma nsCounts_fst [simp]: "map fst (nsCounts cfg m nss) = nss"
  by (induction cfg m nss rule: nsCounts.induct) (simp_all add: Let_def)

lemma i64_of_f64_round_nonneg:
  assumes "0 \<le> x" and "x \<le> of_int n" and "n < 2 ^ 53"
  shows "0 \<le> i64_of_f64 (go_round x)"
proof -
  have "\<lfloor>x + 1 / 2\<rfloor> \<le> \<lfloor>of_int n + 1 / 2 :: rat\<rfloor>" using assms(2) by (intro floor_mono) simp
  also have "\<dots> = n" by linarith
  finally have "is_i64 \<lfloor>x + 1 / 2\<rfloor>" and "0 \<le> \<lfloor>x + 1 / 2\<rfloor>" using assms by (auto simp: i64_defs)
  then show ?thesis using assms(1) by (simp add: go_round_def)
qed

lemma nsCounts_sum:
  assumes "\<And>ns. 0 \<le> ratio_of (sim_NamespaceRatios cfg) ns \<and> ratio_of (sim_NamespaceRatios cfg) ns \<le> 1"
    and "0 \<le> sim_NodeCount cfg" and "sim_NodeCount cfg < 2 ^ 53"
    and "0 \<le> m" and "is_i64 m" and "nss \<noteq> []"
  shows "sum_list (map snd (nsCounts cfg m nss)) = m \<and> (\<forall>p \<in> set (nsCounts cfg m nss). 0 \<le> snd p)"
  using assms
proof (induction cfg m nss rule: nsCounts.induct)
  case (3 cfg m ns ns' rest)
  let ?n = "sim_NodeCount cfg" and ?q = "ratio_of (sim_NamespaceRatios cfg) ns"
  define c0 where "c0 = i64_of_f64 (go_round (fl (?q * f64_of_i64 ?n)))"
  define c where "c = (if m < c0 then m else c0)"
  have n: "f64_of_i64 ?n = of_int ?n" using "3.prems"(2,3) by (simp add: f64_of_i64_def fl_of_int)
  have q: "0 \<le> ?q" "?q \<le> 1" using "3.prems"(1) by auto
  have "?q * of_int ?n \<le> 1 * of_int ?n" using q "3.prems"(2) by (intro mult_right_mono) auto
  then have "fl (?q * of_int ?n) \<le> fl (of_int ?n)" by (intro fl_mono) simp
  then have "fl (?q * of_int ?n) \<le> of_int ?n" using "3.prems"(2,3) by (simp add: fl_of_int)
  moreover have "0 \<le> fl (?q * of_int ?n)" using q "3.prems"(2) by (simp add: fl_nonneg)
  ultimately have "0 \<le> c0" unfolding c0_def n using "3.prems"(3) by (intro i64_of_f64_round_nonneg)
  then have c: "0 \<le> c" "c \<le> m" using "3.prems"(4) by (auto simp: c_def)
  then have mc: "is_i64 (m - c)" using "3.prems"(4,5) by (auto simp: i64_defs)
  then have i: "i64 (m - c) = m - c" by simp
  have "sum_list (map snd (nsCounts cfg (m - c) (ns' # rest))) = m - c \<and>
        (\<forall>p \<in> set (nsCounts cfg (m - c) (ns' # rest)). 0 \<le> snd p)"
    using "3.IH" [OF c0_def c_def] i mc c "3.prems"(1-3) by simp
  moreover have "nsCounts cfg m (ns # ns' # rest) = (ns, c) # nsCounts cfg (i64 (m - c)) (ns' # rest)"
    by (simp only: nsCounts.simps Let_def c_def c0_def)
  ultimately show ?case using c unfolding i by (simp only: list.map snd_conv sum_list.Cons list.set) auto
qed auto

lemma make_nodes_names:
  "map sn_Name (make_nodes cfg i cs) = map node_name [i..<i + sum_list (map (nat \<circ> snd) cs)]"
proof (induction cfg i cs rule: make_nodes.induct)
  case (2 cfg i ns c rest)
  then show ?case
    using upt_add_eq_append [of i "i + nat c" "sum_list (map (nat \<circ> snd) rest)"]
    by (simp add: new_node_def comp_def add.assoc)
qed simp

lemma make_nodes_shape:
  "n \<in> set (make_nodes cfg i cs) \<Longrightarrow>
   \<exists>j ns. ns \<in> set (map fst cs) \<and> n = new_node (node_name j) ns (profile_for cfg ns) (sim_BaseInterval cfg)"
  by (induction cfg i cs rule: make_nodes.induct) auto

lemma make_nodes_namespaces:
  "map sn_Namespace (make_nodes cfg i cs) = concat (map (\<lambda>(ns, c). replicate (nat c) ns) cs)"
  by (induction cfg i cs rule: make_nodes.induct) (simp_all add: new_node_def comp_def map_replicate_const)

lemma sum_list_nat:
  "\<forall>p \<in> set cs. 0 \<le> snd p \<Longrightarrow> int (sum_list (map (nat \<circ> snd) cs)) = sum_list (map snd (cs :: (string \<times> int) list))"
  by (induction cs) auto

lemma sortedKeys_Nil: "sortedKeys m = [] \<longleftrightarrow> m = []"
  using go_insertion.sorter_mset [of "\<lambda>a b. a < b" "map fst m"]
  by (metis go_insertion.sorter_Nil list.map_disc_iff sortedKeys_def)

lemma validated_ratios:
  assumes "ValidateConfig cfg0 = Inr cfg"
    and "\<forall>(k, v) \<in> set (sim_NamespaceRatios cfg0). 0 \<le> v \<and> fl v = v"
  shows "0 \<le> ratio_of (sim_NamespaceRatios cfg) ns \<and> ratio_of (sim_NamespaceRatios cfg) ns \<le> 1"
proof -
  define m where "m = (if sim_NamespaceRatios cfg0 = []
    then [(''kube-system'', fl (2 / 10)), (''production'', fl (5 / 10)), (''staging'', fl (3 / 10))]
    else sim_NamespaceRatios cfg0)"
  have m: "\<forall>(k, v) \<in> set m. 0 \<le> v \<and> fl v = v" "sim_NamespaceRatios cfg = normalizeRatios m"
  proof -
    show "\<forall>(k, v) \<in> set m. 0 \<le> v \<and> fl v = v"
      using assms(2) by (cases "sim_NamespaceRatios cfg0 = []") (simp_all add: m_def fl_nonneg)
    show "sim_NamespaceRatios cfg = normalizeRatios m"
      using assms(1) unfolding ValidateConfig_def m_def by (auto split: if_split_asm)
  qed
  show ?thesis
  proof (cases "map_of (sim_NamespaceRatios cfg) ns")
    case (Some v)
    then have "(ns, v) \<in> set (normalizeRatios m)" using m(2) by (simp add: map_of_SomeD)
    from normalizeRatios_bounds [OF m(1) this] Some show ?thesis by (simp add: ratio_of_def)
  qed (simp add: ratio_of_def)
qed

lemma validated_shape:
  assumes "ValidateConfig cfg0 = Inr cfg"
  shows "sim_NodeCount cfg = sim_NodeCount cfg0" and "0 < sim_NodeCount cfg"
    and "0 < sim_Duration cfg" and "sim_Duration cfg \<le> maxSimulationDuration"
    and "sim_FileSegmentWindow cfg \<noteq> 0" and "sim_NamespaceRatios cfg \<noteq> []"
    and "sim_Scenarios cfg = sim_Scenarios cfg0"
proof -
  have v: "\<not> sim_NodeCount cfg0 \<le> 0" "\<not> sim_Duration cfg0 \<le> 0"
      "\<not> maxSimulationDuration < sim_Duration cfg0"
    using assms unfolding ValidateConfig_def by (metis Inl_Inr_False)+
  note cfg = assms [unfolded ValidateConfig_def, simplified v if_False sum.inject, symmetric]
  show "sim_NodeCount cfg = sim_NodeCount cfg0" "0 < sim_NodeCount cfg" "0 < sim_Duration cfg"
    "sim_Duration cfg \<le> maxSimulationDuration" "sim_Scenarios cfg = sim_Scenarios cfg0"
    using v by (simp_all add: cfg)
  show "sim_FileSegmentWindow cfg \<noteq> 0" "sim_NamespaceRatios cfg \<noteq> []"
    by (simp_all add: cfg defaultSegmentWindow_def Minute_def)
qed


text \<open>A padded number can be read back, so names with different numbers differ.\<close>

lemma parse_zeros: "parse_digits 0 (replicate k (CHR ''0'') @ s) = parse_digits 0 s"
  by (induction k) (auto simp: digit_val_def)

lemma pad_int_inj: "0 \<le> i \<Longrightarrow> 0 \<le> j \<Longrightarrow> pad_int w i = pad_int w j \<Longrightarrow> i = j"
proof -
  assume ij: "0 \<le> i" "0 \<le> j" and eq: "pad_int w i = pad_int w j"
  have "parse_digits 0 (pad_int w k) = Some (nat k)" if "0 \<le> k" for k
    using that by (simp add: pad_int_def Let_def parse_zeros)
  then have "nat i = nat j" using ij eq by (metis option.inject)
  then show ?thesis using ij by simp
qed

lemma node_name_inj [simp]: "node_name i = node_name j \<longleftrightarrow> i = j"
  using pad_int_inj [of "int i" "int j" 3] by (auto simp: node_name_def)

lemma pad_int_digits: "0 \<le> i \<Longrightarrow> c \<in> set (pad_int w i) \<Longrightarrow> \<exists>d < 10. c = digit_char d"
proof -
  assume i: "0 \<le> i" and c: "c \<in> set (pad_int w i)"
  then consider "c = CHR ''0''" | "c \<in> set (show_nat (nat i))"
    by (auto simp: pad_int_def Let_def split: if_splits)
  then show ?thesis
  proof cases
    case 1
    moreover have "CHR ''0'' = digit_char 0" by code_simp
    ultimately show ?thesis by (intro exI [of _ 0]) simp
  next
    case 2
    then show ?thesis by (rule show_nat_digits)
  qed
qed

lemma replacement_name_fresh [simp]: "node_name i \<noteq> replacement_name j" "replacement_name j \<noteq> node_name i"
proof -
  have "CHR ''r'' \<notin> set (pad_int 3 (int i))"
  proof
    assume "CHR ''r'' \<in> set (pad_int 3 (int i))"
    then obtain d where "d < 10" "CHR ''r'' = digit_char d"
      using pad_int_digits [of "int i" "CHR ''r''" 3] by auto
    then have "(of_char (CHR ''r'') :: nat) = 48 + d" using digit_char_code by metis
    then show False using \<open>d < 10\<close> by simp
  qed
  then show ne: "node_name i \<noteq> replacement_name j"
    by (auto simp: node_name_def replacement_name_def dest: arg_cong [where f = set])
  then show "replacement_name j \<noteq> node_name i" by simp
qed

lemma new_engine_names:
  assumes "NewSimulationEngine source t0 now cfg = Inr se"
    and "\<forall>(k, v) \<in> set (sim_NamespaceRatios cfg). 0 \<le> v \<and> fl v = v"
    and "sim_NodeCount cfg < 2 ^ 53"
  shows "map sn_Name (se_nodes se) = map node_name [0..<nat (sim_NodeCount cfg)]"
proof -
  obtain c where v: "ValidateConfig cfg = Inr c" and se: "se_nodes se = distributeNodes c"
    using assms(1) by (auto simp: NewSimulationEngine_def Let_def split: sum.splits)
  note sh = validated_shape [OF v]
  let ?cs = "nsCounts c (sim_NodeCount c) (sortedKeys (sim_NamespaceRatios c))"
  have "sum_list (map snd ?cs) = sim_NodeCount c \<and> (\<forall>p \<in> set ?cs. 0 \<le> snd p)"
    using sh assms(3) validated_ratios [OF v assms(2)]
    by (intro nsCounts_sum) (auto simp: sortedKeys_Nil i64_defs)
  then have "int (sum_list (map (nat \<circ> snd) ?cs)) = sim_NodeCount cfg"
    using sum_list_nat [of ?cs] sh(1) by simp
  then have len: "sum_list (map (nat \<circ> snd) ?cs) = nat (sim_NodeCount cfg)" by (metis nat_int)
  show ?thesis using make_nodes_names [of c 0 ?cs] unfolding len by (simp add: se distributeNodes_def)
qed

text \<open>The namespaces in order, and which they are.\<close>

lemma sortedKeys_sorted: "sorted (sortedKeys m)" and mset_sortedKeys: "mset (sortedKeys m) = mset (map fst m)"
  using sorted_insertion_loop [of "\<lambda>s. s" "[]" "map fst m"] mset_insertion_loop [of "\<lambda>a b. a < b" "[]" "map fst m"]
  by (simp_all add: sortedKeys_def insertion_sort_def)

lemma normalizeRatios_keys [simp]: "map fst (normalizeRatios m) = map fst m"
  by (simp add: normalizeRatios_def Let_def comp_def case_prod_unfold)

definition namespaces_of :: "SimulationConfig \<Rightarrow> string list" where
  "namespaces_of cfg = (if sim_NamespaceRatios cfg = [] then [''kube-system'', ''production'', ''staging'']
     else map fst (sim_NamespaceRatios cfg))"

lemma validated_namespaces:
  assumes "ValidateConfig cfg = Inr c" shows "map fst (sim_NamespaceRatios c) = namespaces_of cfg"
  using assms unfolding ValidateConfig_def by (auto simp: namespaces_of_def split: if_split_asm)

text \<open>C19: A new simulation has exactly the configured number of nodes, named by consecutive numbers,
  all ready and without history, whenever no configured ratio is negative.  They are grouped by namespace: one
  block, which may be empty, for each configured namespace, or for each of the three default ones when
  none is configured, and the blocks come in the lexicographic order of their names.
\<close>

theorem nodes_distributed:
  assumes "NewSimulationEngine source t0 now cfg = Inr se"
    and "\<forall>(k, v) \<in> set (sim_NamespaceRatios cfg). 0 \<le> v \<and> fl v = v"
    and "sim_NodeCount cfg < 2 ^ 53"
  shows "map sn_Name (se_nodes se) = map node_name [0..<nat (sim_NodeCount cfg)]
    \<and> distinct (map sn_Name (se_nodes se))
    \<and> (\<exists>cs. sorted (map fst cs) \<and> mset (map fst cs) = mset (namespaces_of cfg)
           \<and> sum_list (map snd cs) = nat (sim_NodeCount cfg)
           \<and> map sn_Namespace (se_nodes se) = concat (map (\<lambda>(ns, c). replicate c ns) cs))
    \<and> (\<forall>n \<in> set (se_nodes se).
          n = new_node (sn_Name n) (sn_Namespace n) (profile_for (se_config se) (sn_Namespace n))
                (sim_BaseInterval (se_config se)))"
proof -
  obtain c where v: "ValidateConfig cfg = Inr c" and se: "se_config se = c" "se_nodes se = distributeNodes c"
    using assms(1) by (auto simp: NewSimulationEngine_def Let_def split: sum.splits)
  let ?cs = "nsCounts c (sim_NodeCount c) (sortedKeys (sim_NamespaceRatios c))"
  note names = new_engine_names [OF assms]
  have "distinct (map node_name [0..<nat (sim_NodeCount cfg)])"
    by (simp add: distinct_map inj_on_def)
  with names have d: "distinct (map sn_Name (se_nodes se))" by simp
  have "map sn_Namespace (se_nodes se)
      = concat (map (\<lambda>(ns, k). replicate k ns) (map (\<lambda>(ns, k). (ns, nat k)) ?cs))"
    by (simp add: se distributeNodes_def make_nodes_namespaces comp_def case_prod_unfold)
  moreover have keys: "map fst (map (\<lambda>(ns, k). (ns, nat k)) ?cs) = sortedKeys (sim_NamespaceRatios c)"
    by (simp add: comp_def case_prod_unfold)
  moreover have "sum_list (map snd (map (\<lambda>(ns, k). (ns, nat k)) ?cs)) = nat (sim_NodeCount cfg)"
    using arg_cong [OF names, of length] arg_cong [OF make_nodes_names [of c 0 ?cs], of length]
    by (simp add: se distributeNodes_def comp_def case_prod_unfold)
  ultimately have g: "\<exists>cs. sorted (map fst cs) \<and> mset (map fst cs) = mset (namespaces_of cfg)
      \<and> sum_list (map snd cs) = nat (sim_NodeCount cfg)
      \<and> map sn_Namespace (se_nodes se) = concat (map (\<lambda>(ns, c). replicate c ns) cs)"
    by (intro exI [of _ "map (\<lambda>(ns, k). (ns, nat k)) ?cs"] conjI)
      (simp_all only: keys sortedKeys_sorted mset_sortedKeys validated_namespaces [OF v])
  have s: "\<forall>n \<in> set (se_nodes se).
      n = new_node (sn_Name n) (sn_Namespace n) (profile_for (se_config se) (sn_Namespace n))
            (sim_BaseInterval (se_config se))"
  proof
    fix n
    assume "n \<in> set (se_nodes se)"
    then obtain j ns where n: "n = new_node (node_name j) ns (profile_for c ns) (sim_BaseInterval c)"
      using make_nodes_shape unfolding se distributeNodes_def by blast
    show "n = new_node (sn_Name n) (sn_Namespace n) (profile_for (se_config se) (sn_Namespace n))
            (sim_BaseInterval (se_config se))"
      unfolding n se(1) by (simp add: new_node_def)
  qed
  show ?thesis using names d g s by (intro conjI)
qed

text \<open>A simulation of one node for one second, on a tape whose first draw is not an outage.\<close>

definition demo_config :: "ScenarioConfig list \<Rightarrow> SimulationConfig" where
  "demo_config scs =
    \<lparr>sim_NodeCount = 1, sim_Duration = Second, sim_BaseInterval = 0, sim_JitterStdDev = 0,
     sim_FileSegmentWindow = 0, sim_NamespaceRatios = [(''prod'', 1)],
     sim_NamespaceProfiles = [(''prod'', ProfileNormal)],
     sim_Scenarios = scs, sim_MaxDriftIncrease = 0, sim_Seed = 1\<rparr>"

definition demo_tape :: Rand where
  "demo_tape = \<lparr>raw = [2 ^ 62], normal = []\<rparr>"

definition demo_engine :: "ScenarioConfig list \<Rightarrow> SimulationEngine" where
  "demo_engine scs =
     (case NewSimulationEngine (\<lambda>_. demo_tape) 0 0 (demo_config scs) of Inr se \<Rightarrow> se)"

lemma demo_new: "NewSimulationEngine (\<lambda>_. demo_tape) 0 0 (demo_config scs) = Inr (demo_engine scs)"
  by (simp add: demo_engine_def NewSimulationEngine_def ValidateConfig_def demo_config_def
      maxSimulationDuration_def Hour_def Second_def Let_def)

theorem nodes_distributed_witness:
  "map sn_Name (se_nodes (demo_engine [])) = map node_name [0..<1] \<and> distinct (map sn_Name (se_nodes (demo_engine [])))"
  using nodes_distributed [OF demo_new [of "[]"]] by (simp add: demo_config_def)

end
