(* ===== verification/SimulationSteps.thy ===== *)
theory SimulationSteps
  imports SimulationDistribution
begin

text \<open>
  What a tick does, in lemmas: the loop over the nodes, the two kinds of step of a deployment and
  their closure, the outcomes of a health transition and of the lease pass, and the rule by which an
  invariant of the nodes carries over a run.
\<close>

section \<open>What a tick does\<close>

lemma each_node_Cons:
  "fst (each_node f (n # ns) r) = fst (f n r) # fst (each_node f ns (snd (f n r)))"
  by (simp split: prod.split)

lemma each_node_all:
  assumes "\<And>n r. n \<in> set ns \<Longrightarrow> Q (fst (f n r))"
  shows "\<forall>n \<in> set (fst (each_node f ns r)). Q n"
  using assms by (induction ns arbitrary: r) (auto simp: each_node_Cons simp del: each_node.simps(2))

lemma each_node_map:
  assumes "\<And>n r. g (fst (f n r)) = g n"
  shows "map g (fst (each_node f ns r)) = map g ns"
  using assms by (induction ns arbitrary: r) (auto simp: each_node_Cons simp del: each_node.simps(2))

lemma each_node_fixed:
  assumes "\<And>r. fst (f n r) = n" and "n \<in> set ns"
  shows "n \<in> set (fst (each_node f ns r))"
  using assms(2)
  by (induction ns arbitrary: r) (auto simp: each_node_Cons assms(1) simp del: each_node.simps(2))

lemma update_nodes_nodes: "se_nodes (update_nodes f se) = fst (each_node f (se_nodes se) (se_rng se))"
  by (simp add: update_nodes_def split: prod.split)

lemma update_nodes_frame [simp]:
  "se_config (update_nodes f se) = se_config se"
  "se_clock (update_nodes f se) = se_clock se"
  "se_startTime (update_nodes f se) = se_startTime se"
  "se_activeScenarios (update_nodes f se) = se_activeScenarios se"
  "se_nextNodeID (update_nodes f se) = se_nextNodeID se"
  by (simp_all add: update_nodes_def split: prod.split)

lemma change_first_Some:
  "change_first P f xs = Some (x, ys) \<Longrightarrow>
   \<exists>us vs. xs = us @ x # vs \<and> ys = us @ f x # vs \<and> P x \<and> (\<forall>u \<in> set us. \<not> P u)"
proof (induction xs arbitrary: ys)
  case (Cons a xs)
  show ?case
  proof (cases "P a")
    case True
    then have "a # xs = [] @ x # xs \<and> ys = [] @ f x # xs \<and> P x \<and> (\<forall>u \<in> set []. \<not> P u)"
      using Cons.prems by auto
    then show ?thesis by blast
  next
    case False
    then obtain zs where zs: "change_first P f xs = Some (x, zs)" "ys = a # zs"
      using Cons.prems by auto
    from Cons.IH [OF zs(1)] obtain us vs where
      "xs = us @ x # vs" "zs = us @ f x # vs" "P x" "\<forall>u \<in> set us. \<not> P u" by blast
    then have "a # xs = (a # us) @ x # vs \<and> ys = (a # us) @ f x # vs \<and> P x
        \<and> (\<forall>u \<in> set (a # us). \<not> P u)" using zs(2) False by simp
    then show ?thesis by blast
  qed
qed simp

lemma change_first_None: "change_first P f xs = None \<longleftrightarrow> (\<forall>x \<in> set xs. \<not> P x)"
  by (induction xs) auto

text \<open>
  Every change that a deployment makes is one of two steps: a ready node is drained, or a drained
  node whose time has come is replaced.  A property of the engine that both steps keep is kept by
  the whole pass.
\<close>

inductive scenario_change :: "Duration \<Rightarrow> SimulationEngine \<Rightarrow> SimulationEngine \<Rightarrow> bool"
  for elapsed :: Duration where
  drained: "scenario_due elapsed k se
    \<Longrightarrow> sc_Type (as_config (se_activeScenarios se ! k)) = ''rolling_deployment''
    \<Longrightarrow> se_nodes se = us @ node # vs \<Longrightarrow> drainable se node
    \<Longrightarrow> (\<forall>u \<in> set us. \<not> drainable se u)
    \<Longrightarrow> scenario_change elapsed se (se\<lparr>se_nodes := us @ drain_node se node # vs,
          se_activeScenarios := (se_activeScenarios se)
            [k := record_drain se (sn_Name node) (se_activeScenarios se ! k)]\<rparr>)"
| replaced: "k < length (se_activeScenarios se)
    \<Longrightarrow> sc_Type (as_config (se_activeScenarios se ! k)) = ''rolling_deployment''
    \<Longrightarrow> i < length (as_drainedNodes (se_activeScenarios se ! k))
    \<Longrightarrow> \<not> di_replaced (as_drainedNodes (se_activeScenarios se ! k) ! i)
    \<Longrightarrow> di_replacementAt (as_drainedNodes (se_activeScenarios se ! k) ! i) \<le> se_clock se
    \<Longrightarrow> scenario_change elapsed se (replace_one k se i)"

abbreviation scenario_changes :: "Duration \<Rightarrow> SimulationEngine \<Rightarrow> SimulationEngine \<Rightarrow> bool" where
  "scenario_changes elapsed \<equiv> rtranclp (scenario_change elapsed)"

lemma drain_one_change:
  assumes "scenario_due elapsed k se"
    and "sc_Type (as_config (se_activeScenarios se ! k)) = ''rolling_deployment''"
    and "drain_one k se = Some se'"
  shows "scenario_change elapsed se se'"
proof -
  obtain node nodes where c: "change_first (drainable se) (drain_node se) (se_nodes se) = Some (node, nodes)"
    and se': "se' = se\<lparr>se_nodes := nodes, se_activeScenarios := (se_activeScenarios se)
        [k := record_drain se (sn_Name node) (se_activeScenarios se ! k)]\<rparr>"
    using assms(3) by (auto simp: drain_one_def split: option.splits)
  from change_first_Some [OF c] obtain us vs where
    n: "se_nodes se = us @ node # vs" "nodes = us @ drain_node se node # vs"
       "drainable se node" "\<forall>u \<in> set us. \<not> drainable se u" by blast
  show ?thesis unfolding se' n(2) by (rule drained [OF assms(1,2) n(1,3,4)])
qed

text \<open>A deployment keeps the configuration of every scenario.\<close>

lemma record_drain_config [simp]: "as_config (record_drain se name sc) = as_config sc"
  by (simp add: record_drain_def Let_def)

lemma replace_one_frame [simp]:
  "se_config (replace_one k se i) = se_config se"
  "se_clock (replace_one k se i) = se_clock se"
  "se_startTime (replace_one k se i) = se_startTime se"
  "length (se_activeScenarios (replace_one k se i)) = length (se_activeScenarios se)"
  by (simp_all add: replace_one_def Let_def split: prod.split)

lemma update_keeps: "g y = g (xs ! k) \<Longrightarrow> g (xs[k := y] ! j) = g (xs ! j)"
  by (cases "j = k"; cases "k < length xs") (simp_all add: list_update_beyond)

lemma replace_one_config [simp]:
  "as_config (se_activeScenarios (replace_one k se i) ! j) = as_config (se_activeScenarios se ! j)"
  by (auto simp: replace_one_def Let_def update_keeps [where g = as_config] split: prod.split)

lemma replace_one_count [simp]:
  "length (as_drainedNodes (se_activeScenarios (replace_one k se i) ! j)) =
   length (as_drainedNodes (se_activeScenarios se ! j))"
  by (auto simp: replace_one_def Let_def update_keeps [where g = "\<lambda>sc. length (as_drainedNodes sc)"]
      split: prod.split)

lemma scenario_change_frame:
  assumes "scenario_change elapsed se se'"
  shows "se_config se' = se_config se \<and> se_clock se' = se_clock se \<and> se_startTime se' = se_startTime se
    \<and> map as_config (se_activeScenarios se') = map as_config (se_activeScenarios se)"
  using assms
proof cases
  case (drained k us node vs)
  then show ?thesis by (simp add: map_update scenario_due_def list_update_same_conv)
next
  case (replaced k i)
  then show ?thesis by (auto intro!: nth_equalityI)
qed

lemma scenario_changes_frame:
  "scenario_changes elapsed se se' \<Longrightarrow>
   se_config se' = se_config se \<and> se_clock se' = se_clock se \<and> se_startTime se' = se_startTime se
   \<and> map as_config (se_activeScenarios se') = map as_config (se_activeScenarios se)"
  by (induction rule: rtranclp_induct) (use scenario_change_frame in fastforce)+

lemma scenario_config_nth:
  "map as_config (se_activeScenarios se') = map as_config (se_activeScenarios se) \<Longrightarrow>
   k < length (se_activeScenarios se) \<Longrightarrow>
   as_config (se_activeScenarios se' ! k) = as_config (se_activeScenarios se ! k)"
  by (metis length_map nth_map)

lemma drain_loop_changes:
  "sc_Type (as_config (se_activeScenarios se ! k)) = ''rolling_deployment'' \<Longrightarrow>
   scenario_changes elapsed se (drain_loop elapsed k se)"
proof (induction elapsed k se rule: drain_loop.induct)
  case (1 elapsed k se)
  show ?case
  proof (cases "scenario_due elapsed k se \<and> drain_one k se \<noteq> None")
    case True
    then obtain se' where d: "scenario_due elapsed k se" "drain_one k se = Some se'" by auto
    have ch: "scenario_change elapsed se se'" using d 1 by (intro drain_one_change)
    have "as_config (se_activeScenarios se' ! k) = as_config (se_activeScenarios se ! k)"
      using scenario_change_frame [OF ch] d(1) by (intro scenario_config_nth) (auto simp: scenario_due_def)
    then have "scenario_changes elapsed se' (drain_loop elapsed k se')"
      using 1 d by simp
    with ch show ?thesis using d
      by (simp add: drain_loop.simps [of elapsed k se] converse_rtranclp_into_rtranclp)
  next
    case False
    then show ?thesis by (auto simp: drain_loop.simps [of elapsed k se] split: option.split)
  qed
qed

lemma replace_one_changes:
  assumes "k < length (se_activeScenarios se)"
    and "sc_Type (as_config (se_activeScenarios se ! k)) = ''rolling_deployment''"
    and "i < length (as_drainedNodes (se_activeScenarios se ! k))"
  shows "scenario_changes elapsed se (replace_one k se i)"
proof (cases "di_replaced (as_drainedNodes (se_activeScenarios se ! k) ! i)
              \<or> se_clock se < di_replacementAt (as_drainedNodes (se_activeScenarios se ! k) ! i)")
  case True
  then have "replace_one k se i = se" by (auto simp: replace_one_def Before_def Let_def)
  then show ?thesis by simp
next
  case False
  then have "scenario_change elapsed se (replace_one k se i)"
    using assms by (intro replaced) auto
  then show ?thesis by (rule r_into_rtranclp)
qed

lemma replace_all_changes:
  assumes "k < length (se_activeScenarios se)"
    and "sc_Type (as_config (se_activeScenarios se ! k)) = ''rolling_deployment''"
    and "\<forall>i \<in> set is. i < length (as_drainedNodes (se_activeScenarios se ! k))"
  shows "scenario_changes elapsed se (foldl (replace_one k) se is)"
  using assms
proof (induction "is" arbitrary: se)
  case (Cons i "is")
  have "scenario_changes elapsed se (replace_one k se i)"
    using Cons.prems by (intro replace_one_changes) auto
  moreover have "scenario_changes elapsed (replace_one k se i) (foldl (replace_one k) (replace_one k se i) is)"
    using Cons.prems by (intro Cons.IH) auto
  ultimately show ?case by simp
qed simp

lemma scenario_step_changes:
  assumes k: "k < length (se_activeScenarios se)"
  shows "scenario_changes elapsed se (scenario_step elapsed se k)"
proof (cases "sc_Type (as_config (se_activeScenarios se ! k)) = ''rolling_deployment''")
  case True
  let ?se1 = "drain_loop elapsed k se"
  have d: "scenario_changes elapsed se ?se1" using True by (rule drain_loop_changes)
  note f = scenario_changes_frame [OF d]
  have l: "k < length (se_activeScenarios ?se1)" using k f by (metis length_map)
  have "as_config (se_activeScenarios ?se1 ! k) = as_config (se_activeScenarios se ! k)"
    using f k by (intro scenario_config_nth) auto
  with True l have "scenario_changes elapsed ?se1 (foldl (replace_one k) ?se1
      [0..<length (as_drainedNodes (se_activeScenarios ?se1 ! k))])"
    by (intro replace_all_changes) auto
  with d show ?thesis using True by (simp add: scenario_step_def Let_def)
qed (simp add: scenario_step_def)

lemma applyScenarios_changes: "scenario_changes elapsed se (applyScenarios elapsed se)"
proof -
  have "scenario_changes elapsed se (foldl (scenario_step elapsed) se ks)"
    if "\<forall>k \<in> set ks. k < length (se_activeScenarios se)" for ks
    using that
  proof (induction ks arbitrary: se)
    case (Cons k ks)
    have s: "scenario_changes elapsed se (scenario_step elapsed se k)"
      using Cons.prems by (intro scenario_step_changes) simp
    have "length (se_activeScenarios (scenario_step elapsed se k)) = length (se_activeScenarios se)"
      using scenario_changes_frame [OF s] by (metis length_map)
    with Cons s show ?case by (metis foldl_Cons list.set_intros(2) rtranclp_trans)
  qed simp
  then show ?thesis by (simp add: applyScenarios_def)
qed

section \<open>Invariants of the nodes\<close>

lemma scenario_changes_nodes:
  assumes "scenario_changes elapsed se se'" and "\<forall>n \<in> set (se_nodes se). Q n"
    and D: "\<And>n s. Q n \<Longrightarrow> sn_Status n = ''Ready'' \<Longrightarrow> se_clock s = se_clock se \<Longrightarrow> Q (drain_node s n)"
    and R: "\<And>s d. se_clock s = se_clock se \<Longrightarrow> Q (fst (replacement_node s d))"
  shows "\<forall>n \<in> set (se_nodes se'). Q n"
  using assms(1)
proof (induction rule: rtranclp_induct)
  case base
  then show ?case by (rule assms(2))
next
  case (step s s')
  have clk: "se_clock s = se_clock se" using scenario_changes_frame [OF step.hyps(1)] by simp
  from step.hyps(2) show ?case
  proof cases
    case (drained k us node vs)
    then have "Q (drain_node s node)"
      using step.IH clk by (intro D) (auto simp: drainable_def)
    then show ?thesis using step.IH drained by auto
  next
    case (replaced k i)
    then show ?thesis using step.IH R [OF clk]
      by (auto simp: replace_one_def Let_def split: prod.split) (metis fst_conv)+
  qed
qed

lemma tick_nodes:
  assumes H: "\<And>n r. n \<in> set (se_nodes se) \<Longrightarrow> Q (fst (health_step (se_clock se) n r))"
    and D: "\<And>n s. Q n \<Longrightarrow> sn_Status n = ''Ready'' \<Longrightarrow> se_clock s = se_clock se \<Longrightarrow> Q (drain_node s n)"
    and R: "\<And>s d. se_clock s = se_clock se \<Longrightarrow> Q (fst (replacement_node s d))"
    and L: "\<And>n r. Q n \<Longrightarrow> P (fst (generateLeaseForNode (se_config se) (se_clock se) elapsed n r))"
  shows "\<forall>n \<in> set (se_nodes (tick elapsed se)). P n"
proof -
  let ?h = "applyHealthTransitions se" and ?a = "applyScenarios elapsed (applyHealthTransitions se)"
  have h: "\<forall>n \<in> set (se_nodes ?h). Q n"
    unfolding applyHealthTransitions_def update_nodes_nodes by (rule each_node_all) (rule H)
  have hc: "se_clock ?h = se_clock se" "se_config ?h = se_config se"
    by (simp_all add: applyHealthTransitions_def)
  have a: "\<forall>n \<in> set (se_nodes ?a). Q n"
    using D R hc(1) by (intro scenario_changes_nodes [OF applyScenarios_changes h]) auto
  have "se_clock ?a = se_clock se" "se_config ?a = se_config se"
    using scenario_changes_frame [OF applyScenarios_changes [of elapsed ?h]] hc by simp_all
  then show ?thesis
    unfolding tick_def lease_pass_def update_nodes_nodes by (intro each_node_all) (simp add: L a)
qed

lemma tick_frame [simp]:
  "se_config (tick elapsed se) = se_config se" "se_clock (tick elapsed se) = se_clock se"
  "se_startTime (tick elapsed se) = se_startTime se"
  using scenario_changes_frame [OF applyScenarios_changes [of elapsed "applyHealthTransitions se"]]
  by (simp_all add: tick_def lease_pass_def applyHealthTransitions_def)

lemma run_ticks_0: "run_ticks 0 se = se\<lparr>se_startTime := se_clock se\<rparr>"
  by (simp add: run_ticks_def)

lemma run_ticks_Suc: "run_ticks (Suc n) se = tick_at (se_clock se) (run_ticks n se) n"
  by (simp add: run_ticks_def Let_def)

lemma run_ticks_config [simp]: "se_config (run_ticks n se) = se_config se"
  by (induction n) (simp_all add: run_ticks_0 run_ticks_Suc tick_at_def Let_def)

lemma run_ticks_start [simp]: "se_startTime (run_ticks n se) = se_clock se"
  by (induction n) (simp_all add: run_ticks_0 run_ticks_Suc tick_at_def Let_def)

lemma elapsed_exact: "int i * 10 ^ 9 \<le> i64_max \<Longrightarrow> dur_mul (int i) Second = int i * 10 ^ 9"
  by (simp add: dur_mul_def Second_def i64_defs)

text \<open>
  An invariant of the nodes that may speak of the clock: \<open>P i\<close> holds after the passes before the
  i-th, \<open>Q i\<close> within the i-th, once the health transitions are made.
\<close>

lemma run_ticks_nodes:
  assumes I: "\<forall>n \<in> set (se_nodes se). P 0 n"
    and H: "\<And>i n r clk. P i n \<Longrightarrow> clk = time_Add (se_clock se) (dur_mul (int i) Second) \<Longrightarrow> i < m
        \<Longrightarrow> Q i (fst (health_step clk n r))"
    and D: "\<And>i n s. Q i n \<Longrightarrow> sn_Status n = ''Ready'' \<Longrightarrow> Q i (drain_node s n)"
    and R: "\<And>i s d. se_clock s = time_Add (se_clock se) (dur_mul (int i) Second) \<Longrightarrow> i < m
        \<Longrightarrow> Q i (fst (replacement_node s d))"
    and L: "\<And>i n r elapsed clk cfg. Q i n \<Longrightarrow> clk = time_Add (se_clock se) (dur_mul (int i) Second)
        \<Longrightarrow> i < m \<Longrightarrow> P (Suc i) (fst (generateLeaseForNode cfg clk elapsed n r))"
  shows "i \<le> m \<Longrightarrow> \<forall>n \<in> set (se_nodes (run_ticks i se)). P i n"
proof (induction i)
  case 0
  then show ?case using I by (simp add: run_ticks_0)
next
  case (Suc i)
  then have ih: "\<forall>n \<in> set (se_nodes (run_ticks i se)). P i n" and "i < m" by auto
  then show ?case unfolding run_ticks_Suc tick_at_def Let_def
    by (intro tick_nodes [where Q = "Q i"]) (auto intro: H D R L)
qed


section \<open>Leases and transitions\<close>

text \<open>Recording a kernel event changes nothing else of the node.\<close>

lemma append_event_frame [simp]:
  "sn_Name (fst (append_event c s ts n r)) = sn_Name n"
  "sn_Namespace (fst (append_event c s ts n r)) = sn_Namespace n"
  "sn_Profile (fst (append_event c s ts n r)) = sn_Profile n"
  "sn_Status (fst (append_event c s ts n r)) = sn_Status n"
  "sn_NotReadyCause (fst (append_event c s ts n r)) = sn_NotReadyCause n"
  "sn_NotReadyUntil (fst (append_event c s ts n r)) = sn_NotReadyUntil n"
  "sn_LastLeaseTime (fst (append_event c s ts n r)) = sn_LastLeaseTime n"
  "sn_LeaseHistory (fst (append_event c s ts n r)) = sn_LeaseHistory n"
  "sn_TransitionHistory (fst (append_event c s ts n r)) = sn_TransitionHistory n"
  by (simp_all add: append_event_def split: prod.split)

lemma background_frame [simp]:
  "sn_Name (fst (generateBackgroundEbpf n ts r)) = sn_Name n"
  "sn_Namespace (fst (generateBackgroundEbpf n ts r)) = sn_Namespace n"
  "sn_Profile (fst (generateBackgroundEbpf n ts r)) = sn_Profile n"
  "sn_Status (fst (generateBackgroundEbpf n ts r)) = sn_Status n"
  "sn_NotReadyCause (fst (generateBackgroundEbpf n ts r)) = sn_NotReadyCause n"
  "sn_NotReadyUntil (fst (generateBackgroundEbpf n ts r)) = sn_NotReadyUntil n"
  "sn_LastLeaseTime (fst (generateBackgroundEbpf n ts r)) = sn_LastLeaseTime n"
  "sn_LeaseHistory (fst (generateBackgroundEbpf n ts r)) = sn_LeaseHistory n"
  "sn_TransitionHistory (fst (generateBackgroundEbpf n ts r)) = sn_TransitionHistory n"
  by (simp_all add: generateBackgroundEbpf_def)

lemma correlated_frame [simp]:
  "sn_Name (fst (generateCorrelatedEbpf clk n c r)) = sn_Name n"
  "sn_Namespace (fst (generateCorrelatedEbpf clk n c r)) = sn_Namespace n"
  "sn_Profile (fst (generateCorrelatedEbpf clk n c r)) = sn_Profile n"
  "sn_Status (fst (generateCorrelatedEbpf clk n c r)) = sn_Status n"
  "sn_NotReadyCause (fst (generateCorrelatedEbpf clk n c r)) = sn_NotReadyCause n"
  "sn_NotReadyUntil (fst (generateCorrelatedEbpf clk n c r)) = sn_NotReadyUntil n"
  "sn_LastLeaseTime (fst (generateCorrelatedEbpf clk n c r)) = sn_LastLeaseTime n"
  "sn_LeaseHistory (fst (generateCorrelatedEbpf clk n c r)) = sn_LeaseHistory n"
  "sn_TransitionHistory (fst (generateCorrelatedEbpf clk n c r)) = sn_TransitionHistory n"
  by (simp_all add: generateCorrelatedEbpf_def Let_def split: prod.split NotReadyCause.split)

text \<open>The four outcomes of a health transition, as far as they change the node.\<close>

lemma health_step_cases:
  obtains (same) "fst (health_step clk n r) = n"
  | (recover) "sn_Status n = ''NotReady''" and "sn_NotReadyCause n \<noteq> CauseDrain"
      and "sn_NotReadyUntil n \<le> clk"
      and "fst (health_step clk n r) = n\<lparr>sn_Status := ''Ready'', sn_NotReadyCause := NoCause\<rparr>"
  | (fail) r1 where "sn_Status n \<noteq> ''NotReady''" and "sn_Profile n \<noteq> ProfileStable"
      and "fst (health_step clk n r) = fst (go_not_ready clk n r1)"
proof -
  obtain x r1 where x: "rand_Float64 r = (x, r1)" by force
  show thesis
  proof (cases "sn_Status n = ''NotReady''")
    case True
    then show thesis
      by (cases "sn_NotReadyCause n = CauseDrain"; cases "clk < sn_NotReadyUntil n")
         (auto simp: health_step_def Before_def intro: same recover)
  next
    case False
    then show thesis
      by (cases "sn_Profile n = ProfileStable"; cases "x < notReadyProbabilityPerTick (sn_Profile n)")
         (auto simp: health_step_def x intro: same fail)
  qed
qed

lemma go_not_ready_spec:
  obtains cause d r1 where "cause \<in> set allCauses" and "5 * Second \<le> d" and "d \<le> 120 * Second"
    and "go_not_ready clk n r = generateCorrelatedEbpf clk
          (n\<lparr>sn_Status := ''NotReady'', sn_NotReadyCause := cause,
             sn_NotReadyUntil := time_Add clk d,
             sn_TransitionHistory := sn_TransitionHistory n @
               [\<lparr>nt_Timestamp = clk, nt_Cause = cause, nt_Duration = d\<rparr>]\<rparr>) cause r1"
proof -
  obtain c r1 where c: "Intn (int (length allCauses)) r = (c, r1)" by force
  obtain d r2 where d: "Intn 116 r1 = (d, r2)" by force
  have "allCauses ! nat c \<in> set allCauses"
    using go_rand.intn_index [of allCauses r] c by (simp add: allCauses_def)
  moreover have "0 \<le> d \<and> d < 116" using go_rand.intn_range [of 116 r1] d by simp
  then have "dur_mul (5 + d) Second = (5 + d) * Second" and "5 * Second \<le> (5 + d) * Second"
    and "(5 + d) * Second \<le> 120 * Second"
    by (auto simp: dur_mul_def Second_def i64_defs)
  ultimately show thesis
    by (intro that [of "allCauses ! nat c" "(5 + d) * Second" r2])
       (simp_all add: go_not_ready_def c d Let_def)
qed

text \<open>The two outcomes of the lease pass.\<close>

lemma lease_cases:
  obtains (same) "fst (generateLeaseForNode cfg clk elapsed n r) = n"
  | (drift) d where "sn_Status n \<noteq> ''NotReady''"
      and "fst (generateLeaseForNode cfg clk elapsed n r) = n\<lparr>sn_CurrentDrift := d\<rparr>"
  | (lease) d r1 where "sn_Status n \<noteq> ''NotReady''"
      and "sn_LastLeaseTime n = zero_time \<or> sn_LastLeaseTime n + Second \<le> clk"
      and "fst (generateLeaseForNode cfg clk elapsed n r) =
           fst (generateBackgroundEbpf (append_lease clk (n\<lparr>sn_CurrentDrift := d\<rparr>)) clk r1)"
proof (cases "sn_Status n = ''NotReady''")
  case True
  then show thesis by (intro same) (simp add: generateLeaseForNode_def)
next
  case False
  obtain d where d: "drift_at cfg elapsed n = n\<lparr>sn_CurrentDrift := d\<rparr>"
  proof (cases "drift_at cfg elapsed n = n")
    case True
    then show thesis using that [of "sn_CurrentDrift n"] by simp
  next
    case False
    then show thesis using that by (auto simp: drift_at_def Let_def split: if_splits)
  qed
  obtain z r1 where z: "NormFloat64 r = (z, r1)" by force
  let ?n = "n\<lparr>sn_CurrentDrift := d\<rparr>"
  let ?i = "next_interval cfg ?n z"
  have i: "Second \<le> ?i" by (simp add: next_interval_def Let_def)
  show thesis
  proof (cases "sn_LastLeaseTime n = zero_time \<or> ?i \<le> time_Sub clk (sn_LastLeaseTime n)")
    case True
    then have "sn_LastLeaseTime n = zero_time \<or> sn_LastLeaseTime n + Second \<le> clk"
      using i by (auto simp: time_Sub_def i64_defs Second_def)
    moreover have "fst (generateLeaseForNode cfg clk elapsed n r) =
        fst (generateBackgroundEbpf (append_lease clk ?n) clk r1)"
      using True False by (auto simp: generateLeaseForNode_def d z Let_def)
    ultimately show thesis using False by (intro lease)
  next
    case no: False
    then have "fst (generateLeaseForNode cfg clk elapsed n r) = ?n"
      using False by (auto simp: generateLeaseForNode_def d z Let_def)
    then show thesis using False by (intro drift)
  qed
qed


text \<open>The burst of a replacement: three leases, at the start and about a third of the window apart.\<close>

lemma trunc_between: "of_int a \<le> x \<Longrightarrow> x \<le> of_int b \<Longrightarrow> 0 \<le> a \<Longrightarrow> a \<le> trunc x \<and> trunc x \<le> b"
  by (auto simp: trunc_def le_floor_iff floor_le_iff)

lemma burst_offset_between:
  assumes "of_int a \<le> of_nat i * (5 * 10 ^ 9 :: rat) / 3" and "of_nat i * (5 * 10 ^ 9 :: rat) / 3 \<le> of_int b"
    and "0 \<le> a" and "b < 2 ^ 53" and "i < 3"
  shows "a \<le> burst_offset (5 * Second) 3 i \<and> burst_offset (5 * Second) 3 i \<le> b"
proof -
  have w: "f64_of_i64 (5 * Second) = 5 * 10 ^ 9"
    using fl_of_int [of "5 * 10 ^ 9"] by (simp add: f64_of_i64_def Second_def)
  have i: "fl (of_nat i) = of_nat i" using assms(5) by (intro fl_of_nat) simp
  have m: "fl (5000000000 * of_nat i) = 5000000000 * of_nat i"
    using fl_of_int [of "5 * 10 ^ 9 * int i"] assms(5) by simp
  have n: "fl 3 = 3" by (simp add: fl_numeral)
  let ?x = "5 * 10 ^ 9 * of_nat i / (3 :: rat)"
  have "a \<le> b" using assms(1,2) by (metis dual_order.trans of_int_le_iff)
  then have ab: "\<bar>a\<bar> < 2 ^ 53" "\<bar>b\<bar> < 2 ^ 53" using assms(3,4) by auto
  have "fl (of_int a) \<le> fl ?x" "fl ?x \<le> fl (of_int b)"
    using assms(1,2) by (auto intro!: fl_mono simp: mult.commute)
  then have "of_int a \<le> fl ?x" "fl ?x \<le> of_int b" using ab by (simp_all add: fl_of_int)
  then have t: "a \<le> trunc (fl ?x) \<and> trunc (fl ?x) \<le> b" using assms(3) by (intro trunc_between)
  then have "is_i64 (trunc (fl ?x))" using assms(3,4) by (auto simp: i64_defs)
  then show ?thesis using t unfolding burst_offset_def i64_of_f64_def w i Let_def by (simp add: m n)
qed

lemma burst_offsets:
  "1666666666 \<le> burst_offset (5 * Second) 3 1" "burst_offset (5 * Second) 3 1 \<le> 1666666667"
  "3333333333 \<le> burst_offset (5 * Second) 3 2" "burst_offset (5 * Second) 3 2 \<le> 3333333334"
  using burst_offset_between [of 1666666666 1 1666666667] burst_offset_between [of 3333333333 2 3333333334]
  by simp_all

text \<open>What a replacement node is, up to the values drawn for its events.\<close>

lemma replacement_node_spec:
  obtains ns r1 r2 r3 r4 o1 o2 off where
    "o1 = burst_offset (5 * Second) 3 1" and "o2 = burst_offset (5 * Second) 3 2"
    and "0 \<le> off" and "off \<le> 1000"
    and "fst (replacement_node s d) =
      fst (append_event ''kubelet'' ''fork'' (se_clock s + off * Millisecond)
       (fst (generateBackgroundEbpf (append_lease (se_clock s + o2)
        (fst (generateBackgroundEbpf (append_lease (se_clock s + o1)
         (fst (generateBackgroundEbpf (append_lease (se_clock s)
           (new_node (replacement_name (se_nextNodeID s)) ns ProfileNormal
              (sim_BaseInterval (se_config s))))
          (se_clock s) r1)))
         (se_clock s + o1) r2)))
        (se_clock s + o2) r3))
       r4)"
proof -
  let ?n0 = "new_node (replacement_name (se_nextNodeID s)) (namespace_of (se_nodes s) d) ProfileNormal
              (sim_BaseInterval (se_config s))"
  let ?o1 = "burst_offset (5 * Second) 3 1" and ?o2 = "burst_offset (5 * Second) 3 2"
  obtain n1 r1 where 1: "generateBackgroundEbpf (append_lease (se_clock s) ?n0) (se_clock s) (se_rng s) = (n1, r1)"
    by force
  obtain n2 r2 where 2: "generateBackgroundEbpf (append_lease (se_clock s + ?o1) n1) (se_clock s + ?o1) r1 = (n2, r2)"
    by force
  obtain n3 r3 where 3: "generateBackgroundEbpf (append_lease (se_clock s + ?o2) n2) (se_clock s + ?o2) r2 = (n3, r3)"
    by force
  obtain off r4 where 4: "Intn 1001 r3 = (off, r4)" by force
  have u: "[0..<3] = [0, 1, 2::nat]" by (simp add: upt_rec)
  have off: "0 \<le> off" "off \<le> 1000" using go_rand.intn_range [of 1001 r3] 4 by auto
  have eq: "fst (replacement_node s d) = fst (append_event ''kubelet'' ''fork'' (se_clock s + off * Millisecond) n3 r4)"
    using 1 2 3 4 by (simp add: replacement_node_def generateBurstLeases_def u time_Add_def
        generateReplacementForkEbpf_def)
  show thesis
    using eq that [OF refl refl off] unfolding 3 [THEN arg_cong [where f = fst], unfolded fst_conv, symmetric]
      2 [THEN arg_cong [where f = fst], unfolded fst_conv, symmetric]
      1 [THEN arg_cong [where f = fst], unfolded fst_conv, symmetric] by blast
qed


definition spaced :: "LeaseEvent list \<Rightarrow> bool" where
  "spaced ls \<longleftrightarrow> sorted_wrt (\<lambda>a b. le_Timestamp a + Second \<le> le_Timestamp b) ls"

definition transition_ok :: "NotReadyTransition \<Rightarrow> bool" where
  "transition_ok tr \<longleftrightarrow>
     nt_Cause tr \<in> set allCauses \<and> 5 * Second \<le> nt_Duration tr \<and> nt_Duration tr \<le> 120 * Second"

definition history_ok :: "SimNode \<Rightarrow> bool" where
  "history_ok n \<longleftrightarrow>
     spaced (sn_LeaseHistory n) \<and>
     (sn_LeaseHistory n \<noteq> [] \<longrightarrow>
        sn_LastLeaseTime n = le_Timestamp (last (sn_LeaseHistory n)) \<and> zero_time < sn_LastLeaseTime n) \<and>
     (\<forall>tr \<in> set (sn_TransitionHistory n). transition_ok tr) \<and>
     (sn_Profile n = ProfileStable \<longrightarrow> sn_TransitionHistory n = [])"

lemma spaced_snoc:
  assumes "spaced ls" and "ls \<noteq> [] \<Longrightarrow> le_Timestamp (last ls) + Second \<le> le_Timestamp l"
  shows "spaced (ls @ [l])"
proof -
  have "\<forall>a \<in> set ls. le_Timestamp a + Second \<le> le_Timestamp l"
  proof (cases ls rule: rev_cases)
    case (snoc as z)
    then have "le_Timestamp z + Second \<le> le_Timestamp l" using assms(2) by simp
    moreover have "\<forall>a \<in> set as. le_Timestamp a + Second \<le> le_Timestamp z"
      using assms(1) snoc by (simp add: spaced_def sorted_wrt_append)
    ultimately show ?thesis using snoc by (auto simp: Second_def)
  qed simp
  then show ?thesis using assms(1) by (simp add: spaced_def sorted_wrt_append)
qed

lemma history_ok_frame:
  assumes "history_ok n"
    and "sn_LeaseHistory m = sn_LeaseHistory n" and "sn_LastLeaseTime m = sn_LastLeaseTime n"
    and "sn_TransitionHistory m = sn_TransitionHistory n" and "sn_Profile m = sn_Profile n"
  shows "history_ok m"
  using assms(1) unfolding history_ok_def assms(2-5) .

lemma history_ok_lease:
  assumes "history_ok n" and "zero_time < ts"
    and "sn_LastLeaseTime n = zero_time \<or> sn_LastLeaseTime n + Second \<le> ts"
  shows "history_ok (append_lease ts n)"
  using assms by (auto simp: history_ok_def append_lease_def intro!: spaced_snoc)

lemma history_ok_health: "history_ok n \<Longrightarrow> history_ok (fst (health_step clk n r))"
proof -
  assume ok: "history_ok n"
  show ?thesis
  proof (rule health_step_cases [of clk n r])
    fix r1
    assume f: "sn_Profile n \<noteq> ProfileStable" "fst (health_step clk n r) = fst (go_not_ready clk n r1)"
    show ?thesis
      using ok f by (rule_tac go_not_ready_spec [of clk n r1]) (auto simp: history_ok_def transition_ok_def)
  qed (use ok in \<open>auto intro: history_ok_frame\<close>)
qed

lemma history_ok_generateLease:
  assumes "history_ok n" and "zero_time < clk"
  shows "history_ok (fst (generateLeaseForNode cfg clk elapsed n r))"
proof (rule lease_cases [of cfg clk elapsed n r])
  fix d r1
  assume l: "sn_LastLeaseTime n = zero_time \<or> sn_LastLeaseTime n + Second \<le> clk"
    and eq: "fst (generateLeaseForNode cfg clk elapsed n r) =
           fst (generateBackgroundEbpf (append_lease clk (n\<lparr>sn_CurrentDrift := d\<rparr>)) clk r1)"
  have "history_ok (n\<lparr>sn_CurrentDrift := d\<rparr>)" using assms(1) by (rule history_ok_frame) simp_all
  then have "history_ok (append_lease clk (n\<lparr>sn_CurrentDrift := d\<rparr>))"
    using assms(2) l by (intro history_ok_lease) auto
  then show ?thesis unfolding eq by (rule history_ok_frame) simp_all
qed (use assms in \<open>auto intro: history_ok_frame\<close>)

lemma history_ok_background:
  "history_ok n \<Longrightarrow> history_ok (fst (generateBackgroundEbpf n ts r))"
  "history_ok n \<Longrightarrow> history_ok (fst (append_event c s ts n r))"
  by (rule history_ok_frame; simp)+

lemma append_lease_last [simp]: "sn_LastLeaseTime (append_lease ts n) = ts"
  by (simp add: append_lease_def)

lemma history_ok_replacement:
  assumes "zero_time < se_clock s"
  shows "history_ok (fst (replacement_node s d))"
proof (rule replacement_node_spec [of s d])
  fix ns r1 r2 r3 r4 o1 o2 off
  assume o: "o1 = burst_offset (5 * Second) 3 1" "o2 = burst_offset (5 * Second) 3 2"
    and eq: "fst (replacement_node s d) =
      fst (append_event ''kubelet'' ''fork'' (se_clock s + off * Millisecond)
       (fst (generateBackgroundEbpf (append_lease (se_clock s + o2)
        (fst (generateBackgroundEbpf (append_lease (se_clock s + o1)
         (fst (generateBackgroundEbpf (append_lease (se_clock s)
           (new_node (replacement_name (se_nextNodeID s)) ns ProfileNormal
              (sim_BaseInterval (se_config s))))
          (se_clock s) r1)))
         (se_clock s + o1) r2)))
        (se_clock s + o2) r3))
       r4)"
  have "Second \<le> o1" "o1 + Second \<le> o2" using burst_offsets unfolding o Second_def by simp_all
  then show ?thesis unfolding eq using assms
    by (intro history_ok_background history_ok_lease)
       (auto simp: history_ok_def new_node_def spaced_def Second_def)
qed

end
