(* ===== verification/SimulationNodes.thy ===== *)
theory SimulationNodes
  imports SimulationSteps
begin

text \<open>
  The histories of the nodes after a whole run: leases, outages and kernel events.
\<close>

section \<open>Whole runs\<close>

lemma whole_seconds:
  assumes "0 \<le> d" and "d \<le> maxSimulationDuration"
  shows "i64_of_f64 (Duration_Seconds d) = d div Second"
proof -
  let ?q = "d div Second" and ?r = "d mod Second"
  have s: "Second = 10 ^ 9" by (simp add: Second_def)
  have q: "0 \<le> ?q" "?q \<le> 604800"
    using assms by (auto simp: maxSimulationDuration_def Hour_def s)
  have r: "0 \<le> ?r" "?r \<le> 10 ^ 9 - 1" by (simp_all add: s pos_mod_bound zle_diff1_eq)
  let ?x = "fl (f64_of_i64 ?r / f64_of_i64 Second)"
  have f: "f64_of_i64 ?r = of_int ?r" "f64_of_i64 Second = 10 ^ 9" "f64_of_i64 ?q = of_int ?q"
    using q r fl_of_int [of "10 ^ 9"] by (simp_all add: f64_of_i64_def fl_of_int s)
  have p: "pow2 (- 30) = 1 / 2 ^ 30" by (simp add: pow2_def)
  have "(of_int ?r :: rat) \<le> of_int (10 ^ 9 - 1)" using r(2) by (simp only: of_int_le_iff)
  then have "of_int ?r / 10 ^ 9 \<le> of_int (2 ^ 30 - 1) * pow2 (- 30)" by (simp add: p field_simps)
  then have "fl (of_int ?r / 10 ^ 9) \<le> fl (of_int (2 ^ 30 - 1) * pow2 (- 30))" by (rule fl_mono)
  also have "\<dots> = of_int (2 ^ 30 - 1) * pow2 (- 30)" by (rule fl_exact) simp_all
  finally have x1: "?x \<le> of_int (2 ^ 30 - 1) * pow2 (- 30)" by (simp add: f)
  have x0: "0 \<le> ?x" using r(1) by (simp add: f fl_nonneg)
  have e: "of_int ?q + of_int (2 ^ 30 - 1) * pow2 (- 30) = of_int ((?q + 1) * 2 ^ 30 - 1) * pow2 (- 30)"
    by (simp add: p field_simps)
  have "of_int ?q + ?x \<le> of_int ((?q + 1) * 2 ^ 30 - 1) * pow2 (- 30)"
    using x1 unfolding e [symmetric] by (rule add_left_mono)
  then have "fl (of_int ?q + ?x) \<le> fl (of_int ((?q + 1) * 2 ^ 30 - 1) * pow2 (- 30))"
    by (rule fl_mono)
  also have "\<dots> = of_int ((?q + 1) * 2 ^ 30 - 1) * pow2 (- 30)" using q by (intro fl_exact) auto
  also have "\<dots> < of_int (?q + 1)" by (simp add: p field_simps)
  finally have hi: "fl (of_int ?q + ?x) < of_int (?q + 1)" .
  have "fl (of_int ?q) \<le> fl (of_int ?q + ?x)" using x0 by (intro fl_mono) simp
  then have lo: "of_int ?q \<le> fl (of_int ?q + ?x)" using q by (simp add: fl_of_int)
  have "trunc (fl (of_int ?q + ?x)) = ?q"
    using lo hi q(1) by (auto simp: trunc_def floor_eq_iff intro: order_trans [of 0 "of_int ?q"])
  moreover have "go_div d Second = ?q" "go_mod d Second = ?r"
    using assms(1) by (simp_all add: go_div_pos go_mod_pos s)
  then have "Duration_Seconds d = fl (of_int ?q + ?x)" by (simp only: Duration_Seconds_def f(3))
  moreover have "is_i64 ?q" using q by (simp add: i64_defs)
  ultimately show ?thesis by (simp add: i64_of_f64_def Let_def)
qed

lemma new_engine:
  assumes "NewSimulationEngine source t0 now cfg = Inr se"
  shows "ValidateConfig cfg = Inr (se_config se)" "se_clock se = now"
    "se_nodes se = distributeNodes (se_config se)"
    "se_activeScenarios se = map new_activeScenario (sim_Scenarios (se_config se))"
    "se_nextNodeID se = int (length (se_nodes se))"
  using assms by (auto simp: NewSimulationEngine_def Let_def split: sum.splits)

lemma new_engine_node:
  assumes "NewSimulationEngine source t0 now cfg = Inr se" and "n \<in> set (se_nodes se)"
  obtains j ns p b where "n = new_node (node_name j) ns p b"
  using assms(2) make_nodes_shape unfolding new_engine(3) [OF assms(1)] distributeNodes_def by blast

definition tick_count :: "SimulationEngine \<Rightarrow> nat" where
  "tick_count se = Suc (nat (sim_Duration (se_config se) div Second))"

lemma Run_ticks:
  assumes "NewSimulationEngine source t0 now cfg = Inr se0"
  shows "snd (Run se0) = run_ticks (tick_count se0) se0"
    and "i < tick_count se0 \<Longrightarrow> dur_mul (int i) Second = int i * 10 ^ 9"
proof -
  note v = validated_shape [OF new_engine(1) [OF assms]]
  let ?q = "sim_Duration (se_config se0) div Second"
  have q: "0 \<le> ?q" "?q \<le> 604800"
    using v(3,4) by (auto simp: maxSimulationDuration_def Hour_def Second_def)
  have "i64_of_f64 (Duration_Seconds (sim_Duration (se_config se0))) = ?q"
    using v(3,4) by (intro whole_seconds) auto
  then show "snd (Run se0) = run_ticks (tick_count se0) se0"
    using q(1) by (simp add: Run_def Let_def tick_count_def Suc_nat_eq_nat_zadd1 add.commute)
  show "dur_mul (int i) Second = int i * 10 ^ 9" if "i < tick_count se0"
    using that q by (intro elapsed_exact) (auto simp: tick_count_def i64_defs)
qed

text \<open>C29: In a finished simulation every node renews its leases at least one second apart, every outage
  lasts from 5 to 120 seconds and has one of the four causes, and a stable node has none.
\<close>

theorem simulated_histories:
  assumes "NewSimulationEngine source t0 now cfg = Inr se0" and "zero_time < now"
    and "n \<in> set (se_nodes (snd (Run se0)))"
  shows "sorted_wrt (\<lambda>a b. le_Timestamp a + Second \<le> le_Timestamp b) (sn_LeaseHistory n)
    \<and> (\<forall>tr \<in> set (sn_TransitionHistory n). nt_Cause tr \<in> set allCauses
          \<and> 5 * Second \<le> nt_Duration tr \<and> nt_Duration tr \<le> 120 * Second)
    \<and> (sn_Profile n = ProfileStable \<longrightarrow> sn_TransitionHistory n = [])"
proof -
  have "\<forall>n \<in> set (se_nodes se0). history_ok n"
    by (auto elim!: new_engine_node [OF assms(1)] simp: history_ok_def new_node_def spaced_def)
  moreover have "zero_time < time_Add (se_clock se0) (dur_mul (int i) Second)" if "i < tick_count se0" for i
    using assms(2) Run_ticks(2) [OF assms(1) that] new_engine(2) [OF assms(1)]
    by (simp add: time_Add_def)
  ultimately have "\<forall>n \<in> set (se_nodes (run_ticks (tick_count se0) se0)). history_ok n"
    by (intro run_ticks_nodes [where P = "\<lambda>_. history_ok" and Q = "\<lambda>_. history_ok"
          and m = "tick_count se0"] order_refl)
       (auto intro: history_ok_health history_ok_generateLease history_ok_replacement
          elim: history_ok_frame simp: drain_node_def)
  then show ?thesis
    using assms(3) unfolding Run_ticks(1) [OF assms(1)]
    by (auto simp: history_ok_def transition_ok_def spaced_def)
qed

section \<open>Outages and leases\<close>

text \<open>
  All recorded instants lie before \<open>hi\<close>; no lease lies in an outage; the outages of a ready node are
  over at \<open>clk\<close>, and those of a node that waits to recover end at the latest when it does.
\<close>

definition outage_ok :: "Time \<Rightarrow> Time \<Rightarrow> SimNode \<Rightarrow> bool" where
  "outage_ok hi clk n \<longleftrightarrow>
     sn_Status n \<in> {''Ready'', ''NotReady''} \<and>
     (\<forall>l \<in> set (sn_LeaseHistory n). le_Timestamp l < hi) \<and>
     (\<forall>tr \<in> set (sn_TransitionHistory n). \<forall>l \<in> set (sn_LeaseHistory n).
        le_Timestamp l < nt_Timestamp tr \<or> nt_Timestamp tr + nt_Duration tr \<le> le_Timestamp l) \<and>
     (\<forall>tr \<in> set (sn_TransitionHistory n).
        (sn_Status n = ''Ready'' \<longrightarrow> nt_Timestamp tr + nt_Duration tr \<le> clk) \<and>
        (sn_Status n = ''NotReady'' \<and> sn_NotReadyCause n \<noteq> CauseDrain \<longrightarrow>
           nt_Timestamp tr + nt_Duration tr \<le> clk \<or> nt_Timestamp tr + nt_Duration tr \<le> sn_NotReadyUntil n))"

lemma outage_ok_frame:
  assumes "outage_ok hi clk n"
    and "sn_Status m = sn_Status n" and "sn_LeaseHistory m = sn_LeaseHistory n"
    and "sn_TransitionHistory m = sn_TransitionHistory n"
    and "sn_NotReadyCause m = sn_NotReadyCause n" and "sn_NotReadyUntil m = sn_NotReadyUntil n"
  shows "outage_ok hi clk m"
  using assms(1) unfolding outage_ok_def assms(2-6) .

lemma outage_ok_mono:
  assumes "outage_ok hi clk n" and "hi \<le> hi'" and "clk \<le> clk'"
  shows "outage_ok hi' clk' n"
proof -
  note o = assms(1) [unfolded outage_ok_def]
  have "\<forall>l \<in> set (sn_LeaseHistory n). le_Timestamp l < hi'"
    using o assms(2) by (blast intro: less_le_trans)
  moreover have "\<forall>tr \<in> set (sn_TransitionHistory n).
        (sn_Status n = ''Ready'' \<longrightarrow> nt_Timestamp tr + nt_Duration tr \<le> clk') \<and>
        (sn_Status n = ''NotReady'' \<and> sn_NotReadyCause n \<noteq> CauseDrain \<longrightarrow>
           nt_Timestamp tr + nt_Duration tr \<le> clk' \<or> nt_Timestamp tr + nt_Duration tr \<le> sn_NotReadyUntil n)"
    using o assms(3) by (blast intro: order_trans)
  ultimately show ?thesis using o unfolding outage_ok_def by blast
qed

lemma outage_ok_health:
  assumes "outage_ok clk clk n"
  shows "outage_ok clk clk (fst (health_step clk n r))"
proof (rule health_step_cases [of clk n r])
  assume "sn_Status n = ''NotReady''" "sn_NotReadyCause n \<noteq> CauseDrain" "sn_NotReadyUntil n \<le> clk"
    "fst (health_step clk n r) = n\<lparr>sn_Status := ''Ready'', sn_NotReadyCause := NoCause\<rparr>"
  then show ?thesis using assms by (auto simp: outage_ok_def)
next
  fix r1
  assume f: "sn_Status n \<noteq> ''NotReady''" "fst (health_step clk n r) = fst (go_not_ready clk n r1)"
  then have r: "sn_Status n = ''Ready''" using assms by (simp add: outage_ok_def)
  show ?thesis
  proof (rule go_not_ready_spec [of clk n r1])
    fix cause d r2
    assume g: "go_not_ready clk n r1 = generateCorrelatedEbpf clk
          (n\<lparr>sn_Status := ''NotReady'', sn_NotReadyCause := cause,
             sn_NotReadyUntil := time_Add clk d,
             sn_TransitionHistory := sn_TransitionHistory n @
               [\<lparr>nt_Timestamp = clk, nt_Cause = cause, nt_Duration = d\<rparr>]\<rparr>) cause r2"
    show ?thesis using assms r unfolding f(2) g
      by (auto simp: outage_ok_def time_Add_def)
  qed
qed (use assms in simp)

lemma outage_ok_drain: "outage_ok hi clk n \<Longrightarrow> outage_ok hi clk (drain_node s n)"
  by (auto simp: outage_ok_def drain_node_def)

lemma outage_ok_lease:
  assumes "outage_ok clk clk n"
  shows "outage_ok (clk + 1) clk (fst (generateLeaseForNode cfg clk elapsed n r))"
proof (rule lease_cases [of cfg clk elapsed n r])
  fix d r1
  assume s: "sn_Status n \<noteq> ''NotReady''"
    and eq: "fst (generateLeaseForNode cfg clk elapsed n r) =
           fst (generateBackgroundEbpf (append_lease clk (n\<lparr>sn_CurrentDrift := d\<rparr>)) clk r1)"
  have "sn_Status n = ''Ready''" using assms s by (simp add: outage_ok_def)
  then have "outage_ok (clk + 1) clk (append_lease clk (n\<lparr>sn_CurrentDrift := d\<rparr>))"
    using assms by (auto simp: outage_ok_def append_lease_def)
  then show ?thesis unfolding eq by (rule outage_ok_frame) simp_all
next
  fix d
  assume eq: "fst (generateLeaseForNode cfg clk elapsed n r) = n\<lparr>sn_CurrentDrift := d\<rparr>"
  have "outage_ok (clk + 1) clk n" using assms by (rule outage_ok_mono) simp_all
  then show ?thesis unfolding eq by (rule outage_ok_frame) simp_all
qed (use assms in \<open>auto intro: outage_ok_mono\<close>)

text \<open>Names never change, and replacements are told from the initial nodes by their names.\<close>

lemma health_name [simp]: "sn_Name (fst (health_step clk n r)) = sn_Name n"
proof (rule health_step_cases [of clk n r])
  fix r1
  assume f: "fst (health_step clk n r) = fst (go_not_ready clk n r1)"
  show ?thesis unfolding f by (rule go_not_ready_spec [of clk n r1]) simp
qed simp_all

lemma lease_name [simp]: "sn_Name (fst (generateLeaseForNode cfg clk elapsed n r)) = sn_Name n"
  by (rule lease_cases [of cfg clk elapsed n r]) (simp_all add: append_lease_def)

lemma drain_name [simp]: "sn_Name (drain_node s n) = sn_Name n"
  by (simp add: drain_node_def)

lemma append_lease_name [simp]: "sn_Name (append_lease ts n) = sn_Name n"
  by (simp add: append_lease_def)

lemma replacement_node_name [simp]:
  "sn_Name (fst (replacement_node s d)) = replacement_name (se_nextNodeID s)"
  by (rule replacement_node_spec [of s d]) (simp add: new_node_def)

text \<open>The instant of the i-th tick, and the invariant at its beginning.\<close>

lemma tick_instant:
  assumes "NewSimulationEngine source t0 now cfg = Inr se0" and "i < tick_count se0"
  shows "time_Add (se_clock se0) (dur_mul (int i) Second) = now + int i * 10 ^ 9"
  using Run_ticks(2) [OF assms] new_engine(2) [OF assms(1)] by (simp add: time_Add_def)

lemma run_outage_ok:
  assumes new: "NewSimulationEngine source t0 now cfg = Inr se0" and "i \<le> tick_count se0"
  shows "\<forall>n \<in> set (se_nodes (run_ticks i se0)). (\<exists>j. sn_Name n = node_name j) \<longrightarrow>
           outage_ok (now + int i * 10 ^ 9) (now + int i * 10 ^ 9) n"
proof -
  let ?clk = "\<lambda>i. now + int i * 10 ^ 9"
  let ?P = "\<lambda>i n. (\<exists>j. sn_Name n = node_name j) \<longrightarrow> outage_ok (?clk i) (?clk i) n"
  have "\<forall>n \<in> set (se_nodes se0). ?P 0 n"
    by (auto elim!: new_engine_node [OF new] simp: outage_ok_def new_node_def)
  moreover have "?P (Suc i) (fst (generateLeaseForNode cfg (?clk i) elapsed n r))"
    if "?P i n" for i cfg elapsed n r
  proof
    assume "\<exists>j. sn_Name (fst (generateLeaseForNode cfg (?clk i) elapsed n r)) = node_name j"
    then have "outage_ok (?clk i + 1) (?clk i) (fst (generateLeaseForNode cfg (?clk i) elapsed n r))"
      using that by (intro outage_ok_lease) simp
    then show "outage_ok (?clk (Suc i)) (?clk (Suc i)) (fst (generateLeaseForNode cfg (?clk i) elapsed n r))"
      by (rule outage_ok_mono) simp_all
  qed
  ultimately show ?thesis using assms(2)
    by (intro run_ticks_nodes [where P = ?P and Q = ?P and m = "tick_count se0"])
       (auto simp: tick_instant [OF new] intro: outage_ok_health outage_ok_drain)
qed

text \<open>C6: An initial node never renews its lease during an outage: every lease lies before the outage
  begins or after it has lasted its whole duration.
\<close>

theorem no_lease_during_outage:
  assumes "NewSimulationEngine source t0 now cfg = Inr se0"
    and "n \<in> set (se_nodes (snd (Run se0)))" and "sn_Name n = node_name j"
    and "tr \<in> set (sn_TransitionHistory n)" and "l \<in> set (sn_LeaseHistory n)"
  shows "le_Timestamp l < nt_Timestamp tr \<or> nt_Timestamp tr + nt_Duration tr \<le> le_Timestamp l"
  using run_outage_ok [OF assms(1) order_refl] assms(2-5)
  unfolding Run_ticks(1) [OF assms(1)] by (auto simp: outage_ok_def)

section \<open>Kernel events\<close>

definition events_of :: "string \<Rightarrow> SimNode \<Rightarrow> SimEbpfEvent list" where
  "events_of syscall n = filter (\<lambda>e. be_Syscall e = syscall) (sn_EbpfEvents n)"

definition outages_by :: "NotReadyCause \<Rightarrow> SimNode \<Rightarrow> NotReadyTransition list" where
  "outages_by cause n = filter (\<lambda>tr. nt_Cause tr = cause) (sn_TransitionHistory n)"

definition exit_matches :: "SimEbpfEvent \<Rightarrow> NotReadyTransition \<Rightarrow> bool" where
  "exit_matches e tr \<longleftrightarrow>
     nt_Timestamp tr - 2 * Second \<le> be_Timestamp e \<and> be_Timestamp e \<le> nt_Timestamp tr"

definition kill_matches :: "SimEbpfEvent \<Rightarrow> NotReadyTransition \<Rightarrow> bool" where
  "kill_matches e tr \<longleftrightarrow> \<bar>be_Timestamp e - nt_Timestamp tr\<bar> \<le> Second"

definition event_ok :: "SimNode \<Rightarrow> SimEbpfEvent \<Rightarrow> bool" where
  "event_ok n e \<longleftrightarrow> be_NodeName e = sn_Name n \<and> be_Namespace e = sn_Namespace n \<and>
     unat (be_PID e) \<in> {1..32000} \<and> unat (be_PPID e) \<in> {1..32000}"

definition events_ok :: "SimNode \<Rightarrow> bool" where
  "events_ok n \<longleftrightarrow>
     map be_Timestamp (events_of ''write'' n) = map le_Timestamp (sn_LeaseHistory n) \<and>
     list_all2 exit_matches (events_of ''exit'' n) (outages_by CauseKubeletRestart n) \<and>
     list_all2 kill_matches (events_of ''kill'' n) (outages_by CauseOOMKill n) \<and>
     (\<forall>e \<in> set (sn_EbpfEvents n). event_ok n e)"

lemma events_ok_frame:
  assumes "events_ok n"
    and "sn_EbpfEvents m = sn_EbpfEvents n" and "sn_LeaseHistory m = sn_LeaseHistory n"
    and "sn_TransitionHistory m = sn_TransitionHistory n"
    and "sn_Name m = sn_Name n" and "sn_Namespace m = sn_Namespace n"
  shows "events_ok m"
  using assms(1) unfolding events_ok_def events_of_def outages_by_def event_ok_def assms(2-6) .

lemma pid_range: "unat (uint32 (fst (Intn 32000 r) + 1)) \<in> {1..32000}"
proof -
  let ?k = "fst (Intn 32000 r) + 1"
  have k: "1 \<le> ?k" "?k \<le> 32000" using go_rand.intn_range [of 32000 r] by auto
  have "uint (uint32 k) = k" if "0 \<le> k" "k < 2 ^ 32" for k
    using that by (simp add: uint32_def uint_word_of_int)
  from this [of ?k] have "uint (uint32 ?k) = ?k" using k by simp
  then have "unat (uint32 ?k) = nat ?k" by (simp flip: nat_uint_eq)
  moreover have "1 \<le> nat ?k" "nat ?k \<le> 32000" using k by linarith+
  ultimately show ?thesis by simp
qed

lemma append_event_spec:
  obtains e where "fst (append_event c s ts n r) = n\<lparr>sn_EbpfEvents := sn_EbpfEvents n @ [e]\<rparr>"
    and "event_ok n e" and "be_Syscall e = s" and "be_Timestamp e = ts"
proof -
  let ?e = "fst (sim_event c s n ts r)"
  have "event_ok n ?e"
    using pid_range [of r] pid_range [of "snd (Intn 32000 r)"]
    by (simp add: event_ok_def sim_event_def case_prod_unfold)
  moreover have "be_Syscall ?e = s" "be_Timestamp ?e = ts"
    by (simp_all add: sim_event_def split: prod.split)
  moreover have "fst (append_event c s ts n r) = n\<lparr>sn_EbpfEvents := sn_EbpfEvents n @ [?e]\<rparr>"
    by (simp add: append_event_def split: prod.split)
  ultimately show thesis by (intro that)
qed

lemma events_ok_lease:
  assumes "events_ok n"
  shows "events_ok (fst (generateBackgroundEbpf (append_lease ts n) ts r))"
proof -
  obtain e where e: "event_ok (append_lease ts n) e" "be_Syscall e = ''write''" "be_Timestamp e = ts"
    and eq: "fst (generateBackgroundEbpf (append_lease ts n) ts r) =
      (append_lease ts n)\<lparr>sn_EbpfEvents := sn_EbpfEvents (append_lease ts n) @ [e]\<rparr>"
    unfolding generateBackgroundEbpf_def by (rule append_event_spec)
  show ?thesis unfolding eq using assms e
    by (simp add: events_ok_def events_of_def outages_by_def event_ok_def append_lease_def)
qed

lemma events_ok_fork:
  assumes "events_ok n"
  shows "events_ok (fst (append_event ''kubelet'' ''fork'' ts n r))"
proof -
  obtain e where e: "event_ok n e" "be_Syscall e = ''fork''"
    and eq: "fst (append_event ''kubelet'' ''fork'' ts n r) = n\<lparr>sn_EbpfEvents := sn_EbpfEvents n @ [e]\<rparr>"
    by (rule append_event_spec)
  show ?thesis unfolding eq using assms e
    by (simp add: events_ok_def events_of_def outages_by_def event_ok_def)
qed

text \<open>An outage adds its transition and, for two of the causes, one matching event.\<close>

text \<open>The event of an outage: an exit before it, or a kill around it.\<close>

lemma kubelet_restart_event:
  "\<exists>e. event_ok n e \<and> be_Syscall e = ''exit'' \<and>
     exit_matches e \<lparr>nt_Timestamp = clk, nt_Cause = cause, nt_Duration = d\<rparr> \<and>
     fst (generateCorrelatedEbpf clk n CauseKubeletRestart r) = n\<lparr>sn_EbpfEvents := sn_EbpfEvents n @ [e]\<rparr>"
proof -
  obtain off r1 where o: "Intn 2001 r = (off, r1)" by force
  then have off: "0 \<le> off" "off \<le> 2000" using go_rand.intn_range [of 2001 r] by auto
  have "generateCorrelatedEbpf clk n CauseKubeletRestart r =
      append_event ''kubelet'' ''exit'' (time_Add clk (- (off * Millisecond))) n r1"
    by (simp add: generateCorrelatedEbpf_def o)
  then obtain e where e: "event_ok n e" "be_Syscall e = ''exit''" "be_Timestamp e = clk - off * Millisecond"
    and eq: "fst (generateCorrelatedEbpf clk n CauseKubeletRestart r) = n\<lparr>sn_EbpfEvents := sn_EbpfEvents n @ [e]\<rparr>"
    using append_event_spec [of "''kubelet''" "''exit''" "time_Add clk (- (off * Millisecond))" n r1]
    by (auto simp: time_Add_def)
  have "exit_matches e \<lparr>nt_Timestamp = clk, nt_Cause = cause, nt_Duration = d\<rparr>"
    using e(3) off by (simp add: exit_matches_def Second_def Millisecond_def)
  with e(1,2) eq show ?thesis by blast
qed

lemma oom_kill_event:
  "\<exists>e. event_ok n e \<and> be_Syscall e = ''kill'' \<and>
     kill_matches e \<lparr>nt_Timestamp = clk, nt_Cause = cause, nt_Duration = d\<rparr> \<and>
     fst (generateCorrelatedEbpf clk n CauseOOMKill r) = n\<lparr>sn_EbpfEvents := sn_EbpfEvents n @ [e]\<rparr>"
proof -
  obtain off r1 where o: "Intn 1001 r = (off, r1)" by force
  obtain side r2 where side: "Intn 2 r1 = (side, r2)" by force
  from o have off: "0 \<le> off" "off \<le> 1000" using go_rand.intn_range [of 1001 r] by auto
  let ?off = "if side = 0 then - off else off"
  have "generateCorrelatedEbpf clk n CauseOOMKill r =
      append_event ''oom_reaper'' ''kill'' (time_Add clk (?off * Millisecond)) n r2"
    by (simp add: generateCorrelatedEbpf_def o side)
  then obtain e where e: "event_ok n e" "be_Syscall e = ''kill''" "be_Timestamp e = clk + ?off * Millisecond"
    and eq: "fst (generateCorrelatedEbpf clk n CauseOOMKill r) = n\<lparr>sn_EbpfEvents := sn_EbpfEvents n @ [e]\<rparr>"
    using append_event_spec [of "''oom_reaper''" "''kill''" "time_Add clk (?off * Millisecond)" n r2]
    by (auto simp: time_Add_def)
  have "\<bar>?off * Millisecond\<bar> \<le> Second" using off by (simp add: Second_def Millisecond_def)
  then have "kill_matches e \<lparr>nt_Timestamp = clk, nt_Cause = cause, nt_Duration = d\<rparr>"
    using e(3) by (simp add: kill_matches_def)
  with e(1,2) eq show ?thesis by blast
qed

lemma events_ok_outage:
  assumes "events_ok n" and "cause \<in> set allCauses"
    and m: "m = n\<lparr>sn_Status := st, sn_NotReadyCause := cause, sn_NotReadyUntil := t,
      sn_TransitionHistory := sn_TransitionHistory n @
               [\<lparr>nt_Timestamp = clk, nt_Cause = cause, nt_Duration = d\<rparr>]\<rparr>"
  shows "events_ok (fst (generateCorrelatedEbpf clk m cause r))"
proof -
  consider "cause \<in> {CauseNetworkBlip, CauseDiskPressure}" | "cause = CauseKubeletRestart"
    | "cause = CauseOOMKill" using assms(2) by (auto simp: allCauses_def)
  then show ?thesis
  proof cases
    case 1
    then have "fst (generateCorrelatedEbpf clk m cause r) = m"
      by (auto simp: generateCorrelatedEbpf_def)
    then show ?thesis using assms(1) 1
      by (auto simp: m events_ok_def events_of_def outages_by_def event_ok_def)
  next
    case 2
    obtain e where e: "event_ok m e" "be_Syscall e = ''exit''"
        "exit_matches e \<lparr>nt_Timestamp = clk, nt_Cause = cause, nt_Duration = d\<rparr>"
      and eq: "fst (generateCorrelatedEbpf clk m cause r) = m\<lparr>sn_EbpfEvents := sn_EbpfEvents m @ [e]\<rparr>"
      using kubelet_restart_event [of m clk cause d r] 2 by blast
    then show ?thesis unfolding eq using assms(1) 2
      by (simp add: m events_ok_def events_of_def outages_by_def event_ok_def list_all2_appendI)
  next
    case 3
    obtain e where e: "event_ok m e" "be_Syscall e = ''kill''"
        "kill_matches e \<lparr>nt_Timestamp = clk, nt_Cause = cause, nt_Duration = d\<rparr>"
      and eq: "fst (generateCorrelatedEbpf clk m cause r) = m\<lparr>sn_EbpfEvents := sn_EbpfEvents m @ [e]\<rparr>"
      using oom_kill_event [of m clk cause d r] 3 by blast
    then show ?thesis unfolding eq using assms(1) 3
      by (simp add: m events_ok_def events_of_def outages_by_def event_ok_def list_all2_appendI)
  qed
qed

lemma events_ok_health: "events_ok n \<Longrightarrow> events_ok (fst (health_step clk n r))"
proof -
  assume ok: "events_ok n"
  show ?thesis
  proof (rule health_step_cases [of clk n r])
    fix r1
    assume f: "fst (health_step clk n r) = fst (go_not_ready clk n r1)"
    show ?thesis unfolding f
      by (rule go_not_ready_spec [of clk n r1]) (simp add: events_ok_outage [OF ok])
  qed (use ok in \<open>auto intro: events_ok_frame\<close>)
qed

lemma events_ok_generateLease:
  "events_ok n \<Longrightarrow> events_ok (fst (generateLeaseForNode cfg clk elapsed n r))"
proof -
  assume ok: "events_ok n"
  show ?thesis
  proof (rule lease_cases [of cfg clk elapsed n r])
    fix d r1
    assume eq: "fst (generateLeaseForNode cfg clk elapsed n r) =
           fst (generateBackgroundEbpf (append_lease clk (n\<lparr>sn_CurrentDrift := d\<rparr>)) clk r1)"
    have "events_ok (n\<lparr>sn_CurrentDrift := d\<rparr>)" using ok by (rule events_ok_frame) simp_all
    then show ?thesis unfolding eq by (rule events_ok_lease)
  qed (use ok in \<open>auto intro: events_ok_frame\<close>)
qed

lemma events_ok_new: "events_ok (new_node name ns p b)"
  by (simp add: events_ok_def events_of_def outages_by_def new_node_def)

lemma events_ok_replacement: "events_ok (fst (replacement_node s d))"
  by (rule replacement_node_spec [of s d])
     (simp add: events_ok_fork events_ok_lease events_ok_new)

text \<open>C30: Kernel events mirror what happens to a node: one \<^verbatim>\<open>write\<close> at every lease, one kubelet
  \<^verbatim>\<open>exit\<close> at most two seconds before every outage by a kubelet restart, one \<^verbatim>\<open>kill\<close> within a second
  of every outage by an OOM kill, in the same order and no others, all with the node's name and
  namespace and process identifiers from 1 to 32000.
\<close>

theorem events_mirror_the_node:
  assumes "NewSimulationEngine source t0 now cfg = Inr se0"
    and "n \<in> set (se_nodes (snd (Run se0)))"
  shows "map be_Timestamp (events_of ''write'' n) = map le_Timestamp (sn_LeaseHistory n)
    \<and> list_all2 (\<lambda>e tr. nt_Timestamp tr - 2 * Second \<le> be_Timestamp e \<and> be_Timestamp e \<le> nt_Timestamp tr)
        (events_of ''exit'' n) (outages_by CauseKubeletRestart n)
    \<and> list_all2 (\<lambda>e tr. \<bar>be_Timestamp e - nt_Timestamp tr\<bar> \<le> Second)
        (events_of ''kill'' n) (outages_by CauseOOMKill n)
    \<and> (\<forall>e \<in> set (sn_EbpfEvents n). be_NodeName e = sn_Name n \<and> be_Namespace e = sn_Namespace n
          \<and> unat (be_PID e) \<in> {1..32000} \<and> unat (be_PPID e) \<in> {1..32000})"
proof -
  have "\<forall>n \<in> set (se_nodes se0). events_ok n"
    by (auto elim!: new_engine_node [OF assms(1)] simp: events_ok_new)
  then have "\<forall>n \<in> set (se_nodes (run_ticks (tick_count se0) se0)). events_ok n"
    by (intro run_ticks_nodes [where P = "\<lambda>_. events_ok" and Q = "\<lambda>_. events_ok"
          and m = "tick_count se0"] order_refl)
       (auto intro: events_ok_health events_ok_generateLease events_ok_replacement
          elim: events_ok_frame simp: drain_node_def)
  then have "events_ok n" using assms(2) unfolding Run_ticks(1) [OF assms(1)] by simp
  then show ?thesis
    by (simp add: events_ok_def event_ok_def exit_matches_def [abs_def] kill_matches_def [abs_def])
qed

section \<open>Witnesses\<close>

text \<open>The node of the demonstration renews its lease at once and is down a second later.\<close>

definition demo_node :: SimNode where
  "demo_node =
     \<lparr>sn_Name = node_name 0, sn_Namespace = ''prod'', sn_Profile = ProfileNormal,
      sn_Status = ''NotReady'', sn_NotReadyCause = CauseNetworkBlip, sn_NotReadyUntil = 6 * Second,
      sn_BaseInterval = 10 * Second, sn_CurrentDrift = 0, sn_LastLeaseTime = 0,
      sn_LeaseHistory = [\<lparr>le_Timestamp = 0, le_NodeName = node_name 0, le_Namespace = ''prod''\<rparr>],
      sn_EbpfEvents = [\<lparr>be_Timestamp = 0, be_PID = 1, be_PPID = 1, be_Comm = ''kubelet'',
        be_Syscall = ''write'', be_CgroupPath = ''/sys/fs/cgroup/kubepods/node-000'',
        be_NodeName = node_name 0, be_Namespace = ''prod''\<rparr>],
      sn_TransitionHistory =
        [\<lparr>nt_Timestamp = Second, nt_Cause = CauseNetworkBlip, nt_Duration = 5 * Second\<rparr>]\<rparr>"

lemma demo_ticks: "se_nodes (run_ticks 2 (demo_engine [])) = [demo_node]"
  by code_simp

lemma demo_tick_count: "tick_count (demo_engine []) = 2"
  by code_simp

lemma demo_run: "demo_node \<in> set (se_nodes (snd (Run (demo_engine []))))"
  by (simp add: Run_ticks(1) [OF demo_new] demo_ticks demo_tick_count)

theorem simulated_histories_witness:
  "sorted_wrt (\<lambda>a b. le_Timestamp a + Second \<le> le_Timestamp b) (sn_LeaseHistory demo_node)
   \<and> nt_Cause (hd (sn_TransitionHistory demo_node)) \<in> set allCauses
   \<and> 5 * Second \<le> nt_Duration (hd (sn_TransitionHistory demo_node))"
  using simulated_histories [OF demo_new _ demo_run] by (simp add: zero_time_def demo_node_def)

theorem no_lease_during_outage_witness:
  "le_Timestamp (hd (sn_LeaseHistory demo_node)) < nt_Timestamp (hd (sn_TransitionHistory demo_node))
   \<or> nt_Timestamp (hd (sn_TransitionHistory demo_node)) + nt_Duration (hd (sn_TransitionHistory demo_node))
       \<le> le_Timestamp (hd (sn_LeaseHistory demo_node))"
  by (rule no_lease_during_outage [OF demo_new demo_run, of 0]) (simp_all add: demo_node_def)

theorem events_mirror_the_node_witness:
  "map be_Timestamp (events_of ''write'' demo_node) = map le_Timestamp (sn_LeaseHistory demo_node)
   \<and> length (events_of ''write'' demo_node) = 1"
  using events_mirror_the_node [OF demo_new demo_run] by (simp add: events_of_def demo_node_def)

end
