(* ===== verification/SimulationSchedule.thy ===== *)
theory SimulationSchedule
  imports SimulationNodes
begin

text \<open>
  Rolling deployments: drained nodes stay down, the drains keep to their schedule, the drain loop
  ends, and every drained node is replaced when its time has come.
\<close>

section \<open>Drained nodes\<close>

lemma scenario_changes_keep:
  assumes "scenario_changes elapsed se se'" and "n \<in> set (se_nodes se)" and "sn_Status n \<noteq> ''Ready''"
  shows "n \<in> set (se_nodes se')"
  using assms(1)
proof (induction rule: rtranclp_induct)
  case (step s s')
  from step.hyps(2) show ?case
  proof cases
    case (drained k us node vs)
    then have "n \<noteq> node" using assms(3) by (auto simp: drainable_def)
    then show ?thesis using step.IH drained by auto
  next
    case (replaced k i)
    then show ?thesis using step.IH by (auto simp: replace_one_def Let_def split: prod.split)
  qed
qed (rule assms(2))

definition drained_down :: "SimNode \<Rightarrow> bool" where
  "drained_down n \<longleftrightarrow> sn_Status n = ''NotReady'' \<and> sn_NotReadyCause n = CauseDrain"

lemma health_keeps_drained: "drained_down n \<Longrightarrow> fst (health_step clk n r) = n"
  by (simp add: drained_down_def health_step_def)

lemma lease_keeps_drained: "drained_down n \<Longrightarrow> fst (generateLeaseForNode cfg clk elapsed n r) = n"
  by (simp add: drained_down_def generateLeaseForNode_def)

lemma tick_keeps_drained:
  assumes "n \<in> set (se_nodes se)" and "drained_down n"
  shows "n \<in> set (se_nodes (tick elapsed se))"
proof -
  have "n \<in> set (se_nodes (applyHealthTransitions se))"
    unfolding applyHealthTransitions_def update_nodes_nodes
    using assms by (intro each_node_fixed health_keeps_drained)
  then have "n \<in> set (se_nodes (applyScenarios elapsed (applyHealthTransitions se)))"
    using assms(2) by (intro scenario_changes_keep [OF applyScenarios_changes]) (auto simp: drained_down_def)
  then show ?thesis unfolding tick_def lease_pass_def update_nodes_nodes
    using assms(2) by (intro each_node_fixed lease_keeps_drained)
qed

text \<open>
  A drained node is never touched again: whatever the later ticks do, the node stays as it is,
  down, with the same leases, events and outages.
\<close>

lemma drained_nodes_stay_down:
  assumes "n \<in> set (se_nodes (run_ticks i se))" and "i \<le> j"
    and "sn_Status n = ''NotReady''" and "sn_NotReadyCause n = CauseDrain"
  shows "n \<in> set (se_nodes (run_ticks j se))"
  using assms(2)
proof (induction j rule: dec_induct)
  case base
  then show ?case by (rule assms(1))
next
  case (step j)
  then show ?case unfolding run_ticks_Suc tick_at_def Let_def
    using assms(3,4) by (intro tick_keeps_drained) (simp_all add: drained_down_def)
qed

section \<open>The schedule of a rolling deployment\<close>

text \<open>The offset at which the j-th drain of a deployment is due.\<close>

definition due_at :: "ScenarioConfig \<Rightarrow> nat \<Rightarrow> Duration" where
  "due_at sc j = (if j = 0 then sc_TriggerAt sc
                  else i64 (sc_TriggerAt sc + dur_mul (int j) (sc_StaggerInterval sc)))"

text \<open>
  What the record of a scenario says at an instant \<open>clk\<close> of a run that began at \<open>start\<close>, given the
  nodes: the drains made so far, each not before it was due, and the nodes they took down, which
  renewed no lease since.
\<close>

definition drain_ok :: "Time \<Rightarrow> Time \<Rightarrow> SimNode list \<Rightarrow> ScenarioConfig \<Rightarrow> nat \<Rightarrow> drainedNodeInfo \<Rightarrow> bool" where
  "drain_ok start clk nodes sc j di \<longleftrightarrow>
     due_at sc j \<le> di_drainTime di - start \<and> di_drainTime di \<le> clk \<and>
     di_replacementAt di = di_drainTime di + sc_ReplacementDelay sc \<and>
     (di_replaced di \<longrightarrow> di_replacementAt di \<le> clk) \<and>
     (\<exists>n \<in> set nodes. sn_Name n = di_nodeName di \<and> drained_down n \<and>
        ((\<exists>i. sn_Name n = node_name i) \<longrightarrow>
           (\<forall>l \<in> set (sn_LeaseHistory n). le_Timestamp l < di_drainTime di)))"

definition scenario_ok :: "Time \<Rightarrow> Time \<Rightarrow> SimNode list \<Rightarrow> activeScenario \<Rightarrow> bool" where
  "scenario_ok start clk nodes sc \<longleftrightarrow>
     as_drainIndex sc = int (length (as_drainedNodes sc)) \<and>
     length (as_drainedNodes sc) \<le> nat (sc_NodeCount (as_config sc)) \<and>
     as_nextDrainAt sc = due_at (as_config sc) (length (as_drainedNodes sc)) \<and>
     (sc_Type (as_config sc) \<noteq> ''rolling_deployment'' \<longrightarrow> as_drainedNodes sc = []) \<and>
     (\<forall>j < length (as_drainedNodes sc).
        drain_ok start clk nodes (as_config sc) j (as_drainedNodes sc ! j))"

definition scenarios_ok :: "Time \<Rightarrow> SimulationEngine \<Rightarrow> bool" where
  "scenarios_ok start se \<longleftrightarrow>
     (\<forall>sc \<in> set (se_activeScenarios se). scenario_ok start (se_clock se) (se_nodes se) sc)"

lemma drain_ok_mono:
  assumes "drain_ok start clk nodes sc j di" and "clk \<le> clk'"
    and "\<And>n. n \<in> set nodes \<Longrightarrow> drained_down n \<Longrightarrow> n \<in> set nodes'"
  shows "drain_ok start clk' nodes' sc j di"
  using assms unfolding drain_ok_def by (meson order_trans)

lemma scenario_ok_mono:
  assumes "scenario_ok start clk nodes sc" and "clk \<le> clk'"
    and "\<And>n. n \<in> set nodes \<Longrightarrow> drained_down n \<Longrightarrow> n \<in> set nodes'"
  shows "scenario_ok start clk' nodes' sc"
proof -
  have "drain_ok start clk' nodes' c j di" if "drain_ok start clk nodes c j di" for c j di
    by (rule drain_ok_mono [OF that assms(2)]) (rule assms(3))
  then show ?thesis using assms(1) unfolding scenario_ok_def by blast
qed

lemma scenarios_ok_mono:
  assumes "scenarios_ok start se" and "se_clock se \<le> se_clock se'"
    and "\<And>n. n \<in> set (se_nodes se) \<Longrightarrow> drained_down n \<Longrightarrow> n \<in> set (se_nodes se')"
    and "se_activeScenarios se' = se_activeScenarios se"
  shows "scenarios_ok start se'"
proof -
  have "scenario_ok start (se_clock se') (se_nodes se') sc"
    if "scenario_ok start (se_clock se) (se_nodes se) sc" for sc
    by (rule scenario_ok_mono [OF that assms(2)]) (rule assms(3))
  then show ?thesis using assms(1,4) unfolding scenarios_ok_def by simp
qed

text \<open>A drain extends the record by an entry for the node it takes down.\<close>

lemma scenario_ok_drain:
  assumes ok: "scenario_ok start (se_clock se) (se_nodes se) sc"
    and ix: "as_drainIndex sc < sc_NodeCount (as_config sc)"
    and due: "as_nextDrainAt sc \<le> se_clock se - start"
    and ty: "sc_Type (as_config sc) = ''rolling_deployment''"
    and nodes: "se_nodes se = us @ node # vs" and d: "drainable se node"
    and past: "(\<exists>i. sn_Name node = node_name i) \<Longrightarrow>
      \<forall>l \<in> set (sn_LeaseHistory node). le_Timestamp l < se_clock se"
  shows "scenario_ok start (se_clock se) (us @ drain_node se node # vs) (record_drain se (sn_Name node) sc)"
proof -
  let ?nodes = "us @ drain_node se node # vs" and ?ds = "as_drainedNodes sc" and ?c = "as_config sc"
  let ?new = "\<lparr>di_nodeName = sn_Name node, di_drainTime = se_clock se,
               di_replacementAt = time_Add (se_clock se) (sc_ReplacementDelay ?c),
               di_replaced = False, di_replacementName = []\<rparr>"
  have i: "as_drainIndex sc = int (length ?ds)" and nx: "as_nextDrainAt sc = due_at ?c (length ?ds)"
    using ok by (auto simp: scenario_ok_def)
  have keep: "n \<in> set ?nodes" if "n \<in> set (se_nodes se)" "drained_down n" for n
    using that d unfolding nodes by (auto simp: drained_down_def drainable_def)
  have old: "\<forall>j < length ?ds. drain_ok start (se_clock se) ?nodes ?c j (?ds ! j)"
    using ok keep by (auto simp: scenario_ok_def intro: drain_ok_mono)
  have new: "drain_ok start (se_clock se) ?nodes ?c (length ?ds) ?new"
    using due nx past by (auto simp: drain_ok_def time_Add_def drained_down_def drain_node_def)
  have "\<forall>j < Suc (length ?ds). drain_ok start (se_clock se) ?nodes ?c j ((?ds @ [?new]) ! j)"
    using old new by (simp add: nth_append less_Suc_eq)
  moreover have "as_drainedNodes (record_drain se (sn_Name node) sc) = ?ds @ [?new]"
    and "as_drainIndex (record_drain se (sn_Name node) sc) = int (length (?ds @ [?new]))"
    and "as_nextDrainAt (record_drain se (sn_Name node) sc) = due_at ?c (length (?ds @ [?new]))"
    using i by (simp_all add: record_drain_def due_at_def Let_def add.commute)
  ultimately show ?thesis using ix i ty by (simp add: scenario_ok_def)
qed

lemma scenario_ok_replace:
  assumes ok: "scenario_ok start clk nodes sc" and "i < length (as_drainedNodes sc)"
    and "di_replacementAt (as_drainedNodes sc ! i) \<le> clk"
  shows "scenario_ok start clk nodes (sc\<lparr>as_drainedNodes := (as_drainedNodes sc)
           [i := (as_drainedNodes sc ! i)\<lparr>di_replaced := True, di_replacementName := nm\<rparr>]\<rparr>)"
  using assms by (auto simp: scenario_ok_def drain_ok_def nth_list_update)

lemma scenarios_ok_changes:
  assumes "scenario_changes elapsed se se'" and "scenarios_ok start se"
    and e: "elapsed = se_clock se - start"
    and past: "\<forall>n \<in> set (se_nodes se). (\<exists>i. sn_Name n = node_name i) \<longrightarrow>
      (\<forall>l \<in> set (sn_LeaseHistory n). le_Timestamp l < se_clock se)"
  shows "scenarios_ok start se'"
  using assms(1)
proof (induction rule: rtranclp_induct)
  case (step s s')
  have clk: "se_clock s = se_clock se" using scenario_changes_frame [OF step.hyps(1)] by simp
  have past': "\<forall>n \<in> set (se_nodes s). (\<exists>i. sn_Name n = node_name i) \<longrightarrow>
      (\<forall>l \<in> set (sn_LeaseHistory n). le_Timestamp l < se_clock s)"
    unfolding clk
    by (rule scenario_changes_nodes [OF step.hyps(1) past]) (simp_all add: drain_node_def)
  from step.hyps(2) show ?case
  proof cases
    case (drained k us node vs)
    let ?sc = "se_activeScenarios s ! k" and ?nodes = "us @ drain_node s node # vs"
    have k: "k < length (se_activeScenarios s)" and ix: "as_drainIndex ?sc < sc_NodeCount (as_config ?sc)"
      and due: "as_nextDrainAt ?sc \<le> se_clock s - start"
      using drained(2) e clk by (auto simp: scenario_due_def Let_def)
    have ok: "scenario_ok start (se_clock s) (se_nodes s) ?sc"
      using step.IH k by (simp add: scenarios_ok_def)
    have "(\<exists>i. sn_Name node = node_name i) \<Longrightarrow> \<forall>l \<in> set (sn_LeaseHistory node). le_Timestamp l < se_clock s"
      using past' drained(4) by auto
    with scenario_ok_drain [OF ok ix due drained(3,4,5)]
    have new: "scenario_ok start (se_clock s) ?nodes (record_drain s (sn_Name node) ?sc)" by simp
    have keep: "n \<in> set ?nodes" if "n \<in> set (se_nodes s)" "drained_down n" for n
      using that drained(4,5) by (auto simp: drained_down_def drainable_def)
    have "scenario_ok start (se_clock s) ?nodes sc" if "sc \<in> set (se_activeScenarios s)" for sc
      using step.IH that by (intro scenario_ok_mono [OF _ order_refl keep]) (auto simp: scenarios_ok_def)
    with new show ?thesis
      unfolding drained(1) scenarios_ok_def by (auto dest!: set_update_subset_insert [THEN subsetD])
  next
    case (replaced k i)
    let ?sc = "se_activeScenarios s ! k"
    obtain node r where nr: "replacement_node s (di_nodeName (as_drainedNodes ?sc ! i)) = (node, r)" by force
    have ok: "\<forall>sc \<in> set (se_activeScenarios s). scenario_ok start (se_clock s) (se_nodes s @ [node]) sc"
      using step.IH scenario_ok_mono [OF _ order_refl, of start _ "se_nodes s" _ "se_nodes s @ [node]"]
      by (simp add: scenarios_ok_def)
    then have "scenario_ok start (se_clock s) (se_nodes s @ [node]) ?sc" using replaced(2) by simp
    from scenario_ok_replace [OF this replaced(4) replaced(6)] ok show ?thesis
      using replaced(5,6) nr unfolding replaced(1) scenarios_ok_def
      by (auto simp: replace_one_def Let_def Before_def dest!: set_update_subset_insert [THEN subsetD])
  qed
qed (rule assms(2))


section \<open>Progress of a deployment\<close>

text \<open>The drain loop stops when nothing is due or nothing can be drained.\<close>

lemma drain_loop_done:
  "\<not> scenario_due elapsed k (drain_loop elapsed k se) \<or>
   (\<forall>n \<in> set (se_nodes (drain_loop elapsed k se)). \<not> drainable (drain_loop elapsed k se) n)"
proof (induction elapsed k se rule: drain_loop.induct)
  case (1 elapsed k se)
  show ?case
  proof (cases "scenario_due elapsed k se")
    case True
    then show ?thesis using 1
      by (cases "drain_one k se")
         (auto simp: drain_loop.simps [of elapsed k se] drain_one_def change_first_None
           split: option.splits)
  qed (simp add: drain_loop.simps [of elapsed k se])
qed

lemma drain_one_other: "drain_one k se = Some se' \<Longrightarrow> j \<noteq> k \<Longrightarrow>
  se_activeScenarios se' ! j = se_activeScenarios se ! j"
  by (auto simp: drain_one_def split: option.splits)

lemma drain_loop_other:
  "j \<noteq> k \<Longrightarrow> se_activeScenarios (drain_loop elapsed k se) ! j = se_activeScenarios se ! j"
proof (induction elapsed k se rule: drain_loop.induct)
  case (1 elapsed k se)
  then show ?case
    by (cases "scenario_due elapsed k se"; cases "drain_one k se")
       (auto simp: drain_loop.simps [of elapsed k se] drain_one_other)
qed

lemma replace_one_other:
  "j \<noteq> k \<Longrightarrow> se_activeScenarios (replace_one k se i) ! j = se_activeScenarios se ! j"
  by (simp add: replace_one_def Let_def split: prod.split)

lemma replace_all_other:
  "j \<noteq> k \<Longrightarrow> se_activeScenarios (foldl (replace_one k) se is) ! j = se_activeScenarios se ! j"
  by (induction "is" arbitrary: se) (simp_all add: replace_one_other)

lemma scenario_step_other:
  "j \<noteq> k \<Longrightarrow> se_activeScenarios (scenario_step elapsed se k) ! j = se_activeScenarios se ! j"
  by (simp add: scenario_step_def Let_def replace_all_other drain_loop_other)

text \<open>No replacement of scenario \<open>k\<close> is overdue.\<close>

definition settled :: "SimulationEngine \<Rightarrow> nat \<Rightarrow> nat \<Rightarrow> bool" where
  "settled se k i \<longleftrightarrow>
    (let di = as_drainedNodes (se_activeScenarios se ! k) ! i
     in di_replaced di \<or> se_clock se < di_replacementAt di)"

lemma replace_one_settles:
  assumes "k < length (se_activeScenarios se)" and "i < length (as_drainedNodes (se_activeScenarios se ! k))"
  shows "settled (replace_one k se i) k i"
  using assms by (auto simp: settled_def replace_one_def Before_def Let_def split: prod.split)

lemma replace_one_keeps_settled:
  assumes "k < length (se_activeScenarios se)" and "settled se k j"
  shows "settled (replace_one k se i) k j"
  using assms
  by (cases "i < length (as_drainedNodes (se_activeScenarios se ! k))"; cases "j = i")
     (auto simp: settled_def replace_one_def Before_def Let_def list_update_beyond split: prod.split)

lemma replace_all_settles:
  assumes "k < length (se_activeScenarios se)"
    and "\<forall>i \<in> set is. i < length (as_drainedNodes (se_activeScenarios se ! k))"
    and "j \<in> set is \<or> settled se k j"
  shows "settled (foldl (replace_one k) se is) k j"
  using assms
proof (induction "is" arbitrary: se)
  case (Cons i "is")
  have "j \<in> set is \<or> settled (replace_one k se i) k j"
    using Cons.prems replace_one_settles [of k se i] replace_one_keeps_settled [of k se j i] by auto
  then show ?case using Cons.prems by (simp add: Cons.IH)
qed simp

definition all_settled :: "SimulationEngine \<Rightarrow> nat \<Rightarrow> bool" where
  "all_settled se k \<longleftrightarrow>
     sc_Type (as_config (se_activeScenarios se ! k)) = ''rolling_deployment'' \<longrightarrow>
     (\<forall>i < length (as_drainedNodes (se_activeScenarios se ! k)). settled se k i)"

lemma replace_all_frame [simp]:
  "as_config (se_activeScenarios (foldl (replace_one k) se is) ! j) = as_config (se_activeScenarios se ! j)"
  "length (as_drainedNodes (se_activeScenarios (foldl (replace_one k) se is) ! j)) =
   length (as_drainedNodes (se_activeScenarios se ! j))"
  by (induction "is" arbitrary: se) simp_all

lemma scenario_step_settles:
  assumes k: "k < length (se_activeScenarios se)"
  shows "all_settled (scenario_step elapsed se k) k"
proof (cases "sc_Type (as_config (se_activeScenarios se ! k)) = ''rolling_deployment''")
  case True
  let ?se1 = "drain_loop elapsed k se"
  have "length (se_activeScenarios ?se1) = length (se_activeScenarios se)"
    using scenario_changes_frame [OF drain_loop_changes [OF True]] by (metis length_map)
  with k have "settled (foldl (replace_one k) ?se1
      [0..<length (as_drainedNodes (se_activeScenarios ?se1 ! k))]) k i"
    if "i < length (as_drainedNodes (se_activeScenarios ?se1 ! k))" for i
    using that by (intro replace_all_settles) auto
  then show ?thesis using True by (simp add: all_settled_def scenario_step_def Let_def)
qed (simp add: all_settled_def scenario_step_def)

lemma scenario_step_keeps_settled:
  assumes "j \<noteq> k" and "k < length (se_activeScenarios se)" and "all_settled se j"
  shows "all_settled (scenario_step elapsed se k) j"
  using assms scenario_changes_frame [OF scenario_step_changes [of k se elapsed]]
  by (simp add: all_settled_def settled_def scenario_step_other)

lemma applyScenarios_settles:
  assumes "k < length (se_activeScenarios se)"
  shows "all_settled (applyScenarios elapsed se) k"
proof -
  have "all_settled (foldl (scenario_step elapsed) se ks) k"
    if "\<forall>j \<in> set ks. j < length (se_activeScenarios se)" "k \<in> set ks \<or> all_settled se k" for ks
    using that
  proof (induction ks arbitrary: se)
    case (Cons j ks)
    have j: "j < length (se_activeScenarios se)" using Cons.prems by simp
    have "length (se_activeScenarios (scenario_step elapsed se j)) = length (se_activeScenarios se)"
      using scenario_changes_frame [OF scenario_step_changes [OF j]] by (metis length_map)
    moreover have "k \<in> set ks \<or> all_settled (scenario_step elapsed se j) k"
      using Cons.prems(2) scenario_step_settles [OF j] scenario_step_keeps_settled [OF _ j]
      by (cases "j = k") auto
    ultimately show ?case using Cons.prems(1) by (simp add: Cons.IH)
  qed simp
  then show ?thesis using assms by (simp add: applyScenarios_def)
qed

lemma tick_settles:
  assumes "k < length (se_activeScenarios se)"
  shows "all_settled (tick elapsed se) k"
proof -
  have "all_settled (applyScenarios elapsed (applyHealthTransitions se)) k"
    using assms by (intro applyScenarios_settles) (simp add: applyHealthTransitions_def)
  then show ?thesis by (simp add: tick_def lease_pass_def all_settled_def settled_def)
qed

section \<open>Finished deployments\<close>

text \<open>Every replacement adds one node.\<close>

definition replaced_count :: "SimulationEngine \<Rightarrow> nat" where
  "replaced_count se =
     sum_list (map (\<lambda>sc. length (filter di_replaced (as_drainedNodes sc))) (se_activeScenarios se))"

lemma length_filter_update:
  assumes "i < length xs" and "\<not> P (xs ! i)" and "P y"
  shows "length (filter P (xs[i := y])) = Suc (length (filter P xs))"
  using assms by (induction xs arbitrary: i) (auto split: nat.split)

lemma map_update_same: "f y = f (xs ! k) \<Longrightarrow> map f (xs[k := y]) = map f xs"
  by (cases "k < length xs") (simp_all add: map_update list_update_beyond list_update_same_conv)

lemma sum_list_update_Suc:
  fixes f :: "'a \<Rightarrow> nat"
  assumes "k < length xs" and "f y = Suc (f (xs ! k))"
  shows "sum_list (map f (xs[k := y])) = Suc (sum_list (map f xs))"
  using assms by (induction xs arbitrary: k) (auto split: nat.split)

lemma scenario_changes_node_count:
  assumes "scenario_changes elapsed se se'" and "length (se_nodes se) = c + replaced_count se"
  shows "length (se_nodes se') = c + replaced_count se'"
  using assms(1)
proof (induction rule: rtranclp_induct)
  case (step s s')
  from step.hyps(2) show ?case
  proof cases
    case (drained k us node vs)
    have "replaced_count s' = replaced_count s"
      unfolding drained(1) replaced_count_def
      by (simp add: map_update_same [where f = "\<lambda>sc. length (filter di_replaced (as_drainedNodes sc))"]
          record_drain_def Let_def)
    then show ?thesis using step.IH drained by simp
  next
    case (replaced k i)
    obtain node r where nr: "replacement_node s (di_nodeName (as_drainedNodes (se_activeScenarios s ! k) ! i)) = (node, r)"
      by force
    have "replaced_count s' = Suc (replaced_count s)"
      using replaced(2,4-6) nr unfolding replaced(1) replaced_count_def
      by (simp add: replace_one_def Before_def Let_def length_filter_update
          sum_list_update_Suc [where f = "\<lambda>sc. length (filter di_replaced (as_drainedNodes sc))"])
    moreover have "length (se_nodes s') = Suc (length (se_nodes s))"
      using replaced(5,6) nr unfolding replaced(1) by (simp add: replace_one_def Before_def Let_def)
    ultimately show ?thesis using step.IH by simp
  qed
qed (rule assms(2))

lemma each_node_length [simp]: "length (fst (each_node f ns r)) = length ns"
  using each_node_map [of "\<lambda>_. ()" f ns r] by (metis length_map)

lemma tick_node_count:
  assumes "length (se_nodes se) = c + replaced_count se"
  shows "length (se_nodes (tick elapsed se)) = c + replaced_count (tick elapsed se)"
proof -
  have "length (se_nodes (applyHealthTransitions se)) = c + replaced_count (applyHealthTransitions se)"
    using assms by (simp add: applyHealthTransitions_def update_nodes_nodes replaced_count_def)
  then have "length (se_nodes (applyScenarios elapsed (applyHealthTransitions se)))
      = c + replaced_count (applyScenarios elapsed (applyHealthTransitions se))"
    by (rule scenario_changes_node_count [OF applyScenarios_changes])
  then show ?thesis by (simp add: tick_def lease_pass_def update_nodes_nodes replaced_count_def)
qed

lemma run_node_count:
  assumes "replaced_count se = 0"
  shows "length (se_nodes (run_ticks i se)) = length (se_nodes se) + replaced_count (run_ticks i se)"
proof (induction i)
  case 0
  then show ?case using assms by (simp add: run_ticks_0 replaced_count_def)
next
  case (Suc i)
  then show ?case unfolding run_ticks_Suc tick_at_def Let_def
    by (intro tick_node_count) (simp add: replaced_count_def)
qed

lemma run_configs: "map as_config (se_activeScenarios (run_ticks i se)) = map as_config (se_activeScenarios se)"
proof (induction i)
  case (Suc i)
  have "map as_config (se_activeScenarios (tick e s)) = map as_config (se_activeScenarios s)" for e s
    using scenario_changes_frame [OF applyScenarios_changes [of e "applyHealthTransitions s"]]
    by (simp add: tick_def lease_pass_def applyHealthTransitions_def)
  then show ?case using Suc by (simp add: run_ticks_Suc tick_at_def Let_def)
qed (simp add: run_ticks_0)

lemma run_clock: "se_clock (run_ticks (Suc i) se) = time_Add (se_clock se) (dur_mul (int i) Second)"
  by (simp add: run_ticks_Suc tick_at_def Let_def)

lemma run_settled:
  assumes "k < length (se_activeScenarios se)"
  shows "all_settled (run_ticks (Suc i) se) k"
proof -
  have "k < length (se_activeScenarios (run_ticks i se))" using assms run_configs by (metis length_map)
  then show ?thesis by (simp add: run_ticks_Suc tick_at_def Let_def tick_settles)
qed

lemma scenarios_ok_tick:
  assumes ok: "scenarios_ok start se" and e: "elapsed = se_clock se - start"
    and past: "\<forall>n \<in> set (se_nodes se). (\<exists>i. sn_Name n = node_name i) \<longrightarrow>
      outage_ok (se_clock se) (se_clock se) n"
  shows "scenarios_ok start (tick elapsed se)"
proof -
  let ?h = "applyHealthTransitions se"
  have h: "n \<in> set (se_nodes ?h)" if "n \<in> set (se_nodes se)" "drained_down n" for n
    using that unfolding applyHealthTransitions_def update_nodes_nodes
    by (intro each_node_fixed health_keeps_drained)
  have "scenarios_ok start ?h"
    by (rule scenarios_ok_mono [OF ok _ h]) (simp_all add: applyHealthTransitions_def)
  moreover have "\<forall>n \<in> set (se_nodes ?h). (\<exists>i. sn_Name n = node_name i) \<longrightarrow>
      outage_ok (se_clock se) (se_clock se) n"
    unfolding applyHealthTransitions_def update_nodes_nodes
    by (rule each_node_all) (use past in \<open>auto intro: outage_ok_health\<close>)
  then have "\<forall>n \<in> set (se_nodes ?h). (\<exists>i. sn_Name n = node_name i) \<longrightarrow>
      (\<forall>l \<in> set (sn_LeaseHistory n). le_Timestamp l < se_clock ?h)"
    by (simp add: outage_ok_def applyHealthTransitions_def)
  moreover have "elapsed = se_clock ?h - start" using e by (simp add: applyHealthTransitions_def)
  ultimately have a: "scenarios_ok start (applyScenarios elapsed ?h)"
    by (intro scenarios_ok_changes [OF applyScenarios_changes])
  have l: "n \<in> set (se_nodes (lease_pass elapsed s))" if "n \<in> set (se_nodes s)" "drained_down n" for n s
    using that unfolding lease_pass_def update_nodes_nodes
    by (intro each_node_fixed lease_keeps_drained)
  show ?thesis unfolding tick_def
    by (rule scenarios_ok_mono [OF a _ l]) (simp_all add: lease_pass_def)
qed

lemma run_scenarios_ok:
  assumes new: "NewSimulationEngine source t0 now cfg = Inr se0"
  shows "i \<le> tick_count se0 \<Longrightarrow> scenarios_ok now (run_ticks i se0)"
proof (induction i)
  case 0
  have "scenario_ok now c ns (new_activeScenario sc)" for c ns sc
    by (simp add: scenario_ok_def new_activeScenario_def due_at_def)
  then show ?case using new_engine(4) [OF new] by (auto simp: scenarios_ok_def run_ticks_0)
next
  case (Suc i)
  let ?t = "now + int i * 10 ^ 9" and ?s = "run_ticks i se0"
  have t: "time_Add (se_clock se0) (dur_mul (int i) Second) = ?t"
    and e: "dur_mul (int i) Second = int i * 10 ^ 9"
    using tick_instant [OF new] Run_ticks(2) [OF new] Suc.prems by simp_all
  have "se_clock ?s \<le> ?t"
  proof (cases i)
    case 0
    then show ?thesis using new_engine(2) [OF new] by (simp add: run_ticks_0)
  next
    case (Suc j)
    then have "se_clock ?s = now + int j * 10 ^ 9"
      using tick_instant [OF new, of j] Suc.prems by (simp add: run_clock)
    then show ?thesis using Suc by simp
  qed
  then have "scenarios_ok now (?s\<lparr>se_clock := ?t\<rparr>)"
    using Suc by (intro scenarios_ok_mono [OF Suc.IH]) auto
  moreover have "\<forall>n \<in> set (se_nodes ?s). (\<exists>j. sn_Name n = node_name j) \<longrightarrow> outage_ok ?t ?t n"
    using Suc.prems by (intro run_outage_ok [OF new]) simp
  ultimately have "scenarios_ok now (tick (int i * 10 ^ 9) (?s\<lparr>se_clock := ?t\<rparr>))"
    by (intro scenarios_ok_tick) simp_all
  then show ?case unfolding run_ticks_Suc tick_at_def Let_def t unfolding e .
qed


text \<open>C7: A rolling deployment keeps to its schedule.  In a finished run the j-th drain was not made
  before trigger plus j stagger intervals, at most the configured number of nodes were drained, each
  of them is down and, if it is an initial node, renewed no lease since; a drained node has its
  replacement exactly when the replacement delay is over; every replacement added one node; and a
  scenario of another type did nothing.
\<close>

theorem rolling_schedule:
  assumes "NewSimulationEngine source t0 now cfg = Inr se0" and "k < length (sim_Scenarios cfg)"
    and "se = snd (Run se0)" and "sc = se_activeScenarios se ! k" and "conf = sim_Scenarios cfg ! k"
  shows "length (as_drainedNodes sc) \<le> nat (sc_NodeCount conf)
    \<and> (sc_Type conf \<noteq> ''rolling_deployment'' \<longrightarrow> as_drainedNodes sc = [])
    \<and> (\<forall>j < length (as_drainedNodes sc). let di = as_drainedNodes sc ! j in
          now + due_at conf j \<le> di_drainTime di
        \<and> (di_replaced di \<longleftrightarrow> di_drainTime di + sc_ReplacementDelay conf \<le> se_clock se)
        \<and> (\<exists>n \<in> set (se_nodes se). sn_Name n = di_nodeName di \<and> sn_Status n = ''NotReady''
             \<and> sn_NotReadyCause n = CauseDrain
             \<and> ((\<exists>i. sn_Name n = node_name i) \<longrightarrow>
                  (\<forall>l \<in> set (sn_LeaseHistory n). le_Timestamp l < di_drainTime di))))
    \<and> length (se_nodes se) = length (se_nodes se0) + replaced_count se"
proof -
  note ne = new_engine [OF assms(1)]
  have se: "se = run_ticks (tick_count se0) se0" using assms(3) Run_ticks(1) [OF assms(1)] by simp
  have scens: "sim_Scenarios (se_config se0) = sim_Scenarios cfg" using validated_shape(7) [OF ne(1)] .
  have l0: "length (se_activeScenarios se0) = length (sim_Scenarios cfg)" using ne(4) scens by simp
  have cf: "map as_config (se_activeScenarios se) = sim_Scenarios cfg"
    unfolding se run_configs ne(4) scens by (simp add: new_activeScenario_def comp_def)
  then have k: "k < length (se_activeScenarios se)" using assms(2) by (metis length_map)
  have conf: "as_config sc = conf" using cf k assms(4,5) by (metis nth_map)
  have ok: "scenario_ok now (se_clock se) (se_nodes se) sc"
    using run_scenarios_ok [OF assms(1) order_refl] k assms(4) unfolding se scenarios_ok_def by simp
  have st: "all_settled se k"
    using run_settled [of k se0] assms(2) l0 unfolding se tick_count_def by simp
  have z: "replaced_count se0 = 0" by (simp add: replaced_count_def ne(4) new_activeScenario_def comp_def)
  have item: "now + due_at conf j \<le> di_drainTime di
        \<and> (di_replaced di \<longleftrightarrow> di_drainTime di + sc_ReplacementDelay conf \<le> se_clock se)
        \<and> (\<exists>n \<in> set (se_nodes se). sn_Name n = di_nodeName di \<and> sn_Status n = ''NotReady''
             \<and> sn_NotReadyCause n = CauseDrain
             \<and> ((\<exists>i. sn_Name n = node_name i) \<longrightarrow>
                  (\<forall>l \<in> set (sn_LeaseHistory n). le_Timestamp l < di_drainTime di)))"
    if j: "j < length (as_drainedNodes sc)" and di: "di = as_drainedNodes sc ! j" for j di
  proof -
    have d: "drain_ok now (se_clock se) (se_nodes se) conf j di"
      using ok j di conf by (simp add: scenario_ok_def)
    have "sc_Type conf = ''rolling_deployment''" using ok j conf by (auto simp: scenario_ok_def)
    then have "di_replaced di \<or> se_clock se < di_replacementAt di"
      using st j di conf assms(4) by (simp add: all_settled_def settled_def Let_def)
    then show ?thesis using d by (auto simp: drain_ok_def drained_down_def algebra_simps)
  qed
  have n: "length (se_nodes se) = length (se_nodes se0) + replaced_count se"
    unfolding se by (rule run_node_count [OF z])
  have c: "length (as_drainedNodes sc) \<le> nat (sc_NodeCount conf)"
    and t: "sc_Type conf \<noteq> ''rolling_deployment'' \<longrightarrow> as_drainedNodes sc = []"
    using ok conf by (simp_all add: scenario_ok_def)
  show ?thesis unfolding Let_def
    by (rule conjI [OF c conjI [OF t conjI [OF _ n]]]) (intro allI impI, rule item [OF _ refl])
qed

text \<open>C35: The drain loop of a deployment ends, and when it does either no further drain is due or no
  node is left that could be drained; what it did is a sequence of single drains, each of the first
  node that could be drained.
\<close>

theorem drain_loop_terminates:
  assumes "sc_Type (as_config (se_activeScenarios se ! k)) = ''rolling_deployment''"
  shows "rtranclp (scenario_change elapsed) se (drain_loop elapsed k se)
    \<and> (\<not> scenario_due elapsed k (drain_loop elapsed k se)
       \<or> (\<forall>n \<in> set (se_nodes (drain_loop elapsed k se)). \<not> drainable (drain_loop elapsed k se) n))"
  using drain_loop_changes [OF assms] drain_loop_done by blast

section \<open>Witnesses\<close>

text \<open>A deployment that drains one node at once and replaces it without delay.\<close>

definition demo_scenario :: ScenarioConfig where
  "demo_scenario = \<lparr>sc_Type = ''rolling_deployment'', sc_TriggerAt = 0, sc_NodeCount = 1,
     sc_StaggerInterval = 0, sc_ReplacementDelay = 0\<rparr>"

lemma demo_replaced:
  "map (\<lambda>sc. map di_replaced (as_drainedNodes sc))
     (se_activeScenarios (run_ticks 2 (demo_engine [demo_scenario]))) = [[True]]"
  by code_simp

lemma demo_scenario_ticks: "tick_count (demo_engine [demo_scenario]) = 2"
  by code_simp

theorem rolling_schedule_witness:
  "\<exists>di n. as_drainedNodes (se_activeScenarios (snd (Run (demo_engine [demo_scenario]))) ! 0) = [di]
    \<and> di_replaced di \<and> n \<in> set (se_nodes (snd (Run (demo_engine [demo_scenario]))))
    \<and> sn_Name n = di_nodeName di \<and> sn_Status n = ''NotReady'' \<and> sn_NotReadyCause n = CauseDrain"
proof -
  let ?e = "demo_engine [demo_scenario]"
  have "map (\<lambda>sc. map di_replaced (as_drainedNodes sc)) (se_activeScenarios (snd (Run ?e))) = [[True]]"
    by (simp add: Run_ticks(1) [OF demo_new] demo_scenario_ticks demo_replaced)
  then obtain di where di: "as_drainedNodes (se_activeScenarios (snd (Run ?e)) ! 0) = [di]" "di_replaced di"
    by (auto simp: map_eq_Cons_conv)
  then show ?thesis
    using rolling_schedule [OF demo_new _ refl refl refl, of 0 "[demo_scenario]"]
    by (auto simp: demo_config_def demo_scenario_def Let_def)
qed

lemma drained_nodes_stay_down_witness:
  "drain_node (demo_engine []) demo_node \<in> set (se_nodes (run_ticks 2
     ((demo_engine [])\<lparr>se_nodes := [drain_node (demo_engine []) demo_node]\<rparr>)))"
  by (rule drained_nodes_stay_down [where i = 0]) (simp_all add: run_ticks_0 drain_node_def)

theorem drain_loop_terminates_witness:
  "\<not> (scenario_due 0 0 (drain_loop 0 0 (demo_engine [demo_scenario]))
      \<and> list_ex (drainable (drain_loop 0 0 (demo_engine [demo_scenario])))
          (se_nodes (drain_loop 0 0 (demo_engine [demo_scenario]))))"
proof -
  have "sc_Type (as_config (se_activeScenarios (demo_engine [demo_scenario]) ! 0)) = ''rolling_deployment''"
    using new_engine(4) [OF demo_new, of "[demo_scenario]"] validated_shape(7) [OF new_engine(1) [OF demo_new]]
    by (simp add: demo_config_def demo_scenario_def new_activeScenario_def)
  from drain_loop_terminates [OF this, of 0] show ?thesis by (auto simp: list_ex_iff)
qed

end
