(* ===== verification/SimulationFiles.thy ===== *)
theory SimulationFiles
  imports SimulationOutput
begin

text \<open>
  The output files partition the leases and the kernel events.
\<close>

section \<open>Output files\<close>

lemma num_files_pos: "1 \<le> num_files se"
  by (simp add: num_files_def Let_def)

lemma file_index_range: "file_index se ts < nat (num_files se)"
  using num_files_pos [of se] by (auto simp: file_index_def Let_def)

lemma file_names_length [simp]: "length (file_names pre se) = nat (num_files se)"
  by (simp add: file_names_def)

text \<open>
  Distributing a list over files, one element at a time, gives each file the elements of its index
  in their order.
\<close>

lemma foldl_place_length: "length (foldl (\<lambda>fs x. fs[idx x := g x (fs ! idx x)]) fs xs) = length fs"
  by (induction xs arbitrary: fs) simp_all

lemma foldl_place:
  assumes "i < length fs" and "\<forall>x \<in> set xs. idx x < length fs"
  shows "foldl (\<lambda>fs x. fs[idx x := g x (fs ! idx x)]) fs xs ! i =
         foldl (\<lambda>f x. g x f) (fs ! i) (filter (\<lambda>x. idx x = i) xs)"
  using assms by (induction xs arbitrary: fs) (auto simp: nth_list_update)

lemma place_lease_eq:
  "place_lease se = (\<lambda>fs l. fs[file_index se (le_Timestamp l) :=
     add_point (le_Namespace l) (le_Timestamp l) (fs ! file_index se (le_Timestamp l))])"
  by (intro ext) (simp add: place_lease_def Let_def)

lemma place_event_eq:
  "place_event se = (\<lambda>fs e. fs[file_index se (be_Timestamp e) :=
     (\<lambda>e f. f\<lparr>ef_Events := ef_Events f @ [e]\<rparr>) e (fs ! file_index se (be_Timestamp e))])"
  by (intro ext) (simp add: place_event_def Let_def)

definition lease_points :: "LeaseEvent list \<Rightarrow> LeasePoint list" where
  "lease_points ls =
     map (\<lambda>(x, l). \<lparr>lp_X = int x, lp_Y = UnixMilli_of (le_Timestamp l)\<rparr>) (enumerate 0 ls)"

lemma lease_points_snoc:
  "lease_points (ls @ [l]) = lease_points ls @ [\<lparr>lp_X = int (length ls), lp_Y = UnixMilli_of (le_Timestamp l)\<rparr>]"
  by (simp add: lease_points_def enumerate_append_eq)

lemma lease_points_Nil [simp]: "lease_points [] = []"
  by (simp add: lease_points_def)

lemma lease_points_length [simp]: "length (lease_points ls) = length ls"
  by (simp add: lease_points_def)

lemma add_points_spec:
  "lf_Data (foldl (\<lambda>f l. add_point (le_Namespace l) (le_Timestamp l) f)
              \<lparr>lf_Filename = name, lf_Data = Map.empty\<rparr> ls) ns =
   (let ms = filter (\<lambda>l. le_Namespace l = ns) ls in if ms = [] then None else Some (lease_points ms))"
proof (induction ls rule: rev_induct)
  case (snoc l ls)
  then show ?case by (auto simp: add_point_def Let_def lease_points_snoc)
qed simp

lemma add_points_name:
  "lf_Filename (foldl (\<lambda>f l. add_point (le_Namespace l) (le_Timestamp l) f) f ls) = lf_Filename f"
  by (induction ls arbitrary: f) (simp_all add: add_point_def Let_def)

lemma add_events_spec:
  "foldl (\<lambda>f e. f\<lparr>ef_Events := ef_Events f @ [e]\<rparr>) f es = f\<lparr>ef_Events := ef_Events f @ es\<rparr>"
  by (induction es arbitrary: f) simp_all

lemma SegmentLeaseFiles_nth:
  assumes "i < nat (num_files se)"
  shows "SegmentLeaseFiles se ! i = foldl (\<lambda>f l. add_point (le_Namespace l) (le_Timestamp l) f)
           \<lparr>lf_Filename = file_names ''leases'' se ! i, lf_Data = Map.empty\<rparr>
           (filter (\<lambda>l. file_index se (le_Timestamp l) = i) (all_leases se))"
  unfolding SegmentLeaseFiles_def place_lease_eq
  using assms file_index_range by (subst foldl_place) simp_all

lemma SegmentLeaseFiles_length: "length (SegmentLeaseFiles se) = nat (num_files se)"
  unfolding SegmentLeaseFiles_def place_lease_eq by (subst foldl_place_length) simp

lemma SegmentEbpfFiles_length: "length (SegmentEbpfFiles se) = nat (num_files se)"
  unfolding SegmentEbpfFiles_def place_event_eq by (subst foldl_place_length) simp

lemma SegmentEbpfFiles_nth:
  assumes "i < nat (num_files se)"
  shows "SegmentEbpfFiles se ! i = \<lparr>ef_Filename = file_names ''ebpf-leases'' se ! i,
    ef_Events = filter (\<lambda>e. file_index se (be_Timestamp e) = i) (all_events se)\<rparr>"
  unfolding SegmentEbpfFiles_def place_event_eq
  using assms file_index_range by (subst foldl_place) (simp_all add: add_events_spec)

lemma segment_names:
  "map lf_Filename (SegmentLeaseFiles se) = file_names ''leases'' se"
  "map ef_Filename (SegmentEbpfFiles se) = file_names ''ebpf-leases'' se"
  by (rule nth_equalityI; simp add: SegmentLeaseFiles_length SegmentEbpfFiles_length
        SegmentLeaseFiles_nth SegmentEbpfFiles_nth add_points_name)+

text \<open>
  The windows: \<open>n\<close> in a row from the start, the first also for what is earlier and the last for what is
  later.
\<close>

definition in_window :: "Time \<Rightarrow> Duration \<Rightarrow> nat \<Rightarrow> nat \<Rightarrow> Time \<Rightarrow> bool" where
  "in_window start w n i ts \<longleftrightarrow> i < n \<and> (0 < i \<longrightarrow> start + int i * w \<le> ts) \<and> (Suc i < n \<longrightarrow> ts < start + int (Suc i) * w)"

lemma in_window_quotient:
  assumes "0 < w" and "0 < n"
  shows "in_window start w n i ts \<longleftrightarrow> i = nat (min (int n - 1) (max 0 ((ts - start) div w)))"
proof -
  let ?q = "(ts - start) div w"
  have lo: "start + k * w \<le> ts \<longleftrightarrow> k \<le> ?q" for k
  proof -
    have "k \<le> ?q \<longleftrightarrow> k * w \<le> ts - start"
    proof
      assume "k \<le> ?q"
      then have "k * w \<le> ?q * w" using assms(1) by (intro mult_right_mono) simp_all
      also have "\<dots> \<le> ts - start"
        using div_mult_mod_eq [of "ts - start" w] pos_mod_sign [OF assms(1), of "ts - start"] by linarith
      finally show "k * w \<le> ts - start" .
    next
      assume "k * w \<le> ts - start"
      then have "k * w div w \<le> ?q" using assms(1) by (intro zdiv_mono1)
      then show "k \<le> ?q" using assms(1) by simp
    qed
    then show ?thesis by linarith
  qed
  then have hi: "ts < start + k * w \<longleftrightarrow> ?q < k" for k by (meson linorder_not_le)
  show ?thesis unfolding in_window_def lo hi using assms(2) by auto
qed

text \<open>The number of files is the duration by the window, rounded up, also as the code computes it in floating point.\<close>

lemma num_files_ceiling:
  assumes "0 < sim_FileSegmentWindow (se_config se)" and "0 < sim_Duration (se_config se)"
    and "sim_Duration (se_config se) < 2 ^ 53" and "sim_FileSegmentWindow (se_config se) \<le> 2 ^ 53"
  shows "(num_files se - 1) * sim_FileSegmentWindow (se_config se) < sim_Duration (se_config se)"
    and "sim_Duration (se_config se) \<le> num_files se * sim_FileSegmentWindow (se_config se)"
proof -
  let ?w = "sim_FileSegmentWindow (se_config se)" and ?d = "sim_Duration (se_config se)"
  define n where "n = \<lceil>of_int ?d / of_int ?w :: rat\<rceil>"
  have q: "0 < (of_int ?d / of_int ?w :: rat)" "(of_int ?d / of_int ?w :: rat) \<le> of_int ?d"
    using assms by (simp_all add: pos_divide_le_eq)
  have n: "1 \<le> n" "n \<le> ?d" using q unfolding n_def by (simp_all add: ceiling_le_iff)
  have "fl (of_int ?w) = of_int ?w"
  proof (cases "?w = 2 ^ 53")
    case True
    have "fl (of_int 1 * pow2 53) = of_int 1 * pow2 53" by (rule fl_exact) simp_all
    then show ?thesis unfolding True by (simp add: pow2_def)
  next
    case False
    with assms(1,4) show ?thesis by (intro fl_of_int) simp
  qed
  then have "\<lceil>fl (f64_of_i64 ?d / f64_of_i64 ?w)\<rceil> = n"
    using fl_ceiling_div [OF assms(2,3,1,4)] assms(2,3) by (simp add: f64_of_i64_def fl_of_int n_def)
  then have "num_files se = n" using n assms(3) by (simp add: num_files_def i64_of_f64_def trunc_def i64_defs)
  moreover have "of_int n - 1 < (of_int ?d / of_int ?w :: rat)" "(of_int ?d / of_int ?w :: rat) \<le> of_int n"
    unfolding n_def by linarith+
  then have "of_int ((n - 1) * ?w) < (of_int ?d :: rat)" "of_int ?d \<le> (of_int (n * ?w) :: rat)"
    using assms(1) by (simp_all add: pos_less_divide_eq pos_divide_le_eq)
  ultimately show "(num_files se - 1) * ?w < ?d" "?d \<le> num_files se * ?w"
    by (simp_all only: of_int_less_iff of_int_le_iff)
qed

text \<open>Whatever the instant, the code's index is that of its window.\<close>

lemma file_index_in_window:
  assumes w: "0 < sim_FileSegmentWindow (se_config se)" and small: "num_files se * sim_FileSegmentWindow (se_config se) < 2 ^ 63"
  shows "in_window (se_startTime se) (sim_FileSegmentWindow (se_config se)) (nat (num_files se)) i ts \<longleftrightarrow> file_index se ts = i"
proof -
  let ?w = "sim_FileSegmentWindow (se_config se)" and ?e = "ts - se_startTime se"
  define q where "q = i64 (go_div (time_Sub ts (se_startTime se)) ?w)"
  have n: "1 \<le> num_files se" by (rule num_files_pos)
  have sub: "time_Sub ts (se_startTime se) = max i64_min (min i64_max ?e)" by (simp add: time_Sub_def)
  have clip: "min (num_files se - 1) (max 0 q) = min (num_files se - 1) (max 0 (?e div ?w))"
  proof (cases "0 \<le> ?e")
    case False
    then have "?e div ?w < 0" using w by (simp add: div_neg_pos_less0)
    moreover have "q \<le> 0"
    proof -
      have s: "time_Sub ts (se_startTime se) < 0" "i64_min \<le> time_Sub ts (se_startTime se)"
        using False by (auto simp: sub i64_defs)
      then have g: "go_div (time_Sub ts (se_startTime se)) ?w = - (- time_Sub ts (se_startTime se) div ?w)"
        using w by (simp add: go_div_def)
      have "0 \<le> - time_Sub ts (se_startTime se) div ?w" "- time_Sub ts (se_startTime se) div ?w \<le> - time_Sub ts (se_startTime se)"
        using s w zdiv_mono2 [of "- time_Sub ts (se_startTime se)" 1 ?w] by (simp_all add: pos_imp_zdiv_nonneg_iff)
      then show ?thesis using s(2) unfolding q_def g by (auto simp: i64_defs)
    qed
    ultimately show ?thesis using n by simp
  next
    case True
    have d: "0 \<le> time_Sub ts (se_startTime se)" "time_Sub ts (se_startTime se) \<le> i64_max" using True by (auto simp: sub i64_defs)
    then have "0 \<le> time_Sub ts (se_startTime se) div ?w" "time_Sub ts (se_startTime se) div ?w \<le> time_Sub ts (se_startTime se)"
      using w zdiv_mono2 [of "time_Sub ts (se_startTime se)" 1 ?w] by (simp_all add: pos_imp_zdiv_nonneg_iff)
    then have q: "q = time_Sub ts (se_startTime se) div ?w"
      using d w by (auto simp: q_def go_div_pos i64_defs)
    show ?thesis
    proof (cases "?e \<le> i64_max")
      case True
      with \<open>0 \<le> ?e\<close> show ?thesis by (simp add: q sub i64_defs)
    next
      case False
      then have s: "time_Sub ts (se_startTime se) = i64_max" by (simp add: sub i64_defs)
      have "(num_files se - 1) * ?w \<le> i64_max" using small w by (simp add: algebra_simps i64_defs)
      then have "num_files se - 1 \<le> i64_max div ?w" using zdiv_mono1 [OF _ w, of "(num_files se - 1) * ?w" i64_max] w by simp
      moreover have "i64_max div ?w \<le> ?e div ?w" using False w by (intro zdiv_mono1) simp_all
      ultimately show ?thesis by (simp add: q s)
    qed
  qed
  have "file_index se ts = nat (min (num_files se - 1) (max 0 q))"
    using n unfolding file_index_def q_def [symmetric] Let_def by (auto simp: min_def max_def)
  with n show ?thesis by (subst in_window_quotient [OF w]) (auto simp: clip)
qed

text \<open>C20: The lease files partition the leases by time.  There are as many files as windows are needed to cover the
  duration; each is named after the start of its window, and the manifest lists the names in order.  Every lease
  belongs to exactly one window, the first one also holding what is earlier and the last one what is later, and
  under each namespace a file lists exactly the leases of that namespace in its window, in the order of the
  nodes, numbered from 0, with their time in milliseconds; a namespace without such a lease is absent.  The window is
  positive and at most 104 days, the bound below which its float is exact, and the duration is positive and at most the seven
  days that a configuration may ask for.\<close>

theorem lease_files_partition:
  assumes w: "w = sim_FileSegmentWindow (se_config se)" "0 < w" "w \<le> 2 ^ 53" and start: "start = se_startTime se"
    and d: "0 < sim_Duration (se_config se)" "sim_Duration (se_config se) \<le> maxSimulationDuration"
    and files: "files = SegmentLeaseFiles se" "n = length files"
  shows "(int n - 1) * w < sim_Duration (se_config se) \<and> sim_Duration (se_config se) \<le> int n * w
    \<and> map lf_Filename files = map (\<lambda>i. ''leases'' @ format_compact (start + int i * w) @ ''.json'') [0..<n]
    \<and> GenerateLeaseManifest files = map lf_Filename files
    \<and> (\<forall>ts. \<exists>!i. in_window start w n i ts)
    \<and> (\<forall>i < n. \<forall>ns. lf_Data (files ! i) ns =
         (let ls = filter (\<lambda>l. in_window start w n i (le_Timestamp l) \<and> le_Namespace l = ns)
                     (concat (map sn_LeaseHistory (se_nodes se)))
          in if ls = [] then None
             else Some (map (\<lambda>(x, l). \<lparr>lp_X = int x, lp_Y = UnixMilli_of (le_Timestamp l)\<rparr>) (enumerate 0 ls))))
    \<and> (\<forall>ts. 0 \<le> ts \<longrightarrow> ts < 2 ^ 63 \<longrightarrow> UnixMilli_of ts = ts div 10 ^ 6)"
proof -
  have n: "int n = num_files se" "n = nat (num_files se)"
    using num_files_pos [of se] by (simp_all add: files SegmentLeaseFiles_length)
  have dur: "sim_Duration (se_config se) < 2 ^ 53" using d(2) by (simp add: maxSimulationDuration_def Hour_def)
  have win: "(int n - 1) * w < sim_Duration (se_config se)" "sim_Duration (se_config se) \<le> int n * w"
    using num_files_ceiling [OF _ d(1) dur] w by (simp_all add: n(1))
  have small: "num_files se * w < 2 ^ 63" using win(1) dur w(3) by (simp add: algebra_simps n(1))
  have idx: "in_window start w n i ts \<longleftrightarrow> file_index se ts = i" for i ts
    unfolding w(1) start n(2) by (rule file_index_in_window) (use w small in simp_all)
  have at: "window_start se (int i) = start + int i * w" if "i < n" for i
  proof -
    have "int i * w \<le> (int n - 1) * w" using that w(2) by (intro mult_right_mono) linarith+
    then have "int i * w < 2 ^ 53" using win(1) dur by linarith
    moreover have "0 \<le> int i * w" using w(2) by simp
    ultimately show ?thesis by (simp add: window_start_def time_Add_def dur_mul_def i64_defs start flip: w(1))
  qed
  have names: "map lf_Filename files = map (\<lambda>i. ''leases'' @ format_compact (start + int i * w) @ ''.json'') [0..<n]"
    unfolding files(1) segment_names(1) by (simp add: file_names_def at flip: n(2))
  have data: "lf_Data (files ! i) ns =
      (let ls = filter (\<lambda>l. in_window start w n i (le_Timestamp l) \<and> le_Namespace l = ns)
                  (concat (map sn_LeaseHistory (se_nodes se)))
       in if ls = [] then None
          else Some (map (\<lambda>(x, l). \<lparr>lp_X = int x, lp_Y = UnixMilli_of (le_Timestamp l)\<rparr>) (enumerate 0 ls)))"
    if "i < n" for i ns
    using that unfolding idx
    by (simp add: files(1) n(2) SegmentLeaseFiles_nth add_points_spec conj_commute all_leases_def lease_points_def Let_def)
  have one: "\<exists>!i. in_window start w n i ts" for ts unfolding idx by simp
  have milli: "UnixMilli_of ts = ts div 10 ^ 6" if "0 \<le> ts" "ts < 2 ^ 63" for ts
    using that by (simp add: UnixMilli_of_def go_div_pos Millisecond_def i64_defs)
  have manifest: "GenerateLeaseManifest files = map lf_Filename files" by (simp add: GenerateLeaseManifest_def)
  show ?thesis by (intro conjI allI impI win names manifest one data milli)
qed

text \<open>
  The event files hold every kernel event exactly once: the i-th file is the list of the events
  of the i-th window, in order.
\<close>

lemma event_files_partition:
  shows "map ef_Filename (SegmentEbpfFiles se) = file_names ''ebpf-leases'' se
    \<and> (\<forall>i < length (SegmentEbpfFiles se).
         ef_Events (SegmentEbpfFiles se ! i) =
           filter (\<lambda>e. file_index se (be_Timestamp e) = i) (all_events se))
    \<and> sum_list (map (\<lambda>f. length (ef_Events f)) (SegmentEbpfFiles se)) = length (all_events se)"
proof -
  let ?fs = "SegmentEbpfFiles se" and ?n = "nat (num_files se)"
  note len = SegmentEbpfFiles_length [of se] and nth = SegmentEbpfFiles_nth [of _ se]
  have "map (\<lambda>f. length (ef_Events f)) ?fs =
      map (\<lambda>i. length (filter (\<lambda>e. file_index se (be_Timestamp e) = i) (all_events se))) [0..<?n]"
    by (rule nth_equalityI) (simp_all add: len nth)
  moreover have "sum_list (map (\<lambda>i. length (filter (\<lambda>e. idx e = i) es)) [0..<n]) = length es"
    if "\<forall>e \<in> set es. idx e < n" for idx :: "SimEbpfEvent \<Rightarrow> nat" and es n
    using that
  proof (induction es)
    case (Cons e es)
    have "sum_list (map (\<lambda>i. length (filter (\<lambda>e. idx e = i) (e # es))) [0..<n]) =
        sum_list (map (\<lambda>i. (if i = idx e then 1 else 0) + length (filter (\<lambda>e. idx e = i) es)) [0..<n])"
      by (intro arg_cong [where f = sum_list] map_cong) auto
    also have "\<dots> = sum_list (map (\<lambda>i. if i = idx e then 1 else 0) [0..<n]) + length es"
      using Cons by (simp add: sum_list_addf)
    also have "sum_list (map (\<lambda>i. if i = idx e then 1 else 0) [0..<n]) = (1::nat)"
      using Cons.prems by (simp add: interv_sum_list_conv_sum_set_nat)
    finally show ?case by simp
  qed simp
  ultimately have "sum_list (map (\<lambda>f. length (ef_Events f)) ?fs) = length (all_events se)"
    using file_index_range [of se] by simp
  then show ?thesis using segment_names(2) [of se] by (simp add: len nth)
qed

section \<open>A sample\<close>

text \<open>One node with one lease, five milliseconds after the start of a window of five minutes.\<close>

definition files_demo :: SimulationEngine where
  "files_demo =
    \<lparr>se_config = \<lparr>sim_NodeCount = 1, sim_Duration = Second, sim_BaseInterval = 0, sim_JitterStdDev = 0,
       sim_FileSegmentWindow = 5 * Minute, sim_NamespaceRatios = [], sim_NamespaceProfiles = [],
       sim_Scenarios = [], sim_MaxDriftIncrease = 0, sim_Seed = 1\<rparr>,
     se_nodes = [append_lease (5 * Millisecond) (new_node (node_name 0) ''prod'' ProfileNormal Second)],
     se_clock = 0, se_startTime = 0, se_rng = \<lparr>raw = [], normal = []\<rparr>, se_scenarios = [],
     se_activeScenarios = [], se_nextNodeID = 1\<rparr>"

theorem lease_files_partition_witness:
  "lf_Data (SegmentLeaseFiles files_demo ! 0) ''prod'' = Some [\<lparr>lp_X = 0, lp_Y = 5\<rparr>]"
proof -
  have ls: "concat (map sn_LeaseHistory (se_nodes files_demo)) =
      [\<lparr>le_Timestamp = 5 * Millisecond, le_NodeName = node_name 0, le_Namespace = ''prod''\<rparr>]"
    by (simp add: files_demo_def append_lease_def new_node_def)
  have cfg: "sim_FileSegmentWindow (se_config files_demo) = 5 * Minute" "sim_Duration (se_config files_demo) = Second"
    "se_startTime files_demo = 0" by (simp_all add: files_demo_def)
  define n where "n = length (SegmentLeaseFiles files_demo)"
  have n: "(int n - 1) * (5 * Minute) < Second" "Second \<le> int n * (5 * Minute)"
    "\<forall>i < n. \<forall>ns. lf_Data (SegmentLeaseFiles files_demo ! i) ns =
       (let ls = filter (\<lambda>l. in_window 0 (5 * Minute) n i (le_Timestamp l) \<and> le_Namespace l = ns)
                   (concat (map sn_LeaseHistory (se_nodes files_demo)))
        in if ls = [] then None
           else Some (map (\<lambda>(x, l). \<lparr>lp_X = int x, lp_Y = UnixMilli_of (le_Timestamp l)\<rparr>) (enumerate 0 ls)))"
    using lease_files_partition [of "5 * Minute" files_demo 0 _ n, OF _ _ _ _ _ _ refl] unfolding cfg n_def
    by (simp_all add: Minute_def Second_def maxSimulationDuration_def Hour_def)
  have "n = 1" using n(1,2) by (simp add: Minute_def Second_def)
  moreover have "UnixMilli_of (5 * Millisecond) = 5"
    by (simp add: UnixMilli_of_def Millisecond_def i64_def go_div_def)
  ultimately show ?thesis using n(3) ls by (simp add: in_window_def Let_def)
qed

end
