(* ===== verification/KubeMonitor.thy ===== *)
theory KubeMonitor
  imports GoRand GoTime WireBytes
begin

text \<open>
  The Kubernetes side of the repository: pod metadata and its correlation with cgroup paths
  (\<^verbatim>\<open>lease_monitor.go\<close>, \<^verbatim>\<open>handle_ebpf.go\<close>), the watch loops of \<^verbatim>\<open>monitor.go\<close>, and the mock nodes and
  events of \<^verbatim>\<open>mock_ebpf.go\<close>.  What the API server answers, and the objects it sends on a watch, are
  arguments; lines that are printed are values.
\<close>

section \<open>Pods and their cgroups\<close>

record PodInfo =
  po_PodName :: string
  po_Namespace :: string
  po_NodeName :: string
  po_ContainerIDs :: "string list"
  po_CgroupPaths :: "string list"

text \<open>What the list call returns of a pod.\<close>

record ApiPod =
  ap_Name :: string
  ap_Namespace :: string
  ap_NodeName :: string
  ap_ContainerIDs :: "string list"

text \<open>\<^verbatim>\<open>strings.Split\<close> with a non-empty separator.\<close>

function split_str :: "string \<Rightarrow> string \<Rightarrow> string \<Rightarrow> string list" where
  "split_str sep acc s =
    (if sep = [] then [acc @ s]
     else if s = [] then [acc]
     else if take (length sep) s = sep then acc # split_str sep [] (drop (length sep) s)
     else split_str sep (acc @ [hd s]) (tl s))"
  by pat_completeness auto
termination
  by (relation "measure (\<lambda>(sep, acc, s). length s)") auto

declare split_str.simps [simp del]

definition container_ids :: "string list \<Rightarrow> string list" where
  "container_ids statuses =
     concat (map (\<lambda>id. let parts = split_str ''://'' [] id
                       in if length parts = 2 then [parts ! 1] else []) statuses)"

definition cgroup_path :: "string \<Rightarrow> string" where
  "cgroup_path cid = ''/sys/fs/cgroup/kubepods/'' @ cid"

definition pod_info :: "ApiPod \<Rightarrow> PodInfo" where
  "pod_info pod =
    (let containerIDs = container_ids (ap_ContainerIDs pod)
     in \<lparr>po_PodName = ap_Name pod, po_Namespace = ap_Namespace pod, po_NodeName = ap_NodeName pod,
         po_ContainerIDs = containerIDs, po_CgroupPaths = map cgroup_path containerIDs\<rparr>)"

datatype kube_error = ListPodsError string | ListNodesError string

definition ListPodsWithContainerInfo :: "string + ApiPod list \<Rightarrow> kube_error + PodInfo list" where
  "ListPodsWithContainerInfo answer =
    (case answer of Inl err \<Rightarrow> Inl (ListPodsError err) | Inr pods \<Rightarrow> Inr (map pod_info pods))"

definition ListNodes :: "string + string list \<Rightarrow> kube_error + string list" where
  "ListNodes answer = (case answer of Inl err \<Rightarrow> Inl (ListNodesError err) | Inr names \<Rightarrow> Inr names)"

fun CorrelateEBPFEvent :: "PodInfo list \<Rightarrow> string \<Rightarrow> PodInfo option" where
  "CorrelateEBPFEvent [] cgroupPath = None"
| "CorrelateEBPFEvent (pod # pods) cgroupPath =
    (if list_ex (\<lambda>cg. cg = cgroupPath) (po_CgroupPaths pod) then Some pod
     else CorrelateEBPFEvent pods cgroupPath)"

record HeartbeatData =
  hd_PID :: "32 word"
  hd_PPID :: "32 word"
  hd_Comm :: string
  hd_CgroupPath :: string
  hd_Timestamp :: "64 word"

datatype printed_line =
    HeartbeatForPod string string string Time
  | UnmatchedHeartbeat "32 word" string string Time

definition handleEBPFHeartbeat :: "HeartbeatData \<Rightarrow> PodInfo list \<Rightarrow> printed_line" where
  "handleEBPFHeartbeat event podInfos =
    (let ts = sint (hd_Timestamp event)
     in case CorrelateEBPFEvent podInfos (hd_CgroupPath event) of
          Some pod \<Rightarrow> HeartbeatForPod (po_PodName pod) (po_Namespace pod) (po_NodeName pod) ts
        | None \<Rightarrow> UnmatchedHeartbeat (hd_PID event) (hd_Comm event) (hd_CgroupPath event) ts)"

section \<open>Watches\<close>

datatype watch_type = WatchAdded | WatchModified | WatchDeleted | WatchOther

text \<open>The object of an event, by its dynamic type.\<close>

datatype watch_object =
    PodObject string string
  | LeaseObject string string
  | OtherObject

text \<open>What a watch loop does, in order: lines for the log and values for the heartbeat channel.\<close>

datatype monitor_output =
    PrintName string
  | LogPod string
  | LogDeleted string
  | LogUnexpected
  | SendHeartbeat string
  | LogSent string

definition handleHeartbeat :: "watch_object \<Rightarrow> monitor_output list" where
  "handleHeartbeat obj =
    (case obj of
       PodObject name phase \<Rightarrow>
         (let heartbeatData = ''Pod: '' @ name @ '', Status: '' @ phase
          in [SendHeartbeat heartbeatData, LogSent heartbeatData])
     | _ \<Rightarrow> [LogUnexpected])"

definition object_name :: "watch_object \<Rightarrow> string option" where
  "object_name obj =
    (case obj of PodObject name _ \<Rightarrow> Some name | LeaseObject name _ \<Rightarrow> Some name | OtherObject \<Rightarrow> None)"

text \<open>The goroutine of \<^verbatim>\<open>StartMonitoring\<close>: it ends at the first added or modified object that is no pod.\<close>

fun pod_watch_loop :: "(watch_type \<times> watch_object) list \<Rightarrow> monitor_output list" where
  "pod_watch_loop [] = []"
| "pod_watch_loop ((ty, obj) # rest) =
    (if ty = WatchAdded \<or> ty = WatchModified then
       (case obj of
          PodObject name phase \<Rightarrow>
            [PrintName name, LogPod name] @ handleHeartbeat obj @ pod_watch_loop rest
        | _ \<Rightarrow> [LogUnexpected])
     else if ty = WatchDeleted then
       (case object_name obj of Some name \<Rightarrow> [LogDeleted name] | None \<Rightarrow> [LogUnexpected])
       @ pod_watch_loop rest
     else pod_watch_loop rest)"

text \<open>The goroutine of \<^verbatim>\<open>WatchLeaseHeartbeats\<close> skips what is no lease, whatever the event's type.\<close>

fun lease_watch_loop :: "watch_object list \<Rightarrow> monitor_output list" where
  "lease_watch_loop [] = []"
| "lease_watch_loop (obj # rest) =
    (case obj of
       LeaseObject name renewTime \<Rightarrow>
         (let heartbeatData = ''Node: '' @ name @ '', Lease RenewTime: '' @ renewTime
          in [SendHeartbeat heartbeatData, LogSent heartbeatData]) @ lease_watch_loop rest
     | _ \<Rightarrow> LogUnexpected # lease_watch_loop rest)"

definition mockNamespaces :: "string list" where
  "mockNamespaces = [''default'', ''kube-system'', ''earthworm-monitoring'']"

definition ListNamespaces :: "string list" where
  "ListNamespaces = mockNamespaces"

section \<open>Mock data\<close>

record MockNode =
  mn_Name :: string
  mn_LastLease :: Time
  mn_Status :: string

record MockEBPFEvent =
  me_PID :: "32 word"
  me_PPID :: "32 word"
  me_Comm :: "byte list"
  me_CgroupPath :: "byte list"
  me_Timestamp :: "64 word"

fun mock_nodes_from :: "Time \<Rightarrow> nat list \<Rightarrow> Rand \<Rightarrow> MockNode list \<times> Rand" where
  "mock_nodes_from now [] r = ([], r)"
| "mock_nodes_from now (i # is) r =
    (case Intn 10 r of (k, r1) \<Rightarrow>
     case mock_nodes_from now is r1 of (ns, r2) \<Rightarrow>
       (\<lparr>mn_Name = ''node-'' @ pad_int 2 (int i + 1), mn_LastLease = time_Add now (- (k * Second)),
         mn_Status = ''Ready''\<rparr> # ns, r2))"

definition GenerateMockNodes :: "Time \<Rightarrow> Rand \<Rightarrow> MockNode list \<times> Rand" where
  "GenerateMockNodes now r = mock_nodes_from now [0..<50] r"

text \<open>\<^verbatim>\<open>copy\<close> of a string into a zeroed array of n bytes.\<close>

definition byte_field :: "nat \<Rightarrow> string \<Rightarrow> byte list" where
  "byte_field n s = take n (string_bytes s) @ zeros (n - length s)"

definition mock_event :: "Time \<Rightarrow> MockNode list \<Rightarrow> Rand \<Rightarrow> MockEBPFEvent \<times> Rand" where
  "mock_event now nodes r =
    (case Intn (int (length nodes)) r of (i, r1) \<Rightarrow>
     case Intn 5000 r1 of (pid, r2) \<Rightarrow>
     case Intn 5000 r2 of (ppid, r3) \<Rightarrow>
     case Intn 10 r3 of (ago, r4) \<Rightarrow>
       (\<lparr>me_PID = word_of_int (pid + 100), me_PPID = word_of_int (ppid + 100),
         me_Comm = byte_field 16 ''kubelet'',
         me_CgroupPath = byte_field 64 (cgroup_path (mn_Name (nodes ! nat i))),
         me_Timestamp = word_of_int (i64 (time_Add now (- (ago * Second))))\<rparr>, r4))"

fun mock_events :: "Time \<Rightarrow> MockNode list \<Rightarrow> nat \<Rightarrow> Rand \<Rightarrow> MockEBPFEvent list \<times> Rand" where
  "mock_events now nodes 0 r = ([], r)"
| "mock_events now nodes (Suc n) r =
    (case mock_event now nodes r of (e, r1) \<Rightarrow>
     case mock_events now nodes n r1 of (es, r2) \<Rightarrow> (e # es, r2))"

text \<open>\<open>None\<close> is the panic of \<^verbatim>\<open>rand.Intn(0)\<close> without nodes.\<close>

definition GenerateMockEBPFEvents ::
  "Time \<Rightarrow> MockNode list \<Rightarrow> nat \<Rightarrow> Rand \<Rightarrow> (MockEBPFEvent list \<times> Rand) option" where
  "GenerateMockEBPFEvents now nodes numEvents r =
     (if nodes = [] \<and> 0 < numEvents then None else Some (mock_events now nodes numEvents r))"

text \<open>The loop that looks for the first null byte, from index n on.\<close>

fun null_index :: "byte list \<Rightarrow> nat \<Rightarrow> nat" where
  "null_index [] n = n"
| "null_index (x # xs) n = (if x \<noteq> 0 then null_index xs (n + 1) else n)"

definition bytesToString :: "byte list \<Rightarrow> string" where
  "bytesToString b = map (\<lambda>w. char_of (unat w)) (take (null_index b 0) b)"

text \<open>What is printed for a mock event: the pod it was correlated to, if any.\<close>

definition SimulateEBPFActivity ::
  "Time \<Rightarrow> MockNode list \<Rightarrow> PodInfo list \<Rightarrow> Rand \<Rightarrow> (MockEBPFEvent \<times> PodInfo option) list option" where
  "SimulateEBPFActivity now nodes podInfos r =
     map_option (\<lambda>(events, _).
         map (\<lambda>e. (e, CorrelateEBPFEvent podInfos (bytesToString (me_CgroupPath e)))) events)
       (GenerateMockEBPFEvents now nodes 100 r)"

section \<open>Correlation\<close>

lemma cgroup_path_inj [simp]: "cgroup_path a = cgroup_path b \<longleftrightarrow> a = b"
  by (simp add: cgroup_path_def)

lemma correlate_find: "CorrelateEBPFEvent pods path = List.find (\<lambda>p. path \<in> set (po_CgroupPaths p)) pods"
  by (induction pods) (auto simp: list_ex_iff)

lemma split_str_no_sep: "(\<forall>ys zs. s \<noteq> ys @ sep @ zs) \<Longrightarrow> sep \<noteq> [] \<Longrightarrow> split_str sep acc s = [acc @ s]"
proof (induction sep acc s rule: split_str.induct)
  case (1 sep acc s)
  show ?case
  proof (cases s)
    case Nil
    then show ?thesis using "1.prems" by (simp add: split_str.simps [of sep acc "[]"])
  next
    case (Cons c cs)
    have ns: "take (length sep) s \<noteq> sep"
      using "1.prems"(1) append_take_drop_id [of "length sep" s] by (metis append_Nil)
    have "\<forall>ys zs. cs \<noteq> ys @ sep @ zs" using "1.prems"(1) Cons by (metis append_Cons)
    then have "split_str sep (acc @ [c]) cs = [(acc @ [c]) @ cs]"
      using "1.IH"(2) "1.prems"(2) ns Cons by simp
    then show ?thesis using "1.prems"(2) ns Cons by (simp add: split_str.simps [of sep acc "c # cs"])
  qed
qed

lemma split_str_at:
  "(\<forall>ys zs. a \<noteq> ys @ sep @ zs) \<Longrightarrow> sep \<noteq> [] \<Longrightarrow> hd sep \<notin> set a \<Longrightarrow>
   split_str sep acc (a @ sep @ b) = (acc @ a) # split_str sep [] b"
proof (induction a arbitrary: acc)
  case Nil
  then show ?case by (simp add: split_str.simps [of sep acc "sep @ b"])
next
  case (Cons c cs)
  have "take (length sep) ((c # cs) @ sep @ b) \<noteq> sep"
    using Cons.prems(2,3) by (cases sep) auto
  moreover have "\<forall>ys zs. cs \<noteq> ys @ sep @ zs" using Cons.prems(1) by (metis append_Cons)
  ultimately show ?case using Cons by (simp add: split_str.simps [of sep acc "c # cs @ sep @ b"])
qed

text \<open>A container status of the form \<^verbatim>\<open>runtime://id\<close> gives its id.\<close>

lemma container_id_of_status:
  assumes "CHR '':'' \<notin> set rt" and "CHR '':'' \<notin> set cid"
  shows "container_ids [rt @ ''://'' @ cid] = [cid]"
proof -
  have no: "\<forall>ys zs. x \<noteq> ys @ ''://'' @ zs" if "CHR '':'' \<notin> set x" for x using that by auto
  have "split_str ''://'' [] (rt @ ''://'' @ cid) = [rt, cid]"
    using split_str_at [of rt "''://''" "[]" cid] split_str_no_sep [of cid "''://''" "[]"] assms no by simp
  then show ?thesis by (simp add: container_ids_def)
qed

text \<open>
  An event whose cgroup path names a container belongs to the first listed pod that has this
  container, and to none when no pod has it.
\<close>

lemma correlation_of_listed_pods:
  assumes "ListPodsWithContainerInfo (Inr pods) = Inr infos"
  shows "CorrelateEBPFEvent infos (cgroup_path cid) =
    map_option pod_info (List.find (\<lambda>p. cid \<in> set (container_ids (ap_ContainerIDs p))) pods)"
proof -
  have "infos = map pod_info pods" using assms by (simp add: ListPodsWithContainerInfo_def)
  then show ?thesis
    by (induction pods arbitrary: infos) (auto simp: pod_info_def Let_def list_ex_iff)
qed

lemma correlation_of_listed_pods_witness:
  "CorrelateEBPFEvent (map pod_info [\<lparr>ap_Name = ''p'', ap_Namespace = ''d'', ap_NodeName = ''n'',
      ap_ContainerIDs = [''docker://7a'']\<rparr>]) (cgroup_path ''7a'') =
   map_option pod_info (List.find (\<lambda>p. ''7a'' \<in> set (container_ids (ap_ContainerIDs p)))
     [\<lparr>ap_Name = ''p'', ap_Namespace = ''d'', ap_NodeName = ''n'', ap_ContainerIDs = [''docker://7a'']\<rparr>])"
  by (rule correlation_of_listed_pods) (simp add: ListPodsWithContainerInfo_def)

section \<open>Fixed-size fields\<close>

lemma null_index_takeWhile: "null_index b n = n + length (takeWhile (\<lambda>w. w \<noteq> 0) b)"
  by (induction b arbitrary: n) auto

lemma bytesToString_trim: "bytesToString b = trimNullString b"
  by (simp add: bytesToString_def trimNullString_def null_index_takeWhile takeWhile_eq_take [symmetric])

lemma byte_field_text:
  assumes "CHR 0x00 \<notin> set s"
  shows "bytesToString (byte_field n s) = take n s"
proof -
  have "take n (string_bytes s) = string_bytes (take n s)" by (simp add: string_bytes_def take_map)
  moreover have "CHR 0x00 \<notin> set (take n s)" using assms by (meson in_set_takeD)
  ultimately show ?thesis by (simp add: bytesToString_trim byte_field_def trimNull_text)
qed

lemma byte_field_length: "length (byte_field n s) = n"
  by (simp add: byte_field_def string_bytes_def zeros_def)

lemma mock_event_path:
  assumes "nodes \<noteq> []"
  shows "\<exists>node \<in> set nodes. me_CgroupPath (fst (mock_event now nodes r)) = byte_field 64 (cgroup_path (mn_Name node))"
  using go_rand.intn_index [OF assms, of r]
  by (intro bexI [of _ "nodes ! nat (fst (Intn (int (length nodes)) r))"])
     (simp_all add: mock_event_def split: prod.split)

lemma mock_events_path:
  assumes "nodes \<noteq> []" and "e \<in> set (fst (mock_events now nodes n r))"
  shows "\<exists>node \<in> set nodes. me_CgroupPath e = byte_field 64 (cgroup_path (mn_Name node))"
  using assms(2)
proof (induction n arbitrary: r)
  case (Suc n)
  obtain e1 r1 where 1: "mock_event now nodes r = (e1, r1)" by force
  obtain es r2 where 2: "mock_events now nodes n r1 = (es, r2)" by force
  show ?case
    using Suc.prems Suc.IH [of r1] mock_event_path [OF assms(1), of now r] 1 2 by auto
qed simp

text \<open>C34: Each of the 100 mock events that are simulated carries the cgroup path of a node in 64 bytes, of which the fixed
  prefix takes 24: it is correlated with the first listed pod that has the first 40 characters of the node's name as
  a container identifier, and with none when there is no such pod.  So whatever else is listed, a pod whose container identifiers
  are all longer than 40 characters, as those of the container runtimes are (64), is correlated with none of these
  events.
\<close>

theorem long_container_ids_never_correlate:
  assumes "SimulateEBPFActivity now nodes (map pod_info pods) r = Some lines"
    and "\<forall>n \<in> set nodes. CHR 0x00 \<notin> set (mn_Name n)"
  shows "length lines = 100
    \<and> (\<forall>l \<in> set lines. \<exists>node \<in> set nodes. me_CgroupPath (fst l) = byte_field 64 (cgroup_path (mn_Name node))
         \<and> snd l = map_option pod_info
             (List.find (\<lambda>p. take 40 (mn_Name node) \<in> set (container_ids (ap_ContainerIDs p))) pods))
    \<and> (\<forall>p \<in> set pods. (\<forall>cid \<in> set (container_ids (ap_ContainerIDs p)). 40 < length cid) \<longrightarrow>
         (\<forall>l \<in> set lines. snd l \<noteq> Some (pod_info p)))"
proof -
  obtain es r' where es: "GenerateMockEBPFEvents now nodes 100 r = Some (es, r')"
    and lines: "lines = map (\<lambda>e. (e, CorrelateEBPFEvent (map pod_info pods) (bytesToString (me_CgroupPath e)))) es"
    using assms(1) by (auto simp: SimulateEBPFActivity_def)
  then have ne: "nodes \<noteq> []" and ev: "es = fst (mock_events now nodes 100 r)"
    by (auto simp: GenerateMockEBPFEvents_def split: if_splits)
  have len: "length (fst (mock_events now nodes n r)) = n" for n r
    by (induction n arbitrary: r) (auto split: prod.split, metis fst_conv)
  have line: "\<exists>node \<in> set nodes. me_CgroupPath (fst l) = byte_field 64 (cgroup_path (mn_Name node))
      \<and> snd l = map_option pod_info (List.find (\<lambda>p. take 40 (mn_Name node) \<in> set (container_ids (ap_ContainerIDs p))) pods)"
    if "l \<in> set lines" for l
  proof -
    from that obtain e where e: "e \<in> set es"
      "l = (e, CorrelateEBPFEvent (map pod_info pods) (bytesToString (me_CgroupPath e)))" by (auto simp: lines)
    obtain node where node: "node \<in> set nodes" "me_CgroupPath e = byte_field 64 (cgroup_path (mn_Name node))"
      using mock_events_path [OF ne, of e now 100 r] e(1) by (auto simp: ev)
    then have "CHR 0x00 \<notin> set (cgroup_path (mn_Name node))" using assms(2) by (auto simp: cgroup_path_def)
    then have "bytesToString (me_CgroupPath e) = cgroup_path (take 40 (mn_Name node))"
      unfolding node(2) by (simp add: byte_field_text cgroup_path_def)
    with e(2) node correlation_of_listed_pods [of pods "map pod_info pods" "take 40 (mn_Name node)"]
    show ?thesis by (intro bexI [of _ node]) (simp_all add: ListPodsWithContainerInfo_def)
  qed
  have "snd l \<noteq> Some (pod_info p)"
    if p: "\<forall>cid \<in> set (container_ids (ap_ContainerIDs p)). 40 < length cid" and l: "l \<in> set lines" for l p
  proof
    assume "snd l = Some (pod_info p)"
    with line [OF l] obtain name q where q: "pod_info q = pod_info p" "take 40 name \<in> set (container_ids (ap_ContainerIDs q))"
      by (auto simp: find_Some_iff map_option_eq_Some eq_commute [of "Some _"])
    then have "cgroup_path (take 40 name) \<in> set (po_CgroupPaths (pod_info q))" by (auto simp: pod_info_def Let_def)
    then have "take 40 name \<in> set (container_ids (ap_ContainerIDs p))" unfolding q(1) by (auto simp: pod_info_def Let_def cgroup_path_def)
    with p have "40 < length (take 40 name)" by blast
    then show False by simp
  qed
  with line show ?thesis using len [of 100 r] by (simp add: lines ev)
qed

text \<open>Of two pods, one has an identifier of two characters and one of 64: the second is not correlated.\<close>

theorem long_container_ids_never_correlate_witness:
  "\<exists>lines. SimulateEBPFActivity 0 [\<lparr>mn_Name = ''n1'', mn_LastLease = 0, mn_Status = ''Ready''\<rparr>]
      (map pod_info [\<lparr>ap_Name = ''q'', ap_Namespace = ''d'', ap_NodeName = ''n'', ap_ContainerIDs = [''docker://7a'']\<rparr>,
        \<lparr>ap_Name = ''p'', ap_Namespace = ''d'', ap_NodeName = ''n'',
        ap_ContainerIDs = [''docker://'' @ replicate 64 CHR ''a'']\<rparr>]) \<lparr>raw = [], normal = []\<rparr> = Some lines
    \<and> length lines = 100 \<and> (\<forall>l \<in> set lines. snd l \<noteq> Some (pod_info \<lparr>ap_Name = ''p'', ap_Namespace = ''d'', ap_NodeName = ''n'',
        ap_ContainerIDs = [''docker://'' @ replicate 64 CHR ''a'']\<rparr>))"
proof -
  let ?nodes = "[\<lparr>mn_Name = ''n1'', mn_LastLease = 0, mn_Status = ''Ready''\<rparr>]"
  let ?p = "\<lparr>ap_Name = ''p'', ap_Namespace = ''d'', ap_NodeName = ''n'',
        ap_ContainerIDs = [''docker://'' @ replicate 64 CHR ''a'']\<rparr>"
  let ?pods = "[\<lparr>ap_Name = ''q'', ap_Namespace = ''d'', ap_NodeName = ''n'', ap_ContainerIDs = [''docker://7a'']\<rparr>, ?p]"
  obtain lines where l: "SimulateEBPFActivity 0 ?nodes (map pod_info ?pods) \<lparr>raw = [], normal = []\<rparr> = Some lines"
    by (simp add: SimulateEBPFActivity_def GenerateMockEBPFEvents_def split: prod.split)
  have "container_ids [''docker://'' @ replicate 64 CHR ''a''] = [replicate 64 CHR ''a'']"
    using container_id_of_status [of "''docker''" "replicate 64 CHR ''a''"] by simp
  then have long: "\<forall>cid \<in> set (container_ids (ap_ContainerIDs ?p)). 40 < length cid" by simp
  have "length lines = 100" "\<forall>p \<in> set ?pods. (\<forall>cid \<in> set (container_ids (ap_ContainerIDs p)). 40 < length cid) \<longrightarrow>
      (\<forall>l \<in> set lines. snd l \<noteq> Some (pod_info p))"
    using long_container_ids_never_correlate [OF l] by auto
  then have "length lines = 100" "\<forall>l \<in> set lines. snd l \<noteq> Some (pod_info ?p)" using long by simp_all
  with l show ?thesis by blast
qed

section \<open>Watch loops\<close>

definition sent :: "monitor_output list \<Rightarrow> string list" where
  "sent outs = concat (map (\<lambda>out. case out of SendHeartbeat s \<Rightarrow> [s] | _ \<Rightarrow> []) outs)"

definition pod_heartbeat :: "watch_type \<times> watch_object \<Rightarrow> string list" where
  "pod_heartbeat e =
    (case e of
       (ty, PodObject name phase) \<Rightarrow>
         if ty \<in> {WatchAdded, WatchModified} then [''Pod: '' @ name @ '', Status: '' @ phase] else []
     | _ \<Rightarrow> [])"

definition unexpected :: "watch_type \<times> watch_object \<Rightarrow> bool" where
  "unexpected e \<longleftrightarrow> fst e \<in> {WatchAdded, WatchModified} \<and> (\<forall>name phase. snd e \<noteq> PodObject name phase)"

definition lease_heartbeat :: "watch_object \<Rightarrow> string list" where
  "lease_heartbeat obj =
    (case obj of LeaseObject name t \<Rightarrow> [''Node: '' @ name @ '', Lease RenewTime: '' @ t] | _ \<Rightarrow> [])"

text \<open>
  The pod watch sends one heartbeat for every added or modified pod, in order, up to the first
  added or modified object that is not a pod, after which it sends nothing; the lease watch sends
  one for every lease and goes on after what is no lease.
\<close>

lemma watch_loops_send:
  shows "sent (pod_watch_loop es) = concat (map pod_heartbeat (takeWhile (\<lambda>e. \<not> unexpected e) es))
    \<and> sent (lease_watch_loop objs) = concat (map lease_heartbeat objs)"
proof
  show "sent (pod_watch_loop es) = concat (map pod_heartbeat (takeWhile (\<lambda>e. \<not> unexpected e) es))"
  proof (induction es rule: pod_watch_loop.induct)
    case (2 ty obj rest)
    then show ?case
      by (cases ty; cases obj)
         (simp_all add: sent_def pod_heartbeat_def unexpected_def handleHeartbeat_def object_name_def Let_def)
  qed (simp add: sent_def)
  show "sent (lease_watch_loop objs) = concat (map lease_heartbeat objs)"
    by (induction objs rule: lease_watch_loop.induct)
       (auto simp: sent_def lease_heartbeat_def Let_def split: watch_object.split)
qed

end
