(* ===== verification/SimModes.thy ===== *)
theory SimModes
  imports SimulationSchedule SimulationFiles KubeMonitor Server
begin

text \<open>
  The two programs that run the simulation: the generator of \<^verbatim>\<open>cmd/generate_data/main.go\<close>, which
  writes its files, and the simulation mode of the server's \<^verbatim>\<open>main\<close>, which takes the nodes of its live
  heartbeats from the run.  Lines printed on the way are left out.
\<close>

section \<open>The programs\<close>

definition rolling_deployment :: "Duration \<Rightarrow> int \<Rightarrow> ScenarioConfig" where
  "rolling_deployment trigger n =
     \<lparr>sc_Type = ''rolling_deployment'', sc_TriggerAt = trigger, sc_NodeCount = n,
      sc_StaggerInterval = 30 * Second, sc_ReplacementDelay = 15 * Second\<rparr>"

text \<open>A configuration literal leaves every other field at its zero value.\<close>

definition plain_config :: "int \<Rightarrow> Duration \<Rightarrow> int \<Rightarrow> ScenarioConfig list \<Rightarrow> SimulationConfig" where
  "plain_config n duration seed scenarios =
    \<lparr>sim_NodeCount = n, sim_Duration = duration, sim_BaseInterval = 0, sim_JitterStdDev = 0,
     sim_FileSegmentWindow = 0, sim_NamespaceRatios = [], sim_NamespaceProfiles = [],
     sim_Scenarios = scenarios, sim_MaxDriftIncrease = 0, sim_Seed = seed\<rparr>"

definition generate_data_config :: SimulationConfig where
  "generate_data_config =
     plain_config 50 (4 * Hour) 42 [rolling_deployment (30 * Minute) 5, rolling_deployment (2 * Hour) 3]"

datatype mode_error = EngineFailed config_error | OutputFailed write_error

text \<open>
  The main function of the generator: the error it prints, or nothing.  The second component is what
  it has written.
\<close>

definition generate_data ::
  "(int \<Rightarrow> Rand) \<Rightarrow> Time \<Rightarrow> Time \<Rightarrow> bool \<Rightarrow> (string \<Rightarrow> bool) \<Rightarrow>
   mode_error option \<times> (string \<times> file_content) list" where
  "generate_data source now0 now dir_ok ok =
    (case NewSimulationEngine source now0 now generate_data_config of
       Inl err \<Rightarrow> (Some (EngineFailed err), [])
     | Inr engine \<Rightarrow>
         (case WriteSimulationOutput dir_ok ok (fst (Run engine)) of
            (Some err, files) \<Rightarrow> (Some (OutputFailed err), files)
          | (None, files) \<Rightarrow> (None, files)))"

definition sim_mode_config :: "int \<Rightarrow> Duration \<Rightarrow> int \<Rightarrow> SimulationConfig" where
  "sim_mode_config simNodes simDuration simSeed =
     plain_config simNodes simDuration simSeed [rolling_deployment (30 * Minute) 5]"

text \<open>The nodes of the live heartbeats; \<open>nows i\<close> is the reading of the clock for the i-th.\<close>

definition live_nodes :: "(nat \<Rightarrow> Time) \<Rightarrow> int \<Rightarrow> SimulationResult \<Rightarrow> MockNode list" where
  "live_nodes nows simNodes result =
     map (\<lambda>i. \<lparr>mn_Name = ''node-'' @ pad_int 3 (int i), mn_LastLease = nows i, mn_Status = ''Ready''\<rparr>)
       [0..<nat (min (st_TotalNodes (sr_Stats result)) simNodes)]"

text \<open>The simulation branch of the server's \<^verbatim>\<open>main\<close>: fatal errors, or the nodes and the written files.\<close>

definition sim_mode ::
  "(int \<Rightarrow> Rand) \<Rightarrow> Time \<Rightarrow> Time \<Rightarrow> (nat \<Rightarrow> Time) \<Rightarrow> SimulationConfig \<Rightarrow> string \<Rightarrow> bool \<Rightarrow> (string \<Rightarrow> bool) \<Rightarrow>
   mode_error + MockNode list \<times> (string \<times> file_content) list" where
  "sim_mode source now0 now nows simConfig simOutput dir_ok ok =
    (case NewSimulationEngine source now0 now simConfig of
       Inl err \<Rightarrow> Inl (EngineFailed err)
     | Inr engine \<Rightarrow>
         (let result = fst (Run engine);
              (err, files) = (if simOutput \<noteq> [] then WriteSimulationOutput dir_ok ok result else (None, []))
          in case err of
               Some e \<Rightarrow> Inl (OutputFailed e)
             | None \<Rightarrow> Inr (live_nodes nows (sim_NodeCount simConfig) result, files)))"

text \<open>What the live loop reads of the nodes.\<close>

definition live_view :: "MockNode list \<Rightarrow> (string \<times> string) list" where
  "live_view nodes = map (\<lambda>n. (mn_Name n, mn_Status n)) nodes"

section \<open>The nodes of a run\<close>

lemma scenario_change_names:
  assumes "scenario_change elapsed se se'"
  shows "\<exists>more. map sn_Name (se_nodes se') = map sn_Name (se_nodes se) @ more"
  using assms
proof cases
  case (drained k us node vs)
  then show ?thesis by (auto simp: drain_node_def)
next
  case (replaced k i)
  then show ?thesis by (auto simp: replace_one_def Let_def split: prod.split)
qed

lemma scenario_changes_names:
  "scenario_changes elapsed se se' \<Longrightarrow> \<exists>more. map sn_Name (se_nodes se') = map sn_Name (se_nodes se) @ more"
proof (induction rule: rtranclp_induct)
  case (step s s')
  then show ?case using scenario_change_names [OF step.hyps(2)] by fastforce
qed simp

lemma update_nodes_names:
  assumes "\<And>n r. sn_Name (fst (f n r)) = sn_Name n"
  shows "map sn_Name (se_nodes (update_nodes f se)) = map sn_Name (se_nodes se)"
  unfolding update_nodes_nodes by (rule each_node_map) (rule assms)

lemma tick_names: "\<exists>more. map sn_Name (se_nodes (tick elapsed se)) = map sn_Name (se_nodes se) @ more"
proof -
  let ?h = "applyHealthTransitions se"
  obtain more where "map sn_Name (se_nodes (applyScenarios elapsed ?h)) = map sn_Name (se_nodes ?h) @ more"
    using scenario_changes_names [OF applyScenarios_changes] by blast
  then show ?thesis
    by (intro exI [of _ more]) (simp add: tick_def lease_pass_def applyHealthTransitions_def update_nodes_names)
qed

lemma run_names: "\<exists>more. map sn_Name (se_nodes (run_ticks m se)) = map sn_Name (se_nodes se) @ more"
proof (induction m)
  case (Suc m)
  then show ?case
    using tick_names [of "dur_mul (int m) Second"
        "(run_ticks m se)\<lparr>se_clock := time_Add (se_clock se) (dur_mul (int m) Second)\<rparr>"]
    by (auto simp: run_ticks_Suc tick_at_def Let_def)
qed (simp add: run_ticks_0)

lemma sim_mode_nodes:
  assumes "sim_mode source now0 now nows (sim_mode_config simNodes simDuration simSeed) out dir_ok ok
      = Inr (nodes, files)"
    and "simNodes < 2 ^ 53"
  shows "map mn_Name nodes = map node_name [0..<nat simNodes]
    \<and> 0 < simNodes \<and> (\<forall>n \<in> set nodes. mn_Status n = ''Ready'')
    \<and> (\<exists>se0. NewSimulationEngine source now0 now (sim_mode_config simNodes simDuration simSeed) = Inr se0
         \<and> map mn_Name nodes = map sn_Name (take (nat simNodes) (se_nodes (snd (Run se0)))))"
proof -
  let ?cfg = "sim_mode_config simNodes simDuration simSeed"
  obtain se0 where se0: "NewSimulationEngine source now0 now ?cfg = Inr se0"
    and nodes: "nodes = live_nodes nows simNodes (fst (Run se0))"
    using assms(1) by (auto simp: sim_mode_def Let_def sim_mode_config_def plain_config_def
        split: sum.splits prod.splits option.splits)
  have names0: "map sn_Name (se_nodes se0) = map node_name [0..<nat simNodes]"
    using new_engine_names [OF se0] assms(2) by (simp add: sim_mode_config_def plain_config_def)
  then have len0: "length (se_nodes se0) = nat simNodes" by (metis length_map length_upt diff_zero)
  obtain cfg where "ValidateConfig ?cfg = Inr cfg"
    using se0 by (auto simp: NewSimulationEngine_def split: sum.splits)
  then have pos: "0 < simNodes"
    using validated_shape(1,2) by (fastforce simp: sim_mode_config_def plain_config_def)
  obtain m where run: "snd (Run se0) = run_ticks m se0"
    and total: "st_TotalNodes (sr_Stats (fst (Run se0))) = int (length (se_nodes (run_ticks m se0)))"
    by (simp add: Run_def run_stats_def Let_def)
  obtain more where more: "map sn_Name (se_nodes (run_ticks m se0)) = map sn_Name (se_nodes se0) @ more"
    using run_names by blast
  have "length (se_nodes se0) \<le> length (se_nodes (run_ticks m se0))"
    using arg_cong [OF more, of length] by simp
  then have count: "nat (min (int (length (se_nodes (run_ticks m se0)))) simNodes) = nat simNodes"
    using len0 by linarith
  have names: "map mn_Name nodes = map node_name [0..<nat simNodes]"
    unfolding nodes live_nodes_def total count by (simp add: node_name_def comp_def)
  have "take (nat simNodes) (map sn_Name (se_nodes (run_ticks m se0))) = map node_name [0..<nat simNodes]"
    unfolding more names0 by simp
  then have first: "map mn_Name nodes = map sn_Name (take (nat simNodes) (se_nodes (snd (Run se0))))"
    unfolding run names by (simp add: take_map)
  have ready: "\<forall>n \<in> set nodes. mn_Status n = ''Ready''" by (auto simp: nodes live_nodes_def)
  from ready names pos se0 first show ?thesis by blast
qed

text \<open>C21: In simulation mode the live heartbeats come from exactly the configured number of nodes, those
  the simulation began with and in their order, whatever the run added; there is at least one, so the
  live loop never divides by zero; and every one is announced as ready, also a node that the run has
  drained.
\<close>

theorem live_nodes_of_the_run:
  assumes "sim_mode source now0 now nows (sim_mode_config simNodes simDuration simSeed) out dir_ok ok
      = Inr (nodes, files)"
    and "simNodes < 2 ^ 53"
  shows "map mn_Name nodes = map node_name [0..<nat simNodes]
    \<and> 0 < simNodes \<and> (\<forall>n \<in> set nodes. mn_Status n = ''Ready'')
    \<and> (\<exists>se0. NewSimulationEngine source now0 now (sim_mode_config simNodes simDuration simSeed) = Inr se0
         \<and> map mn_Name nodes = map sn_Name (take (nat simNodes) (se_nodes (snd (Run se0)))))
    \<and> (0 \<le> nanos \<longrightarrow> live_tick S (live_view nodes) nanos t sv \<noteq> None)"
proof -
  note n = sim_mode_nodes [OF assms]
  then have "length nodes = nat simNodes" by (metis length_map length_upt minus_nat.diff_0)
  with n have ne: "live_view nodes \<noteq> []" by (auto simp: live_view_def)
  have "live_tick S (live_view nodes) nanos t sv \<noteq> None" if "0 \<le> nanos"
    using ne that by (simp add: live_tick_def Let_def go_mod_pos not_less)
  with n show ?thesis by blast
qed

lemma plain_config_valid:
  assumes "0 < n" and "0 < d" and "d \<le> maxSimulationDuration"
  shows "\<exists>cfg. ValidateConfig (plain_config n d seed scs) = Inr cfg \<and> sim_Duration cfg = d
    \<and> sim_FileSegmentWindow cfg = 5 * Minute"
  using assms by (simp add: ValidateConfig_def plain_config_def defaultSegmentWindow_def not_le)

lemma plain_config_starts:
  assumes "0 < n" and "0 < d" and "d \<le> maxSimulationDuration"
  shows "\<exists>se. NewSimulationEngine source now0 now (plain_config n d seed scs) = Inr se
    \<and> sim_Duration (se_config se) = d \<and> sim_FileSegmentWindow (se_config se) = 5 * Minute \<and> se_clock se = now"
  using plain_config_valid [OF assms, of seed scs] by (auto simp: NewSimulationEngine_def Let_def)

theorem live_nodes_of_the_run_witness:
  "\<exists>nodes. sim_mode (\<lambda>_. demo_tape) 0 0 (\<lambda>_. 0) (sim_mode_config 1 Second 1) [] True (\<lambda>_. True) = Inr (nodes, [])
    \<and> map mn_Name nodes = [node_name 0]"
proof -
  obtain se where se: "NewSimulationEngine (\<lambda>_. demo_tape) 0 0 (sim_mode_config 1 Second 1) = Inr se"
    using plain_config_starts [of 1 Second "\<lambda>_. demo_tape" 0 0 1 "[rolling_deployment (30 * Minute) 5]"]
    unfolding sim_mode_config_def by (auto simp: Second_def maxSimulationDuration_def Hour_def)
  obtain nodes where nodes: "sim_mode (\<lambda>_. demo_tape) 0 0 (\<lambda>_. 0) (sim_mode_config 1 Second 1) [] True (\<lambda>_. True)
      = Inr (nodes, [])"
    by (simp add: sim_mode_def se Let_def)
  have "map mn_Name nodes = map node_name [0..<nat 1]"
    by (rule live_nodes_of_the_run [OF nodes, THEN conjunct1]) simp
  with nodes show ?thesis by simp
qed

section \<open>The files of the generator\<close>

lemma write_files_result:
  "write_files ok fs = (map_option WriteError (List.find (\<lambda>n. \<not> ok n) (map fst fs)),
     takeWhile (\<lambda>f. ok (fst f)) fs)"
  by (induction ok fs rule: write_files.induct) auto

lemma output_names:
  "map fst (output_files res) = map lf_Filename (sr_LeaseFiles res) @ map ef_Filename (sr_EbpfFiles res) @
     [''leases.manifest.json'', ''ebpf-leases.manifest.json'']"
  by (simp add: output_files_def comp_def)

definition window_names :: "string \<Rightarrow> Time \<Rightarrow> Duration \<Rightarrow> nat \<Rightarrow> string list" where
  "window_names pre start w n = map (\<lambda>i. pre @ format_compact (start + int i * w) @ ''.json'') [0..<n]"

definition generated_names :: "Time \<Rightarrow> string list" where
  "generated_names now =
     window_names ''leases'' now (5 * Minute) 48 @ window_names ''ebpf-leases'' now (5 * Minute) 48 @
     [''leases.manifest.json'', ''ebpf-leases.manifest.json'']"

text \<open>C31: Whatever the random source, the generator makes 48 lease files and 48 event files, one for each
  five minutes of its four hours and named after the start of its window, and then the two manifests.
  It writes them in this order up to the first that cannot be written, whose error it reports, and
  reports none exactly when all are written; without the directory it writes nothing.
\<close>

theorem generated_files:
  shows "map fst (snd (generate_data source now0 now dir_ok ok)) =
      (if dir_ok then takeWhile ok (generated_names now) else [])
    \<and> fst (generate_data source now0 now dir_ok ok) =
      (if dir_ok then map_option (\<lambda>n. OutputFailed (WriteError n)) (List.find (\<lambda>n. \<not> ok n) (generated_names now))
       else Some (OutputFailed MkdirError))"
proof -
  obtain se0 where se0: "NewSimulationEngine source now0 now generate_data_config = Inr se0"
    and d: "sim_Duration (se_config se0) = 4 * Hour" "sim_FileSegmentWindow (se_config se0) = 5 * Minute"
    and clk: "se_clock se0 = now"
    using plain_config_starts [of 50 "4 * Hour" source now0 now 42] unfolding generate_data_config_def
    by (auto simp: Hour_def maxSimulationDuration_def)
  obtain m where run: "sr_LeaseFiles (fst (Run se0)) = SegmentLeaseFiles (run_ticks m se0)"
      "sr_EbpfFiles (fst (Run se0)) = SegmentEbpfFiles (run_ticks m se0)"
    by (simp add: Run_def Let_def)
  have n: "num_files (run_ticks m se0) = 48"
    by (simp add: num_files_def d Hour_def Minute_def f64_of_i64_def
        fl_of_int [of 14400000000000, simplified] fl_of_int [of 300000000000, simplified]
        fl_of_int [of 48, simplified] i64_of_f64_def trunc_def Let_def i64_defs)
  have w: "window_start (run_ticks m se0) (int i) = now + int i * (5 * Minute)" if "i < 48" for i
    using that by (simp add: window_start_def time_Add_def dur_mul_def d clk Minute_def i64_defs)
  have names: "file_names pre (run_ticks m se0) = window_names pre now (5 * Minute) 48" for pre
    by (simp add: file_names_def window_names_def n w)
  have out: "map fst (output_files (fst (Run se0))) = generated_names now"
    by (simp add: output_names run segment_names names generated_names_def)
  have "map fst (takeWhile (\<lambda>f. ok (fst f)) (output_files (fst (Run se0)))) = takeWhile ok (generated_names now)"
    unfolding out [symmetric] by (simp add: takeWhile_map comp_def)
  then show ?thesis
    by (auto simp: generate_data_def se0 WriteSimulationOutput_def write_files_result out option.map_comp comp_def
        split: option.split)
qed

end
