(* ===== verification/EvalRunner.thy ===== *)
theory EvalRunner
  imports Float64 GoBase
begin

text \<open>
  The evaluation runner (\<^verbatim>\<open>eval/runner/main.go\<close>): the decision engine with its rule-based fallback,
  the comparison of a decision with what a scenario expects, and the run over a directory of
  scenarios.  The file system and the YAML decoder are arguments; the numbers of a scenario are
  finite.
\<close>

section \<open>Scenarios\<close>

record HeartbeatInput =
  hi_NodeID :: string
  hi_CPUUsage :: float64
  hi_MemoryUsage :: float64
  hi_DiskIO :: float64
  hi_NetworkIO :: float64
  hi_Latency :: float64

record RuleThresholds =
  rt_CPUThreshold :: float64
  rt_MemoryThreshold :: float64
  rt_LatencyThreshold :: float64

record ConfigInput =
  ci_Threshold :: float64
  ci_RuleThresholds :: RuleThresholds

record Inputs =
  in_Heartbeat :: HeartbeatInput
  in_Config :: ConfigInput
  in_AIScore :: "float64 option"

record Expected =
  ex_ActionTaken :: bool
  ex_ActionType :: string
  ex_WasRuleBased :: bool
  ex_MinScore :: "float64 option"
  ex_MaxScore :: "float64 option"
  ex_TriggeredRule :: string

record Scenario =
  scn_ScenarioName :: string
  scn_Inputs :: Inputs
  scn_Expected :: Expected

record Decision =
  de_ActionTaken :: bool
  de_ActionType :: string
  de_WasRuleBased :: bool
  de_Score :: float64
  de_TriggeredRule :: string

section \<open>The decision engine\<close>

definition computeRuleScore :: "float64 \<Rightarrow> float64 \<Rightarrow> float64" where
  "computeRuleScore value threshold =
     (if threshold \<le> 0 then 0 else let score = fl (value / threshold) in min score 1)"

definition inferActionType :: "HeartbeatInput \<Rightarrow> float64 \<Rightarrow> string" where
  "inferActionType hb score =
    (if 500 < hi_Latency hb then ''workload_reschedule''
     else if 90 < hi_CPUUsage hb then ''node_cordon''
     else if 85 < hi_MemoryUsage hb then ''pod_restart''
     else if fl (9 / 10) \<le> score then ''node_cordon''
     else ''pod_restart'')"

definition rule_decision :: "string \<Rightarrow> string \<Rightarrow> float64 \<Rightarrow> float64 \<Rightarrow> Decision" where
  "rule_decision action rule value threshold =
     \<lparr>de_ActionTaken = True, de_ActionType = action, de_WasRuleBased = True,
      de_Score = computeRuleScore value threshold, de_TriggeredRule = rule\<rparr>"

definition evaluateRuleBased :: "Inputs \<Rightarrow> Decision" where
  "evaluateRuleBased inputs =
    (let hb = in_Heartbeat inputs; rt = ci_RuleThresholds (in_Config inputs)
     in if 0 < rt_LatencyThreshold rt \<and> rt_LatencyThreshold rt \<le> hi_Latency hb
        then rule_decision ''workload_reschedule'' ''latency'' (hi_Latency hb) (rt_LatencyThreshold rt)
        else if 0 < rt_CPUThreshold rt \<and> rt_CPUThreshold rt \<le> hi_CPUUsage hb
        then rule_decision ''node_cordon'' ''cpu'' (hi_CPUUsage hb) (rt_CPUThreshold rt)
        else if 0 < rt_MemoryThreshold rt \<and> rt_MemoryThreshold rt \<le> hi_MemoryUsage hb
        then rule_decision ''pod_restart'' ''memory'' (hi_MemoryUsage hb) (rt_MemoryThreshold rt)
        else \<lparr>de_ActionTaken = False, de_ActionType = [], de_WasRuleBased = True, de_Score = 0,
              de_TriggeredRule = []\<rparr>)"

definition Evaluate_inputs :: "Inputs \<Rightarrow> Decision" where
  "Evaluate_inputs inputs =
    (case in_AIScore inputs of
       Some score \<Rightarrow>
         if ci_Threshold (in_Config inputs) \<le> score
         then \<lparr>de_ActionTaken = True, de_ActionType = inferActionType (in_Heartbeat inputs) score,
               de_WasRuleBased = False, de_Score = score, de_TriggeredRule = []\<rparr>
         else \<lparr>de_ActionTaken = False, de_ActionType = [], de_WasRuleBased = False,
               de_Score = score, de_TriggeredRule = []\<rparr>
     | None \<Rightarrow> evaluateRuleBased inputs)"

section \<open>Checking a decision\<close>

text \<open>One constructor per message, with what was got and what was wanted.\<close>

datatype check_failure =
    ActionTakenDiffers bool bool
  | ActionTypeDiffers string string
  | WasRuleBasedDiffers bool bool
  | ScoreBelow float64 float64
  | ScoreAbove float64 float64
  | TriggeredRuleDiffers string string

record Result =
  re_ScenarioName :: string
  re_Passed :: bool
  re_Failures :: "check_failure list"

definition fail :: "check_failure \<Rightarrow> Result \<Rightarrow> Result" where
  "fail msg r = r\<lparr>re_Passed := False, re_Failures := re_Failures r @ [msg]\<rparr>"

definition Check :: "Scenario \<Rightarrow> Decision \<Rightarrow> Result" where
  "Check scenario d =
    (let r0 = \<lparr>re_ScenarioName = scn_ScenarioName scenario, re_Passed = True, re_Failures = []\<rparr>;
         e = scn_Expected scenario;
         r1 = (if de_ActionTaken d \<noteq> ex_ActionTaken e
               then fail (ActionTakenDiffers (de_ActionTaken d) (ex_ActionTaken e)) r0 else r0);
         r2 = (if ex_ActionType e \<noteq> [] \<and> de_ActionType d \<noteq> ex_ActionType e
               then fail (ActionTypeDiffers (de_ActionType d) (ex_ActionType e)) r1 else r1);
         r3 = (if de_WasRuleBased d \<noteq> ex_WasRuleBased e
               then fail (WasRuleBasedDiffers (de_WasRuleBased d) (ex_WasRuleBased e)) r2 else r2);
         r4 = (case ex_MinScore e of None \<Rightarrow> r3
               | Some m \<Rightarrow> if de_Score d < m then fail (ScoreBelow (de_Score d) m) r3 else r3);
         r5 = (case ex_MaxScore e of None \<Rightarrow> r4
               | Some m \<Rightarrow> if m < de_Score d then fail (ScoreAbove (de_Score d) m) r4 else r4)
     in if ex_TriggeredRule e \<noteq> [] \<and> de_TriggeredRule d \<noteq> ex_TriggeredRule e
        then fail (TriggeredRuleDiffers (de_TriggeredRule d) (ex_TriggeredRule e)) r5 else r5)"

section \<open>Loading the scenarios\<close>

definition to_lower :: "string \<Rightarrow> string" where
  "to_lower s = map (\<lambda>c. let k = of_char c :: nat
     in if 65 \<le> k \<and> k \<le> 90 then char_of (k + 32) else c) s"

text \<open>\<^verbatim>\<open>filepath.Ext\<close> of a file name: from the last dot on, empty without one.\<close>

definition file_ext :: "string \<Rightarrow> string" where
  "file_ext name =
    (if CHR ''.'' \<in> set name then CHR ''.'' # rev (takeWhile (\<lambda>c. c \<noteq> CHR ''.'') (rev name)) else [])"

record DirEntry =
  dr_Name :: string
  dr_IsDir :: bool

datatype load_error = ReadDirError | ReadFileError string | ParseError string

text \<open>\<open>read_file\<close> and \<open>parse\<close> return \<open>None\<close> for an error.\<close>

fun load_entries ::
  "(string \<Rightarrow> string option) \<Rightarrow> (string \<Rightarrow> Scenario option) \<Rightarrow> DirEntry list \<Rightarrow> Scenario list
   \<Rightarrow> load_error + Scenario list" where
  "load_entries read_file parse [] acc = Inr acc"
| "load_entries read_file parse (entry # rest) acc =
    (if dr_IsDir entry then load_entries read_file parse rest acc
     else let ext = to_lower (file_ext (dr_Name entry)) in
       if ext \<noteq> ''.yaml'' \<and> ext \<noteq> ''.yml'' then load_entries read_file parse rest acc
       else case read_file (dr_Name entry) of
         None \<Rightarrow> Inl (ReadFileError (dr_Name entry))
       | Some data \<Rightarrow>
           (case parse data of
              None \<Rightarrow> Inl (ParseError (dr_Name entry))
            | Some s \<Rightarrow>
                let s' = (if scn_ScenarioName s = [] then s\<lparr>scn_ScenarioName := dr_Name entry\<rparr> else s)
                in load_entries read_file parse rest (acc @ [s'])))"

definition LoadScenarios ::
  "DirEntry list option \<Rightarrow> (string \<Rightarrow> string option) \<Rightarrow> (string \<Rightarrow> Scenario option)
   \<Rightarrow> load_error + Scenario list" where
  "LoadScenarios dir read_file parse =
    (case dir of None \<Rightarrow> Inl ReadDirError | Some entries \<Rightarrow> load_entries read_file parse entries [])"

section \<open>The run\<close>

fun eval_loop :: "Scenario list \<Rightarrow> Result list \<Rightarrow> int \<Rightarrow> int \<Rightarrow> Result list \<times> int \<times> int" where
  "eval_loop [] results passed failed = (results, passed, failed)"
| "eval_loop (sc # scs) results passed failed =
    (let result = Check sc (Evaluate_inputs (scn_Inputs sc))
     in if re_Passed result then eval_loop scs (results @ [result]) (passed + 1) failed
        else eval_loop scs (results @ [result]) passed (failed + 1))"

text \<open>The exit status, with the results that are reported.\<close>

definition eval_main :: "load_error + Scenario list \<Rightarrow> int \<times> Result list" where
  "eval_main loaded =
    (case loaded of
       Inl err \<Rightarrow> (1, [])
     | Inr scenarios \<Rightarrow>
         if length scenarios = 0 then (1, [])
         else case eval_loop scenarios [] 0 0 of
           (results, passed, failed) \<Rightarrow> (if 0 < failed then 1 else 0, results))"

section \<open>Rules\<close>

text \<open>A metric that reaches its threshold has the full score: the quotient is clamped at 1.\<close>

lemma rule_score_full: "0 < t \<Longrightarrow> t \<le> v \<Longrightarrow> computeRuleScore v t = 1"
proof -
  assume "0 < t" "t \<le> v"
  then have "1 \<le> v / t" by simp
  then have "fl 1 \<le> fl (v / t)" by (rule fl_mono)
  then show ?thesis using \<open>0 < t\<close> by (simp add: computeRuleScore_def Let_def)
qed

definition rule_fires :: "float64 \<Rightarrow> float64 \<Rightarrow> bool" where
  "rule_fires threshold value \<longleftrightarrow> 0 < threshold \<and> threshold \<le> value"

text \<open>Without an AI score the decision is the first rule, in the order latency, CPU, memory, whose
  threshold is positive and reached; its score is then always exactly 1, and 0 when no rule fires.
\<close>

lemma rule_fallback:
  assumes "in_AIScore inputs = None"
  shows "let hb = in_Heartbeat inputs; rt = ci_RuleThresholds (in_Config inputs);
             rules = [(rule_fires (rt_LatencyThreshold rt) (hi_Latency hb), ''latency'', ''workload_reschedule''),
                      (rule_fires (rt_CPUThreshold rt) (hi_CPUUsage hb), ''cpu'', ''node_cordon''),
                      (rule_fires (rt_MemoryThreshold rt) (hi_MemoryUsage hb), ''memory'', ''pod_restart'')];
             d = Evaluate_inputs inputs
         in de_WasRuleBased d \<and>
            (case List.find fst rules of
               None \<Rightarrow> \<not> de_ActionTaken d \<and> de_ActionType d = [] \<and> de_TriggeredRule d = [] \<and> de_Score d = 0
             | Some (_, rule, action) \<Rightarrow> de_ActionTaken d \<and> de_ActionType d = action
                 \<and> de_TriggeredRule d = rule \<and> de_Score d = 1)"
  using assms
  by (auto simp: Evaluate_inputs_def evaluateRuleBased_def rule_decision_def rule_fires_def
      rule_score_full Let_def)

text \<open>
  With an AI score an action is taken exactly when the score reaches the threshold, the decision
  carries the score unchanged and names no rule, and the action is one of the three known ones.
\<close>

lemma ai_decision:
  assumes "in_AIScore inputs = Some score"
  shows "let d = Evaluate_inputs inputs
         in \<not> de_WasRuleBased d \<and> de_Score d = score \<and> de_TriggeredRule d = []
          \<and> (de_ActionTaken d \<longleftrightarrow> ci_Threshold (in_Config inputs) \<le> score)
          \<and> (de_ActionTaken d \<longleftrightarrow> de_ActionType d \<in> {''workload_reschedule'', ''node_cordon'', ''pod_restart''})
          \<and> (\<not> de_ActionTaken d \<longleftrightarrow> de_ActionType d = [])"
  using assms by (auto simp: Evaluate_inputs_def inferActionType_def Let_def)

section \<open>Checks\<close>

text \<open>What a scenario demands of a decision; an absent bound and an empty name demand nothing.\<close>

definition meets :: "Expected \<Rightarrow> Decision \<Rightarrow> bool" where
  "meets e d \<longleftrightarrow>
     de_ActionTaken d = ex_ActionTaken e \<and> de_WasRuleBased d = ex_WasRuleBased e \<and>
     (ex_ActionType e = [] \<or> de_ActionType d = ex_ActionType e) \<and>
     (ex_TriggeredRule e = [] \<or> de_TriggeredRule d = ex_TriggeredRule e) \<and>
     (\<forall>m \<in> set_option (ex_MinScore e). m \<le> de_Score d) \<and>
     (\<forall>m \<in> set_option (ex_MaxScore e). de_Score d \<le> m)"

lemma Check_passed: "re_Passed (Check sc d) \<longleftrightarrow> meets (scn_Expected sc) d"
  by (auto simp: Check_def fail_def meets_def Let_def split: option.split)

lemma Check_failures: "re_Passed (Check sc d) \<longleftrightarrow> re_Failures (Check sc d) = []"
  by (simp add: Check_def fail_def Let_def split: option.split)

lemma eval_loop_spec:
  "eval_loop scs rs p f =
    (rs @ map (\<lambda>sc. Check sc (Evaluate_inputs (scn_Inputs sc))) scs,
     p + int (length (filter (\<lambda>sc. meets (scn_Expected sc) (Evaluate_inputs (scn_Inputs sc))) scs)),
     f + int (length (filter (\<lambda>sc. \<not> meets (scn_Expected sc) (Evaluate_inputs (scn_Inputs sc))) scs)))"
  by (induction scs arbitrary: rs p f) (simp_all add: Check_passed Let_def)

text \<open>C22: The runner exits with status 0 exactly when the scenarios could be loaded, there is at least
  one, and every decision meets what its scenario expects; it reports one result per scenario, in
  order, which lists no failure exactly when the scenario passed.
\<close>

theorem eval_exit_status:
  shows "fst (eval_main loaded) \<in> {0, 1}
    \<and> (fst (eval_main loaded) = 0 \<longleftrightarrow>
        (\<exists>scs. loaded = Inr scs \<and> scs \<noteq> [] \<and>
           (\<forall>sc \<in> set scs. meets (scn_Expected sc) (Evaluate_inputs (scn_Inputs sc)))))
    \<and> (\<forall>scs. loaded = Inr scs \<longrightarrow>
        map re_ScenarioName (snd (eval_main loaded)) = map scn_ScenarioName scs \<and>
        (\<forall>r \<in> set (snd (eval_main loaded)). re_Passed r \<longleftrightarrow> re_Failures r = []))"
proof -
  have name: "re_ScenarioName (Check sc d) = scn_ScenarioName sc" for sc d
    by (simp add: Check_def fail_def Let_def split: option.split)
  show ?thesis
    by (cases loaded)
       (auto simp: eval_main_def eval_loop_spec name Check_failures filter_empty_conv comp_def)
qed

text \<open>Loading: the accepted entries in order, or the first error.\<close>

definition is_scenario_file :: "DirEntry \<Rightarrow> bool" where
  "is_scenario_file e \<longleftrightarrow>
     \<not> dr_IsDir e \<and> to_lower (file_ext (dr_Name e)) \<in> {''.yaml'', ''.yml''}"

definition loaded_as :: "(string \<Rightarrow> string option) \<Rightarrow> (string \<Rightarrow> Scenario option) \<Rightarrow> DirEntry \<Rightarrow> Scenario \<Rightarrow> bool" where
  "loaded_as read_file parse e s \<longleftrightarrow>
     (\<exists>data t. read_file (dr_Name e) = Some data \<and> parse data = Some t \<and>
        s = (if scn_ScenarioName t = [] then t\<lparr>scn_ScenarioName := dr_Name e\<rparr> else t))"

lemma loaded_as_name:
  assumes "loaded_as read_file parse e s" and "dr_Name e \<noteq> []"
  shows "scn_ScenarioName s \<noteq> []"
proof -
  obtain t where "s = (if scn_ScenarioName t = [] then t\<lparr>scn_ScenarioName := dr_Name e\<rparr> else t)"
    using assms(1) by (auto simp: loaded_as_def)
  then show ?thesis using assms(2) by (cases "scn_ScenarioName t = []") simp_all
qed

lemma load_entries_skip:
  "\<not> is_scenario_file e \<Longrightarrow> load_entries rf ps (e # es) acc = load_entries rf ps es acc"
  by (auto simp: is_scenario_file_def Let_def)

lemma load_entries_take:
  assumes "is_scenario_file e" and "load_entries rf ps (e # es) acc = Inr scs"
  obtains s where "loaded_as rf ps e s" and "load_entries rf ps es (acc @ [s]) = Inr scs"
  using assms by (auto simp: is_scenario_file_def loaded_as_def Let_def split: option.splits)

lemma load_entries_spec:
  "load_entries rf ps es acc = Inr scs \<Longrightarrow>
   \<exists>new. scs = acc @ new \<and> list_all2 (loaded_as rf ps) (filter is_scenario_file es) new"
proof (induction es arbitrary: acc)
  case (Cons e es)
  show ?case
  proof (cases "is_scenario_file e")
    case True
    obtain s where s: "loaded_as rf ps e s" "load_entries rf ps es (acc @ [s]) = Inr scs"
      using load_entries_take [OF True Cons.prems] .
    obtain new where "scs = (acc @ [s]) @ new" "list_all2 (loaded_as rf ps) (filter is_scenario_file es) new"
      using Cons.IH [OF s(2)] by blast
    then have "scs = acc @ s # new \<and> list_all2 (loaded_as rf ps) (filter is_scenario_file (e # es)) (s # new)"
      using True s(1) by simp
    then show ?thesis by blast
  next
    case False
    then show ?thesis using Cons by (simp add: load_entries_skip del: load_entries.simps)
  qed
qed simp

text \<open>
  When the scenarios of a directory load, they are, in order, the contents of its files with the
  extension \<^verbatim>\<open>.yaml\<close> or \<^verbatim>\<open>.yml\<close> in any case, directories excluded, and a scenario without a name is
  called after its file.
\<close>

lemma loaded_scenarios:
  assumes "LoadScenarios (Some entries) read_file parse = Inr scs"
  shows "list_all2 (loaded_as read_file parse) (filter is_scenario_file entries) scs
    \<and> ((\<forall>e \<in> set entries. dr_Name e \<noteq> []) \<longrightarrow> (\<forall>s \<in> set scs. scn_ScenarioName s \<noteq> []))"
proof -
  have l: "list_all2 (loaded_as read_file parse) (filter is_scenario_file entries) scs"
    using load_entries_spec [of read_file parse entries "[]" scs] assms
    by (simp add: LoadScenarios_def)
  have "scn_ScenarioName s \<noteq> []" if "\<forall>e \<in> set entries. dr_Name e \<noteq> []" "s \<in> set scs" for s
  proof -
    obtain i where i: "i < length scs" "s = scs ! i" using \<open>s \<in> set scs\<close> by (metis in_set_conv_nth)
    let ?e = "filter is_scenario_file entries ! i"
    have "loaded_as read_file parse ?e s" using l i by (auto simp: list_all2_conv_all_nth)
    moreover have "?e \<in> set entries"
      using l i filter_is_subset [of is_scenario_file entries]
      by (metis list_all2_lengthD nth_mem subsetD)
    ultimately show ?thesis using that(1) by (metis loaded_as_name)
  qed
  with l show ?thesis by blast
qed

section \<open>Witnesses\<close>

definition demo_inputs :: "float64 option \<Rightarrow> Inputs" where
  "demo_inputs ai =
     \<lparr>in_Heartbeat = \<lparr>hi_NodeID = ''n1'', hi_CPUUsage = 95, hi_MemoryUsage = 40, hi_DiskIO = 0,
        hi_NetworkIO = 0, hi_Latency = 120\<rparr>,
      in_Config = \<lparr>ci_Threshold = 1 / 2, ci_RuleThresholds = \<lparr>rt_CPUThreshold = 90,
        rt_MemoryThreshold = 85, rt_LatencyThreshold = 500\<rparr>\<rparr>,
      in_AIScore = ai\<rparr>"

lemma rule_fallback_witness:
  "de_TriggeredRule (Evaluate_inputs (demo_inputs None)) = ''cpu''
   \<and> de_Score (Evaluate_inputs (demo_inputs None)) = 1"
  using rule_fallback [of "demo_inputs None"] by (simp add: demo_inputs_def rule_fires_def Let_def)

lemma ai_decision_witness:
  "de_ActionTaken (Evaluate_inputs (demo_inputs (Some (3 / 4))))
   \<and> de_Score (Evaluate_inputs (demo_inputs (Some (3 / 4)))) = 3 / 4"
  using ai_decision [of "demo_inputs (Some (3 / 4))" "3 / 4"] by (simp add: demo_inputs_def Let_def)

definition demo_expected :: Scenario where
  "demo_expected = \<lparr>scn_ScenarioName = [], scn_Inputs = demo_inputs None,
     scn_Expected = \<lparr>ex_ActionTaken = True, ex_ActionType = [], ex_WasRuleBased = True,
       ex_MinScore = None, ex_MaxScore = None, ex_TriggeredRule = ''cpu''\<rparr>\<rparr>"

theorem eval_exit_status_witness:
  "fst (eval_main (Inr [demo_expected])) = 0 \<and> map re_ScenarioName (snd (eval_main (Inr [demo_expected]))) = [[]]"
proof -
  have "meets (scn_Expected demo_expected) (Evaluate_inputs (scn_Inputs demo_expected))"
    by (simp add: meets_def demo_expected_def demo_inputs_def Evaluate_inputs_def evaluateRuleBased_def
        rule_decision_def Let_def)
  then show ?thesis using eval_exit_status [of "Inr [demo_expected]"] by (simp add: demo_expected_def)
qed

lemma loaded_scenarios_witness:
  "list_all2 (loaded_as Some (\<lambda>_. Some demo_expected))
     (filter is_scenario_file [\<lparr>dr_Name = ''notes.md'', dr_IsDir = False\<rparr>, \<lparr>dr_Name = ''A.YAML'', dr_IsDir = False\<rparr>])
     [demo_expected\<lparr>scn_ScenarioName := ''A.YAML''\<rparr>]"
proof -
  have "LoadScenarios (Some [\<lparr>dr_Name = ''notes.md'', dr_IsDir = False\<rparr>, \<lparr>dr_Name = ''A.YAML'', dr_IsDir = False\<rparr>])
      Some (\<lambda>_. Some demo_expected) = Inr [demo_expected\<lparr>scn_ScenarioName := ''A.YAML''\<rparr>]"
    by code_simp
  from loaded_scenarios [OF this] show ?thesis by blast
qed

end
