(* ===== verification/GoUtf8.thy ===== *)
theory GoUtf8
  imports GoBase
begin

text \<open>
  Go strings as the program's JSON carries them: \<^verbatim>\<open>unicode/utf8\<close> as \<^verbatim>\<open>encoding/json\<close> uses it, the
  escaping of a string by \<^verbatim>\<open>json.Marshal\<close> and its reading by the decoder.  A string is any
  sequence of bytes; a byte that is not part of a well-formed rune comes back as U+FFFD.
\<close>

section \<open>Runes\<close>

abbreviation code :: "char \<Rightarrow> nat" where
  "code c \<equiv> of_char c"

definition ascii :: "char \<Rightarrow> bool" where
  "ascii c \<longleftrightarrow> code c < 0x80"

definition continues :: "char \<Rightarrow> bool" where
  "continues c \<longleftrightarrow> 0x80 \<le> code c \<and> code c \<le> 0xBF"

text \<open>
  The bytes that may follow the first byte of a rune (\<^verbatim>\<open>utf8.DecodeRune\<close>: no overlong form, no
  surrogate, nothing above U+10FFFF).
\<close>

fun wide2 :: "char \<Rightarrow> string \<Rightarrow> bool" where
  "wide2 a [b] \<longleftrightarrow> 0xC2 \<le> code a \<and> code a \<le> 0xDF \<and> continues b"
| "wide2 a _ \<longleftrightarrow> False"

fun wide3 :: "char \<Rightarrow> string \<Rightarrow> bool" where
  "wide3 a [b, c] \<longleftrightarrow>
     0xE0 \<le> code a \<and> code a \<le> 0xEF \<and> continues b \<and> continues c \<and>
     (code a = 0xE0 \<longrightarrow> 0xA0 \<le> code b) \<and> (code a = 0xED \<longrightarrow> code b \<le> 0x9F)"
| "wide3 a _ \<longleftrightarrow> False"

fun wide4 :: "char \<Rightarrow> string \<Rightarrow> bool" where
  "wide4 a [b, c, d] \<longleftrightarrow>
     0xF0 \<le> code a \<and> code a \<le> 0xF4 \<and> continues b \<and> continues c \<and> continues d \<and>
     (code a = 0xF0 \<longrightarrow> 0x90 \<le> code b) \<and> (code a = 0xF4 \<longrightarrow> code b \<le> 0x8F)"
| "wide4 a _ \<longleftrightarrow> False"

text \<open>How many bytes after \<open>a\<close> make a rune with it, when \<open>a\<close> starts one of more than one byte.\<close>

definition wide_tail :: "char \<Rightarrow> string \<Rightarrow> nat option" where
  "wide_tail a s =
     (if wide2 a (take 1 s) then Some 1
      else if wide3 a (take 2 s) then Some 2
      else if wide4 a (take 3 s) then Some 3
      else None)"

datatype rune = Ascii char | Wide string | BadByte char

function runes :: "string \<Rightarrow> rune list" where
  "runes [] = []"
| "runes (a # s) =
     (if ascii a then Ascii a # runes s
      else case wide_tail a s of
             None \<Rightarrow> BadByte a # runes s
           | Some n \<Rightarrow> Wide (a # take n s) # runes (drop n s))"
  by pat_completeness auto
termination by (relation "measure length") auto

fun rune_bytes :: "rune \<Rightarrow> string" where
  "rune_bytes (Ascii c) = [c]"
| "rune_bytes (Wide w) = w"
| "rune_bytes (BadByte c) = [c]"

text \<open>U+FFFD, which stands for a byte that cannot be read.\<close>

definition RuneError :: string where
  "RuneError = [CHR 0xEF, CHR 0xBF, CHR 0xBD]"

fun rune_valid :: "rune \<Rightarrow> string" where
  "rune_valid (BadByte c) = RuneError"
| "rune_valid r = rune_bytes r"

definition to_valid :: "string \<Rightarrow> string" where
  "to_valid s = concat (map rune_valid (runes s))"

fun is_bad :: "rune \<Rightarrow> bool" where
  "is_bad (BadByte c) = True"
| "is_bad r = False"

text \<open>\<^verbatim>\<open>utf8.ValidString\<close>.\<close>

definition valid_utf8 :: "string \<Rightarrow> bool" where
  "valid_utf8 s \<longleftrightarrow> (\<forall>r \<in> set (runes s). \<not> is_bad r)"

fun wf_rune :: "rune \<Rightarrow> bool" where
  "wf_rune (Ascii c) = ascii c"
| "wf_rune (Wide []) = False"
| "wf_rune (Wide (a # s)) \<longleftrightarrow> \<not> ascii a \<and> wide_tail a s = Some (length s)"
| "wf_rune (BadByte c) = (\<not> ascii c)"

subsection \<open>A string is its runes\<close>

lemma take_1_cases: "wide2 a (take 1 s) \<Longrightarrow> \<exists>b s'. s = b # s' \<and> wide2 a [b]"
  by (cases s) auto

lemma take_2_cases: "wide3 a (take 2 s) \<Longrightarrow> \<exists>b c s'. s = b # c # s' \<and> wide3 a [b, c]"
  by (cases s; cases "tl s") (auto simp: numeral_2_eq_2)

lemma take_3_cases: "wide4 a (take 3 s) \<Longrightarrow> \<exists>b c d s'. s = b # c # d # s' \<and> wide4 a [b, c, d]"
  by (cases s; cases "tl s"; cases "tl (tl s)") (auto simp: numeral_3_eq_3)

lemma wide_exclusive:
  "wide3 a [b, c] \<Longrightarrow> \<not> wide2 a t" "wide4 a [b, c, d] \<Longrightarrow> \<not> wide2 a t"
  "wide4 a [b, c, d] \<Longrightarrow> \<not> wide3 a t"
  by (auto elim: wide2.elims wide3.elims)

text \<open>Whether \<open>a\<close> starts a rune is settled by the bytes of that rune.\<close>

lemma wide_tailE:
  assumes "wide_tail a s = Some n"
  obtains "n \<le> length s" "n = 1 \<or> n = 2 \<or> n = 3" "\<not> ascii a" "\<forall>b \<in> set (take n s). continues b"
    "\<And>t. wide_tail a (take n s @ t) = Some n"
proof -
  have "n \<le> length s \<and> (n = 1 \<or> n = 2 \<or> n = 3) \<and> \<not> ascii a \<and> (\<forall>b \<in> set (take n s). continues b) \<and>
    (\<forall>t. wide_tail a (take n s @ t) = Some n)"
    using assms unfolding wide_tail_def
    by (auto simp: ascii_def wide_exclusive numeral_2_eq_2 numeral_3_eq_3
        dest!: take_1_cases [unfolded One_nat_def] take_2_cases [unfolded numeral_2_eq_2] take_3_cases [unfolded numeral_3_eq_3]
        split: if_splits)
  then show thesis using that by blast
qed

lemma wf_runes: "r \<in> set (runes s) \<Longrightarrow> wf_rune r"
proof (induction s rule: runes.induct)
  case (2 a s)
  then show ?case
    by (auto simp: min_absorb2 split: if_splits option.splits elim!: wide_tailE)
      (metis append_Nil2)+
qed simp

lemma rune_bytes_runes: "concat (map rune_bytes (runes s)) = s"
proof (induction s rule: runes.induct)
  case (2 a s)
  then show ?case by (auto split: option.split)
qed simp

lemma valid_rune: "\<not> is_bad r \<Longrightarrow> rune_valid r = rune_bytes r"
  by (cases r) auto

lemma to_valid_id: "valid_utf8 s \<Longrightarrow> to_valid s = s"
proof -
  assume "valid_utf8 s"
  then have "map rune_valid (runes s) = map rune_bytes (runes s)"
    by (auto simp: valid_utf8_def valid_rune)
  from this show ?thesis unfolding to_valid_def by (simp only: rune_bytes_runes)
qed

lemma runes_ascii: "list_all ascii s \<Longrightarrow> runes s = map Ascii s"
  by (induction s) auto

lemma valid_ascii: "list_all ascii s \<Longrightarrow> valid_utf8 s"
  by (auto simp: valid_utf8_def runes_ascii)

section \<open>Escaped text\<close>

definition hex_digit :: "nat \<Rightarrow> char" where
  "hex_digit d = (if d < 10 then char_of (48 + d) else char_of (87 + d))"

definition hex_val :: "char \<Rightarrow> nat option" where
  "hex_val c =
     (let k = code c in
      if 48 \<le> k \<and> k \<le> 57 then Some (k - 48)
      else if 97 \<le> k \<and> k \<le> 102 then Some (k - 87)
      else if 65 \<le> k \<and> k \<le> 70 then Some (k - 55)
      else None)"

definition backslash :: char where "backslash = CHR 0x5C"
definition quote_mark :: char where "quote_mark = CHR 0x22"

text \<open>\<^verbatim>\<open>appendString\<close>: one rune inside the quotes, with the HTML characters escaped.\<close>

definition escape_ascii :: "char \<Rightarrow> string" where
  "escape_ascii c =
     (if c = quote_mark \<or> c = backslash then [backslash, c]
      else if c = CHR 0x08 then [backslash, CHR ''b'']
      else if c = CHR 0x0C then [backslash, CHR ''f'']
      else if c = CHR 0x0A then [backslash, CHR ''n'']
      else if c = CHR 0x0D then [backslash, CHR ''r'']
      else if c = CHR 0x09 then [backslash, CHR ''t'']
      else if code c < 32 \<or> c = CHR ''<'' \<or> c = CHR ''>'' \<or> c = CHR ''&''
      then [backslash, CHR ''u'', CHR ''0'', CHR ''0'', hex_digit (code c div 16), hex_digit (code c mod 16)]
      else [c])"

fun escape_rune :: "rune \<Rightarrow> string" where
  "escape_rune (Ascii c) = escape_ascii c"
| "escape_rune (Wide w) =
     (if w = [CHR 0xE2, CHR 0x80, CHR 0xA8] then backslash # ''u2028''
      else if w = [CHR 0xE2, CHR 0x80, CHR 0xA9] then backslash # ''u2029''
      else w)"
| "escape_rune (BadByte c) = backslash # ''ufffd''"

definition escape :: "string \<Rightarrow> string" where
  "escape s = concat (map escape_rune (runes s))"

text \<open>\<^verbatim>\<open>utf8.EncodeRune\<close>.\<close>

definition encode_rune :: "nat \<Rightarrow> string" where
  "encode_rune r =
     (if r < 0x80 then [char_of r]
      else if r < 0x800 then [char_of (0xC0 + r div 64), char_of (0x80 + r mod 64)]
      else if (0xD800 \<le> r \<and> r \<le> 0xDFFF) \<or> 0x10FFFF < r then RuneError
      else if r < 0x10000
      then [char_of (0xE0 + r div 4096), char_of (0x80 + r div 64 mod 64), char_of (0x80 + r mod 64)]
      else [char_of (0xF0 + r div 262144), char_of (0x80 + r div 4096 mod 64),
            char_of (0x80 + r div 64 mod 64), char_of (0x80 + r mod 64)])"

text \<open>\<^verbatim>\<open>getu4\<close>: the four hexadecimal digits after \<open>\u\<close>.\<close>

fun hex4 :: "string \<Rightarrow> nat option" where
  "hex4 (a # b # c # d # s) =
     (case (hex_val a, hex_val b, hex_val c, hex_val d) of
        (Some w, Some x, Some y, Some z) \<Rightarrow> Some (((w * 16 + x) * 16 + y) * 16 + z)
      | _ \<Rightarrow> None)"
| "hex4 _ = None"

definition surrogate_high :: "nat \<Rightarrow> bool" where
  "surrogate_high r \<longleftrightarrow> 0xD800 \<le> r \<and> r < 0xDC00"

definition surrogate_low :: "nat \<Rightarrow> bool" where
  "surrogate_low r \<longleftrightarrow> 0xDC00 \<le> r \<and> r < 0xE000"

text \<open>
  The text after \<open>\u\<close>: what it stands for and how much of it is read; a high surrogate is joined
  with the low surrogate of the \<open>\u\<close> that follows, and a lone one is U+FFFD.
\<close>

definition unescape_u :: "string \<Rightarrow> (string \<times> nat) option" where
  "unescape_u s =
     (case hex4 s of
        None \<Rightarrow> None
      | Some r \<Rightarrow>
          if surrogate_high r \<and> take 2 (drop 4 s) = [backslash, CHR ''u''] then
            (case hex4 (drop 6 s) of
               Some r2 \<Rightarrow>
                 if surrogate_low r2
                 then Some (encode_rune ((r - 0xD800) * 1024 + (r2 - 0xDC00) + 0x10000), 10)
                 else Some (RuneError, 4)
             | None \<Rightarrow> Some (RuneError, 4))
          else Some (encode_rune r, 4))"

fun unescape :: "string \<Rightarrow> (string \<times> nat) option" where
  "unescape [] = None"
| "unescape (c # s) =
     (if c = quote_mark \<or> c = backslash \<or> c = CHR ''/'' then Some ([c], 1)
      else if c = CHR ''b'' then Some ([CHR 0x08], 1)
      else if c = CHR ''f'' then Some ([CHR 0x0C], 1)
      else if c = CHR ''n'' then Some ([CHR 0x0A], 1)
      else if c = CHR ''r'' then Some ([CHR 0x0D], 1)
      else if c = CHR ''t'' then Some ([CHR 0x09], 1)
      else if c = CHR ''u'' then map_option (\<lambda>(r, k). (r, Suc k)) (unescape_u s)
      else None)"

text \<open>The decoder's \<^verbatim>\<open>unquote\<close>, on the text between the quotes.\<close>

function unquote :: "string \<Rightarrow> string option" where
  "unquote [] = Some []"
| "unquote (a # s) =
     (if a = backslash then
        (case unescape s of
           None \<Rightarrow> None
         | Some (r, k) \<Rightarrow> map_option ((@) r) (unquote (drop k s)))
      else if a = quote_mark \<or> code a < 32 then None
      else if ascii a then map_option ((@) [a]) (unquote s)
      else case wide_tail a s of
             None \<Rightarrow> map_option ((@) RuneError) (unquote s)
           | Some n \<Rightarrow> map_option ((@) (a # take n s)) (unquote (drop n s)))"
  by pat_completeness auto
termination by (relation "measure length") auto

subsection \<open>Reading back what was escaped\<close>

lemma hex_val_digit: "d < 16 \<Longrightarrow> hex_val (hex_digit d) = Some d"
  by (auto simp: hex_val_def hex_digit_def of_char_of Let_def)

lemma unquote_escape:
  "unescape (s @ t) = Some (r, length s) \<Longrightarrow> unquote (backslash # s @ t) = map_option ((@) r) (unquote t)"
  by simp

lemma unescape_u_literal:
  "hex4 (s @ t) = Some r \<Longrightarrow> \<not> surrogate_high r \<Longrightarrow> length s = 4 \<Longrightarrow>
   unescape (CHR ''u'' # s @ t) = Some (encode_rune r, Suc (length s))"
  by (simp add: unescape_u_def quote_mark_def backslash_def)

lemma unescape_control:
  assumes "code c < 128"
  shows "unescape (CHR ''u'' # [CHR ''0'', CHR ''0'', hex_digit (code c div 16), hex_digit (code c mod 16)] @ t) =
    Some ([c], 5)"
proof -
  have "hex_val CHR ''0'' = Some 0" by (simp add: hex_val_def Let_def)
  then have "hex4 ([CHR ''0'', CHR ''0'', hex_digit (code c div 16), hex_digit (code c mod 16)] @ t) = Some (code c)"
    using assms by (simp add: hex_val_digit)
  from unescape_u_literal [OF this] assms show ?thesis
    by (simp add: surrogate_high_def encode_rune_def)
qed

lemma escape_ascii_cases:
  obtains (plain) "escape_ascii c = [c]" "c \<noteq> backslash" "c \<noteq> quote_mark" "\<not> code c < 32"
    | (short) d where "escape_ascii c = [backslash, d]" "unescape (d # t) = Some ([c], 1)"
    | (control) "escape_ascii c =
        [backslash, CHR ''u'', CHR ''0'', CHR ''0'', hex_digit (code c div 16), hex_digit (code c mod 16)]"
proof -
  note defs = escape_ascii_def quote_mark_def backslash_def
  consider "c = quote_mark \<or> c = backslash" | "c = CHR 0x08" | "c = CHR 0x0C" | "c = CHR 0x0A"
    | "c = CHR 0x0D" | "c = CHR 0x09"
    | (other) "c \<notin> {quote_mark, backslash, CHR 0x08, CHR 0x0C, CHR 0x0A, CHR 0x0D, CHR 0x09}"
    by blast
  then show thesis
  proof cases
    case 1 then show thesis by (intro short [of c]) (auto simp: defs)
  next
    case 2 then show thesis by (intro short [of "CHR ''b''"]) (simp_all add: defs)
  next
    case 3 then show thesis by (intro short [of "CHR ''f''"]) (simp_all add: defs)
  next
    case 4 then show thesis by (intro short [of "CHR ''n''"]) (simp_all add: defs)
  next
    case 5 then show thesis by (intro short [of "CHR ''r''"]) (simp_all add: defs)
  next
    case 6 then show thesis by (intro short [of "CHR ''t''"]) (simp_all add: defs)
  next
    case other
    then have o: "escape_ascii c = (if code c < 32 \<or> c = CHR ''<'' \<or> c = CHR ''>'' \<or> c = CHR ''&''
      then [backslash, CHR ''u'', CHR ''0'', CHR ''0'', hex_digit (code c div 16), hex_digit (code c mod 16)]
      else [c])"
      by (simp add: escape_ascii_def)
    show thesis
    proof (cases "code c < 32 \<or> c = CHR ''<'' \<or> c = CHR ''>'' \<or> c = CHR ''&''")
      case True
      with o show thesis by (intro control) (simp only: if_True)
    next
      case False
      moreover from False o have "escape_ascii c = [c]" by (simp only: if_False)
      ultimately show thesis using other by (intro plain) simp_all
    qed
  qed
qed

lemma unquote_ascii: "ascii c \<Longrightarrow> unquote (escape_ascii c @ t) = map_option ((@) [c]) (unquote t)"
proof -
  assume c: "ascii c"
  have ctl: "unquote (backslash # CHR ''u'' # CHR ''0'' # CHR ''0'' # hex_digit (code c div 16) # hex_digit (code c mod 16) # t) =
    map_option ((@) [c]) (unquote t)"
    using unquote_escape [of "[CHR ''u'', CHR ''0'', CHR ''0'', hex_digit (code c div 16), hex_digit (code c mod 16)]" t "[c]"]
      unescape_control [of c t] c by (simp add: ascii_def)
  have esc: "unquote (backslash # d # t) = map_option ((@) [c]) (unquote t)"
    if "unescape (d # t) = Some ([c], 1)" for d
    using unquote_escape [of "[d]" t] that by simp
  consider (plain) "escape_ascii c = [c]" "c \<noteq> backslash" "c \<noteq> quote_mark" "\<not> code c < 32"
    | (short) d where "escape_ascii c = [backslash, d]" "unescape (d # t) = Some ([c], 1)"
    | (control) "escape_ascii c =
        [backslash, CHR ''u'', CHR ''0'', CHR ''0'', hex_digit (code c div 16), hex_digit (code c mod 16)]"
    by (rule escape_ascii_cases)
  then show ?thesis
  proof cases
    case plain with c show ?thesis by simp
  next
    case short with esc show ?thesis by (simp del: unquote.simps)
  next
    case control with ctl show ?thesis by (simp del: unquote.simps)
  qed
qed

lemma unquote_plain_rune:
  assumes "wf_rune (Wide w)"
  shows "unquote (w @ t) = map_option ((@) w) (unquote t)"
proof (cases w)
  case (Cons a s)
  with assms have a: "\<not> ascii a" and n: "wide_tail a s = Some (length s)" by simp_all
  obtain r: "wide_tail a (s @ t) = Some (length s)"
    using wide_tailE [OF n] by (metis take_all order_refl)
  have "a \<noteq> backslash" "a \<noteq> quote_mark" "\<not> code a < 32"
    using a by (auto simp: ascii_def backslash_def quote_mark_def)
  then show ?thesis using a r Cons by simp
qed (use assms in simp)

lemma encode_samples:
  "encode_rune 0xFFFD = RuneError"
  "encode_rune 0x2028 = [CHR 0xE2, CHR 0x80, CHR 0xA8]"
  "encode_rune 0x2029 = [CHR 0xE2, CHR 0x80, CHR 0xA9]"
  by (simp_all add: encode_rune_def RuneError_def char_of_def bit_0)

lemma unquote_rune:
  assumes "wf_rune r"
  shows "unquote (escape_rune r @ t) = map_option ((@) (rune_valid r)) (unquote t)"
proof (cases r)
  case (Ascii c)
  then show ?thesis using assms unquote_ascii by simp
next
  case (BadByte c)
  have h: "hex4 (''fffd'' @ t) = Some 0xFFFD" by (simp add: hex_val_def Let_def)
  have "unescape (''ufffd'' @ t) = Some (RuneError, length ''ufffd'')"
    using unescape_u_literal [OF h] by (simp add: surrogate_high_def encode_samples)
  from unquote_escape [OF this] show ?thesis by (simp add: BadByte del: unquote.simps)
next
  case (Wide w)
  have h: "hex4 (''2028'' @ t) = Some 0x2028" "hex4 (''2029'' @ t) = Some 0x2029"
    by (simp_all add: hex_val_def Let_def)
  have u: "unescape (''u2028'' @ t) = Some ([CHR 0xE2, CHR 0x80, CHR 0xA8], length ''u2028'')"
    "unescape (''u2029'' @ t) = Some ([CHR 0xE2, CHR 0x80, CHR 0xA9], length ''u2029'')"
    using unescape_u_literal [OF h(1)] unescape_u_literal [OF h(2)]
    by (simp_all add: surrogate_high_def encode_samples)
  show ?thesis
    using unquote_escape [OF u(1)] unquote_escape [OF u(2)] unquote_plain_rune [of w t] assms
    by (auto simp: Wide simp del: unquote.simps)
qed

text \<open>A string comes back as itself, except that a byte outside any rune comes back as U+FFFD.\<close>

lemma unquote_escaped: "unquote (concat (map escape_rune (runes s)) @ t) = map_option ((@) (to_valid s)) (unquote t)"
proof -
  have "\<forall>r \<in> set rs. wf_rune r \<Longrightarrow>
    unquote (concat (map escape_rune rs) @ t) = map_option ((@) (concat (map rune_valid rs))) (unquote t)" for rs
    by (induction rs; cases "unquote t") (simp_all add: unquote_rune del: unquote.simps)
  then show ?thesis unfolding to_valid_def using wf_runes by blast
qed

lemma unquote_escape_id [simp]: "unquote (escape s) = Some (to_valid s)"
  using unquote_escaped [of s "[]"] by (simp add: escape_def)


section \<open>Decoded text is valid\<close>

lemma runes_rune: "wf_rune r \<Longrightarrow> \<not> is_bad r \<Longrightarrow> runes (rune_bytes r @ t) = r # runes t"
proof (cases r)
  case (Wide w)
  assume "wf_rune r"
  then obtain a s where w: "w = a # s" "\<not> ascii a" "wide_tail a s = Some (length s)"
    using Wide by (cases w) auto
  have "wide_tail a (s @ t) = Some (length s)" using wide_tailE [OF w(3)] by (metis take_all order_refl)
  with w Wide show ?thesis by simp
qed auto

lemma valid_rune_append: "wf_rune r \<Longrightarrow> \<not> is_bad r \<Longrightarrow> valid_utf8 t \<Longrightarrow> valid_utf8 (rune_bytes r @ t)"
  by (simp add: valid_utf8_def runes_rune del: runes.simps)

lemma RuneError_wide: "wf_rune (Wide RuneError)"
  by (simp add: RuneError_def ascii_def wide_tail_def continues_def numeral_2_eq_2)

lemma to_valid_valid: "valid_utf8 (to_valid s)"
proof -
  have v: "\<exists>r'. rune_valid r = rune_bytes r' \<and> wf_rune r' \<and> \<not> is_bad r'" if "wf_rune r" for r
  proof (cases r)
    case (BadByte c)
    then show ?thesis using RuneError_wide by (intro exI [of _ "Wide RuneError"]) simp
  qed (use that in \<open>auto intro: exI [of _ r]\<close>)
  have "\<forall>r \<in> set rs. wf_rune r \<Longrightarrow> valid_utf8 (concat (map rune_valid rs))" for rs
  proof (induction rs)
    case (Cons r rs)
    obtain r' where "rune_valid r = rune_bytes r'" "wf_rune r'" "\<not> is_bad r'" using v Cons.prems by force
    with Cons show ?case by (simp add: valid_rune_append)
  qed (simp add: valid_utf8_def)
  then show ?thesis unfolding to_valid_def using wf_runes by blast
qed

lemma to_valid_idem [simp]: "to_valid (to_valid s) = to_valid s"
  by (rule to_valid_id [OF to_valid_valid])

text \<open>The encoding of a code point is one rune.\<close>

lemma mod_64: "k mod 64 < (64 :: nat)"
  by simp

lemma three_byte_rune:
  fixes n :: nat
  assumes three: "0x800 \<le> n" "n < 0x10000" "\<not> (0xD800 \<le> n \<and> n \<le> 0xDFFF)"
  shows "wf_rune (Wide [char_of (0xE0 + n div 4096), char_of (0x80 + n div 64 mod 64), char_of (0x80 + n mod 64)])"
proof -
  have "n div 4096 = n div 64 div 64" using div_mult2_eq [where m = n and n = 64 and q = 64] by simp
  then have d: "n div 4096 < 16" "n div 64 = n div 4096 * 64 + n div 64 mod 64"
    using three by (simp_all add: div_less_iff_less_mult)
  have e: "n div 4096 = 0 \<longrightarrow> 0x20 \<le> n div 64 mod 64"
    using three(1) d(2) div_le_mono [OF three(1), of 64] by auto
  have f: "n div 4096 = 0xD \<longrightarrow> n div 64 mod 64 < 0x20"
  proof
    assume "n div 4096 = 0xD"
    then have "0xD000 \<le> n" "n < 0xE000"
      using div_mult_mod_eq [of n 4096] mod_less_divisor [of 4096 n] by linarith+
    then have "n < 0xD800" using three(3) by linarith
    then have "n div 64 < 0x360" by (simp add: div_less_iff_less_mult)
    with d(2) \<open>n div 4096 = 0xD\<close> show "n div 64 mod 64 < 0x20" by linarith
  qed
  show ?thesis
    using mod_64 [of n] mod_64 [of "n div 64"] d(1) e f
    by (auto simp: ascii_def wide_tail_def continues_def of_char_of numeral_2_eq_2)
qed

lemma four_byte_rune:
  fixes n :: nat
  assumes four: "0x10000 \<le> n" "n \<le> 0x10FFFF"
  shows "wf_rune (Wide [char_of (0xF0 + n div 262144), char_of (0x80 + n div 4096 mod 64),
    char_of (0x80 + n div 64 mod 64), char_of (0x80 + n mod 64)])"
proof -
  have "n div 262144 = n div 4096 div 64" using div_mult2_eq [where m = n and n = 4096 and q = 64] by simp
  moreover have "n div 262144 \<le> 4" using div_le_mono [OF four(2), of 262144] by simp
  ultimately have d: "n div 262144 \<le> 4" "n div 4096 = n div 262144 * 64 + n div 4096 mod 64"
    by simp_all
  have e: "n div 262144 = 0 \<longrightarrow> 0x10 \<le> n div 4096 mod 64"
    using four(1) d(2) div_le_mono [OF four(1), of 4096] by auto
  have f: "n div 262144 = 4 \<longrightarrow> n div 4096 mod 64 < 0x10"
    using four(2) d(2) div_le_mono [OF four(2), of 4096] by auto
  show ?thesis
    using mod_64 [of n] mod_64 [of "n div 64"] mod_64 [of "n div 4096"] d(1) e f
    by (auto simp: ascii_def wide_tail_def continues_def of_char_of numeral_2_eq_2 numeral_3_eq_3)
qed

lemma encode_rune_wf: "\<exists>r. encode_rune n = rune_bytes r \<and> wf_rune r \<and> \<not> is_bad r"
proof -
  consider (one) "n < 0x80" | (two) "0x80 \<le> n" "n < 0x800" | (bad) "0x800 \<le> n" "(0xD800 \<le> n \<and> n \<le> 0xDFFF) \<or> 0x10FFFF < n"
    | (three) "0x800 \<le> n" "n < 0x10000" "\<not> (0xD800 \<le> n \<and> n \<le> 0xDFFF)"
    | (four) "0x10000 \<le> n" "n \<le> 0x10FFFF"
    by linarith
  then show ?thesis
  proof cases
    case one
    then show ?thesis by (intro exI [of _ "Ascii (char_of n)"]) (simp add: encode_rune_def ascii_def of_char_of)
  next
    case two
    have "2 \<le> n div 64" "n div 64 < 32" using two div_le_mono [OF two(1), of 64] by (simp_all add: div_less_iff_less_mult)
    then have "wf_rune (Wide [char_of (0xC0 + n div 64), char_of (0x80 + n mod 64)])"
      using mod_64 [of n] by (simp add: ascii_def wide_tail_def continues_def of_char_of)
    with two show ?thesis by (intro exI [of _ "Wide (encode_rune n)"]) (simp add: encode_rune_def)
  next
    case bad
    then show ?thesis using RuneError_wide
      by (intro exI [of _ "Wide RuneError"]) (auto simp: encode_rune_def)
  next
    case three
    from three_byte_rune [OF three] three show ?thesis by (intro exI [of _ "Wide (encode_rune n)"]) (auto simp: encode_rune_def)
  next
    case four
    from four_byte_rune [OF four] four show ?thesis by (intro exI [of _ "Wide (encode_rune n)"]) (simp add: encode_rune_def)
  qed
qed


definition one_rune :: "string \<Rightarrow> bool" where
  "one_rune w \<longleftrightarrow> (\<exists>r. w = rune_bytes r \<and> wf_rune r \<and> \<not> is_bad r)"

lemma one_rune_ascii: "ascii c \<Longrightarrow> one_rune [c]"
  unfolding one_rune_def by (intro exI [of _ "Ascii c"]) simp

lemma one_rune_error: "one_rune RuneError"
  unfolding one_rune_def using RuneError_wide by (intro exI [of _ "Wide RuneError"]) simp

lemma one_rune_append: "one_rune w \<Longrightarrow> valid_utf8 t \<Longrightarrow> valid_utf8 (w @ t)"
  by (auto simp: one_rune_def valid_rune_append)

lemma unescape_u_one: "unescape_u s = Some (r, k) \<Longrightarrow> one_rune r"
  using encode_rune_wf one_rune_error
  by (auto simp: unescape_u_def one_rune_def [symmetric] Let_def encode_rune_wf [folded one_rune_def]
      split: option.splits if_splits)

lemma unescape_one: "unescape s = Some (r, k) \<Longrightarrow> one_rune r"
proof (cases s)
  case (Cons c t)
  assume u: "unescape s = Some (r, k)"
  have a: "ascii quote_mark" "ascii backslash" "ascii CHR ''/''" "ascii CHR 0x08" "ascii CHR 0x0C" "ascii CHR 0x0A"
    "ascii CHR 0x0D" "ascii CHR 0x09"
    by (simp_all add: ascii_def quote_mark_def backslash_def)
  show ?thesis
  proof (cases "c = CHR ''u''")
    case True
    then have "c \<noteq> quote_mark" "c \<noteq> backslash" by (auto simp: quote_mark_def backslash_def)
    with True u Cons show ?thesis by (auto dest: unescape_u_one)
  next
    case False
    with u Cons a show ?thesis by (auto intro: one_rune_ascii split: if_splits)
  qed
qed simp

lemma unquote_valid: "unquote l = Some s \<Longrightarrow> valid_utf8 s"
proof (induction l arbitrary: s rule: unquote.induct)
  case 1
  then show ?case by (simp add: valid_utf8_def)
next
  case (2 a l)
  show ?case
  proof (cases "a = backslash")
    case True
    with 2 show ?thesis
      by (auto split: option.splits prod.splits intro!: one_rune_append dest: unescape_one)
  next
    case nb: False
    with 2(5) have nq: "\<not> (a = quote_mark \<or> code a < 32)" by (auto split: if_splits)
    show ?thesis
    proof (cases "ascii a")
      case True
      with nb nq 2 obtain t where "unquote l = Some t" "s = [a] @ t" by auto
      with True 2(2) [OF nb nq True] show ?thesis using one_rune_append [OF one_rune_ascii] by simp
    next
      case na: False
      show ?thesis
      proof (cases "wide_tail a l")
        case None
        with nb nq na 2(5) obtain t where "unquote l = Some t" "s = RuneError @ t" by auto
        with 2(3) [OF nb nq na None] show ?thesis using one_rune_append [OF one_rune_error] by simp
      next
        case (Some n)
        with nb nq na 2(5) obtain t where t: "unquote (drop n l) = Some t" "s = (a # take n l) @ t" by auto
        have "wf_rune (Wide (a # take n l))"
          using wide_tailE [OF Some] na by (metis append_Nil2 length_take min.absorb2 wf_rune.simps(3))
        then have "one_rune (a # take n l)" unfolding one_rune_def by (intro exI [of _ "Wide (a # take n l)"]) simp
        with t 2(4) [OF nb nq na Some] show ?thesis using one_rune_append [of "a # take n l" t] by simp
      qed
    qed
  qed
qed

end
