(* ===== verification/GoJson.thy ===== *)
theory GoJson
  imports GoUtf8
begin

text \<open>
  JSON as \<^verbatim>\<open>encoding/json\<close> writes and reads it: the text of a value, the scanner with its stack of
  open arrays and objects and its bound on their nesting, and the theorem that the scanner reads
  the text of a value as that value.  Reading goes one character at a time, so it always ends.
\<close>

section \<open>Values and their text\<close>

text \<open>
  A number or a string is kept as its literal, as the decoder keeps it until it knows the type that
  the literal fills: the text of a number, and the text between the quotes of a string.
\<close>

datatype json =
    JNull
  | JBool bool
  | JNum string
  | JStr string
  | JArr "json list"
  | JObj "(string \<times> json) list"

definition quoted :: "string \<Rightarrow> string" where
  "quoted l = quote_mark # l @ [quote_mark]"

fun json_text :: "json \<Rightarrow> string" where
  "json_text JNull = ''null''"
| "json_text (JBool b) = (if b then ''true'' else ''false'')"
| "json_text (JNum l) = l"
| "json_text (JStr l) = quoted l"
| "json_text (JArr vs) = CHR ''['' # join '','' (map json_text vs) @ '']''"
| "json_text (JObj ms) = CHR ''{'' # join '','' (map (\<lambda>(k, v). quoted k @ CHR '':'' # json_text v) ms) @ ''}''"

section \<open>The scanner\<close>

datatype frame =
    InArray "json list"
  | AtKey "(string \<times> json) list"
  | AtValue "(string \<times> json) list" string

datatype scan =
    BeginValue
  | BeginValueOrEmpty
  | BeginString
  | BeginStringOrEmpty
  | EndValue json
  | InString string
  | InEscape string
  | InHex nat string
  | Neg string
  | Zero string
  | Digits string
  | Dot string
  | Fraction string
  | Exponent string
  | ExponentSign string
  | ExponentDigits string
  | Letters string json

datatype outcome = Next scan "frame list" | Done json | Stop

definition maxNestingDepth :: nat where "maxNestingDepth = 10000"

definition space :: "char \<Rightarrow> bool" where
  "space c \<longleftrightarrow> c = CHR '' '' \<or> c = CHR 0x09 \<or> c = CHR 0x0D \<or> c = CHR 0x0A"

definition digit :: "char \<Rightarrow> bool" where
  "digit c \<longleftrightarrow> 48 \<le> code c \<and> code c \<le> 57"

text \<open>\<^verbatim>\<open>pushParseState\<close>.\<close>

definition push :: "scan \<Rightarrow> frame \<Rightarrow> frame list \<Rightarrow> outcome" where
  "push st f fs = (if length fs < maxNestingDepth then Next st (f # fs) else Stop)"

definition begin_value :: "scan \<Rightarrow> frame list \<Rightarrow> char \<Rightarrow> outcome" where
  "begin_value here fs c =
     (if space c then Next here fs
      else if c = CHR ''{'' then push BeginStringOrEmpty (AtKey []) fs
      else if c = CHR ''['' then push BeginValueOrEmpty (InArray []) fs
      else if c = quote_mark then Next (InString []) fs
      else if c = CHR ''-'' then Next (Neg [c]) fs
      else if c = CHR ''0'' then Next (Zero [c]) fs
      else if c = CHR ''t'' then Next (Letters ''rue'' (JBool True)) fs
      else if c = CHR ''f'' then Next (Letters ''alse'' (JBool False)) fs
      else if c = CHR ''n'' then Next (Letters ''ull'' JNull) fs
      else if digit c then Next (Digits [c]) fs
      else Stop)"

text \<open>\<^verbatim>\<open>stateEndValue\<close>: what may follow a finished value, given what it is part of.\<close>

fun end_value :: "json \<Rightarrow> frame list \<Rightarrow> char \<Rightarrow> outcome" where
  "end_value v [] c = Done v"
| "end_value v (f # fs) c =
     (if space c then Next (EndValue v) (f # fs)
      else case f of
        InArray vs \<Rightarrow>
          if c = CHR '','' then Next BeginValue (InArray (vs @ [v]) # fs)
          else if c = CHR '']'' then Next (EndValue (JArr (vs @ [v]))) fs
          else Stop
      | AtKey ms \<Rightarrow>
          (case v of
             JStr k \<Rightarrow> if c = CHR '':'' then Next BeginValue (AtValue ms k # fs) else Stop
           | _ \<Rightarrow> Stop)
      | AtValue ms k \<Rightarrow>
          if c = CHR '','' then Next BeginString (AtKey (ms @ [(k, v)]) # fs)
          else if c = CHR ''}'' then Next (EndValue (JObj (ms @ [(k, v)]))) fs
          else Stop)"

definition begin_string :: "scan \<Rightarrow> frame list \<Rightarrow> char \<Rightarrow> outcome" where
  "begin_string here fs c =
     (if space c then Next here fs
      else if c = quote_mark then Next (InString []) fs
      else Stop)"

definition after_integer :: "string \<Rightarrow> frame list \<Rightarrow> char \<Rightarrow> outcome" where
  "after_integer l fs c =
     (if c = CHR ''.'' then Next (Dot (l @ [c])) fs
      else if c = CHR ''e'' \<or> c = CHR ''E'' then Next (Exponent (l @ [c])) fs
      else end_value (JNum l) fs c)"

fun step :: "scan \<Rightarrow> frame list \<Rightarrow> char \<Rightarrow> outcome" where
  "step BeginValue fs c = begin_value BeginValue fs c"
| "step BeginValueOrEmpty fs c =
     (if c = CHR '']'' then
        (case fs of InArray vs # fs' \<Rightarrow> Next (EndValue (JArr vs)) fs' | _ \<Rightarrow> Stop)
      else begin_value BeginValueOrEmpty fs c)"
| "step BeginString fs c = begin_string BeginString fs c"
| "step BeginStringOrEmpty fs c =
     (if c = CHR ''}'' then
        (case fs of AtKey ms # fs' \<Rightarrow> Next (EndValue (JObj ms)) fs' | _ \<Rightarrow> Stop)
      else begin_string BeginStringOrEmpty fs c)"
| "step (EndValue v) fs c = end_value v fs c"
| "step (InString raw) fs c =
     (if c = quote_mark then Next (EndValue (JStr raw)) fs
      else if c = backslash then Next (InEscape (raw @ [c])) fs
      else if code c < 32 then Stop
      else Next (InString (raw @ [c])) fs)"
| "step (InEscape raw) fs c =
     (if c = CHR ''u'' then Next (InHex 4 (raw @ [c])) fs
      else if c = quote_mark \<or> c = backslash \<or> c = CHR ''/'' \<or> c = CHR ''b'' \<or> c = CHR ''f'' \<or>
        c = CHR ''n'' \<or> c = CHR ''r'' \<or> c = CHR ''t''
      then Next (InString (raw @ [c])) fs
      else Stop)"
| "step (InHex n raw) fs c =
     (if hex_val c = None then Stop
      else if n \<le> 1 then Next (InString (raw @ [c])) fs
      else Next (InHex (n - 1) (raw @ [c])) fs)"
| "step (Neg l) fs c =
     (if c = CHR ''0'' then Next (Zero (l @ [c])) fs
      else if digit c then Next (Digits (l @ [c])) fs
      else Stop)"
| "step (Zero l) fs c = after_integer l fs c"
| "step (Digits l) fs c = (if digit c then Next (Digits (l @ [c])) fs else after_integer l fs c)"
| "step (Dot l) fs c = (if digit c then Next (Fraction (l @ [c])) fs else Stop)"
| "step (Fraction l) fs c =
     (if digit c then Next (Fraction (l @ [c])) fs
      else if c = CHR ''e'' \<or> c = CHR ''E'' then Next (Exponent (l @ [c])) fs
      else end_value (JNum l) fs c)"
| "step (Exponent l) fs c =
     (if c = CHR ''+'' \<or> c = CHR ''-'' then Next (ExponentSign (l @ [c])) fs
      else if digit c then Next (ExponentDigits (l @ [c])) fs
      else Stop)"
| "step (ExponentSign l) fs c = (if digit c then Next (ExponentDigits (l @ [c])) fs else Stop)"
| "step (ExponentDigits l) fs c =
     (if digit c then Next (ExponentDigits (l @ [c])) fs else end_value (JNum l) fs c)"
| "step (Letters w v) fs c =
     (case w of
        [] \<Rightarrow> Stop
      | x # xs \<Rightarrow> if c \<noteq> x then Stop else Next (if xs = [] then EndValue v else Letters xs v) fs)"

datatype json_error = EOF | UnexpectedEOF | SyntaxError | UnmarshalTypeError string | TimeError

text \<open>
  The end of the text counts as a space; the value read and the text after it are returned.  A text
  of nothing but spaces is \<^verbatim>\<open>io.EOF\<close>.
\<close>

fun run :: "scan \<Rightarrow> frame list \<Rightarrow> string \<Rightarrow> json_error + (json \<times> string)" where
  "run st fs [] =
     (case step st fs CHR '' '' of
        Done v \<Rightarrow> Inr (v, [])
      | _ \<Rightarrow> Inl (if st = BeginValue \<and> fs = [] then EOF else UnexpectedEOF))"
| "run st fs (c # s) =
     (case step st fs c of
        Next st' fs' \<Rightarrow> run st' fs' s
      | Done v \<Rightarrow> Inr (v, c # s)
      | Stop \<Rightarrow> Inl SyntaxError)"

text \<open>\<^verbatim>\<open>Decoder.Decode\<close> reads the first value of a stream; \<^verbatim>\<open>json.Unmarshal\<close> wants nothing after it.\<close>

definition decode_first :: "string \<Rightarrow> json_error + json" where
  "decode_first s = (case run BeginValue [] s of Inl e \<Rightarrow> Inl e | Inr (v, rest) \<Rightarrow> Inr v)"

definition parse_json :: "string \<Rightarrow> json_error + json" where
  "parse_json s =
     (case run BeginValue [] s of
        Inl e \<Rightarrow> Inl (if e = EOF then UnexpectedEOF else e)
      | Inr (v, rest) \<Rightarrow> if list_all space rest then Inr v else Inl SyntaxError)"

section \<open>What comes back\<close>

fun nesting :: "json \<Rightarrow> nat" where
  "nesting (JArr vs) = Suc (Max (insert 0 (set (map nesting vs))))"
| "nesting (JObj ms) = Suc (Max (insert 0 (set (map (\<lambda>(k, v). nesting v) ms))))"
| "nesting _ = 0"

text \<open>A value whose numbers are Go integers and whose strings are Go strings.\<close>

fun written :: "json \<Rightarrow> bool" where
  "written (JNum l) \<longleftrightarrow> (\<exists>i. l = show_int i)"
| "written (JStr l) \<longleftrightarrow> (\<exists>s. l = escape s)"
| "written (JArr vs) \<longleftrightarrow> (\<forall>v \<in> set vs. written v)"
| "written (JObj ms) \<longleftrightarrow> (\<forall>(k, v) \<in> set ms. (\<exists>s. k = escape s) \<and> written v)"
| "written _ \<longleftrightarrow> True"

section \<open>The scanner reads what was written\<close>

definition delimited :: "string \<Rightarrow> bool" where
  "delimited t \<longleftrightarrow> t = [] \<or> (\<not> digit (hd t) \<and> hd t \<notin> {CHR ''.'', CHR ''e'', CHR ''E''})"

lemma delimited_simps [simp]:
  "delimited []" "delimited (CHR '','' # t)" "delimited (CHR '']'' # t)" "delimited (CHR ''}'' # t)"
  "delimited (CHR 0x0A # t)"
  by (simp_all add: delimited_def digit_def)

text \<open>Strings.\<close>

lemma run_string_plain:
  "c \<noteq> quote_mark \<Longrightarrow> c \<noteq> backslash \<Longrightarrow> \<not> code c < 32 \<Longrightarrow>
   run (InString raw) fs (c # t) = run (InString (raw @ [c])) fs t"
  by simp

lemma run_string_wide:
  "\<forall>c \<in> set w. \<not> ascii c \<Longrightarrow> run (InString raw) fs (w @ t) = run (InString (raw @ w)) fs t"
proof (induction w arbitrary: raw)
  case (Cons c w)
  then have "c \<noteq> quote_mark" "c \<noteq> backslash" "\<not> code c < 32"
    by (auto simp: ascii_def quote_mark_def backslash_def)
  then have "run (InString raw) fs (c # w @ t) = run (InString (raw @ [c])) fs (w @ t)"
    by (rule run_string_plain)
  with Cons show ?case by simp
qed simp

lemma run_string_u:
  "hex_val a \<noteq> None \<Longrightarrow> hex_val b \<noteq> None \<Longrightarrow> hex_val c \<noteq> None \<Longrightarrow> hex_val d \<noteq> None \<Longrightarrow>
   run (InString raw) fs (backslash # CHR ''u'' # a # b # c # d # t) =
   run (InString (raw @ [backslash, CHR ''u'', a, b, c, d])) fs t"
  by (auto simp: quote_mark_def backslash_def)

lemma wide_bytes: "wf_rune (Wide w) \<Longrightarrow> \<forall>c \<in> set w. \<not> ascii c"
proof (cases w)
  case (Cons a s)
  moreover assume "wf_rune (Wide w)"
  ultimately have a: "\<not> ascii a" and n: "wide_tail a s = Some (length s)" by simp_all
  have "\<forall>b \<in> set s. continues b" using wide_tailE [OF n] by (metis take_all order_refl)
  with Cons a show ?thesis by (auto simp: continues_def ascii_def)
qed simp

lemma run_string_rune:
  assumes "wf_rune r"
  shows "run (InString raw) fs (escape_rune r @ t) = run (InString (raw @ escape_rune r)) fs t"
proof (cases r)
  case (Ascii c)
  then have c: "code c < 128" using assms by (simp add: ascii_def)
  have "code c div 16 < 16" using c by simp
  then have hx: "hex_val (hex_digit (code c div 16)) \<noteq> None" "hex_val (hex_digit (code c mod 16)) \<noteq> None"
    "hex_val CHR ''0'' \<noteq> None"
    by (simp_all add: hex_val_digit) (simp add: hex_val_def Let_def)
  show ?thesis
  proof (cases rule: escape_ascii_cases [where c = c and t = t])
    case plain
    then show ?thesis using run_string_plain [of c raw fs t] by (simp add: Ascii del: run.simps)
  next
    case (short d)
    from short(2) have "d \<noteq> CHR ''u''"
      by (auto simp: unescape_u_def quote_mark_def backslash_def split: option.splits if_splits)
    with short(2) have "run (InString raw) fs (backslash # d # t) = run (InString (raw @ [backslash, d])) fs t"
      by (auto simp: quote_mark_def backslash_def split: if_splits)
    with short(1) show ?thesis by (simp add: Ascii del: run.simps)
  next
    case control
    then show ?thesis using run_string_u [OF hx(3) hx(3) hx(1,2), of raw fs t] by (simp add: Ascii del: run.simps)
  qed
next
  case (BadByte c)
  have "hex_val CHR ''f'' \<noteq> None" "hex_val CHR ''d'' \<noteq> None" by (simp_all add: hex_val_def Let_def)
  from run_string_u [OF this(1,1,1,2), of raw fs t] show ?thesis by (simp add: BadByte del: run.simps)
next
  case (Wide w)
  have "hex_val CHR ''2'' \<noteq> None" "hex_val CHR ''0'' \<noteq> None" "hex_val CHR ''8'' \<noteq> None"
    "hex_val CHR ''9'' \<noteq> None" by (simp_all add: hex_val_def Let_def)
  note u = run_string_u [OF this(1,2,1,3), of raw fs t] run_string_u [OF this(1,2,1,4), of raw fs t]
  have "run (InString raw) fs (w @ t) = run (InString (raw @ w)) fs t"
    using assms wide_bytes by (intro run_string_wide) (simp add: Wide)
  with u show ?thesis by (simp add: Wide del: run.simps)
qed

lemma run_string_runes:
  "\<forall>r \<in> set rs. wf_rune r \<Longrightarrow>
   run (InString raw) fs (concat (map escape_rune rs) @ t) = run (InString (raw @ concat (map escape_rune rs))) fs t"
  by (induction rs arbitrary: raw) (simp_all add: run_string_rune del: run.simps)

lemma run_string:
  "run (InString []) fs (escape s @ quote_mark # t) = run (EndValue (JStr (escape s))) fs t"
  using wf_runes unfolding escape_def
  by (simp add: run_string_runes del: run.simps) simp

lemma run_quoted:
  "st \<in> {BeginValue, BeginValueOrEmpty, BeginString, BeginStringOrEmpty} \<Longrightarrow>
   run st fs (quoted (escape s) @ t) = run (EndValue (JStr (escape s))) fs t"
  using run_string [of fs s t]
  by (auto simp: quoted_def begin_value_def begin_string_def space_def quote_mark_def)

text \<open>Numbers.\<close>

lemma digit_show_nat: "c \<in> set (show_nat n) \<Longrightarrow> digit c"
  using show_nat_digits digit_char_code by (fastforce simp: digit_def)

lemma show_nat_first: "n \<noteq> 0 \<Longrightarrow> \<exists>c cs. show_nat n = c # cs \<and> c \<noteq> CHR ''0'' \<and> digit c \<and> list_all digit cs"
proof (induction n rule: show_nat.induct)
  case (1 n)
  show ?case
  proof (cases "n < 10")
    case True
    then have "code (digit_char n) = 48 + n" by (rule digit_char_code)
    with 1(2) have "digit_char n \<noteq> CHR ''0''" "digit (digit_char n)"
      using True by (auto simp: digit_def)
    with True show ?thesis by (simp add: show_nat.simps [of n])
  next
    case False
    then obtain c cs where c: "show_nat (n div 10) = c # cs" "c \<noteq> CHR ''0''" "digit c" "list_all digit cs"
      using 1(1) by (auto simp: div_greater_zero_iff)
    have "digit (digit_char (n mod 10))" by (simp add: digit_def digit_char_code)
    with c False show ?thesis by (simp add: show_nat.simps [of n])
  qed
qed

lemma digit_not [simp]:
  "digit c \<Longrightarrow> c \<noteq> CHR ''.''" "digit c \<Longrightarrow> c \<noteq> CHR ''e''" "digit c \<Longrightarrow> c \<noteq> CHR ''E''"
  "digit c \<Longrightarrow> \<not> space c"
  by (auto simp: digit_def space_def)

lemma after_integer_end: "c \<notin> {CHR ''.'', CHR ''e'', CHR ''E''} \<Longrightarrow> after_integer l fs c = end_value (JNum l) fs c"
  by (simp add: after_integer_def)

lemma run_integer_end:
  assumes "delimited t" and "st = Zero l \<or> st = Digits l"
  shows "run st fs t = run (EndValue (JNum l)) fs t"
proof (cases t)
  case Nil
  have "after_integer l fs CHR '' '' = end_value (JNum l) fs CHR '' ''"
    by (rule after_integer_end) simp
  with Nil assms(2) show ?thesis by (auto simp: digit_def)
next
  case (Cons c t')
  with assms(1) have "\<not> digit c" "after_integer l fs c = end_value (JNum l) fs c"
    by (auto simp: delimited_def intro: after_integer_end)
  with Cons assms(2) show ?thesis by auto
qed

lemma run_digits:
  "list_all digit ds \<Longrightarrow> delimited t \<Longrightarrow> run (Digits l) fs (ds @ t) = run (EndValue (JNum (l @ ds))) fs t"
  by (induction ds arbitrary: l) (simp_all add: run_integer_end)

lemma run_nat:
  assumes "delimited t" and "st \<in> {BeginValue, BeginValueOrEmpty}"
  shows "run st fs (show_nat n @ t) = run (EndValue (JNum (show_nat n))) fs t"
    "run (Neg m) fs (show_nat n @ t) = run (EndValue (JNum (m @ show_nat n))) fs t"
proof -
  have "run st fs (show_nat n @ t) = run (EndValue (JNum (show_nat n))) fs t \<and>
    run (Neg m) fs (show_nat n @ t) = run (EndValue (JNum (m @ show_nat n))) fs t"
  proof (cases "n = 0")
    case True
    then have "show_nat n = ''0''" by (simp add: show_nat.simps digit_char_def char_of_def bit_simps)
    then show ?thesis
      using assms run_integer_end [OF assms(1), of "Zero ''0''"] run_integer_end [OF assms(1), of "Zero (m @ ''0'')"]
      by (auto simp: begin_value_def space_def quote_mark_def)
  next
    case False
    then obtain c cs where c: "show_nat n = c # cs" "c \<noteq> CHR ''0''" "digit c" "list_all digit cs"
      using show_nat_first by blast
    have d: "c \<notin> {CHR ''{'', CHR ''['', quote_mark, CHR ''-'', CHR ''t'', CHR ''f'', CHR ''n'', CHR '']''}"
      using c(3) by (auto simp: digit_def quote_mark_def)
    have "begin_value st fs c = Next (Digits [c]) fs"
      using c d by (simp add: begin_value_def)
    then have "step st fs c = Next (Digits [c]) fs" using assms(2) d by auto
    then show ?thesis
      using c d run_digits [OF c(4) assms(1)] by simp
  qed
  then show "run st fs (show_nat n @ t) = run (EndValue (JNum (show_nat n))) fs t"
    "run (Neg m) fs (show_nat n @ t) = run (EndValue (JNum (m @ show_nat n))) fs t"
    by simp_all
qed

lemma run_int:
  assumes "delimited t" and "st \<in> {BeginValue, BeginValueOrEmpty}"
  shows "run st fs (show_int i @ t) = run (EndValue (JNum (show_int i))) fs t"
proof (cases "i < 0")
  case True
  have "run st fs (CHR ''-'' # s) = run (Neg ''-'') fs s" for s
    using assms(2) by (auto simp: begin_value_def space_def quote_mark_def)
  with True show ?thesis using run_nat(2) [OF assms, where m = "''-''"] by (simp add: show_int_def)
next
  case False
  then show ?thesis using run_nat(1) [OF assms] by (simp add: show_int_def)
qed

text \<open>Arrays, objects and the whole.\<close>

definition reads :: "json \<Rightarrow> bool" where
  "reads v \<longleftrightarrow> (\<forall>st fs t. st \<in> {BeginValue, BeginValueOrEmpty} \<longrightarrow> nesting v + length fs \<le> maxNestingDepth \<longrightarrow>
     delimited t \<longrightarrow> run st fs (json_text v @ t) = run (EndValue v) fs t)"

lemma readsD:
  "reads v \<Longrightarrow> st \<in> {BeginValue, BeginValueOrEmpty} \<Longrightarrow> nesting v + length fs \<le> maxNestingDepth \<Longrightarrow>
   delimited t \<Longrightarrow> run st fs (json_text v @ t) = run (EndValue v) fs t"
  by (auto simp: reads_def)

lemma run_elements:
  assumes "\<forall>v \<in> set vs. reads v \<and> nesting v + Suc (length fs) \<le> maxNestingDepth" and "vs \<noteq> []"
    and "st \<in> {BeginValue, BeginValueOrEmpty}"
  shows "run st (InArray acc # fs) (join '','' (map json_text vs) @ CHR '']'' # t) =
    run (EndValue (JArr (acc @ vs))) fs t"
  using assms
proof (induction vs arbitrary: acc st)
  case (Cons v vs)
  have v: "run st (InArray acc # fs) (json_text v @ u) = run (EndValue v) (InArray acc # fs) u"
    if "delimited u" for u
    using Cons.prems that by (intro readsD) auto
  show ?case
  proof (cases vs)
    case Nil
    have "run st (InArray acc # fs) (json_text v @ CHR '']'' # t) =
      run (EndValue (JArr (acc @ [v]))) fs t"
      by (subst v) (simp_all add: space_def)
    with Nil show ?thesis by simp
  next
    case (Cons w ws)
    let ?rest = "join '','' (map json_text vs) @ CHR '']'' # t"
    have "run st (InArray acc # fs) (json_text v @ CHR '','' # ?rest) =
      run BeginValue (InArray (acc @ [v]) # fs) ?rest"
      by (subst v) (simp_all add: space_def)
    also have "\<dots> = run (EndValue (JArr ((acc @ [v]) @ vs))) fs t"
      using Cons.prems Cons by (intro Cons.IH) auto
    finally show ?thesis using Cons by simp
  qed
qed simp


lemma run_member:
  assumes "reads v" and "nesting v + Suc (length fs) \<le> maxNestingDepth"
    and "st \<in> {BeginString, BeginStringOrEmpty}" and "delimited t" and "\<exists>s. k = escape s"
  shows "run st (AtKey acc # fs) (quoted k @ CHR '':'' # json_text v @ t) =
    run (EndValue v) (AtValue acc k # fs) t"
proof -
  have "run st (AtKey acc # fs) (quoted k @ CHR '':'' # json_text v @ t) =
    run BeginValue (AtValue acc k # fs) (json_text v @ t)"
    using assms(3,5) by (auto simp: run_quoted space_def)
  also have "\<dots> = run (EndValue v) (AtValue acc k # fs) t"
    using assms by (intro readsD) auto
  finally show ?thesis .
qed

lemma run_members:
  assumes "\<forall>(k, v) \<in> set ms. (\<exists>s. k = escape s) \<and> reads v \<and> nesting v + Suc (length fs) \<le> maxNestingDepth" and "ms \<noteq> []"
    and "st \<in> {BeginString, BeginStringOrEmpty}"
  shows "run st (AtKey acc # fs)
      (join '','' (map (\<lambda>(k, v). quoted k @ CHR '':'' # json_text v) ms) @ CHR ''}'' # t) =
    run (EndValue (JObj (acc @ ms))) fs t"
  using assms
proof (induction ms arbitrary: acc st)
  case (Cons m ms)
  obtain k v where m: "m = (k, v)" by (cases m)
  have v: "run st (AtKey acc # fs) (quoted k @ CHR '':'' # json_text v @ u) =
      run (EndValue v) (AtValue acc k # fs) u" if "delimited u" for u
    using Cons.prems that m by (intro run_member) auto
  show ?case
  proof (cases ms)
    case Nil
    have "run st (AtKey acc # fs) (quoted k @ CHR '':'' # json_text v @ CHR ''}'' # t) =
      run (EndValue (JObj (acc @ [(k, v)]))) fs t"
      by (subst v) (simp_all add: space_def)
    with Nil m show ?thesis by simp
  next
    case (Cons x xs)
    let ?rest = "join '','' (map (\<lambda>(k, v). quoted k @ CHR '':'' # json_text v) ms) @ CHR ''}'' # t"
    have "run st (AtKey acc # fs) (quoted k @ CHR '':'' # json_text v @ CHR '','' # ?rest) =
      run BeginString (AtKey (acc @ [(k, v)]) # fs) ?rest"
      by (subst v) (simp_all add: space_def)
    also have "\<dots> = run (EndValue (JObj ((acc @ [(k, v)]) @
        ms))) fs t"
      using Cons.prems Cons by (intro Cons.IH) auto
    finally show ?thesis using Cons m by simp
  qed
qed simp

lemma nesting_arg:
  "v \<in> set vs \<Longrightarrow> nesting (JArr vs) + n \<le> d \<Longrightarrow> nesting v + Suc n \<le> d"
  "(k, v) \<in> set ms \<Longrightarrow> nesting (JObj ms) + n \<le> d \<Longrightarrow> nesting v + Suc n \<le> d"
proof -
  assume m: "v \<in> set vs" "nesting (JArr vs) + n \<le> d"
  then have "nesting v \<le> Max (insert 0 (set (map nesting vs)))" by (intro Max_ge) auto
  with m(2) show "nesting v + Suc n \<le> d" unfolding nesting.simps by linarith
next
  assume m: "(k, v) \<in> set ms" "nesting (JObj ms) + n \<le> d"
  then have "nesting v \<le> Max (insert 0 (set (map (\<lambda>(k, v). nesting v) ms)))" by (intro Max_ge) force+
  with m(2) show "nesting v + Suc n \<le> d" unfolding nesting.simps by linarith
qed

lemma reads_JArr:
  assumes "\<forall>v \<in> set vs. reads v" shows "reads (JArr vs)"
  unfolding reads_def
proof (intro allI impI)
  fix st :: scan and fs :: "frame list" and t
  assume st: "st \<in> {BeginValue, BeginValueOrEmpty}"
    and d: "nesting (JArr vs) + length fs \<le> maxNestingDepth"
  have "run st fs (json_text (JArr vs) @ t) =
      run BeginValueOrEmpty (InArray [] # fs) (join '','' (map json_text vs) @ CHR '']'' # t)"
    using st d by (auto simp: begin_value_def space_def push_def simp del: join.simps)
  also have "\<dots> = run (EndValue (JArr vs)) fs t"
  proof (cases "vs = []")
    case False
    have "nesting v + Suc (length fs) \<le> maxNestingDepth" if "v \<in> set vs" for v
      using nesting_arg(1) [OF that d] .
    then show ?thesis using assms False run_elements [of vs fs BeginValueOrEmpty "[]" t] by simp
  qed simp
  finally show "run st fs (json_text (JArr vs) @ t) = run (EndValue (JArr vs)) fs t" .
qed

lemma reads_JObj:
  assumes "\<forall>(k, v) \<in> set ms. (\<exists>s. k = escape s) \<and> reads v" shows "reads (JObj ms)"
  unfolding reads_def
proof (intro allI impI)
  fix st :: scan and fs :: "frame list" and t
  assume st: "st \<in> {BeginValue, BeginValueOrEmpty}"
    and d: "nesting (JObj ms) + length fs \<le> maxNestingDepth"
  let ?ms = "map (\<lambda>(k, v). quoted k @ CHR '':'' # json_text v) ms"
  have "run st fs (json_text (JObj ms) @ t) =
      run BeginStringOrEmpty (AtKey [] # fs) (join '','' ?ms @ CHR ''}'' # t)"
    using st d by (auto simp: begin_value_def space_def push_def simp del: join.simps)
  also have "\<dots> = run (EndValue (JObj ms)) fs t"
  proof (cases "ms = []")
    case False
    have "\<forall>(k, v) \<in> set ms. (\<exists>s. k = escape s) \<and> reads v \<and> nesting v + Suc (length fs) \<le> maxNestingDepth"
      using assms nesting_arg(2) [OF _ d] by auto
    then show ?thesis using False run_members [of ms fs BeginStringOrEmpty "[]" t] by simp
  qed simp
  finally show "run st fs (json_text (JObj ms) @ t) = run (EndValue (JObj ms)) fs t" .
qed

lemma run_letters:
  "w \<noteq> [] \<Longrightarrow> run (Letters w v) fs (w @ t) = run (EndValue v) fs t"
proof (induction w)
  case (Cons x xs)
  then show ?case by (cases xs) simp_all
qed simp

lemma reads_written: "written v \<Longrightarrow> reads v"
proof (induction v)
  case JNull
  show ?case unfolding reads_def
    using run_letters [of "''ull''" JNull] by (auto simp: begin_value_def space_def quote_mark_def digit_def)
next
  case (JBool b)
  show ?case unfolding reads_def
    using run_letters [of "''rue''" "JBool True"] run_letters [of "''alse''" "JBool False"]
    by (auto simp: begin_value_def space_def quote_mark_def digit_def)
next
  case (JNum l)
  then show ?case by (auto simp: reads_def intro!: run_int)
next
  case (JStr l)
  then show ?case by (auto simp: reads_def intro!: run_quoted)
next
  case (JArr vs)
  then show ?case by (intro reads_JArr) simp
next
  case (JObj ms)
  then show ?case by (intro reads_JObj) fastforce
qed

text \<open>The decoder reads the text of a value as the value, whatever follows an array or object.\<close>

lemma json_roundtrip:
  assumes "written v" and "nesting v \<le> maxNestingDepth" and "delimited t"
  shows "run BeginValue [] (json_text v @ t) = Inr (v, t)"
proof -
  have "run BeginValue [] (json_text v @ t) = run (EndValue v) [] t"
    using readsD [OF reads_written [OF assms(1)]] assms by simp
  then show ?thesis by (cases t) simp_all
qed

lemma decode_text [simp]:
  "written v \<Longrightarrow> nesting v \<le> maxNestingDepth \<Longrightarrow> decode_first (json_text v) = Inr v"
  "written v \<Longrightarrow> nesting v \<le> maxNestingDepth \<Longrightarrow> parse_json (json_text v) = Inr v"
  using json_roundtrip [of v "[]"] by (simp_all add: decode_first_def parse_json_def)

end
