(* ===== verification/TimeText.thy ===== *)
theory TimeText
  imports GoTime GoUtf8 "HOL-Library.Monad_Syntax"
begin

text \<open>
  An instant as JSON text: \<^verbatim>\<open>Time.MarshalJSON\<close> (\<^verbatim>\<open>time.RFC3339Nano\<close> in the writer's zone) and the
  strict reading of \<^verbatim>\<open>Time.UnmarshalJSON\<close>, with the theorem that the instant comes back to the
  nanosecond, whatever the zone.
\<close>

section \<open>Dates of the calendar\<close>

text \<open>The days since 1970-01-01 of a date, the way \<^verbatim>\<open>time.Date\<close> counts them.\<close>

definition days_of_civil :: "int \<Rightarrow> int \<Rightarrow> int \<Rightarrow> int" where
  "days_of_civil y m d =
    (let y' = y - (if m \<le> 2 then 1 else 0);
         yoe = y' mod 400;
         mp = (if m > 2 then m - 3 else m + 9);
         doy = (153 * mp + 2) div 5 + d - 1;
         doe = yoe * 365 + yoe div 4 - yoe div 100 + doy
     in y' div 400 * 146097 + doe - 719468)"

definition leap :: "int \<Rightarrow> bool" where
  "leap y \<longleftrightarrow> y mod 4 = 0 \<and> (y mod 100 \<noteq> 0 \<or> y mod 400 = 0)"

text \<open>\<^verbatim>\<open>daysIn\<close>.\<close>

definition days_in :: "int \<Rightarrow> int \<Rightarrow> int" where
  "days_in m y =
     (if m = 2 then (if leap y then 29 else 28)
      else if m = 4 \<or> m = 6 \<or> m = 9 \<or> m = 11 then 30 else 31)"

subsection \<open>The year of an era\<close>

text \<open>The first day of each year of a 400-year era, and the expression by which \<open>civil\<close> finds the year.\<close>

definition year_start :: "int \<Rightarrow> int" where
  "year_start y = (if y = 400 then 146097 else 365 * y + y div 4 - y div 100)"

definition year_num :: "int \<Rightarrow> int" where
  "year_num doe = doe - doe div 1460 + doe div 36524 - doe div 146096"

lemma year_num_step:
  assumes "0 \<le> x" "x < 146096" shows "year_num x \<le> year_num (x + 1)"
proof (cases "x + 1 = 146096")
  case True
  then have "x = 146095" by simp
  then show ?thesis by (simp add: year_num_def)
next
  case False
  then have "x div 146096 = 0" "(x + 1) div 146096 = 0" using assms by auto
  moreover have "(x + 1) div 1460 \<le> (x + 1460) div 1460" "x div 36524 \<le> (x + 1) div 36524"
    by (intro zdiv_mono1; simp)+
  moreover have "(x + 1460) div 1460 = x div 1460 + 1" by simp
  moreover have "x - a + b - 0 \<le> x + 1 - a' + b' - 0" if "a' \<le> a + 1" "b \<le> b'" for a a' b b' :: int
    using that by linarith
  ultimately show ?thesis unfolding year_num_def by metis
qed

lemma year_num_mono:
  assumes "0 \<le> a" "a \<le> b" "b \<le> 146096" shows "year_num a \<le> year_num b"
proof -
  have "a \<le> b \<Longrightarrow> b \<le> 146096 \<longrightarrow> year_num a \<le> year_num b"
  proof (induction rule: int_ge_induct)
    case (step i)
    with assms(1) year_num_step [of i] show ?case by auto
  qed simp
  with assms show ?thesis by simp
qed

lemma year_parts:
  assumes "0 \<le> y" "y < (400 :: int)"
  obtains c q s where "y = 100 * c + 4 * q + s" "0 \<le> c" "c \<le> 3" "0 \<le> q" "q \<le> 24" "0 \<le> s" "s \<le> 3"
proof -
  define r where "r = y mod 100"
  have r: "0 \<le> r" "r < 100" "y = 100 * (y div 100) + r" by (simp_all add: r_def)
  have s: "0 \<le> r mod 4" "r mod 4 < 4" "r = 4 * (r div 4) + r mod 4" by simp_all
  have q: "0 \<le> r div 4" "r div 4 \<le> 24"
    using r(1,2) zdiv_mono1 [of r 99 4] by (simp_all add: pos_imp_zdiv_nonneg_iff)
  have c: "0 \<le> y div 100" "y div 100 \<le> 3"
    using assms zdiv_mono1 [of y 399 100] by (simp_all add: pos_imp_zdiv_nonneg_iff)
  have "y = 100 * (y div 100) + 4 * (r div 4) + r mod 4" using r(3) s(3) by (simp only: add.assoc)
  then show thesis using that c q s by (metis zle_diff1_eq [of _ 4, simplified])
qed

lemma year_num_at:
  assumes "0 \<le> c" "c \<le> 3" "0 \<le> q" "q \<le> 24" "0 \<le> s" "s \<le> 3" "0 \<le> doy" "1461 * q + 365 * s + doy < 36524"
    and "1460 * k \<le> 24 * c + q + 365 * s + doy" "24 * c + q + 365 * s + doy < 1460 * (k + 1)"
  shows "year_num (36524 * c + 1461 * q + 365 * s + doy) = 36500 * c + 1460 * q + 365 * s + doy - k"
proof -
  let ?x = "36524 * c + 1461 * q + 365 * s + doy"
  have "?x div 1460 = 25 * c + q + k"
    using assms(9,10) by (intro int_div_pos_eq [of _ _ _ "24 * c + q + 365 * s + doy - 1460 * k"]) auto
  moreover have "?x div 36524 = c"
    using assms(1-8) by (intro int_div_pos_eq [of _ _ _ "1461 * q + 365 * s + doy"]) auto
  moreover have "?x div 146096 = 0" using assms(1-8) by (intro div_pos_pos_trivial) auto
  ultimately show ?thesis by (simp add: year_num_def)
qed

text \<open>How long a year is, and whether its length is a leap year's.\<close>

lemma year_length:
  assumes y: "y = 100 * c + 4 * q + s" and b: "0 \<le> c" "c \<le> 3" "0 \<le> q" "q \<le> 24" "0 \<le> s" "s \<le> 3"
    and last: "y \<noteq> 399" "0 \<le> y" "y < 400"
  defines "next \<equiv> (if s < 3 \<or> (s = 3 \<and> q = 24) then 365 else 366)"
  shows "year_start y = 36524 * c + 1461 * q + 365 * s"
    and "year_start (y + 1) = year_start y + next" and "leap (y + 1) \<longleftrightarrow> next = 366"
proof -
  have st: "year_start x = 365 * x + d - e" if "x div 4 = d" "x div 100 = e" "x < 400" for x d e
    using that by (simp add: year_start_def)
  have y4: "y div 4 = 25 * c + q" unfolding y using b by (intro int_div_pos_eq [of _ _ _ s]) simp_all
  have y100: "y div 100 = c" unfolding y using b by (intro int_div_pos_eq [of _ _ _ "4 * q + s"]) simp_all
  have lt: "y < 400" "y + 1 < 400" using last by simp_all
  show st0: "year_start y = 36524 * c + 1461 * q + 365 * s"
    unfolding st [OF y4 y100 lt(1)] unfolding y by simp
  have lp: "leap (y + 1) \<longleftrightarrow> f = 0 \<and> g \<noteq> 0" if "(y + 1) mod 4 = f" "(y + 1) mod 100 = g" for f g
    using that lt last by (simp add: leap_def)
  consider "s < 3" | "s = 3" "q < 24" | "s = 3" "q = 24" using b by linarith
  then have "year_start (y + 1) = year_start y + next \<and> (leap (y + 1) \<longleftrightarrow> next = 366)"
  proof cases
    case 1
    have "(y + 1) div 4 = 25 * c + q" unfolding y using 1 b by (intro int_div_pos_eq [of _ _ _ "s + 1"]) simp_all
    moreover have "(y + 1) div 100 = c"
      unfolding y using 1 b by (intro int_div_pos_eq [of _ _ _ "4 * q + s + 1"]) simp_all
    moreover have "(y + 1) mod 4 = s + 1" unfolding y using 1 b by (intro int_mod_pos_eq [of _ _ "25 * c + q"]) simp_all
    ultimately show ?thesis
      using st [OF _ _ lt(2)] lp 1 b st0 by (simp add: y next_def)
  next
    case 2
    have "(y + 1) div 4 = 25 * c + q + 1" unfolding y using 2 b by (intro int_div_pos_eq [of _ _ _ 0]) simp_all
    moreover have "(y + 1) div 100 = c"
      unfolding y using 2 b by (intro int_div_pos_eq [of _ _ _ "4 * q + 4"]) simp_all
    moreover have "(y + 1) mod 4 = 0" unfolding y using 2 b by (intro int_mod_pos_eq [of _ _ "25 * c + q + 1"]) simp_all
    moreover have "(y + 1) mod 100 = 4 * q + 4" unfolding y using 2 b by (intro int_mod_pos_eq [of _ _ c]) simp_all
    ultimately show ?thesis
      using st [OF _ _ lt(2)] lp 2 b st0 by (simp add: y next_def)
  next
    case 3
    have "(y + 1) div 4 = 25 * c + 25" unfolding y using 3 b by (intro int_div_pos_eq [of _ _ _ 0]) simp_all
    moreover have "(y + 1) div 100 = c + 1" unfolding y using 3 b by (intro int_div_pos_eq [of _ _ _ 0]) simp_all
    moreover have "(y + 1) mod 100 = 0" unfolding y using 3 b by (intro int_mod_pos_eq [of _ _ "c + 1"]) simp_all
    ultimately show ?thesis
      using st [OF _ _ lt(2)] lp 3 b st0 by (simp add: y next_def)
  qed
  then show "year_start (y + 1) = year_start y + next" "leap (y + 1) \<longleftrightarrow> next = 366" by simp_all
qed

lemma year_entry:
  assumes "0 \<le> y" "y < 400"
  shows "365 * y \<le> year_num (year_start y) \<and> year_num (year_start (y + 1) - 1) < 365 * (y + 1) \<and>
    year_start (y + 1) - year_start y = (if leap (y + 1) then 366 else 365)"
proof (cases "y = 399")
  case True
  then show ?thesis by (simp add: year_start_def year_num_def leap_def)
next
  case False
  obtain c q s where y: "y = 100 * c + 4 * q + s" and b: "0 \<le> c" "c \<le> 3" "0 \<le> q" "q \<le> 24" "0 \<le> s" "s \<le> 3"
    using year_parts [OF assms] .
  note len = year_length [OF y b False assms]
  have lo: "year_num (36524 * c + 1461 * q + 365 * s + 0) = 36500 * c + 1460 * q + 365 * s + 0 - 0"
    using b by (intro year_num_at) simp_all
  have rhs: "365 * (y + 1) = 36500 * c + 1460 * q + 365 * s + 365" by (simp add: y)
  have hi: "year_num (year_start (y + 1) - 1) < 365 * (y + 1)"
  proof (cases "s < 3 \<or> (s = 3 \<and> q = 24)")
    case True
    define k where "k = (if 24 * c + q + 365 * s + 364 < 1460 then 0 else 1 :: int)"
    have v: "year_num (36524 * c + 1461 * q + 365 * s + 364) = 36500 * c + 1460 * q + 365 * s + 364 - k"
      using b by (intro year_num_at) (simp_all add: k_def)
    have e: "year_start (y + 1) - 1 = 36524 * c + 1461 * q + 365 * s + 364" using len True by simp
    have "0 \<le> k" by (simp add: k_def)
    then show ?thesis unfolding e v rhs by linarith
  next
    case leap: False
    with b have l: "s = 3" "q \<le> 23" by auto
    have v: "year_num (36524 * c + 1461 * q + 365 * s + 365) = 36500 * c + 1460 * q + 365 * s + 365 - 1"
      using b l by (intro year_num_at) simp_all
    have e: "year_start (y + 1) - 1 = 36524 * c + 1461 * q + 365 * s + 365" using len leap by simp
    show ?thesis unfolding e v rhs by linarith
  qed
  have "365 * y \<le> year_num (year_start y)" using lo len(1) by (simp add: y)
  with hi len show ?thesis by simp
qed

lemma year_exists:
  assumes "0 \<le> doe"
  shows "k \<le> 400 \<Longrightarrow> doe < year_start (int k) \<Longrightarrow>
    \<exists>y. 0 \<le> y \<and> y < 400 \<and> year_start y \<le> doe \<and> doe < year_start (y + 1)"
proof (induction k)
  case 0
  then show ?case using assms by (simp add: year_start_def)
next
  case (Suc k)
  show ?case
  proof (cases "doe < year_start (int k)")
    case True with Suc show ?thesis by simp
  next
    case False
    with Suc.prems show ?thesis by (intro exI [of _ "int k"]) (simp add: add.commute)
  qed
qed

lemma year_of_doe:
  assumes "0 \<le> doe" "doe < 146097"
  defines "y \<equiv> year_num doe div 365"
  shows "0 \<le> y" "y < 400" "year_start y \<le> doe" "doe < year_start (y + 1)"
proof -
  have "doe < year_start (int 400)" using assms(2) by (simp add: year_start_def)
  from year_exists [OF assms(1) _ this] obtain z where
    z: "0 \<le> z" "z < 400" "year_start z \<le> doe" "doe < year_start (z + 1)" by auto
  have s: "0 \<le> year_start z" using z by (simp add: year_start_def)
  have e: "year_start (z + 1) \<le> 146097"
  proof (cases "z = 399")
    case False
    have "(z + 1) div 4 \<le> 99" "0 \<le> (z + 1) div 100" using z False by auto
    with z False show ?thesis by (simp add: year_start_def)
  qed (simp add: year_start_def)
  have "365 * z \<le> year_num doe"
    using year_entry [OF z(1,2)] year_num_mono [OF s z(3)] assms by simp
  moreover have "year_num doe < 365 * (z + 1)"
    using year_entry [OF z(1,2)] year_num_mono [OF assms(1), of "year_start (z + 1) - 1"] z e by simp
  ultimately have "y = z" unfolding y_def by (intro int_div_pos_eq [of _ _ _ "year_num doe - 365 * z"]) auto
  with z show "0 \<le> y" "y < 400" "year_start y \<le> doe" "doe < year_start (y + 1)" by simp_all
qed

subsection \<open>The day of a year\<close>

text \<open>Years are counted from March: month 0 is March, and February is the last.\<close>

lemma day_entry:
  assumes "0 \<le> doy" "doy \<le> 365"
  defines "mp \<equiv> (5 * doy + 2) div 153"
  defines "d \<equiv> doy - (153 * mp + 2) div 5 + 1"
    and "m \<equiv> (if mp < 10 then mp + 3 else mp - 9 :: int)"
  shows "0 \<le> mp" "mp \<le> 11" "1 \<le> d" "d \<le> (if m = 2 then (if doy = 365 then 29 else 28) else days_in m 0)"
proof -
  have r: "153 * mp \<le> 5 * doy + 2" "5 * doy + 2 < 153 * (mp + 1)"
    using mult_div_mod_eq [of 153 "5 * doy + 2"] pos_mod_bound [of 153 "5 * doy + 2"]
      pos_mod_sign [of 153 "5 * doy + 2"] unfolding mp_def distrib_left by linarith+
  have mp: "0 \<le> mp" "mp \<le> 11" using r assms(1,2) by (simp_all only: distrib_left)
  then have "mp \<in> set [0..11]" by simp
  also have "[0..11 :: int] = [0, 1, 2, 3, 4, 5, 6, 7, 8, 9, 10, 11]" by code_simp
  finally have "1 \<le> d \<and> d \<le> (if m = 2 then (if doy = 365 then 29 else 28) else days_in m 0)"
    using r assms(2) unfolding d_def m_def days_in_def set_simps insert_iff empty_iff
    by (elim disjE) simp_all
  with mp show "0 \<le> mp" "mp \<le> 11" "1 \<le> d" "d \<le> (if m = 2 then (if doy = 365 then 29 else 28) else days_in m 0)"
    by simp_all
qed

lemma leap_period: "leap (a + k * 400) \<longleftrightarrow> leap a"
proof -
  have "(a + k * 400) mod 4 = a mod 4" using mod_mult_self1 [of a "k * 100" 4] by (simp add: mult.commute)
  moreover have "(a + k * 400) mod 100 = a mod 100" using mod_mult_self1 [of a "k * 4" 100] by (simp add: mult.commute)
  ultimately show ?thesis by (simp add: leap_def)
qed

text \<open>A day is found again from its date, and its date is one the reader accepts.\<close>

lemma civil_roundtrip:
  assumes "civil days = (y, m, d)"
  shows "days_of_civil y m d = days" "1 \<le> m" "m \<le> 12" "1 \<le> d" "d \<le> days_in m y"
proof -
  define z where "z = days + 719468"
  define doe where "doe = z mod 146097"
  define yoe where "yoe = year_num doe div 365"
  define doy where "doy = doe - (365 * yoe + yoe div 4 - yoe div 100)"
  define mp where "mp = (5 * doy + 2) div 153"
  have e: "d = doy - (153 * mp + 2) div 5 + 1" "m = (if mp < 10 then mp + 3 else mp - 9)"
    "y = yoe + z div 146097 * 400 + (if m \<le> 2 then 1 else 0)"
  proof -
    have "civil days = (yoe + z div 146097 * 400 + (if (if mp < 10 then mp + 3 else mp - 9) \<le> 2 then 1 else 0),
        (if mp < 10 then mp + 3 else mp - 9), doy - (153 * mp + 2) div 5 + 1)"
      unfolding civil_def Let_def z_def doe_def yoe_def year_num_def doy_def mp_def by (rule refl)
    from trans [OF assms [symmetric] this]
    have y: "y = yoe + z div 146097 * 400 + (if (if mp < 10 then mp + 3 else mp - 9) \<le> 2 then 1 else 0)"
      and dm: "d = doy - (153 * mp + 2) div 5 + 1" "m = (if mp < 10 then mp + 3 else mp - 9)"
      unfolding prod.inject by blast+
    from y show "y = yoe + z div 146097 * 400 + (if m \<le> 2 then 1 else 0)" by (simp only: dm(2))
    show "d = doy - (153 * mp + 2) div 5 + 1" "m = (if mp < 10 then mp + 3 else mp - 9)" by (rule dm)+
  qed
  have "0 \<le> doe" "doe < 146097" by (simp_all add: doe_def)
  note yr = year_of_doe [OF this, folded yoe_def]
  have st: "year_start yoe = 365 * yoe + yoe div 4 - yoe div 100" using yr(2) by (simp add: year_start_def)
  have "0 \<le> doy" "doy \<le> 365" and feb: "doy = 365 \<Longrightarrow> leap (yoe + 1)"
    using yr(3,4) year_entry [OF yr(1,2)] st by (auto simp: doy_def split: if_splits)
  note dy = day_entry [OF this(1,2), folded mp_def, folded e]
  have "leap (yoe + 1) \<longleftrightarrow> leap (yoe + z div 146097 * 400 + 1)"
    using leap_period [of "yoe + 1" "z div 146097"] by (simp add: algebra_simps)
  with feb have "leap y" if "m = 2" "doy = 365" using that e(3) by (simp add: add.assoc)
  with dy(4) show "d \<le> days_in m y" by (cases "m = 2") (auto simp: days_in_def split: if_splits)
  show m: "1 \<le> m" "m \<le> 12" "1 \<le> d" using dy(1-3) e(2) by (auto split: if_splits)
  have y': "y - (if m \<le> 2 then 1 else 0) = yoe + z div 146097 * 400" using e by simp
  have "(yoe + z div 146097 * 400) mod 400 = yoe" "(yoe + z div 146097 * 400) div 400 = z div 146097"
    using yr by simp_all
  moreover have "(if m > 2 then m - 3 else m + 9) = mp" using e dy by auto
  moreover have "(153 * mp + 2) div 5 + d - 1 = doy" using e by simp
  ultimately have "days_of_civil y m d = z div 146097 * 146097 + (yoe * 365 + yoe div 4 - yoe div 100 + doy) - 719468"
    unfolding days_of_civil_def Let_def y' by simp
  also have "\<dots> = days" by (simp add: doy_def doe_def z_def)
  finally show "days_of_civil y m d = days" .
qed


section \<open>Writing\<close>

text \<open>The nine digits of the nanoseconds without the zeros at their end.\<close>

definition fraction_text :: "int \<Rightarrow> string" where
  "fraction_text ns =
     (let ds = rev (dropWhile (\<lambda>c. c = CHR ''0'') (rev (pad_int 9 ns)))
      in if ds = [] then [] else CHR ''.'' # ds)"

text \<open>The offset of a zone, in minutes east of UTC.\<close>

definition zone_text :: "int \<Rightarrow> string" where
  "zone_text z =
     (if z = 0 then ''Z''
      else (if z < 0 then CHR ''-'' else CHR ''+'') #
        pad_int 2 (\<bar>z\<bar> div 60) @ '':'' @ pad_int 2 (\<bar>z\<bar> mod 60))"

definition format_RFC3339Nano :: "int \<Rightarrow> Time \<Rightarrow> string" where
  "format_RFC3339Nano zone t =
    (let l = t + zone * 60 * 10 ^ 9 in
     case civil (l div 10 ^ 9 div 86400) of (y, m, d) \<Rightarrow>
     case clock l of (hh, mm, ss) \<Rightarrow>
       pad_int 4 y @ ''-'' @ pad_int 2 m @ ''-'' @ pad_int 2 d @ ''T'' @
       pad_int 2 hh @ '':'' @ pad_int 2 mm @ '':'' @ pad_int 2 ss @
       fraction_text (l mod 10 ^ 9) @ zone_text zone)"

text \<open>
  \<^verbatim>\<open>appendStrictRFC3339\<close> refuses a year outside 0 to 9999 and an offset of a day or more.
\<close>

definition year_of :: "int \<Rightarrow> Time \<Rightarrow> int" where
  "year_of zone t = fst (civil ((t + zone * 60 * 10 ^ 9) div 10 ^ 9 div 86400))"

definition time_ok :: "int \<Rightarrow> Time \<Rightarrow> bool" where
  "time_ok zone t \<longleftrightarrow> 0 \<le> year_of zone t \<and> year_of zone t \<le> 9999 \<and> \<bar>zone\<bar> < 1440"

definition marshal_Time :: "int \<Rightarrow> Time \<Rightarrow> string option" where
  "marshal_Time zone t = (if time_ok zone t then Some (format_RFC3339Nano zone t) else None)"

section \<open>Reading\<close>

text \<open>\<^verbatim>\<open>parseUint\<close>: digits only, within bounds.\<close>

definition num_field :: "string \<Rightarrow> int \<Rightarrow> int \<Rightarrow> int option" where
  "num_field s lo hi =
     (case parse_digits 0 s of
        None \<Rightarrow> None
      | Some n \<Rightarrow> if lo \<le> int n \<and> int n \<le> hi then Some (int n) else None)"

text \<open>A point and at least one digit; digits after the ninth are dropped.\<close>

definition parse_fraction :: "string \<Rightarrow> int \<times> string" where
  "parse_fraction r =
     (case r of
        p # c # _ \<Rightarrow>
          if p = CHR ''.'' \<and> is_digit c then
            (let ds = takeWhile is_digit (tl r); k = take 9 ds
             in (case parse_digits 0 k of None \<Rightarrow> 0 | Some n \<Rightarrow> int n * 10 ^ (9 - length k), drop (length ds) (tl r)))
          else (0, r)
      | _ \<Rightarrow> (0, r))"

definition parse_zone :: "string \<Rightarrow> int option" where
  "parse_zone r =
     (if r = ''Z'' then Some 0
      else if length r = 6 \<and> (r ! 0 = CHR ''+'' \<or> r ! 0 = CHR ''-'') \<and> r ! 3 = CHR '':'' then
        do {
          hh \<leftarrow> num_field (take 2 (drop 1 r)) 0 23;
          mm \<leftarrow> num_field (take 2 (drop 4 r)) 0 59;
          Some ((if r ! 0 = CHR ''-'' then - 1 else 1) * (hh * 60 + mm))
        }
      else None)"

definition parse_RFC3339 :: "string \<Rightarrow> Time option" where
  "parse_RFC3339 s =
     (if length s < 19 then None
      else do {
        y \<leftarrow> num_field (take 4 s) 0 9999;
        m \<leftarrow> num_field (take 2 (drop 5 s)) 1 12;
        d \<leftarrow> num_field (take 2 (drop 8 s)) 1 (days_in m y);
        hh \<leftarrow> num_field (take 2 (drop 11 s)) 0 23;
        mm \<leftarrow> num_field (take 2 (drop 14 s)) 0 59;
        ss \<leftarrow> num_field (take 2 (drop 17 s)) 0 59;
        if s ! 4 = CHR ''-'' \<and> s ! 7 = CHR ''-'' \<and> s ! 10 = CHR ''T'' \<and> s ! 13 = CHR '':'' \<and> s ! 16 = CHR '':''
        then (case parse_fraction (drop 19 s) of
          (ns, r) \<Rightarrow> do {
            z \<leftarrow> parse_zone r;
            Some ((days_of_civil y m d * 86400 + hh * 3600 + mm * 60 + ss) * 10 ^ 9 + ns - z * 60 * 10 ^ 9)
          })
        else None
      })"

section \<open>An instant comes back\<close>

lemma length_show_nat: "n < 10 ^ w \<Longrightarrow> 0 < w \<Longrightarrow> length (show_nat n) \<le> w"
proof (induction n arbitrary: w rule: show_nat.induct)
  case (1 n)
  show ?case
  proof (cases "n < 10")
    case True with 1 show ?thesis by (simp add: show_nat.simps [of n])
  next
    case False
    with 1(2) obtain v where v: "w = Suc v" "0 < v" by (cases w; cases "w - 1") auto
    then have "n div 10 < 10 ^ v" using 1(2) by (simp add: div_less_iff_less_mult)
    with False v 1(1) show ?thesis by (simp add: show_nat.simps [of n])
  qed
qed

lemma parse_padding: "parse_digits 0 (replicate k CHR ''0'' @ s) = parse_digits 0 s"
  by (induction k) (simp_all add: digit_val_def)

lemma parse_digits_zeros: "parse_digits n (replicate k CHR ''0'') = Some (n * 10 ^ k)"
  by (induction k arbitrary: n) (simp_all add: digit_val_def)

lemma pad_digits:
  assumes "0 \<le> i" "i < 10 ^ w" "0 < w"
  shows "length (pad_int w i) = w" "parse_digits 0 (pad_int w i) = Some (nat i)"
    "\<forall>c \<in> set (pad_int w i). is_digit c"
proof -
  have "nat i < 10 ^ w" using assms by (simp add: nat_less_iff)
  from length_show_nat [OF this assms(3)] show "length (pad_int w i) = w"
    using assms(1) by (simp add: pad_int_def Let_def)
  show "parse_digits 0 (pad_int w i) = Some (nat i)"
    using assms(1) by (simp add: pad_int_def Let_def parse_padding)
  have "is_digit c" if "c \<in> set (show_nat n)" for c n
    using show_nat_digits [OF that] by (auto simp: is_digit_def)
  moreover have "is_digit CHR ''0''" by (simp add: is_digit_def digit_val_def)
  ultimately show "\<forall>c \<in> set (pad_int w i). is_digit c"
    using assms(1) by (auto simp: pad_int_def Let_def)
qed

lemma num_field_pad:
  "0 \<le> i \<Longrightarrow> i < 10 ^ w \<Longrightarrow> 0 < w \<Longrightarrow> lo \<le> i \<Longrightarrow> i \<le> hi \<Longrightarrow> num_field (pad_int w i) lo hi = Some i"
  by (simp add: num_field_def pad_digits(2))

lemma not_digit: "\<not> is_digit CHR ''Z''" "\<not> is_digit CHR ''+''" "\<not> is_digit CHR ''-''" "\<not> is_digit CHR '':''"
  by (simp_all add: is_digit_def digit_val_def)

lemma length2: "length xs = 2 \<Longrightarrow> \<exists>a b. xs = [a, b]"
  by (auto simp: length_Suc_conv numeral_2_eq_2)

lemma parse_zone_text: "\<bar>z\<bar> < 1440 \<Longrightarrow> parse_zone (zone_text z) = Some z"
proof (cases "z = 0")
  case True then show ?thesis by (simp add: zone_text_def parse_zone_def)
next
  case False
  assume z: "\<bar>z\<bar> < 1440"
  have h: "0 \<le> \<bar>z\<bar> div 60" "\<bar>z\<bar> div 60 \<le> 23" using z zdiv_mono1 [of "\<bar>z\<bar>" 1439 60] by simp_all
  have m: "0 \<le> \<bar>z\<bar> mod 60" "\<bar>z\<bar> mod 60 \<le> 59" using pos_mod_bound [of 60 "\<bar>z\<bar>"] by simp_all
  define sg where "sg = (if z < 0 then CHR ''-'' else CHR ''+'')"
  have "length (pad_int 2 (\<bar>z\<bar> div 60)) = 2" "length (pad_int 2 (\<bar>z\<bar> mod 60)) = 2"
    using h m by (simp_all add: pad_digits(1))
  then obtain a b c d where H: "pad_int 2 (\<bar>z\<bar> div 60) = [a, b]" and M: "pad_int 2 (\<bar>z\<bar> mod 60) = [c, d]"
    using length2 by metis
  have n: "num_field [a, b] 0 23 = Some (\<bar>z\<bar> div 60)" "num_field [c, d] 0 59 = Some (\<bar>z\<bar> mod 60)"
    unfolding H [symmetric] M [symmetric] using h m by (simp_all add: num_field_pad)
  have e: "zone_text z = [sg, a, b, CHR '':'', c, d]"
    using False by (simp add: zone_text_def H M sg_def)
  have sg: "sg = CHR ''+'' \<or> sg = CHR ''-''" "(if sg = CHR ''-'' then - 1 else 1) * \<bar>z\<bar> = z"
    by (simp_all add: sg_def)
  have "parse_zone (zone_text z) =
      Some ((if sg = CHR ''-'' then - 1 else 1) * (\<bar>z\<bar> div 60 * 60 + \<bar>z\<bar> mod 60))"
    unfolding e parse_zone_def using sg(1) n by simp
  also have "\<bar>z\<bar> div 60 * 60 + \<bar>z\<bar> mod 60 = \<bar>z\<bar>" by (rule div_mult_mod_eq)
  finally show ?thesis using sg(2) by simp
qed

lemma zone_text_head: "\<exists>c s. zone_text z = c # s \<and> \<not> is_digit c \<and> c \<noteq> CHR ''.''"
  by (auto simp: zone_text_def not_digit)

lemma parse_fraction_dot:
  assumes "w \<noteq> []" "is_digit (hd w)" "takeWhile is_digit w = ds" "take 9 ds = ds" "parse_digits 0 ds = Some n"
  shows "parse_fraction (CHR ''.'' # w) = (int n * 10 ^ (9 - length ds), drop (length ds) w)"
  using assms by (cases w) (simp_all add: parse_fraction_def Let_def)

lemma parse_fraction_text:
  assumes "0 \<le> ns" "ns < 10 ^ 9"
  shows "parse_fraction (fraction_text ns @ zone_text z) = (ns, zone_text z)"
proof -
  define p where "p = pad_int 9 ns"
  define ds where "ds = rev (dropWhile (\<lambda>c. c = CHR ''0'') (rev p))"
  define k where "k = length (takeWhile (\<lambda>c. c = CHR ''0'') (rev p))"
  note pad = pad_digits [OF assms(1), of 9, folded p_def]
  have "rev p = replicate k CHR ''0'' @ rev ds"
  proof -
    have "takeWhile (\<lambda>c. c = CHR ''0'') (rev p) = replicate k CHR ''0''"
      unfolding k_def by (rule replicate_length_same [symmetric]) (blast dest: set_takeWhileD)
    then show ?thesis unfolding ds_def rev_rev_ident by (metis takeWhile_dropWhile_id)
  qed
  then have p: "p = ds @ replicate k CHR ''0''" by (metis rev_append rev_replicate rev_rev_ident)
  obtain c s where z: "zone_text z = c # s" "\<not> is_digit c" "c \<noteq> CHR ''.''" using zone_text_head by blast
  have len: "length ds + k = 9" using pad(1) assms(2) p by simp
  show ?thesis
  proof (cases "ds = []")
    case True
    then have "parse_digits 0 p = Some 0" using p parse_padding [of k "[]"] by simp
    then have "ns = 0" using pad(2) assms by simp
    moreover have "fraction_text ns = []"
      using True unfolding fraction_text_def p_def [symmetric] ds_def [symmetric] Let_def by simp
    ultimately show ?thesis using z by (simp add: parse_fraction_def split: list.split)
  next
    case False
    have dig: "\<forall>x \<in> set ds. is_digit x" using pad(3) assms(2) p by simp
    obtain n where n: "parse_digits 0 ds = Some n"
      using pad(2) assms(2) p by (cases "parse_digits 0 ds") (simp_all add: parse_digits_append)
    then have "n * 10 ^ k = nat ns"
      using pad(2) assms p by (simp add: parse_digits_append parse_digits_zeros)
    then have "int (n * 10 ^ k) = ns" using assms(1) by simp
    then have "int n * 10 ^ k = ns" by simp
    moreover have tw: "takeWhile is_digit (ds @ zone_text z) = ds" using dig z by (simp add: takeWhile_append2)
    moreover have tk: "take 9 ds = ds" "9 - length ds = k" using len by simp_all
    moreover have "ds @ zone_text z \<noteq> []" "is_digit (hd (ds @ zone_text z))"
      using False dig by simp_all
    moreover have "fraction_text ns = CHR ''.'' # ds"
      using False unfolding fraction_text_def p_def [symmetric] ds_def [symmetric] Let_def by simp
    ultimately show ?thesis using parse_fraction_dot [OF _ _ tw tk(1) n] by simp
  qed
qed


lemma length4: "length xs = 4 \<Longrightarrow> \<exists>a b c d. xs = [a, b, c, d]"
  by (auto simp: length_Suc_conv numeral_eq_Suc)

lemma parse_fields:
  assumes "length Y = 4" "length M = 2" "length D = 2" "length H = 2" "length N = 2" "length S = 2"
    and "num_field Y 0 9999 = Some y" "num_field M 1 12 = Some m" "num_field D 1 (days_in m y) = Some d"
    and "num_field H 0 23 = Some hh" "num_field N 0 59 = Some mm" "num_field S 0 59 = Some ss"
    and "parse_fraction r = (ns, r')" "parse_zone r' = Some z"
  shows "parse_RFC3339 (Y @ ''-'' @ M @ ''-'' @ D @ ''T'' @ H @ '':'' @ N @ '':'' @ S @ r) =
    Some ((days_of_civil y m d * 86400 + (hh * 3600 + mm * 60 + ss)) * 10 ^ 9 + ns - z * 60 * 10 ^ 9)"
proof -
  obtain y1 y2 y3 y4 m1 m2 d1 d2 h1 h2 n1 n2 s1 s2 where
    e: "Y = [y1, y2, y3, y4]" "M = [m1, m2]" "D = [d1, d2]" "H = [h1, h2]" "N = [n1, n2]" "S = [s1, s2]"
    using length4 [OF assms(1)] length2 [OF assms(2)] length2 [OF assms(3)] length2 [OF assms(4)]
      length2 [OF assms(5)] length2 [OF assms(6)] by metis
  show ?thesis
    using assms(7-14) unfolding parse_RFC3339_def e by (simp add: nth_Cons' drop_Cons' add.assoc)
qed

text \<open>Reading gives back the instant to the nanosecond, whatever zone the writer is in.\<close>

lemma clock_fields:
  assumes "0 \<le> r" and "r < (86400 :: int)"
  shows "0 \<le> r div 3600" "r div 3600 \<le> 23" "0 \<le> r mod 3600 div 60" "r mod 3600 div 60 \<le> 59"
    "0 \<le> r mod 60" "r mod 60 \<le> 59" "r div 3600 * 3600 + r mod 3600 div 60 * 60 + r mod 60 = r"
proof -
  show "0 \<le> r div 3600" "r div 3600 \<le> 23"
    using assms zdiv_mono1 [of r 86399 3600] by (simp_all add: pos_imp_zdiv_nonneg_iff)
  have "0 \<le> r mod 3600" "r mod 3600 < 3600" by simp_all
  then show "0 \<le> r mod 3600 div 60" "r mod 3600 div 60 \<le> 59"
    using zdiv_mono1 [of "r mod 3600" 3599 60] by (simp_all add: pos_imp_zdiv_nonneg_iff)
  show "0 \<le> r mod 60" "r mod 60 \<le> 59" using pos_mod_bound [of 60 r] by simp_all
  have "r mod 3600 mod 60 = r mod 60" by (rule mod_mod_cancel) simp
  then have "r mod 3600 div 60 * 60 + r mod 60 = r mod 3600" by (metis div_mult_mod_eq)
  then show "r div 3600 * 3600 + r mod 3600 div 60 * 60 + r mod 60 = r"
    unfolding add.assoc by (metis div_mult_mod_eq)
qed

lemma time_roundtrip:
  assumes "time_ok zone t"
  shows "parse_RFC3339 (format_RFC3339Nano zone t) = Some t"
proof -
  define l where "l = t + zone * 60 * 10 ^ 9"
  define sec where "sec = l div 10 ^ 9"
  define r where "r = sec mod 86400"
  obtain y m d where c: "civil (sec div 86400) = (y, m, d)" by (metis prod_cases3)
  note ymd = civil_roundtrip [OF c]
  have y: "0 \<le> y" "y \<le> 9999" "\<bar>zone\<bar> < 1440"
    using assms c unfolding time_ok_def year_of_def l_def [symmetric] sec_def [symmetric] by simp_all
  have dm: "days_in m y \<le> 31" by (simp add: days_in_def)
  define hh mm ss where hms_def: "hh = r div 3600" "mm = r mod 3600 div 60" "ss = r mod 60"
  have "0 \<le> r" "r < 86400" by (simp_all add: r_def)
  note hms = clock_fields [OF this, folded hms_def]
  have "0 \<le> l mod 10 ^ 9" "l mod 10 ^ 9 < 10 ^ 9" by simp_all
  note fr = parse_fraction_text [OF this]
  have len: "length (pad_int 4 y) = 4" "length (pad_int 2 m) = 2" "length (pad_int 2 d) = 2"
    by ((rule pad_digits(1); use y(1,2) ymd(2-5) dm in simp)+)
  have len': "length (pad_int 2 hh) = 2" "length (pad_int 2 mm) = 2"
    "length (pad_int 2 ss) = 2"
    by ((rule pad_digits(1); use hms in simp)+)
  have num: "num_field (pad_int 4 y) 0 9999 = Some y" "num_field (pad_int 2 m) 1 12 = Some m"
    "num_field (pad_int 2 d) 1 (days_in m y) = Some d" "num_field (pad_int 2 hh) 0 23 = Some hh"
    "num_field (pad_int 2 mm) 0 59 = Some mm"
    "num_field (pad_int 2 ss) 0 59 = Some ss"
    by ((rule num_field_pad; use y(1,2) ymd(2-5) dm hms in simp)+)
  have "format_RFC3339Nano zone t = pad_int 4 y @ ''-'' @ pad_int 2 m @ ''-'' @ pad_int 2 d @ ''T'' @
      pad_int 2 hh @ '':'' @ pad_int 2 mm @ '':'' @ pad_int 2 ss @
      fraction_text (l mod 10 ^ 9) @ zone_text zone"
    using c unfolding format_RFC3339Nano_def Let_def l_def [symmetric] sec_def [symmetric] clock_def r_def [symmetric]
      hms_def [symmetric] by (simp only: prod.case c)
  also have "parse_RFC3339 \<dots> =
      Some ((days_of_civil y m d * 86400 + (hh * 3600 + mm * 60 + ss)) * 10 ^ 9 +
        l mod 10 ^ 9 - zone * 60 * 10 ^ 9)"
    by (rule parse_fields [OF len len' num fr parse_zone_text [OF y(3)]])
  also have "hh * 3600 + mm * 60 + ss = r" by (rule hms(7))
  finally have p: "parse_RFC3339 (format_RFC3339Nano zone t) =
    Some ((days_of_civil y m d * 86400 + r) * 10 ^ 9 + l mod 10 ^ 9 - zone * 60 * 10 ^ 9)" .
  have "days_of_civil y m d * 86400 + r = sec" unfolding ymd(1) r_def by (rule div_mult_mod_eq)
  moreover have "sec * 10 ^ 9 + l mod 10 ^ 9 = l" unfolding sec_def by (rule div_mult_mod_eq)
  ultimately have "parse_RFC3339 (format_RFC3339Nano zone t) = Some (l - zone * 60 * 10 ^ 9)"
    using p by (simp only:)
  then show ?thesis by (simp add: l_def)
qed

end
