(* ===== verification/GoStruct.thy ===== *)
theory GoStruct
  imports GoJson TimeText
begin

text \<open>
  How \<^verbatim>\<open>encoding/json\<close> writes and fills a struct: a struct type is the list of its fields with
  their tags, and a locale proves once, for any table of lawful fields, that what one program
  writes from a struct another program reads back into a struct with the same fields.
\<close>

section \<open>Fields\<close>

datatype go_type = TimeT | UintT nat | IntT nat | StringT | BoolT | SliceT

text \<open>
  The JSON name of a field, the Go type it is declared with, its \<^verbatim>\<open>omitempty\<close> option, whether its
  value is the empty one, how it is written and how a JSON value is stored into it.  A time is
  written in the zone of the writer, given in minutes; writing one may fail.
\<close>

record 'r field =
  f_name :: string
  f_type :: go_type
  f_omit :: bool
  f_empty :: "'r \<Rightarrow> bool"
  f_enc :: "int \<Rightarrow> 'r \<Rightarrow> json option"
  f_dec :: "json \<Rightarrow> json_error + ('r \<Rightarrow> 'r)"

text \<open>
  \<^verbatim>\<open>literalStore\<close>: a number must be an integer literal in the range of the field's type, and
  \<^verbatim>\<open>null\<close> leaves the field as it is.
\<close>

definition parse_uint :: "nat \<Rightarrow> string \<Rightarrow> int option" where
  "parse_uint w l =
     (if l = [] then None
      else case parse_digits 0 l of
        None \<Rightarrow> None
      | Some n \<Rightarrow> if int n < 2 ^ w then Some (int n) else None)"

definition parse_sint :: "nat \<Rightarrow> string \<Rightarrow> int option" where
  "parse_sint w l =
     (case atoi l of
        None \<Rightarrow> None
      | Some i \<Rightarrow> if - (2 ^ (w - 1)) \<le> i \<and> i < 2 ^ (w - 1) then Some i else None)"

fun dec_num :: "(string \<Rightarrow> int option) \<Rightarrow> ('v \<Rightarrow> 'r \<Rightarrow> 'r) \<Rightarrow> (int \<Rightarrow> 'v) \<Rightarrow> json \<Rightarrow> json_error + ('r \<Rightarrow> 'r)" where
  "dec_num rd upd mk JNull = Inr (\<lambda>r. r)"
| "dec_num rd upd mk (JNum l) =
     (case rd l of None \<Rightarrow> Inl (UnmarshalTypeError l) | Some i \<Rightarrow> Inr (upd (mk i)))"
| "dec_num rd upd mk _ = Inl (UnmarshalTypeError ''number'')"

fun dec_string :: "(string \<Rightarrow> 'r \<Rightarrow> 'r) \<Rightarrow> json \<Rightarrow> json_error + ('r \<Rightarrow> 'r)" where
  "dec_string upd JNull = Inr (\<lambda>r. r)"
| "dec_string upd (JStr l) =
     (case unquote l of None \<Rightarrow> Inl SyntaxError | Some s \<Rightarrow> Inr (upd s))"
| "dec_string upd _ = Inl (UnmarshalTypeError ''string'')"

fun dec_bool :: "(bool \<Rightarrow> 'r \<Rightarrow> 'r) \<Rightarrow> json \<Rightarrow> json_error + ('r \<Rightarrow> 'r)" where
  "dec_bool upd JNull = Inr (\<lambda>r. r)"
| "dec_bool upd (JBool b) = Inr (upd b)"
| "dec_bool upd _ = Inl (UnmarshalTypeError ''bool'')"

text \<open>\<^verbatim>\<open>Time.UnmarshalJSON\<close> reads the text between the quotes as it stands.\<close>

fun dec_time :: "(Time \<Rightarrow> 'r \<Rightarrow> 'r) \<Rightarrow> json \<Rightarrow> json_error + ('r \<Rightarrow> 'r)" where
  "dec_time upd JNull = Inr (\<lambda>r. r)"
| "dec_time upd (JStr l) = (case parse_RFC3339 l of None \<Rightarrow> Inl TimeError | Some t \<Rightarrow> Inr (upd t))"
| "dec_time upd _ = Inl TimeError"

definition uint_field ::
  "string \<Rightarrow> bool \<Rightarrow> ('r \<Rightarrow> 'a::len word) \<Rightarrow> (('a word \<Rightarrow> 'a word) \<Rightarrow> 'r \<Rightarrow> 'r) \<Rightarrow> 'r field" where
  "uint_field name om get upd =
     \<lparr>f_name = name, f_type = UintT LENGTH('a), f_omit = om, f_empty = (\<lambda>r. get r = 0),
      f_enc = (\<lambda>zone r. Some (JNum (show_int (uint (get r))))),
      f_dec = dec_num (parse_uint LENGTH('a)) (\<lambda>w. upd (\<lambda>_. w)) word_of_int\<rparr>"

definition int_field ::
  "string \<Rightarrow> bool \<Rightarrow> ('r \<Rightarrow> 'a::len word) \<Rightarrow> (('a word \<Rightarrow> 'a word) \<Rightarrow> 'r \<Rightarrow> 'r) \<Rightarrow> 'r field" where
  "int_field name om get upd =
     \<lparr>f_name = name, f_type = IntT LENGTH('a), f_omit = om, f_empty = (\<lambda>r. get r = 0),
      f_enc = (\<lambda>zone r. Some (JNum (show_int (sint (get r))))),
      f_dec = dec_num (parse_sint LENGTH('a)) (\<lambda>w. upd (\<lambda>_. w)) word_of_int\<rparr>"

definition string_field ::
  "string \<Rightarrow> bool \<Rightarrow> ('r \<Rightarrow> string) \<Rightarrow> ((string \<Rightarrow> string) \<Rightarrow> 'r \<Rightarrow> 'r) \<Rightarrow> 'r field" where
  "string_field name om get upd =
     \<lparr>f_name = name, f_type = StringT, f_omit = om, f_empty = (\<lambda>r. get r = []),
      f_enc = (\<lambda>zone r. Some (JStr (escape (get r)))),
      f_dec = dec_string (\<lambda>s. upd (\<lambda>_. s))\<rparr>"

definition bool_field ::
  "string \<Rightarrow> bool \<Rightarrow> ('r \<Rightarrow> bool) \<Rightarrow> ((bool \<Rightarrow> bool) \<Rightarrow> 'r \<Rightarrow> 'r) \<Rightarrow> 'r field" where
  "bool_field name om get upd =
     \<lparr>f_name = name, f_type = BoolT, f_omit = om, f_empty = (\<lambda>r. \<not> get r),
      f_enc = (\<lambda>zone r. Some (JBool (get r))),
      f_dec = dec_bool (\<lambda>b. upd (\<lambda>_. b))\<rparr>"

definition time_field :: "string \<Rightarrow> ('r \<Rightarrow> Time) \<Rightarrow> ((Time \<Rightarrow> Time) \<Rightarrow> 'r \<Rightarrow> 'r) \<Rightarrow> 'r field" where
  "time_field name get upd =
     \<lparr>f_name = name, f_type = TimeT, f_omit = False, f_empty = (\<lambda>r. False),
      f_enc = (\<lambda>zone r. map_option JStr (marshal_Time zone (get r))),
      f_dec = dec_time (\<lambda>t. upd (\<lambda>_. t))\<rparr>"

lemmas field_defs = uint_field_def int_field_def string_field_def bool_field_def time_field_def

section \<open>Structs\<close>

fun marshal_members :: "int \<Rightarrow> 'r field list \<Rightarrow> 'r \<Rightarrow> (string \<times> json) list option" where
  "marshal_members zone [] r = Some []"
| "marshal_members zone (f # fs) r =
     (if f_omit f \<and> f_empty f r then marshal_members zone fs r
      else case f_enc f zone r of
        None \<Rightarrow> None
      | Some j \<Rightarrow> map_option ((#) (escape (f_name f), j)) (marshal_members zone fs r))"

definition marshal_struct :: "int \<Rightarrow> 'r field list \<Rightarrow> 'r \<Rightarrow> json option" where
  "marshal_struct zone fs r = map_option JObj (marshal_members zone fs r)"

text \<open>
  \<^verbatim>\<open>foldName\<close>: names match without regard to case.  Two runes outside ASCII fold to an ASCII
  letter, U+017F to S and U+212A to K; any other such rune matches no name of a field.
\<close>

definition upper :: "char \<Rightarrow> char" where
  "upper c = (if 97 \<le> code c \<and> code c \<le> 122 then char_of (code c - 32) else c)"

function fold_name :: "string \<Rightarrow> string" where
  "fold_name [] = []"
| "fold_name (a # s) =
     (if a = CHR 0xC5 \<and> take 1 s = [CHR 0xBF] then CHR ''S'' # fold_name (drop 1 s)
      else if a = CHR 0xE2 \<and> take 2 s = [CHR 0x84, CHR 0xAA] then CHR ''K'' # fold_name (drop 2 s)
      else upper a # fold_name s)"
  by pat_completeness auto
termination by (relation "measure length") auto

definition find_field :: "'r field list \<Rightarrow> string \<Rightarrow> 'r field option" where
  "find_field fs key =
     (case List.find (\<lambda>f. f_name f = key) fs of
        Some f \<Rightarrow> Some f
      | None \<Rightarrow> List.find (\<lambda>f. fold_name (f_name f) = fold_name key) fs)"

text \<open>
  The members are stored one after the other; unknown ones are skipped.  After a value of the wrong
  type Go goes on, but the call fails all the same and its callers drop what it has filled.
\<close>

fun fill :: "'r field list \<Rightarrow> (string \<times> json) list \<Rightarrow> 'r \<Rightarrow> json_error + 'r" where
  "fill fs [] r = Inr r"
| "fill fs ((k, j) # ms) r =
     (case unquote k of
        None \<Rightarrow> Inl SyntaxError
      | Some key \<Rightarrow>
          (case find_field fs key of
             None \<Rightarrow> fill fs ms r
           | Some f \<Rightarrow> (case f_dec f j of Inl e \<Rightarrow> Inl e | Inr u \<Rightarrow> fill fs ms (u r))))"

fun unmarshal_struct :: "'r field list \<Rightarrow> 'r \<Rightarrow> json \<Rightarrow> json_error + 'r" where
  "unmarshal_struct fs r JNull = Inr r"
| "unmarshal_struct fs r (JObj ms) = fill fs ms r"
| "unmarshal_struct fs r _ = Inl (UnmarshalTypeError ''struct'')"

text \<open>
  Slices of structs.  A slice without elements is written as \<^verbatim>\<open>null\<close>, being nil wherever the
  program writes one; \<^verbatim>\<open>null\<close> and \<open>[]\<close> are both read as no elements.
\<close>

fun all_some :: "'a option list \<Rightarrow> 'a list option" where
  "all_some [] = Some []"
| "all_some (x # xs) = (case x of None \<Rightarrow> None | Some a \<Rightarrow> map_option ((#) a) (all_some xs))"

fun all_right :: "('e + 'a) list \<Rightarrow> 'e + 'a list" where
  "all_right [] = Inr []"
| "all_right (x # xs) =
     (case x of
        Inl e \<Rightarrow> Inl e
      | Inr a \<Rightarrow> (case all_right xs of Inl e \<Rightarrow> Inl e | Inr as \<Rightarrow> Inr (a # as)))"

definition marshal_slice :: "int \<Rightarrow> 'r field list \<Rightarrow> 'r list \<Rightarrow> json option" where
  "marshal_slice zone fs rs =
     (if rs = [] then Some JNull else map_option JArr (all_some (map (marshal_struct zone fs) rs)))"

fun unmarshal_slice :: "'r field list \<Rightarrow> 'r \<Rightarrow> json \<Rightarrow> json_error + 'r list" where
  "unmarshal_slice fs zero JNull = Inr []"
| "unmarshal_slice fs zero (JArr vs) = all_right (map (unmarshal_struct fs zero) vs)"
| "unmarshal_slice fs zero _ = Inl (UnmarshalTypeError ''slice'')"

section \<open>Lawful fields\<close>

text \<open>What a field holds after its written value was read: the value, with strings made valid.\<close>

definition carry :: "int \<Rightarrow> 'r field \<Rightarrow> 'r \<Rightarrow> 'r \<Rightarrow> 'r" where
  "carry zone f r acc =
     (case f_enc f zone r of
        None \<Rightarrow> acc
      | Some j \<Rightarrow> (case f_dec f j of Inl e \<Rightarrow> acc | Inr u \<Rightarrow> u acc))"

definition carry_field :: "int \<Rightarrow> 'r field \<Rightarrow> 'r \<Rightarrow> 'r \<Rightarrow> 'r" where
  "carry_field zone f r acc = (if f_omit f \<and> f_empty f r then acc else carry zone f r acc)"

definition lawful :: "nat \<Rightarrow> int \<Rightarrow> 'r \<Rightarrow> 'r field \<Rightarrow> bool" where
  "lawful d zone r f \<longleftrightarrow>
     (\<forall>j. f_enc f zone r = Some j \<longrightarrow> written j \<and> nesting j \<le> d \<and> (\<exists>u. f_dec f j = Inr u))"

text \<open>The Go type of a field and the JSON values that fit it.\<close>

fun has_type :: "go_type \<Rightarrow> json \<Rightarrow> bool" where
  "has_type TimeT (JStr l) \<longleftrightarrow> parse_RFC3339 l \<noteq> None"
| "has_type (UintT w) (JNum l) \<longleftrightarrow> parse_uint w l \<noteq> None"
| "has_type (IntT w) (JNum l) \<longleftrightarrow> parse_sint w l \<noteq> None"
| "has_type StringT (JStr l) \<longleftrightarrow> unquote l \<noteq> None"
| "has_type BoolT (JBool b) \<longleftrightarrow> True"
| "has_type SliceT (JArr vs) \<longleftrightarrow> True"
| "has_type t JNull \<longleftrightarrow> True"
| "has_type t j \<longleftrightarrow> False"

definition typed :: "int \<Rightarrow> 'r \<Rightarrow> 'r field \<Rightarrow> bool" where
  "typed zone r f \<longleftrightarrow> (\<forall>j. f_enc f zone r = Some j \<longrightarrow> has_type (f_type f) j)"

lemma parse_uint_show: "0 \<le> i \<Longrightarrow> i < 2 ^ w \<Longrightarrow> parse_uint w (show_int i) = Some i"
  by (simp add: parse_uint_def show_int_def)

lemma parse_uint_word: "parse_uint LENGTH('a) (show_int (uint w)) = Some (uint (w :: 'a::len word))"
  by (intro parse_uint_show) (simp_all add: uint_lt2p)

lemma parse_sint_show:
  "w \<le> 64 \<Longrightarrow> - (2 ^ (w - 1)) \<le> i \<Longrightarrow> i < 2 ^ (w - 1) \<Longrightarrow> parse_sint w (show_int i) = Some i"
proof -
  assume w: "w \<le> 64" and i: "- (2 ^ (w - 1)) \<le> i" "i < 2 ^ (w - 1)"
  have "(2 :: int) ^ (w - 1) \<le> 2 ^ 63" using w by (intro power_increasing) simp_all
  then have "is_i64 i" using i by (simp add: i64_defs)
  then show ?thesis using i by (simp add: parse_sint_def atoi_show_int)
qed

lemma parse_sint_word:
  "LENGTH('a) \<le> 64 \<Longrightarrow> parse_sint LENGTH('a) (show_int (sint w)) = Some (sint (w :: 'a::len word))"
  using sint_greater_eq [of w] sint_lt [of w] by (intro parse_sint_show) simp_all

subsection \<open>Text that needs no escape\<close>

definition plain :: "char \<Rightarrow> bool" where
  "plain c \<longleftrightarrow> ascii c \<and> escape_ascii c = [c]"

lemma escape_plain: "list_all plain s \<Longrightarrow> escape s = s"
proof (induction s)
  case (Cons c s)
  then show ?case by (simp add: escape_def plain_def)
qed (simp add: escape_def)

lemma plain_digit: "is_digit c \<Longrightarrow> plain c"
proof -
  assume "is_digit c"
  then have c: "48 \<le> code c" "code c \<le> 57"
    by (simp_all add: is_digit_def digit_val_def Let_def split: if_splits)
  then have "c \<notin> {CHR 0x22, CHR 0x5C, CHR 0x08, CHR 0x0C, CHR 0x0A, CHR 0x0D, CHR 0x09, CHR ''<'', CHR ''>'', CHR ''&''}"
    by auto
  with c show ?thesis
    unfolding plain_def ascii_def escape_ascii_def quote_mark_def backslash_def by simp
qed

lemma plain_chars [simp]:
  "plain CHR ''-''" "plain CHR '':''" "plain CHR ''T''" "plain CHR ''Z''" "plain CHR ''.''" "plain CHR ''+''"
  by (simp_all add: plain_def ascii_def escape_ascii_def quote_mark_def backslash_def)

lemma plain_show_nat: "list_all plain (show_nat n)"
  using show_nat_digits by (fastforce simp: list_all_iff is_digit_def intro: plain_digit)

lemma plain_pad: "list_all plain (pad_int w i)"
proof -
  have "plain CHR ''0''" by (rule plain_digit) (simp add: is_digit_def digit_val_def)
  then show ?thesis by (simp add: pad_int_def Let_def plain_show_nat list_all_iff [of _ "replicate _ _"])
qed

lemma plain_fraction: "list_all plain (fraction_text ns)"
proof -
  have "set (rev (dropWhile P (rev s))) \<subseteq> set s" for P and s :: string
    using set_dropWhileD by fastforce
  then show ?thesis using plain_pad [of 9 ns] unfolding fraction_text_def Let_def list_all_iff by auto
qed

lemma plain_time: "list_all plain (format_RFC3339Nano zone t)"
  by (simp add: format_RFC3339Nano_def Let_def clock_def case_prod_beta plain_pad plain_fraction zone_text_def)

subsection \<open>The kinds of field\<close>

text \<open>
  Of each kind: the field is lawful and well typed, and what it carries over.
\<close>

lemma uint_field_law:
  fixes get :: "'r \<Rightarrow> 'a::len word"
  shows "lawful d zone r (uint_field n om get upd)" "typed zone r (uint_field n om get upd)"
    "carry zone (uint_field n om get upd) r acc = upd (\<lambda>_. get r) acc"
  using parse_uint_word [of "get r"]
  by (auto simp: lawful_def typed_def carry_def uint_field_def)

lemma int_field_law:
  fixes get :: "'r \<Rightarrow> 'a::len word"
  assumes "LENGTH('a) \<le> 64"
  shows "lawful d zone r (int_field n om get upd)" "typed zone r (int_field n om get upd)"
    "carry zone (int_field n om get upd) r acc = upd (\<lambda>_. get r) acc"
  using parse_sint_word [OF assms, of "get r"]
  by (auto simp: lawful_def typed_def carry_def int_field_def)

lemma string_field_law:
  "lawful d zone r (string_field n om get upd)" "typed zone r (string_field n om get upd)"
  "carry zone (string_field n om get upd) r acc = upd (\<lambda>_. to_valid (get r)) acc"
  by (auto simp: lawful_def typed_def carry_def string_field_def)

lemma bool_field_law:
  "lawful d zone r (bool_field n om get upd)" "typed zone r (bool_field n om get upd)"
  "carry zone (bool_field n om get upd) r acc = upd (\<lambda>_. get r) acc"
  by (auto simp: lawful_def typed_def carry_def bool_field_def)

lemma time_field_law:
  "lawful d zone r (time_field n get upd)" "typed zone r (time_field n get upd)"
  "time_ok zone (get r) \<Longrightarrow> carry zone (time_field n get upd) r acc = upd (\<lambda>_. get r) acc"
proof -
  have "\<exists>s. format_RFC3339Nano zone (get r) = escape s"
    using escape_plain [OF plain_time] by metis
  then show "lawful d zone r (time_field n get upd)" "typed zone r (time_field n get upd)"
    by (auto simp: lawful_def typed_def time_field_def marshal_Time_def time_roundtrip)
  show "time_ok zone (get r) \<Longrightarrow> carry zone (time_field n get upd) r acc = upd (\<lambda>_. get r) acc"
    by (simp add: carry_def time_field_def marshal_Time_def time_roundtrip)
qed

text \<open>The names of the fields, and which of them can always be written.\<close>

lemma field_names:
  "f_name (uint_field n om get1 upd1) = n" "f_name (int_field n om get1 upd1) = n"
  "f_name (string_field n om get2 upd2) = n" "f_name (bool_field n om get3 upd3) = n"
  "f_name (time_field n get4 upd4) = n"
  by (simp_all add: field_defs)

definition writes :: "int \<Rightarrow> 'r \<Rightarrow> 'r field \<Rightarrow> bool" where
  "writes zone r f \<longleftrightarrow> f_omit f \<and> f_empty f r \<or> f_enc f zone r \<noteq> None"

lemma fields_write:
  "writes zone r (uint_field n om get1 upd1)" "writes zone r (int_field n om get1 upd1)"
  "writes zone r (string_field n om get2 upd2)" "writes zone r (bool_field n om get3 upd3)"
  "writes zone r (time_field n get4 upd4) \<longleftrightarrow> time_ok zone (get4 r)"
  by (simp_all add: field_defs writes_def marshal_Time_def)

text \<open>
  Leaving out an empty field is the same as carrying its empty value over to a struct where the
  field is empty.
\<close>

lemma carry_field_uint:
  "upd (\<lambda>_. 0) acc = acc \<Longrightarrow> carry_field zone (uint_field n om get upd) r acc = upd (\<lambda>_. get r) acc"
  by (auto simp: carry_field_def uint_field_law) (simp add: uint_field_def)

lemma carry_field_int:
  fixes get :: "'r \<Rightarrow> 'a::len word"
  shows "LENGTH('a) \<le> 64 \<Longrightarrow> upd (\<lambda>_. 0) acc = acc \<Longrightarrow>
    carry_field zone (int_field n om get upd) r acc = upd (\<lambda>_. get r) acc"
  by (auto simp: carry_field_def int_field_law) (simp add: int_field_def)

lemma carry_field_string:
  "upd (\<lambda>_. []) acc = acc \<Longrightarrow> carry_field zone (string_field n om get upd) r acc = upd (\<lambda>_. to_valid (get r)) acc"
  by (auto simp: carry_field_def string_field_law) (simp add: string_field_def to_valid_def)

lemma carry_field_bool:
  "upd (\<lambda>_. False) acc = acc \<Longrightarrow> carry_field zone (bool_field n om get upd) r acc = upd (\<lambda>_. get r) acc"
  by (auto simp: carry_field_def bool_field_law) (simp add: bool_field_def)

lemma carry_field_time:
  "time_ok zone (get r) \<Longrightarrow> carry_field zone (time_field n get upd) r acc = upd (\<lambda>_. get r) acc"
  by (simp add: carry_field_def time_field_law) (simp add: time_field_def)

lemmas carry_fields = carry_field_uint carry_field_int carry_field_string carry_field_bool carry_field_time

lemmas fields_lawful = uint_field_law(1) int_field_law(1) string_field_law(1) bool_field_law(1) time_field_law(1)
lemmas fields_typed = uint_field_law(2) int_field_law(2) string_field_law(2) bool_field_law(2) time_field_law(2)

section \<open>From one program's table to another's\<close>

text \<open>
  The writer and the reader declare the same names with the same types; only \<^verbatim>\<open>omitempty\<close> may differ.
  \<open>image\<close> is the struct that the reader ends up with.
\<close>

locale struct_codec =
  fixes writer reader :: "'r field list" and zero :: 'r and ok :: "int \<Rightarrow> 'r \<Rightarrow> bool"
    and image :: "'r \<Rightarrow> 'r" and depth :: nat
  assumes same: "map (f_omit_update (\<lambda>_. False)) writer = map (f_omit_update (\<lambda>_. False)) reader"
    and names: "distinct (map f_name reader)" "list_all (\<lambda>f. to_valid (f_name f) = f_name f) reader"
    and laws: "list_all (lawful depth zone r) writer"
    and succeeds: "ok zone r \<longleftrightarrow> list_all (writes zone r) writer"
    and carried: "ok zone r \<Longrightarrow> fold (\<lambda>f. carry_field zone f r) writer zero = image r"
begin

lemma marshal_members_defined:
  "marshal_members zone fs r \<noteq> None \<longleftrightarrow> list_all (writes zone r) fs"
  by (induction fs) (auto simp: writes_def split: option.split)

lemma marshal_defined: "marshal_struct zone writer r \<noteq> None \<longleftrightarrow> ok zone r"
  using marshal_members_defined [of zone writer r] succeeds [of zone r] by (simp add: marshal_struct_def)

lemma find_name: "f \<in> set reader \<Longrightarrow> find_field reader (f_name f) = Some f"
proof -
  assume f: "f \<in> set reader"
  have "List.find (\<lambda>g. f_name g = f_name f) fs = Some f" if "f \<in> set fs" "distinct (map f_name fs)" for fs
    using that by (induction fs) (force split: if_splits)+
  with f names(1) show ?thesis by (simp add: find_field_def)
qed

lemma twin:
  assumes "f \<in> set writer"
  obtains g where "g \<in> set reader" "f_name g = f_name f" "f_dec g = f_dec f"
proof -
  obtain i where i: "i < length writer" "writer ! i = f" using assms by (auto simp: in_set_conv_nth)
  have len: "length writer = length reader" using map_eq_imp_length_eq [OF same] .
  have "(map (f_omit_update (\<lambda>_. False)) writer) ! i = (map (f_omit_update (\<lambda>_. False)) reader) ! i"
    using same by simp
  then have "f\<lparr>f_omit := False\<rparr> = (reader ! i)\<lparr>f_omit := False\<rparr>" using i len by simp
  then have "f_name (reader ! i) = f_name f" "f_dec (reader ! i) = f_dec f"
    by (metis field.select_convs(1) field.surjective field.update_convs(3))
      (metis \<open>f\<lparr>f_omit := False\<rparr> = _\<close> field.select_convs(6) field.surjective field.update_convs(3))
  with i len show thesis by (intro that [of "reader ! i"]) simp_all
qed

lemma fill_members:
  "marshal_members zone fs r = Some ms \<Longrightarrow> set fs \<subseteq> set writer \<Longrightarrow>
   fill reader ms acc = Inr (fold (\<lambda>f. carry_field zone f r) fs acc)"
proof (induction fs arbitrary: ms acc)
  case (Cons f fs)
  show ?case
  proof (cases "f_omit f \<and> f_empty f r")
    case True
    with Cons show ?thesis by (simp add: carry_field_def)
  next
    case False
    with Cons.prems obtain j ns where j: "f_enc f zone r = Some j"
      and ns: "marshal_members zone fs r = Some ns" "ms = (escape (f_name f), j) # ns"
      by (auto split: option.splits if_splits)
    have f: "f \<in> set writer" using Cons.prems by simp
    obtain u where u: "f_dec f j = Inr u"
      using laws [of zone r] f j unfolding list_all_iff lawful_def by blast
    obtain g where g: "g \<in> set reader" "f_name g = f_name f" "f_dec g = f_dec f" using twin [OF f] .
    have "to_valid (f_name f) = f_name f" using names(2) g by (auto simp: list_all_iff)
    with find_name [OF g(1)] g have "fill reader ms acc = fill reader ns (u acc)" by (simp add: ns u)
    also have "\<dots> = Inr (fold (\<lambda>f. carry_field zone f r) fs (u acc))"
      using Cons ns by simp
    also have "u acc = carry_field zone f r acc" using False j u by (auto simp: carry_field_def carry_def)
    finally show ?thesis by simp
  qed
qed simp

lemma members_written:
  "marshal_members zone fs r = Some ms \<Longrightarrow> set fs \<subseteq> set writer \<Longrightarrow>
   \<forall>(k, j) \<in> set ms. (\<exists>s. k = escape s) \<and> written j \<and> nesting j \<le> depth"
proof (induction fs arbitrary: ms)
  case (Cons f fs)
  then show ?case
    using laws [of zone r] by (fastforce simp: list_all_iff lawful_def split: option.splits if_splits)
qed simp

lemma roundtrip:
  assumes "marshal_struct zone writer r = Some j"
  shows "unmarshal_struct reader zero j = Inr (image r)" "written j" "nesting j \<le> Suc depth"
proof -
  obtain ms where ms: "marshal_members zone writer r = Some ms" "j = JObj ms"
    using assms by (auto simp: marshal_struct_def)
  have "ok zone r" using assms marshal_defined [of zone r] by simp
  with ms fill_members [OF ms(1) order_refl] show "unmarshal_struct reader zero j = Inr (image r)"
    by (simp add: carried)
  have w: "\<forall>(k, j) \<in> set ms. (\<exists>s. k = escape s) \<and> written j \<and> nesting j \<le> depth"
    using members_written [OF ms(1)] by simp
  then show "written j" by (auto simp: ms)
  have "Max (insert 0 (set (map (\<lambda>(k, v). nesting v) ms))) \<le> depth" using w by auto
  then show "nesting j \<le> Suc depth" by (simp add: ms)
qed

text \<open>Slices of such structs, and their text.\<close>

lemma all_some_map:
  "all_some (map (marshal_struct zone writer) rs) = Some vs \<Longrightarrow>
   all_right (map (unmarshal_struct reader zero) vs) = Inr (map image rs) \<and>
   (\<forall>v \<in> set vs. written v \<and> nesting v \<le> Suc depth)"
proof (induction rs arbitrary: vs)
  case (Cons r rs)
  then obtain j js where j: "marshal_struct zone writer r = Some j"
    and js: "all_some (map (marshal_struct zone writer) rs) = Some js" "vs = j # js"
    by (auto split: option.splits)
  from Cons.IH [OF js(1)] roundtrip [OF j] js(2) show ?case by simp
qed simp

lemma slice_roundtrip:
  assumes "marshal_slice zone writer rs = Some j"
  shows "unmarshal_slice reader zero j = Inr (map image rs)" "written j" "nesting j \<le> Suc (Suc depth)"
proof -
  have "unmarshal_slice reader zero j = Inr (map image rs) \<and> written j \<and> nesting j \<le> Suc (Suc depth)"
  proof (cases "rs = []")
    case False
    then obtain vs where vs: "all_some (map (marshal_struct zone writer) rs) = Some vs" "j = JArr vs"
      using assms by (auto simp: marshal_slice_def)
    have "Max (insert 0 (set (map nesting vs))) \<le> Suc depth" using all_some_map [OF vs(1)] by auto
    with all_some_map [OF vs(1)] vs(2) show ?thesis by simp
  qed (use assms in \<open>simp add: marshal_slice_def\<close>)
  then show "unmarshal_slice reader zero j = Inr (map image rs)" "written j" "nesting j \<le> Suc (Suc depth)"
    by simp_all
qed

lemma slice_defined: "marshal_slice zone writer rs \<noteq> None \<longleftrightarrow> (\<forall>r \<in> set rs. ok zone r)"
proof -
  have "all_some (map (marshal_struct zone writer) rs) \<noteq> None \<longleftrightarrow> (\<forall>r \<in> set rs. ok zone r)"
    by (induction rs) (auto simp: marshal_defined [symmetric] split: option.split)
  then show ?thesis by (auto simp: marshal_slice_def)
qed

lemma text_roundtrip:
  assumes "marshal_struct zone writer r = Some j" and "depth < maxNestingDepth"
  shows "decode_first (json_text j) = Inr j" "parse_json (json_text j) = Inr j"
  using roundtrip [OF assms(1)] assms(2) by simp_all

lemma slice_text_roundtrip:
  assumes "marshal_slice zone writer rs = Some j" and "Suc depth < maxNestingDepth"
  shows "decode_first (json_text j) = Inr j" "parse_json (json_text j) = Inr j"
  using slice_roundtrip [OF assms(1)] assms(2) by simp_all

end

end
