(* ===== verification/EventJson.thy ===== *)
theory EventJson
  imports GoStruct Server
begin

text \<open>
  The JSON of the program's own structs: the fields of the agent's and of the server's
  \<^verbatim>\<open>EnrichedEvent\<close>, of \<^verbatim>\<open>Heartbeat\<close> and of \<^verbatim>\<open>CausalChain\<close>, with their tags.  From the tables come the
  decoder of the server's handlers and the codecs of its Redis store; interpretations of
  \<open>struct_codec\<close> give the round trips.
\<close>

section \<open>The tables\<close>

text \<open>The agent's \<^verbatim>\<open>EnrichedEvent\<close> (\<^verbatim>\<open>src/src/agent/event.go\<close>).\<close>

definition agent_fields :: "AgentEnrichedEvent field list" where
  "agent_fields = [
     time_field ''timestamp'' ev_Timestamp ev_Timestamp_update,
     uint_field ''pid'' False ev_PID ev_PID_update,
     uint_field ''ppid'' False ev_PPID ev_PPID_update,
     uint_field ''tgid'' False ev_TGID ev_TGID_update,
     string_field ''comm'' False ev_Comm ev_Comm_update,
     uint_field ''cgroupId'' False ev_CgroupID ev_CgroupID_update,
     string_field ''eventType'' False ev_EventType ev_EventType_update,
     uint_field ''syscallNr'' True ev_SyscallNr ev_SyscallNr_update,
     int_field ''returnValue'' True ev_ReturnValue ev_ReturnValue_update,
     uint_field ''latencyNs'' True ev_LatencyNs ev_LatencyNs_update,
     bool_field ''slowSyscall'' True ev_SlowSyscall ev_SlowSyscall_update,
     uint_field ''childPid'' True ev_ChildPID ev_ChildPID_update,
     int_field ''exitCode'' True ev_ExitCode ev_ExitCode_update,
     bool_field ''criticalExit'' True ev_CriticalExit ev_CriticalExit_update,
     string_field ''srcAddr'' True ev_SrcAddr ev_SrcAddr_update,
     string_field ''dstAddr'' True ev_DstAddr ev_DstAddr_update,
     uint_field ''srcPort'' True ev_SrcPort ev_SrcPort_update,
     uint_field ''dstPort'' True ev_DstPort ev_DstPort_update,
     string_field ''netEventType'' True ev_NetEventType ev_NetEventType_update,
     uint_field ''rttUs'' True ev_RTTUs ev_RTTUs_update,
     string_field ''filePath'' True ev_FilePath ev_FilePath_update,
     uint_field ''ioLatencyNs'' True ev_IOLatencyNs ev_IOLatencyNs_update,
     uint_field ''bytesXfer'' True ev_BytesXfer ev_BytesXfer_update,
     bool_field ''slowIO'' True ev_SlowIO ev_SlowIO_update,
     string_field ''ioOpType'' True ev_IOOpType ev_IOOpType_update,
     string_field ''oomSubType'' True ev_OOMSubType ev_OOMSubType_update,
     uint_field ''killedPid'' True ev_KilledPID ev_KilledPID_update,
     string_field ''killedComm'' True ev_KilledComm ev_KilledComm_update,
     int_field ''oomScoreAdj'' True ev_OOMScoreAdj ev_OOMScoreAdj_update,
     uint_field ''pageOrder'' True ev_PageOrder ev_PageOrder_update,
     uint_field ''gfpFlags'' True ev_GFPFlags ev_GFPFlags_update,
     string_field ''domain'' True ev_Domain ev_Domain_update,
     uint_field ''dnsLatencyNs'' True ev_DNSLatencyNs ev_DNSLatencyNs_update,
     uint_field ''responseCode'' True ev_ResponseCode ev_ResponseCode_update,
     bool_field ''timedOut'' True ev_TimedOut ev_TimedOut_update,
     uint_field ''cpuUsageNs'' True ev_CPUUsageNs ev_CPUUsageNs_update,
     uint_field ''memoryUsageBytes'' True ev_MemoryUsageBytes ev_MemoryUsageBytes_update,
     uint_field ''memoryLimitBytes'' True ev_MemoryLimitBytes ev_MemoryLimitBytes_update,
     bool_field ''memoryPressure'' True ev_MemoryPressure ev_MemoryPressure_update,
     string_field ''auditDstAddr'' True ev_AuditDstAddr ev_AuditDstAddr_update,
     uint_field ''auditDstPort'' True ev_AuditDstPort ev_AuditDstPort_update,
     string_field ''auditProtocol'' True ev_AuditProtocol ev_AuditProtocol_update,
     string_field ''podName'' True ev_PodName ev_PodName_update,
     string_field ''namespace'' True ev_Namespace ev_Namespace_update,
     string_field ''containerName'' True ev_ContainerName ev_ContainerName_update,
     string_field ''nodeName'' False ev_NodeName ev_NodeName_update,
     bool_field ''hostLevel'' True ev_HostLevel ev_HostLevel_update]"

text \<open>The server's \<^verbatim>\<open>EnrichedEvent\<close> (\<^verbatim>\<open>src/src/server/kernel_event.go\<close>).\<close>

definition server_fields :: "EnrichedEvent field list" where
  "server_fields = [
     time_field ''timestamp'' ev_Timestamp ev_Timestamp_update,
     uint_field ''pid'' False ev_PID ev_PID_update,
     uint_field ''ppid'' False ev_PPID ev_PPID_update,
     uint_field ''tgid'' True ev_TGID ev_TGID_update,
     string_field ''comm'' False ev_Comm ev_Comm_update,
     uint_field ''cgroupId'' False ev_CgroupID ev_CgroupID_update,
     string_field ''eventType'' False ev_EventType ev_EventType_update,
     uint_field ''syscallNr'' True ev_SyscallNr ev_SyscallNr_update,
     int_field ''returnValue'' True ev_ReturnValue ev_ReturnValue_update,
     uint_field ''latencyNs'' True ev_LatencyNs ev_LatencyNs_update,
     bool_field ''slowSyscall'' True ev_SlowSyscall ev_SlowSyscall_update,
     uint_field ''childPid'' True ev_ChildPID ev_ChildPID_update,
     int_field ''exitCode'' True ev_ExitCode ev_ExitCode_update,
     bool_field ''criticalExit'' True ev_CriticalExit ev_CriticalExit_update,
     string_field ''srcAddr'' True ev_SrcAddr ev_SrcAddr_update,
     string_field ''dstAddr'' True ev_DstAddr ev_DstAddr_update,
     uint_field ''srcPort'' True ev_SrcPort ev_SrcPort_update,
     uint_field ''dstPort'' True ev_DstPort ev_DstPort_update,
     string_field ''netEventType'' True ev_NetEventType ev_NetEventType_update,
     uint_field ''rttUs'' True ev_RTTUs ev_RTTUs_update,
     string_field ''filePath'' True ev_FilePath ev_FilePath_update,
     uint_field ''ioLatencyNs'' True ev_IOLatencyNs ev_IOLatencyNs_update,
     uint_field ''bytesXfer'' True ev_BytesXfer ev_BytesXfer_update,
     bool_field ''slowIO'' True ev_SlowIO ev_SlowIO_update,
     string_field ''ioOpType'' True ev_IOOpType ev_IOOpType_update,
     string_field ''oomSubType'' True ev_OOMSubType ev_OOMSubType_update,
     uint_field ''killedPid'' True ev_KilledPID ev_KilledPID_update,
     string_field ''killedComm'' True ev_KilledComm ev_KilledComm_update,
     int_field ''oomScoreAdj'' True ev_OOMScoreAdj ev_OOMScoreAdj_update,
     uint_field ''pageOrder'' True ev_PageOrder ev_PageOrder_update,
     uint_field ''gfpFlags'' True ev_GFPFlags ev_GFPFlags_update,
     string_field ''domain'' True ev_Domain ev_Domain_update,
     uint_field ''dnsLatencyNs'' True ev_DNSLatencyNs ev_DNSLatencyNs_update,
     uint_field ''responseCode'' True ev_ResponseCode ev_ResponseCode_update,
     bool_field ''timedOut'' True ev_TimedOut ev_TimedOut_update,
     uint_field ''cpuUsageNs'' True ev_CPUUsageNs ev_CPUUsageNs_update,
     uint_field ''memoryUsageBytes'' True ev_MemoryUsageBytes ev_MemoryUsageBytes_update,
     uint_field ''memoryLimitBytes'' True ev_MemoryLimitBytes ev_MemoryLimitBytes_update,
     bool_field ''memoryPressure'' True ev_MemoryPressure ev_MemoryPressure_update,
     string_field ''auditDstAddr'' True ev_AuditDstAddr ev_AuditDstAddr_update,
     uint_field ''auditDstPort'' True ev_AuditDstPort ev_AuditDstPort_update,
     string_field ''auditProtocol'' True ev_AuditProtocol ev_AuditProtocol_update,
     string_field ''podName'' True ev_PodName ev_PodName_update,
     string_field ''namespace'' True ev_Namespace ev_Namespace_update,
     string_field ''containerName'' True ev_ContainerName ev_ContainerName_update,
     string_field ''nodeName'' False ev_NodeName ev_NodeName_update,
     bool_field ''hostLevel'' True ev_HostLevel ev_HostLevel_update]"

definition heartbeat_fields :: "Heartbeat field list" where
  "heartbeat_fields = [
     string_field ''nodeName'' False hb_NodeName hb_NodeName_update,
     string_field ''namespace'' False hb_Namespace hb_Namespace_update,
     time_field ''timestamp'' hb_Timestamp hb_Timestamp_update,
     string_field ''status'' False hb_Status hb_Status_update,
     uint_field ''ebpfPid'' True hb_EbpfPID hb_EbpfPID_update,
     string_field ''ebpfComm'' True hb_EbpfComm hb_EbpfComm_update]"

text \<open>A field that is a slice of structs.\<close>

definition slice_field ::
  "string \<Rightarrow> 'e field list \<Rightarrow> 'e \<Rightarrow> ('r \<Rightarrow> 'e list) \<Rightarrow> (('e list \<Rightarrow> 'e list) \<Rightarrow> 'r \<Rightarrow> 'r) \<Rightarrow> 'r field" where
  "slice_field name fs zero get upd =
     \<lparr>f_name = name, f_type = SliceT, f_omit = False, f_empty = (\<lambda>r. get r = []),
      f_enc = (\<lambda>zone r. marshal_slice zone fs (get r)),
      f_dec = (\<lambda>j. case unmarshal_slice fs zero j of
                 Inl e \<Rightarrow> Inl e | Inr es \<Rightarrow> Inr (upd (\<lambda>_. es)))\<rparr>"

definition chain_fields :: "CausalChain field list" where
  "chain_fields = [
     string_field ''nodeName'' False cc_NodeName cc_NodeName_update,
     time_field ''timestamp'' cc_Timestamp cc_Timestamp_update,
     slice_field ''events'' server_fields zero_EnrichedEvent cc_Events cc_Events_update,
     string_field ''summary'' False cc_Summary cc_Summary_update,
     string_field ''rootCause'' False cc_RootCause cc_RootCause_update]"

definition zero_Heartbeat :: Heartbeat where
  "zero_Heartbeat = \<lparr>hb_NodeName = '''', hb_Namespace = '''', hb_Timestamp = zero_time, hb_Status = '''',
     hb_EbpfPID = 0, hb_EbpfComm = ''''\<rparr>"

definition zero_CausalChain :: CausalChain where
  "zero_CausalChain = \<lparr>cc_NodeName = '''', cc_Timestamp = zero_time, cc_Events = [], cc_Summary = '''',
     cc_RootCause = ''''\<rparr>"

text \<open>A record with every string made valid UTF-8.\<close>

definition valid_event :: "EnrichedEvent \<Rightarrow> EnrichedEvent" where
  "valid_event e = e\<lparr>ev_Comm := to_valid (ev_Comm e),
     ev_EventType := to_valid (ev_EventType e),
     ev_SrcAddr := to_valid (ev_SrcAddr e),
     ev_DstAddr := to_valid (ev_DstAddr e),
     ev_NetEventType := to_valid (ev_NetEventType e),
     ev_FilePath := to_valid (ev_FilePath e),
     ev_IOOpType := to_valid (ev_IOOpType e),
     ev_OOMSubType := to_valid (ev_OOMSubType e),
     ev_KilledComm := to_valid (ev_KilledComm e),
     ev_Domain := to_valid (ev_Domain e),
     ev_AuditDstAddr := to_valid (ev_AuditDstAddr e),
     ev_AuditProtocol := to_valid (ev_AuditProtocol e),
     ev_PodName := to_valid (ev_PodName e),
     ev_Namespace := to_valid (ev_Namespace e),
     ev_ContainerName := to_valid (ev_ContainerName e),
     ev_NodeName := to_valid (ev_NodeName e)\<rparr>"

definition valid_heartbeat :: "Heartbeat \<Rightarrow> Heartbeat" where
  "valid_heartbeat h = h\<lparr>hb_NodeName := to_valid (hb_NodeName h), hb_Namespace := to_valid (hb_Namespace h), hb_Status := to_valid (hb_Status h), hb_EbpfComm := to_valid (hb_EbpfComm h)\<rparr>"

definition valid_chain :: "CausalChain \<Rightarrow> CausalChain" where
  "valid_chain c = c\<lparr>cc_NodeName := to_valid (cc_NodeName c), cc_Summary := to_valid (cc_Summary c), cc_RootCause := to_valid (cc_RootCause c),
     cc_Events := map valid_event (cc_Events c)\<rparr>"

section \<open>The tables are lawful\<close>

lemma event_names:
  "distinct (map f_name server_fields)" "list_all (\<lambda>f. to_valid (f_name f) = f_name f) server_fields"
  by (simp_all add: server_fields_def field_names to_valid_id valid_ascii ascii_def)

lemma same_fields: "map (f_omit_update (\<lambda>_. False)) agent_fields = map (f_omit_update (\<lambda>_. False)) server_fields"
  by (simp add: agent_fields_def server_fields_def field_defs)

lemma event_lawful: "list_all (lawful d zone r) server_fields" "list_all (lawful d zone r) agent_fields"
  by (simp_all add: server_fields_def agent_fields_def fields_lawful)

lemma event_carried:
  assumes "time_ok zone (ev_Timestamp r)"
  shows "fold (\<lambda>f. carry_field zone f r) server_fields zero_EnrichedEvent = valid_event r"
    "fold (\<lambda>f. carry_field zone f r) agent_fields zero_EnrichedEvent = valid_event r"
  using assms
  by (simp_all add: server_fields_def agent_fields_def zero_EnrichedEvent_def carry_fields valid_event_def)


text \<open>Every instant that fits 64 bits of nanoseconds lies in a year that can be written.\<close>

lemma civil_year:
  assumes "- 110000 \<le> days" "days \<le> 110000"
  shows "0 \<le> fst (civil days) \<and> fst (civil days) \<le> 9999"
proof -
  define z where "z = days + 719468"
  define yoe where "yoe = year_num (z mod 146097) div 365"
  define doy where "doy = z mod 146097 - (365 * yoe + yoe div 4 - yoe div 100)"
  define mp where "mp = (5 * doy + 2) div 153"
  have y: "fst (civil days) = yoe + z div 146097 * 400 + (if (if mp < 10 then mp + 3 else mp - 9) \<le> 2 then 1 else 0)"
    unfolding civil_def Let_def z_def yoe_def year_num_def doy_def mp_def fst_conv by (rule refl)
  have "0 \<le> z mod 146097" "z mod 146097 < 146097" by simp_all
  from year_of_doe [OF this] have "0 \<le> yoe" "yoe < 400" by (simp_all add: yoe_def)
  moreover have "4 \<le> z div 146097" "z div 146097 \<le> 5"
    using zdiv_mono1 [of 609468 z 146097] zdiv_mono1 [of z 829468 146097] assms by (simp_all add: z_def)
  ultimately show ?thesis unfolding y by auto
qed

lemma i64_time_ok:
  assumes "is_i64 t" "\<bar>zone\<bar> < 1440" shows "time_ok zone t"
proof -
  define l where "l = t + zone * 60 * 10 ^ 9"
  have t: "- (2 ^ 63) \<le> t" "t < 2 ^ 63" using assms(1) by (auto simp: i64_defs)
  have z: "- 1440 < zone" "zone < 1440" using assms(2) by linarith+
  have l: "- 9400000000000000000 \<le> l \<and> l \<le> 9400000000000000000"
    using t z unfolding l_def by simp
  have "l div 10 ^ 9 div 86400 = l div 86400000000000"
    by (simp add: zdiv_zmult2_eq [symmetric])
  then have "- 110000 \<le> l div 10 ^ 9 div 86400" "l div 10 ^ 9 div 86400 \<le> 110000"
    using zdiv_mono1 [of "- 9400000000000000000" l "86400000000000"]
      zdiv_mono1 [of l "9400000000000000000" "86400000000000"] l
    by simp_all
  from civil_year [OF this] show ?thesis
    using assms(2) unfolding time_ok_def year_of_def l_def by simp
qed

section \<open>Kernel events\<close>

abbreviation writable_event :: "int \<Rightarrow> EnrichedEvent \<Rightarrow> bool" where
  "writable_event zone e \<equiv> time_ok zone (ev_Timestamp e)"

text \<open>Only the timestamp can fail to be written.\<close>

lemma event_succeeds:
  "writable_event zone r \<longleftrightarrow> list_all (writes zone r) server_fields"
  "writable_event zone r \<longleftrightarrow> list_all (writes zone r) agent_fields"
  by (simp_all add: server_fields_def agent_fields_def fields_write)

text \<open>The server reads the agent's events, and its own from its store.\<close>

interpretation from_agent: struct_codec agent_fields server_fields zero_EnrichedEvent writable_event valid_event 0
  by unfold_locales (use same_fields event_names event_lawful(2) event_succeeds(2) event_carried(2) in blast)+

interpretation from_store: struct_codec server_fields server_fields zero_EnrichedEvent writable_event valid_event 0
  by unfold_locales (use event_names event_lawful(1) event_succeeds(1) event_carried(1) in blast)+

section \<open>Heartbeats and chains\<close>

abbreviation writable_heartbeat :: "int \<Rightarrow> Heartbeat \<Rightarrow> bool" where
  "writable_heartbeat zone h \<equiv> time_ok zone (hb_Timestamp h)"

interpretation heartbeat_json:
  struct_codec heartbeat_fields heartbeat_fields zero_Heartbeat writable_heartbeat valid_heartbeat 0
  by unfold_locales
    (simp_all add: heartbeat_fields_def fields_lawful carry_fields zero_Heartbeat_def valid_heartbeat_def
      field_names fields_write to_valid_id valid_ascii ascii_def)

abbreviation writable_chain :: "int \<Rightarrow> CausalChain \<Rightarrow> bool" where
  "writable_chain zone c \<equiv> time_ok zone (cc_Timestamp c) \<and> (\<forall>e \<in> set (cc_Events c). writable_event zone e)"

lemma slice_field_law:
  "f_name (slice_field n fs zero get upd) = n"
  "lawful 2 zone r (slice_field n server_fields zero_EnrichedEvent get upd)"
  "writes zone r (slice_field n server_fields zero_EnrichedEvent get upd) \<longleftrightarrow>
     (\<forall>e \<in> set (get r). writable_event zone e)"
  "\<forall>e \<in> set (get r). writable_event zone e \<Longrightarrow>
     carry_field zone (slice_field n server_fields zero_EnrichedEvent get upd) r acc =
     upd (\<lambda>_. map valid_event (get r)) acc"
  using from_store.slice_roundtrip [of zone "get r"] from_store.slice_defined [of zone "get r"]
  by (auto simp: lawful_def slice_field_def carry_field_def carry_def writes_def numeral_2_eq_2 split: option.split)

interpretation chain_json:
  struct_codec chain_fields chain_fields zero_CausalChain writable_chain valid_chain 2
  by unfold_locales
    (simp_all add: chain_fields_def field_names fields_lawful fields_write slice_field_law carry_fields
      zero_CausalChain_def valid_chain_def to_valid_id valid_ascii ascii_def)

section \<open>The decoders of the handlers\<close>

text \<open>
  \<open>msg\<close> is the text of an error.  Of that text the server relies on one thing only, that it is
  not itself JSON.
\<close>

definition orMsg :: "(json_error \<Rightarrow> string) \<Rightarrow> json_error + 'a \<Rightarrow> string + 'a" where
  "orMsg msg x = (case x of Inl e \<Rightarrow> Inl (msg e) | Inr a \<Rightarrow> Inr a)"

definition decode_with :: "(json \<Rightarrow> json_error + 'a) \<Rightarrow> string \<Rightarrow> json_error + 'a" where
  "decode_with from body = (case decode_first body of Inl e \<Rightarrow> Inl e | Inr j \<Rightarrow> from j)"

definition unmarshal_with :: "(json \<Rightarrow> json_error + 'a) \<Rightarrow> string \<Rightarrow> 'a option" where
  "unmarshal_with from text =
     (case parse_json text of
        Inl e \<Rightarrow> None
      | Inr j \<Rightarrow> (case from j of Inl e \<Rightarrow> None | Inr a \<Rightarrow> Some a))"

definition go_json :: "(json_error \<Rightarrow> string) \<Rightarrow> json_codec" where
  "go_json msg =
     \<lparr>decode_Heartbeat = (\<lambda>body. orMsg msg (decode_with (unmarshal_struct heartbeat_fields zero_Heartbeat) body)),
      decode_EnrichedEvents = (\<lambda>body. orMsg msg (decode_with (unmarshal_slice server_fields zero_EnrichedEvent) body)),
      unmarshal_EnrichedEvent = unmarshal_with (unmarshal_struct server_fields zero_EnrichedEvent)\<rparr>"

definition not_json :: "(json_error \<Rightarrow> string) \<Rightarrow> bool" where
  "not_json msg \<longleftrightarrow> (\<forall>e. msg e \<noteq> [] \<and> begin_value BeginValue [] (List.hd (msg e)) = Stop)"

text \<open>What the agent writes: \<^verbatim>\<open>json.Marshal\<close> of a batch, which cannot fail on the agent's own events.\<close>

definition marshal_batch :: "int \<Rightarrow> AgentEnrichedEvent list \<Rightarrow> string option" where
  "marshal_batch zone batch = map_option json_text (marshal_slice zone agent_fields batch)"

lemma batch_delivered:
  assumes "\<forall>e \<in> set batch. writable_event zone e"
  shows "\<exists>body. marshal_batch zone batch = Some body \<and>
    decode_EnrichedEvents (go_json msg) body = Inr (map valid_event batch)"
proof -
  obtain j where j: "marshal_slice zone agent_fields batch = Some j"
    using assms from_agent.slice_defined [of zone batch] by auto
  have "Suc 0 < maxNestingDepth" by (simp add: maxNestingDepth_def)
  from from_agent.slice_text_roundtrip(1) [OF j this] from_agent.slice_roundtrip(1) [OF j] j
  show ?thesis by (simp add: marshal_batch_def go_json_def decode_with_def orMsg_def)
qed

lemma heartbeat_delivered:
  assumes "writable_heartbeat zone hb"
  shows "\<exists>j. marshal_struct zone heartbeat_fields hb = Some j \<and>
    decode_Heartbeat (go_json msg) (json_text j) = Inr (valid_heartbeat hb)"
proof -
  obtain j where j: "marshal_struct zone heartbeat_fields hb = Some j"
    using assms heartbeat_json.marshal_defined [of zone hb] by auto
  have "0 < maxNestingDepth" by (simp add: maxNestingDepth_def)
  from heartbeat_json.text_roundtrip(1) [OF j this] heartbeat_json.roundtrip(1) [OF j] j
  show ?thesis by (simp add: go_json_def decode_with_def orMsg_def)
qed

lemma error_text_rejected: "not_json msg \<Longrightarrow> unmarshal_EnrichedEvent (go_json msg) (msg e) = None"
proof -
  assume "not_json msg"
  then obtain c s where c: "msg e = c # s" "begin_value BeginValue [] c = Stop"
    unfolding not_json_def by (metis list.exhaust_sel)
  then show ?thesis by (simp add: go_json_def unmarshal_with_def parse_json_def)
qed

end
