(* ===== verification/RedisStore.thy ===== *)
theory RedisStore
  imports EventStore GoRand "HOL-Library.List_Lexorder"
begin

text \<open>
  The Redis-backed store (\<^verbatim>\<open>src/src/server/redis_store.go\<close>).  The client library and the server behind it
  are not part of the repository: they are a record of operations over a state, and what Redis
  documents of them is a contract over an abstract state of sorted sets and strings.  The JSON codecs
  are arguments; \<open>None\<close> is their error.
\<close>

section \<open>The client\<close>

datatype redis_cmd =
    ZAdd string float64 string
  | Expire string Duration
  | SetString string string Duration

datatype redis_error = RedisError string

record 'r RedisClient =
  rd_Exec :: "redis_cmd list \<Rightarrow> 'r \<Rightarrow> redis_error option \<times> 'r"
  rd_ZRangeByScore :: "string \<Rightarrow> float64 \<Rightarrow> float64 \<Rightarrow> 'r \<Rightarrow> redis_error + string list"
  rd_Get :: "string \<Rightarrow> 'r \<Rightarrow> redis_error + string option"
  rd_Ping :: "'r \<Rightarrow> redis_error option"
  rd_Scan :: "nat \<Rightarrow> string \<Rightarrow> nat \<Rightarrow> 'r \<Rightarrow> redis_error + (string list \<times> nat)"

record 'a Codec =
  marshal :: "'a \<Rightarrow> string option"
  unmarshal :: "string \<Rightarrow> 'a option"

record 'r RedisStore =
  rs_client :: "'r RedisClient"
  rs_ttl :: Duration
  rs_heartbeats :: "Heartbeat Codec"
  rs_events :: "EnrichedEvent Codec"
  rs_chains :: "CausalChain Codec"

datatype redis_store_error = MarshalError string | ClientError redis_error | UnmarshalError

definition defaultTTL :: Duration where
  "defaultTTL = 7 * 24 * Hour"

definition NewRedisStore ::
  "'r RedisClient \<Rightarrow> Heartbeat Codec \<Rightarrow> EnrichedEvent Codec \<Rightarrow> CausalChain Codec \<Rightarrow> 'r RedisStore" where
  "NewRedisStore client hc ec cc =
     \<lparr>rs_client = client, rs_ttl = defaultTTL, rs_heartbeats = hc, rs_events = ec, rs_chains = cc\<rparr>"

section \<open>Keys and scores\<close>

definition heartbeatKey :: "string \<Rightarrow> string" where
  "heartbeatKey nodeName = ''heartbeat:'' @ nodeName"

definition latestKey :: "string \<Rightarrow> string" where
  "latestKey nodeName = ''heartbeat:latest:'' @ nodeName"

definition kernelEventKey :: "string \<Rightarrow> string" where
  "kernelEventKey nodeName = ''kernel_event:'' @ nodeName"

definition causalChainKey :: "string \<Rightarrow> string" where
  "causalChainKey nodeName = ''causal_chain:'' @ nodeName"

text \<open>Milliseconds since the epoch, rounded down, as a \<^verbatim>\<open>float64\<close>.\<close>

definition UnixMilli :: "Time \<Rightarrow> int" where
  "UnixMilli t = i64 (t div Millisecond)"

definition score_of :: "Time \<Rightarrow> float64" where
  "score_of t = f64_of_i64 (UnixMilli t)"

section \<open>Operations\<close>

definition client_result :: "redis_error option \<times> 'r \<Rightarrow> redis_store_error option \<times> 'r" where
  "client_result res = (map_option ClientError (fst res), snd res)"

definition RedisStore_Save ::
  "'r RedisStore \<Rightarrow> Heartbeat \<Rightarrow> 'r \<Rightarrow> redis_store_error option \<times> 'r" where
  "RedisStore_Save R event s =
    (case marshal (rs_heartbeats R) event of
       None \<Rightarrow> (Some (MarshalError ''marshal heartbeat''), s)
     | Some data \<Rightarrow>
         let key = heartbeatKey (hb_NodeName event)
         in client_result (rd_Exec (rs_client R)
              [ZAdd key (score_of (hb_Timestamp event)) data, Expire key (rs_ttl R),
               SetString (latestKey (hb_NodeName event)) data (rs_ttl R)] s))"

text \<open>The loop over the cursor; \<open>None\<close> when it does not end.\<close>

partial_function (option) scan_loop ::
  "'r RedisClient \<Rightarrow> string \<Rightarrow> nat \<Rightarrow> string list \<Rightarrow> 'r \<Rightarrow> (redis_error + string list) option" where
  "scan_loop client pattern cursor keys s =
    (case rd_Scan client cursor pattern 100 s of
       Inl err \<Rightarrow> Some (Inl err)
     | Inr (batch, nextCursor) \<Rightarrow>
         if nextCursor = 0 then Some (Inr (keys @ batch))
         else scan_loop client pattern nextCursor (keys @ batch) s)"

definition scanKeys :: "'r RedisClient \<Rightarrow> string \<Rightarrow> 'r \<Rightarrow> (redis_error + string list) option" where
  "scanKeys client pattern s = scan_loop client pattern 0 [] s"

definition is_latest_key :: "string \<Rightarrow> bool" where
  "is_latest_key key \<longleftrightarrow> 17 < length key \<and> take 17 key = ''heartbeat:latest:''"

text \<open>A member that does not decode is left out.\<close>

definition decode_all :: "'a Codec \<Rightarrow> string list \<Rightarrow> 'a list" where
  "decode_all c ms = List.map_filter (unmarshal c) ms"

fun range_loop ::
  "'r RedisStore \<Rightarrow> float64 \<Rightarrow> float64 \<Rightarrow> string list \<Rightarrow> Heartbeat list \<Rightarrow> 'r
   \<Rightarrow> redis_store_error + Heartbeat list" where
  "range_loop R lo hi [] result s = Inr result"
| "range_loop R lo hi (key # keys) result s =
    (if is_latest_key key then range_loop R lo hi keys result s
     else case rd_ZRangeByScore (rs_client R) key lo hi s of
       Inl err \<Rightarrow> Inl (ClientError err)
     | Inr members \<Rightarrow>
         range_loop R lo hi keys (result @ decode_all (rs_heartbeats R) members) s)"

definition RedisStore_GetByTimeRange ::
  "'r RedisStore \<Rightarrow> Time \<Rightarrow> Time \<Rightarrow> 'r \<Rightarrow> (redis_store_error + Heartbeat list) option" where
  "RedisStore_GetByTimeRange R from to s =
    (case scanKeys (rs_client R) ''heartbeat:*'' s of
       None \<Rightarrow> None
     | Some (Inl err) \<Rightarrow> Some (Inl (ClientError err))
     | Some (Inr keys) \<Rightarrow> Some (range_loop R (score_of from) (score_of to) keys [] s))"

definition RedisStore_GetLatestByNode ::
  "'r RedisStore \<Rightarrow> string \<Rightarrow> 'r \<Rightarrow> redis_store_error + Heartbeat option" where
  "RedisStore_GetLatestByNode R nodeName s =
    (case rd_Get (rs_client R) (latestKey nodeName) s of
       Inl err \<Rightarrow> Inl (ClientError err)
     | Inr None \<Rightarrow> Inr None
     | Inr (Some data) \<Rightarrow>
         (case unmarshal (rs_heartbeats R) data of None \<Rightarrow> Inl UnmarshalError | Some hb \<Rightarrow> Inr (Some hb)))"

definition RedisStore_Ping :: "'r RedisStore \<Rightarrow> 'r \<Rightarrow> redis_error option" where
  "RedisStore_Ping R s = rd_Ping (rs_client R) s"

text \<open>Kernel events and causal chains are kept in the same way.\<close>

definition save_member ::
  "'r RedisStore \<Rightarrow> string \<Rightarrow> 'a Codec \<Rightarrow> string \<Rightarrow> Time \<Rightarrow> 'a \<Rightarrow> 'r \<Rightarrow> redis_store_error option \<times> 'r" where
  "save_member R what c key ts x s =
    (case marshal c x of
       None \<Rightarrow> (Some (MarshalError what), s)
     | Some data \<Rightarrow>
         client_result (rd_Exec (rs_client R) [ZAdd key (score_of ts) data, Expire key (rs_ttl R)] s))"

definition members_between ::
  "'r RedisStore \<Rightarrow> 'a Codec \<Rightarrow> string \<Rightarrow> Time \<Rightarrow> Time \<Rightarrow> 'r \<Rightarrow> redis_store_error + 'a list" where
  "members_between R c key from to s =
    (case rd_ZRangeByScore (rs_client R) key (score_of from) (score_of to) s of
       Inl err \<Rightarrow> Inl (ClientError err)
     | Inr members \<Rightarrow> Inr (decode_all c members))"

definition RedisStore_SaveKernelEvent ::
  "'r RedisStore \<Rightarrow> EnrichedEvent \<Rightarrow> 'r \<Rightarrow> redis_store_error option \<times> 'r" where
  "RedisStore_SaveKernelEvent R e s =
     save_member R ''marshal kernel event'' (rs_events R) (kernelEventKey (ev_NodeName e)) (ev_Timestamp e) e s"

definition RedisStore_GetKernelEvents ::
  "'r RedisStore \<Rightarrow> string \<Rightarrow> Time \<Rightarrow> Time \<Rightarrow> 'r \<Rightarrow> redis_store_error + EnrichedEvent list" where
  "RedisStore_GetKernelEvents R nodeName from to s =
     members_between R (rs_events R) (kernelEventKey nodeName) from to s"

definition RedisStore_GetKernelEventsByType ::
  "'r RedisStore \<Rightarrow> string \<Rightarrow> string \<Rightarrow> Time \<Rightarrow> Time \<Rightarrow> 'r \<Rightarrow> redis_store_error + EnrichedEvent list" where
  "RedisStore_GetKernelEventsByType R nodeName eventType from to s =
    (case RedisStore_GetKernelEvents R nodeName from to s of
       Inl err \<Rightarrow> Inl err
     | Inr events \<Rightarrow> Inr (filter (\<lambda>e. ev_EventType e = eventType) events))"

definition RedisStore_SaveCausalChain ::
  "'r RedisStore \<Rightarrow> CausalChain \<Rightarrow> 'r \<Rightarrow> redis_store_error option \<times> 'r" where
  "RedisStore_SaveCausalChain R c s =
     save_member R ''marshal causal chain'' (rs_chains R) (causalChainKey (cc_NodeName c)) (cc_Timestamp c) c s"

definition RedisStore_GetCausalChains ::
  "'r RedisStore \<Rightarrow> string \<Rightarrow> Time \<Rightarrow> Time \<Rightarrow> 'r \<Rightarrow> redis_store_error + CausalChain list" where
  "RedisStore_GetCausalChains R nodeName from to s =
     members_between R (rs_chains R) (causalChainKey nodeName) from to s"

section \<open>The contract of Redis\<close>

text \<open>A key holds a sorted set, which maps each member to its score, or a string.\<close>

record redis_state =
  zsets :: "string \<Rightarrow> (string \<rightharpoonup> float64)"
  strings :: "string \<rightharpoonup> string"

text \<open>
  A command on a key that holds the other kind of value is an error, except that \<^verbatim>\<open>SET\<close> overwrites.
  The time to live is far beyond a read that follows.
\<close>

fun apply_cmd :: "redis_cmd \<Rightarrow> redis_state \<Rightarrow> redis_state" where
  "apply_cmd (ZAdd k sc m) d = d\<lparr>zsets := (zsets d)(k := (zsets d k)(m \<mapsto> sc))\<rparr>"
| "apply_cmd (Expire k ttl) d = d"
| "apply_cmd (SetString k v ttl) d =
     d\<lparr>zsets := (zsets d)(k := Map.empty), strings := (strings d)(k \<mapsto> v)\<rparr>"

definition redis_ok :: "'r RedisClient \<Rightarrow> ('r \<Rightarrow> redis_state) \<Rightarrow> bool" where
  "redis_ok C view \<longleftrightarrow>
     (\<forall>cmds s s'. rd_Exec C cmds s = (None, s') \<longrightarrow> view s' = fold apply_cmd cmds (view s)) \<and>
     (\<forall>k lo hi s ms. rd_ZRangeByScore C k lo hi s = Inr ms \<longrightarrow>
        distinct ms \<and> set ms = {m. \<exists>sc. zsets (view s) k m = Some sc \<and> lo \<le> sc \<and> sc \<le> hi}) \<and>
     (\<forall>k lo hi s. strings (view s) k \<noteq> None \<longrightarrow> (\<exists>err. rd_ZRangeByScore C k lo hi s = Inl err)) \<and>
     (\<forall>k s v. rd_Get C k s = Inr v \<longrightarrow> v = strings (view s) k)"

text \<open>A value that survives the codec.\<close>

definition storable :: "'a Codec \<Rightarrow> 'a \<Rightarrow> bool" where
  "storable c x \<longleftrightarrow> (\<exists>m. marshal c x = Some m \<and> unmarshal c m = Some x)"


section \<open>Keys and scores are told apart\<close>

lemma key_inj [simp]: "kernelEventKey m = kernelEventKey n \<longleftrightarrow> m = n"
  by (simp add: kernelEventKey_def)

text \<open>An instant whose milliseconds are exact as a \<^verbatim>\<open>float64\<close>.\<close>

definition exact_ms :: "Time \<Rightarrow> bool" where
  "exact_ms t \<longleftrightarrow> \<bar>t div Millisecond\<bar> < 2 ^ 53"

lemma score_exact: "exact_ms t \<Longrightarrow> score_of t = of_int (t div Millisecond)"
proof -
  assume t: "exact_ms t"
  then have "is_i64 (t div Millisecond)" by (auto simp: exact_ms_def i64_defs)
  then show ?thesis using t by (simp add: score_of_def UnixMilli_def f64_of_i64_def exact_ms_def fl_of_int)
qed

lemma score_le: "exact_ms t \<Longrightarrow> exact_ms u \<Longrightarrow> score_of t \<le> score_of u \<longleftrightarrow> t div Millisecond \<le> u div Millisecond"
  by (simp add: score_exact)

section \<open>Kernel events\<close>

text \<open>A sequence of successful saves.\<close>

fun saved_all :: "'r RedisStore \<Rightarrow> EnrichedEvent list \<Rightarrow> 'r \<Rightarrow> 'r \<Rightarrow> bool" where
  "saved_all R [] s s' \<longleftrightarrow> s' = s"
| "saved_all R (e # es) s s' \<longleftrightarrow>
     (\<exists>s1. RedisStore_SaveKernelEvent R e s = (None, s1) \<and> saved_all R es s1 s')"

lemma save_event_view:
  assumes ok: "redis_ok (rs_client R) view" and "RedisStore_SaveKernelEvent R e s = (None, s')"
    and "marshal (rs_events R) e = Some m"
  shows "zsets (view s') = (zsets (view s))
    (kernelEventKey (ev_NodeName e) := (zsets (view s) (kernelEventKey (ev_NodeName e)))
       (m \<mapsto> score_of (ev_Timestamp e)))"
proof -
  have "rd_Exec (rs_client R) [ZAdd (kernelEventKey (ev_NodeName e)) (score_of (ev_Timestamp e)) m,
      Expire (kernelEventKey (ev_NodeName e)) (rs_ttl R)] s = (None, s')"
    using assms(2,3) by (auto simp: RedisStore_SaveKernelEvent_def save_member_def client_result_def
        prod_eq_iff)
  then have "view s' = fold apply_cmd [ZAdd (kernelEventKey (ev_NodeName e)) (score_of (ev_Timestamp e)) m,
      Expire (kernelEventKey (ev_NodeName e)) (rs_ttl R)] (view s)"
    using ok unfolding redis_ok_def by blast
  then show ?thesis by simp
qed

text \<open>The sorted set of a node holds the encodings of its events, each under its instant.\<close>

definition event_members :: "EnrichedEvent Codec \<Rightarrow> EnrichedEvent set \<Rightarrow> string \<Rightarrow> string \<Rightarrow> float64 \<Rightarrow> bool" where
  "event_members c E n m sc \<longleftrightarrow>
     (\<exists>e \<in> E. ev_NodeName e = n \<and> marshal c e = Some m \<and> sc = score_of (ev_Timestamp e))"

lemma storable_inj:
  "storable c x \<Longrightarrow> storable c y \<Longrightarrow> marshal c x = Some m \<Longrightarrow> marshal c y = Some m \<Longrightarrow> x = y"
  by (auto simp: storable_def)

lemma save_event_members:
  assumes "redis_ok (rs_client R) view" and "RedisStore_SaveKernelEvent R e s = (None, s')"
    and st: "\<forall>e' \<in> insert e E. storable (rs_events R) e'"
    and old: "\<forall>n m sc. zsets (view s) (kernelEventKey n) m = Some sc \<longleftrightarrow> event_members (rs_events R) E n m sc"
  shows "zsets (view s') (kernelEventKey n) m = Some sc \<longleftrightarrow> event_members (rs_events R) (insert e E) n m sc"
proof -
  obtain d where d: "marshal (rs_events R) e = Some d" using st by (auto simp: storable_def)
  note v = save_event_view [OF assms(1,2) d]
  show ?thesis
  proof (cases "n = ev_NodeName e \<and> m = d")
    case True
    have "x = e" if "x \<in> E" "marshal (rs_events R) x = Some d" for x
      using that st d storable_inj [of "rs_events R" e x d] by simp
    then show ?thesis using True d by (auto simp: v event_members_def)
  next
    case False
    then have "zsets (view s') (kernelEventKey n) m = zsets (view s) (kernelEventKey n) m"
      by (auto simp: v)
    moreover have "event_members (rs_events R) (insert e E) n m sc \<longleftrightarrow> event_members (rs_events R) E n m sc"
      using False d by (auto simp: event_members_def)
    ultimately show ?thesis using old by simp
  qed
qed

lemma saved_all_members:
  assumes "redis_ok (rs_client R) view"
  shows "saved_all R es s s' \<Longrightarrow> \<forall>e \<in> E \<union> set es. storable (rs_events R) e \<Longrightarrow>
    \<forall>n m sc. zsets (view s) (kernelEventKey n) m = Some sc \<longleftrightarrow> event_members (rs_events R) E n m sc \<Longrightarrow>
    zsets (view s') (kernelEventKey n) m = Some sc \<longleftrightarrow> event_members (rs_events R) (E \<union> set es) n m sc"
proof (induction es arbitrary: s E)
  case (Cons e es)
  obtain s1 where s1: "RedisStore_SaveKernelEvent R e s = (None, s1)" "saved_all R es s1 s'"
    using Cons.prems(1) by auto
  have "\<forall>n m sc. zsets (view s1) (kernelEventKey n) m = Some sc \<longleftrightarrow>
      event_members (rs_events R) (insert e E) n m sc"
    using save_event_members [OF assms s1(1) _ Cons.prems(3)] Cons.prems(2) by simp
  from Cons.IH [OF s1(2) _ this] show ?case using Cons.prems(2) by simp
qed simp

lemma decode_all_set: "set (decode_all c ms) = {x. \<exists>m \<in> set ms. unmarshal c m = Some x}"
  by (auto simp: decode_all_def List.map_filter_def image_iff) force

lemma decode_all_distinct:
  assumes "distinct ms" and "\<forall>m \<in> set ms. \<forall>x. unmarshal c m = Some x \<longrightarrow> marshal c x = Some m"
  shows "distinct (decode_all c ms)"
  using assms
proof (induction ms)
  case (Cons m ms)
  then show ?case
    by (cases "unmarshal c m") (force simp: decode_all_def List.map_filter_def)+
qed (simp add: decode_all_def List.map_filter_def)

text \<open>Kernel events saved to Redis are found again as the in-memory store finds them, to the
  millisecond: a query returns each saved event of the node once whose millisecond lies between those
  of the bounds; nothing that the in-memory store returns is missing, and what is more lies less than
  a millisecond outside the range.
\<close>

text \<open>Bounds on the millisecond are bounds to a millisecond.\<close>

lemma millisecond_bounds:
  assumes "lo div Millisecond \<le> t div Millisecond" and "t div Millisecond \<le> hi div Millisecond"
  shows "lo - Millisecond < t \<and> t < hi + Millisecond"
proof -
  have p: "0 < Millisecond" by (simp add: Millisecond_def)
  have r: "x = x div Millisecond * Millisecond + x mod Millisecond"
    "0 \<le> x mod Millisecond" "x mod Millisecond < Millisecond" for x
    using p by simp_all
  have "lo div Millisecond * Millisecond \<le> t div Millisecond * Millisecond"
    "t div Millisecond * Millisecond \<le> hi div Millisecond * Millisecond"
    using assms p by (simp_all add: mult_right_mono)
  then show ?thesis using r [of lo] r [of t] r [of hi] by linarith
qed

lemma redis_kernel_events:
  assumes ok: "redis_ok (rs_client R) view"
    and empty: "zsets (view s) = (\<lambda>_. Map.empty)"
    and saved: "saved_all R es s s'"
    and st: "\<forall>e \<in> set es. storable (rs_events R) e \<and> exact_ms (ev_Timestamp e)"
    and bounds: "exact_ms lo" "exact_ms hi"
    and get: "RedisStore_GetKernelEvents R n lo hi s' = Inr evs"
    and mem: "MemoryStore_GetKernelEvents n lo hi (NewMemoryStore\<lparr>ms_kernelEvents := es\<rparr>) = Inr mevs"
  shows "distinct evs
    \<and> set evs = {e \<in> set es. ev_NodeName e = n \<and> lo div Millisecond \<le> ev_Timestamp e div Millisecond
                    \<and> ev_Timestamp e div Millisecond \<le> hi div Millisecond}
    \<and> set mevs \<subseteq> set evs
    \<and> (\<forall>e \<in> set evs. lo - Millisecond < ev_Timestamp e \<and> ev_Timestamp e < hi + Millisecond)"
proof -
  let ?c = "rs_events R"
  have members: "zsets (view s') (kernelEventKey n) m = Some sc \<longleftrightarrow> event_members ?c (set es) n m sc" for m sc
    using saved_all_members [OF ok saved, of "{}"] st empty by (simp add: event_members_def)
  obtain ms where ms: "rd_ZRangeByScore (rs_client R) (kernelEventKey n) (score_of lo) (score_of hi) s' = Inr ms"
    and evs: "evs = decode_all ?c ms"
    using get by (auto simp: RedisStore_GetKernelEvents_def members_between_def split: sum.splits)
  have d: "distinct ms" and "set ms = {m. \<exists>sc. zsets (view s') (kernelEventKey n) m = Some sc
      \<and> score_of lo \<le> sc \<and> sc \<le> score_of hi}"
    using ok ms unfolding redis_ok_def by blast+
  then have sms: "set ms = {m. \<exists>e \<in> set es. ev_NodeName e = n \<and> marshal ?c e = Some m
      \<and> score_of lo \<le> score_of (ev_Timestamp e) \<and> score_of (ev_Timestamp e) \<le> score_of hi}"
    by (auto simp: members event_members_def)
  have dec: "marshal ?c e = Some m \<Longrightarrow> unmarshal ?c m = Some e" if "e \<in> set es" for e m
    using st that by (auto simp: storable_def)
  have "distinct evs" unfolding evs using d sms dec by (intro decode_all_distinct) auto
  moreover have "set evs = {e \<in> set es. ev_NodeName e = n \<and> score_of lo \<le> score_of (ev_Timestamp e)
      \<and> score_of (ev_Timestamp e) \<le> score_of hi}"
  proof -
    have "\<exists>m. marshal ?c e = Some m" if "e \<in> set es" for e using st that by (auto simp: storable_def)
    then show ?thesis unfolding evs decode_all_set sms using dec by fastforce
  qed
  then have se: "set evs = {e \<in> set es. ev_NodeName e = n \<and> lo div Millisecond \<le> ev_Timestamp e div Millisecond
                    \<and> ev_Timestamp e div Millisecond \<le> hi div Millisecond}"
    using st bounds by (auto simp: score_le)
  moreover have "set mevs \<subseteq> set evs"
    using mem unfolding se
    by (auto simp: MemoryStore_GetKernelEvents_def Before_def After_def Millisecond_def intro: zdiv_mono1)
  ultimately show ?thesis using millisecond_bounds by blast
qed

section \<open>Heartbeats\<close>

lemma save_heartbeat_view:
  assumes ok: "redis_ok (rs_client R) view" and "RedisStore_Save R hb s = (None, s')"
    and "marshal (rs_heartbeats R) hb = Some m"
  shows "strings (view s') = (strings (view s))(latestKey (hb_NodeName hb) \<mapsto> m)"
proof -
  have "view s' = fold apply_cmd [ZAdd (heartbeatKey (hb_NodeName hb)) (score_of (hb_Timestamp hb)) m,
      Expire (heartbeatKey (hb_NodeName hb)) (rs_ttl R), SetString (latestKey (hb_NodeName hb)) m (rs_ttl R)] (view s)"
    using assms unfolding redis_ok_def
    by (auto simp: RedisStore_Save_def client_result_def Let_def prod_eq_iff)
  then show ?thesis by simp
qed

text \<open>
  The latest heartbeat of a node in Redis is the one saved last, whatever the timestamps say, and
  a save for another node does not change it.
\<close>

lemma redis_latest_is_last_saved:
  assumes ok: "redis_ok (rs_client R) view" and st: "storable (rs_heartbeats R) hb"
    and save: "RedisStore_Save R hb s = (None, s1)"
    and other: "RedisStore_Save R hb' s1 = (None, s2)" "hb_NodeName hb' \<noteq> hb_NodeName hb"
    and st': "storable (rs_heartbeats R) hb'"
    and get: "RedisStore_GetLatestByNode R (hb_NodeName hb) s2 = Inr r"
  shows "r = Some hb"
proof -
  obtain m where m: "marshal (rs_heartbeats R) hb = Some m" "unmarshal (rs_heartbeats R) m = Some hb"
    using st by (auto simp: storable_def)
  obtain m' where m': "marshal (rs_heartbeats R) hb' = Some m'" using st' by (auto simp: storable_def)
  have "strings (view s2) (latestKey (hb_NodeName hb)) = Some m"
    using save_heartbeat_view [OF ok save m(1)] save_heartbeat_view [OF ok other(1) m'] other(2)
    by (simp add: latestKey_def)
  moreover obtain v where v: "rd_Get (rs_client R) (latestKey (hb_NodeName hb)) s2 = Inr v"
    using get by (auto simp: RedisStore_GetLatestByNode_def split: sum.splits)
  ultimately have "v = Some m" using ok unfolding redis_ok_def by metis
  with get v m(2) show ?thesis by (simp add: RedisStore_GetLatestByNode_def)
qed

lemma range_loop_error:
  assumes "key \<in> set keys" and "\<not> is_latest_key key"
    and "\<exists>err. rd_ZRangeByScore (rs_client R) key lo hi s = Inl err"
  shows "\<exists>err. range_loop R lo hi keys acc s = Inl err"
  using assms by (induction keys arbitrary: acc) (auto split: sum.split)

text \<open>
  A heartbeat without a node name makes every later listing fail: its latest key is exactly the
  seventeen characters that the listing does not recognise as a latest key, and reading a string as
  a sorted set is an error.
\<close>

lemma empty_node_name_breaks_listing:
  assumes ok: "redis_ok (rs_client R) view" and "storable (rs_heartbeats R) hb"
    and "hb_NodeName hb = []" and "RedisStore_Save R hb s = (None, s')"
    and "scanKeys (rs_client R) ''heartbeat:*'' s' = Some (Inr keys)" and "latestKey [] \<in> set keys"
  shows "\<exists>err. RedisStore_GetByTimeRange R from to s' = Some (Inl err)"
proof -
  obtain m where "marshal (rs_heartbeats R) hb = Some m" using assms(2) by (auto simp: storable_def)
  from save_heartbeat_view [OF ok assms(4) this] have "strings (view s') (latestKey []) \<noteq> None"
    using assms(3) by simp
  then have e: "\<exists>err. rd_ZRangeByScore (rs_client R) (latestKey []) lo hi s' = Inl err" for lo hi
    using ok unfolding redis_ok_def by blast
  have "\<not> is_latest_key (latestKey [])" by (simp add: is_latest_key_def latestKey_def)
  from range_loop_error [OF assms(6) this e] assms(5) show ?thesis
    by (simp add: RedisStore_GetByTimeRange_def)
qed


section \<open>An instance\<close>

text \<open>
  A Redis that keeps its entries in lists: the contract can be met, and the theorems above apply.
\<close>

record list_redis =
  lr_entries :: "(string \<times> string \<times> float64) list"
  lr_strings :: "(string \<times> string) list"

definition entries_of :: "list_redis \<Rightarrow> string \<Rightarrow> (string \<times> float64) list" where
  "entries_of s k = map snd (filter (\<lambda>(k', _). k' = k) (lr_entries s))"

fun list_cmd :: "redis_cmd \<Rightarrow> list_redis \<Rightarrow> list_redis" where
  "list_cmd (ZAdd k sc m) s = s\<lparr>lr_entries := (k, m, sc) # lr_entries s\<rparr>"
| "list_cmd (Expire k ttl) s = s"
| "list_cmd (SetString k v ttl) s =
     s\<lparr>lr_entries := filter (\<lambda>(k', _). k' \<noteq> k) (lr_entries s), lr_strings := (k, v) # lr_strings s\<rparr>"

definition list_client :: "list_redis RedisClient" where
  "list_client = \<lparr>
     rd_Exec = (\<lambda>cmds s. (None, fold list_cmd cmds s)),
     rd_ZRangeByScore = (\<lambda>k lo hi s.
       if map_of (lr_strings s) k \<noteq> None then Inl (RedisError ''WRONGTYPE'')
       else Inr (filter (\<lambda>m. case map_of (entries_of s k) m of None \<Rightarrow> False | Some sc \<Rightarrow> lo \<le> sc \<and> sc \<le> hi)
                  (remdups (map fst (entries_of s k))))),
     rd_Get = (\<lambda>k s. Inr (map_of (lr_strings s) k)),
     rd_Ping = (\<lambda>s. None),
     rd_Scan = (\<lambda>cursor pattern n s.
       Inr (filter (\<lambda>k. take 10 k = take 10 pattern) (map fst (lr_entries s) @ map fst (lr_strings s)), 0))\<rparr>"

definition list_view :: "list_redis \<Rightarrow> redis_state" where
  "list_view s = \<lparr>zsets = (\<lambda>k. map_of (entries_of s k)), strings = map_of (lr_strings s)\<rparr>"

lemma list_view_cmd: "list_view (list_cmd c s) = apply_cmd c (list_view s)"
proof (cases c)
  case (SetString k v ttl)
  have "entries_of (list_cmd c s) k' = (if k' = k then [] else entries_of s k')" for k'
    by (auto simp: SetString entries_of_def filter_empty_conv case_prod_unfold
        intro!: arg_cong [where f = "map snd"] filter_cong)
  then show ?thesis by (auto simp: SetString list_view_def)
qed (auto simp: list_view_def entries_of_def)

lemma list_redis_ok: "redis_ok list_client list_view"
proof -
  have "list_view (fold list_cmd cmds s) = fold apply_cmd cmds (list_view s)" for cmds s
    by (induction cmds arbitrary: s) (simp_all add: list_view_cmd)
  moreover have "m \<in> fst ` set (entries_of s k)" if "map_of (entries_of s k) m = Some sc" for s k m sc
    using that by (metis map_of_SomeD image_eqI fst_conv)
  ultimately show ?thesis
    by (auto simp: redis_ok_def list_client_def list_view_def split: option.splits)
qed

text \<open>Codecs that tell the demonstrated values apart.\<close>

definition demo_hb :: "string \<Rightarrow> Time \<Rightarrow> Heartbeat" where
  "demo_hb n t = \<lparr>hb_NodeName = n, hb_Namespace = [], hb_Timestamp = t, hb_Status = [], hb_EbpfPID = 0,
     hb_EbpfComm = []\<rparr>"

definition demo_event :: EnrichedEvent where
  "demo_event = zero_EnrichedEvent\<lparr>ev_NodeName := ''n'', ev_Timestamp := 1500000\<rparr>"

definition demo_redis :: "list_redis RedisStore" where
  "demo_redis = NewRedisStore list_client
     \<lparr>marshal = (\<lambda>hb. Some (hb_NodeName hb)), unmarshal = (\<lambda>m. Some (demo_hb m 5))\<rparr>
     \<lparr>marshal = (\<lambda>e. Some ''e''), unmarshal = (\<lambda>m. Some demo_event)\<rparr>
     \<lparr>marshal = (\<lambda>c. None), unmarshal = (\<lambda>m. None)\<rparr>"

definition empty_redis :: list_redis where
  "empty_redis = \<lparr>lr_entries = [], lr_strings = []\<rparr>"

lemma demo_redis_client [simp]: "rs_client demo_redis = list_client"
  by (simp add: demo_redis_def NewRedisStore_def)

lemma demo_storable: "storable (rs_heartbeats demo_redis) (demo_hb n 5)" "storable (rs_events demo_redis) demo_event"
  by (simp_all add: storable_def demo_redis_def NewRedisStore_def demo_hb_def)

lemma redis_kernel_events_witness:
  "set [demo_event] = {e \<in> set [demo_event]. ev_NodeName e = ''n'' \<and> 1700000 div Millisecond \<le> ev_Timestamp e div Millisecond
     \<and> ev_Timestamp e div Millisecond \<le> 2000000 div Millisecond}"
proof -
  let ?s = "snd (RedisStore_SaveKernelEvent demo_redis demo_event empty_redis)"
  have sv: "saved_all demo_redis [demo_event] empty_redis ?s"
    by (simp add: RedisStore_SaveKernelEvent_def save_member_def client_result_def demo_redis_def
        NewRedisStore_def list_client_def)
  have get: "RedisStore_GetKernelEvents demo_redis ''n'' 1700000 2000000 ?s = Inr [demo_event]"
    by code_simp
  have e: "zsets (list_view empty_redis) = (\<lambda>_. Map.empty)"
    by (simp add: list_view_def empty_redis_def entries_of_def)
  have t: "exact_ms (ev_Timestamp demo_event)" "exact_ms 1700000" "exact_ms 2000000"
    by (simp_all add: exact_ms_def demo_event_def Millisecond_def)
  have ok: "redis_ok (rs_client demo_redis) list_view" by (simp add: list_redis_ok)
  show ?thesis
    using redis_kernel_events [OF ok e sv _ t(2,3) get] demo_storable t(1)
    by (auto simp: MemoryStore_GetKernelEvents_def)
qed

lemma demo_latest: "\<exists>r. RedisStore_GetLatestByNode demo_redis n s = Inr r"
  by (cases "map_of (lr_strings s) (latestKey n)")
     (simp_all add: RedisStore_GetLatestByNode_def list_client_def demo_redis_def NewRedisStore_def)

lemma redis_latest_is_last_saved_witness:
  "RedisStore_GetLatestByNode demo_redis ''a''
     (snd (RedisStore_Save demo_redis (demo_hb ''b'' 5) (snd (RedisStore_Save demo_redis (demo_hb ''a'' 5) empty_redis))))
   = Inr (Some (demo_hb ''a'' 5))"
proof -
  have ok: "redis_ok (rs_client demo_redis) list_view" by (simp add: list_redis_ok)
  have save: "RedisStore_Save demo_redis (demo_hb n 5) s = (None, snd (RedisStore_Save demo_redis (demo_hb n 5) s))" for n s
    by (simp add: RedisStore_Save_def client_result_def demo_redis_def NewRedisStore_def list_client_def Let_def)
  obtain r where get: "RedisStore_GetLatestByNode demo_redis (hb_NodeName (demo_hb ''a'' 5))
     (snd (RedisStore_Save demo_redis (demo_hb ''b'' 5) (snd (RedisStore_Save demo_redis (demo_hb ''a'' 5) empty_redis)))) = Inr r"
    using demo_latest by blast
  have "r = Some (demo_hb ''a'' 5)"
    by (rule redis_latest_is_last_saved [OF ok demo_storable(1) save save _ demo_storable(1) get])
       (simp add: demo_hb_def)
  with get show ?thesis by (simp add: demo_hb_def)
qed

lemma empty_node_name_breaks_listing_witness:
  "\<exists>err. RedisStore_GetByTimeRange demo_redis 0 10 (snd (RedisStore_Save demo_redis (demo_hb [] 5) empty_redis)) = Some (Inl err)"
proof -
  let ?s = "snd (RedisStore_Save demo_redis (demo_hb [] 5) empty_redis)"
  have ok: "redis_ok (rs_client demo_redis) list_view" by (simp add: list_redis_ok)
  have save: "RedisStore_Save demo_redis (demo_hb [] 5) empty_redis = (None, ?s)"
    by (simp add: RedisStore_Save_def client_result_def demo_redis_def NewRedisStore_def list_client_def Let_def)
  have scan: "scanKeys (rs_client demo_redis) ''heartbeat:*'' ?s = Some (Inr [''heartbeat:'', ''heartbeat:latest:''])"
    unfolding scanKeys_def by (subst scan_loop.simps) code_simp
  show ?thesis
    by (rule empty_node_name_breaks_listing [OF ok demo_storable(1) _ save scan])
       (simp_all add: demo_hb_def latestKey_def)
qed

end
