(* ===== verification/JsonProperties.thy ===== *)
theory JsonProperties
  imports EventJson ServerProperties RedisStore "HOL-Library.Sublist"
begin

text \<open>
  What the JSON between the parts of the program guarantees: the agent's batches reach the server's
  handler as the events they were, every member of what the agent writes has the type that the
  server declares, the handler takes batches only, and what it has decoded Redis gives back.
\<close>

section \<open>The agent's batches\<close>

text \<open>C11: a batch of events with 64-bit timestamps is always written, in any zone of whole minutes, and
  the server's handler decodes the text to the same events with the same instants, except that a
  byte of a string that is not part of well-formed UTF-8 comes back as U+FFFD.\<close>

theorem batch_wire_roundtrip:
  assumes "\<forall>e \<in> set batch. is_i64 (ev_Timestamp e)" and "\<bar>zone\<bar> < 1440"
  shows "\<exists>body. marshal_batch zone batch = Some body \<and>
    decode_EnrichedEvents (go_json msg) body = Inr (map valid_event batch)"
  using assms by (intro batch_delivered) (simp add: i64_time_ok)

text \<open>An event whose command is one byte that no UTF-8 text contains.\<close>

definition odd_event :: EnrichedEvent where
  "odd_event = zero_EnrichedEvent\<lparr>ev_Timestamp := 1700000000123456789, ev_Comm := [CHR ''a'', CHR 0xFF],
     ev_EventType := ''process'', ev_ExitCode := - 1, ev_NodeName := ''n1''\<rparr>"

lemma odd_event_valid: "ev_Comm (valid_event odd_event) = [CHR ''a'', CHR 0xEF, CHR 0xBF, CHR 0xBD]"
  by (simp add: odd_event_def valid_event_def to_valid_def ascii_def wide_tail_def RuneError_def)

theorem batch_wire_roundtrip_witness:
  "\<exists>body e. marshal_batch 120 [odd_event] = Some body \<and>
     decode_EnrichedEvents (go_json (\<lambda>_. ''EOF'')) body = Inr [e] \<and>
     ev_Timestamp e = 1700000000123456789 \<and> ev_ExitCode e = - 1 \<and>
     ev_Comm e = [CHR ''a'', CHR 0xEF, CHR 0xBF, CHR 0xBD]"
proof -
  have "\<forall>e \<in> set [odd_event]. is_i64 (ev_Timestamp e)" "\<bar>120 :: int\<bar> < 1440"
    by (simp_all add: odd_event_def i64_defs)
  from batch_wire_roundtrip [OF this] odd_event_valid show ?thesis
    by (fastforce simp: valid_event_def odd_event_def)
qed

section \<open>Types\<close>

lemma typed_members:
  "marshal_members zone fs r = Some ms \<Longrightarrow> list_all (typed zone r) fs \<Longrightarrow>
   (\<forall>(k, j) \<in> set ms. \<exists>f \<in> set fs. k = escape (f_name f) \<and> has_type (f_type f) j)"
proof (induction fs arbitrary: ms)
  case (Cons f fs)
  show ?case
  proof (cases "f_omit f \<and> f_empty f r")
    case True
    with Cons show ?thesis by fastforce
  next
    case False
    with Cons.prems(1) obtain j ns where j: "f_enc f zone r = Some j"
      and ns: "marshal_members zone fs r = Some ns" "ms = (escape (f_name f), j) # ns"
      by (auto split: option.splits if_splits)
    have "has_type (f_type f) j" using j Cons.prems(2) by (simp add: typed_def)
    then show ?thesis using Cons.IH [OF ns(1)] Cons.prems(2) by (fastforce simp: ns(2))
  qed
qed simp

lemma member_names:
  "marshal_members zone fs r = Some ms \<Longrightarrow> subseq (map fst ms) (map (\<lambda>f. escape (f_name f)) fs)"
  by (induction fs arbitrary: ms) (auto split: option.splits if_splits)

lemma event_typed: "list_all (typed zone r) agent_fields"
  by (simp add: agent_fields_def fields_typed)

lemma plain_letter: "97 \<le> code c \<and> code c \<le> 122 \<or> 65 \<le> code c \<and> code c \<le> 90 \<Longrightarrow> plain c"
proof -
  assume c: "97 \<le> code c \<and> code c \<le> 122 \<or> 65 \<le> code c \<and> code c \<le> 90"
  then have "c \<notin> {CHR 0x22, CHR 0x5C, CHR 0x08, CHR 0x0C, CHR 0x0A, CHR 0x0D, CHR 0x09, CHR ''<'', CHR ''>'', CHR ''&''}"
    by auto
  with c show ?thesis
    unfolding plain_def ascii_def escape_ascii_def quote_mark_def backslash_def by auto
qed

lemma agent_names:
  "map (\<lambda>f. escape (f_name f)) agent_fields = map f_name server_fields"
  "map (\<lambda>f. (f_name f, f_type f)) agent_fields = map (\<lambda>f. (f_name f, f_type f)) server_fields"
proof -
  have "map f_name agent_fields = map f_name server_fields"
    by (simp add: agent_fields_def server_fields_def field_names)
  moreover have "\<forall>f \<in> set agent_fields. list_all plain (f_name f)"
    by (simp add: agent_fields_def field_names plain_letter)
  then have "map (\<lambda>f. escape (f_name f)) agent_fields = map f_name agent_fields"
    by (simp add: escape_plain)
  ultimately show "map (\<lambda>f. escape (f_name f)) agent_fields = map f_name server_fields" by simp
  show "map (\<lambda>f. (f_name f, f_type f)) agent_fields = map (\<lambda>f. (f_name f, f_type f)) server_fields"
    by (simp add: agent_fields_def server_fields_def field_defs)
qed

text \<open>C13: the JSON object of an event that the agent writes has no member twice, and each member is a field
  that the server's \<^verbatim>\<open>EnrichedEvent\<close> declares, with a value that fits the Go type declared there:
  a number in the range of its width, a string, a boolean or a readable time.\<close>

theorem members_fit_the_server:
  assumes "marshal_struct zone agent_fields e = Some (JObj ms)"
  shows "distinct (map fst ms) \<and>
    (\<forall>(k, j) \<in> set ms. \<exists>f \<in> set server_fields. k = f_name f \<and> has_type (f_type f) j)"
proof -
  have ms: "marshal_members zone agent_fields e = Some ms" using assms by (auto simp: marshal_struct_def)
  have "subseq (map fst ms) (map f_name server_fields)"
    using member_names [OF ms] by (simp only: agent_names(1))
  then have "distinct (map fst ms)"
    using event_names(1) by (auto simp: subseq_conv_nths intro: distinct_nthsI)
  moreover have "\<exists>f \<in> set server_fields. k = f_name f \<and> has_type (f_type f) j" if m: "(k, j) \<in> set ms" for k j
  proof -
    obtain f where f: "f \<in> set agent_fields" "k = escape (f_name f)" "has_type (f_type f) j"
      using typed_members [OF ms event_typed] m by blast
    have "(escape (f_name f), f_type f) \<in> set (map (\<lambda>f. (f_name f, f_type f)) server_fields)"
    proof -
      have "escape (f_name f) = f_name f"
        using f(1) by (auto simp: agent_fields_def field_names plain_letter escape_plain)
      with f(1) show ?thesis unfolding agent_names(2) [symmetric] by auto
    qed
    with f show ?thesis by auto
  qed
  ultimately show ?thesis by blast
qed

theorem members_fit_the_server_witness:
  "\<exists>ms. marshal_struct 0 agent_fields odd_event = Some (JObj ms) \<and> distinct (map fst ms)"
proof -
  have "writable_event 0 odd_event" by (rule i64_time_ok) (simp_all add: odd_event_def i64_defs)
  then obtain ms where "marshal_struct 0 agent_fields odd_event = Some (JObj ms)"
    using from_agent.marshal_defined [of 0 odd_event] by (auto simp: marshal_struct_def)
  with members_fit_the_server [OF this] show ?thesis by blast
qed

section \<open>Single events\<close>

text \<open>A body that is one event rather than an array is refused: after the failed decoding the handler
  reads the text of the error as JSON, not the body, so a posted object gets status 400 and changes
  nothing.\<close>

lemma single_event_rejected:
  assumes "not_json msg" and "rq_method r = POST" and "decode_first (rq_body r) = Inr (JObj ms)"
  shows "ebpfEventsHandler (go_json msg) S now r sv =
    (Some (writeJSONError (''Invalid JSON: '' @ msg (UnmarshalTypeError ''slice'')) StatusBadRequest), sv)"
  using assms error_text_rejected [OF assms(1)]
  by (simp add: ebpfEventsHandler_def go_json_def decode_with_def orMsg_def)

lemma single_event_rejected_witness:
  "\<exists>resp j. marshal_struct 0 server_fields odd_event = Some j \<and>
     ebpfEventsHandler (go_json (\<lambda>_. ''json: cannot unmarshal'')) memory_store 0
       (post ''/api/ebpf/events'' (json_text j)) (start_server default_Config NewMemoryStore) =
     (Some resp, start_server default_Config NewMemoryStore) \<and> rs_status resp = 400"
proof -
  have "writable_event 0 odd_event" by (rule i64_time_ok) (simp_all add: odd_event_def i64_defs)
  then obtain j where j: "marshal_struct 0 server_fields odd_event = Some j"
    using from_store.marshal_defined [of 0 odd_event] by auto
  then obtain ms where ms: "j = JObj ms" by (auto simp: marshal_struct_def)
  have "decode_first (json_text j) = Inr (JObj ms)"
    using from_store.text_roundtrip(1) [OF j] ms by (simp add: maxNestingDepth_def)
  then have d: "decode_first (rq_body (post ''/api/ebpf/events'' (json_text j))) = Inr (JObj ms)"
    by (simp add: post_def)
  have m: "not_json (\<lambda>_. ''json: cannot unmarshal'')"
    by (simp add: not_json_def begin_value_def space_def quote_mark_def digit_def)
  have p: "rq_method (post ''/api/ebpf/events'' (json_text j)) = POST" by (simp add: post_def)
  from single_event_rejected [OF m p d, of memory_store 0 "start_server default_Config NewMemoryStore"]
  show ?thesis using j by (simp add: writeJSONError_def StatusBadRequest_def)
qed


section \<open>From the handlers to Redis\<close>

text \<open>The codecs of the Redis store: \<^verbatim>\<open>json.Marshal\<close> and \<^verbatim>\<open>json.Unmarshal\<close> of the three structs.\<close>

definition json_struct_codec :: "int \<Rightarrow> 'r field list \<Rightarrow> 'r \<Rightarrow> 'r Codec" where
  "json_struct_codec zone fs zero =
     \<lparr>marshal = (\<lambda>r. map_option json_text (marshal_struct zone fs r)),
      unmarshal = unmarshal_with (unmarshal_struct fs zero)\<rparr>"

definition redis_store :: "int \<Rightarrow> 'r RedisClient \<Rightarrow> 'r RedisStore" where
  "redis_store zone client = NewRedisStore client
     (json_struct_codec zone heartbeat_fields zero_Heartbeat)
     (json_struct_codec zone server_fields zero_EnrichedEvent)
     (json_struct_codec zone chain_fields zero_CausalChain)"

lemma redis_store_fields [simp]:
  "rs_client (redis_store zone client) = client"
  "rs_heartbeats (redis_store zone client) = json_struct_codec zone heartbeat_fields zero_Heartbeat"
  "rs_events (redis_store zone client) = json_struct_codec zone server_fields zero_EnrichedEvent"
  "rs_chains (redis_store zone client) = json_struct_codec zone chain_fields zero_CausalChain"
  by (simp_all add: redis_store_def NewRedisStore_def)

lemma valid_heartbeat_storable:
  "writable_heartbeat zone h \<Longrightarrow> valid_heartbeat h = h \<Longrightarrow>
   storable (json_struct_codec zone heartbeat_fields zero_Heartbeat) h"
  using heartbeat_json.marshal_defined [of zone h] heartbeat_json.roundtrip(1) [of zone h]
    heartbeat_json.text_roundtrip(2) [of zone h]
  by (auto simp: storable_def json_struct_codec_def unmarshal_with_def maxNestingDepth_def)

lemma valid_event_storable:
  "writable_event zone e \<Longrightarrow> valid_event e = e \<Longrightarrow>
   storable (json_struct_codec zone server_fields zero_EnrichedEvent) e"
  using from_store.marshal_defined [of zone e] from_store.roundtrip(1) [of zone e]
    from_store.text_roundtrip(2) [of zone e]
  by (auto simp: storable_def json_struct_codec_def unmarshal_with_def maxNestingDepth_def)

lemma valid_chain_storable:
  "writable_chain zone c \<Longrightarrow> valid_chain c = c \<Longrightarrow>
   storable (json_struct_codec zone chain_fields zero_CausalChain) c"
  using chain_json.marshal_defined [of zone c] chain_json.roundtrip(1) [of zone c]
    chain_json.text_roundtrip(2) [of zone c]
  by (auto simp: storable_def json_struct_codec_def unmarshal_with_def maxNestingDepth_def)

text \<open>Every string that the decoder stores is valid.\<close>

lemma dec_string_valid:
  "f_dec (string_field n om get upd) j = Inr u \<Longrightarrow> u = (\<lambda>r. r) \<or> (\<exists>s. to_valid s = s \<and> u = upd (\<lambda>_. s))"
  using to_valid_id [OF unquote_valid]
  by (cases j) (auto simp: string_field_def split: option.splits)

definition event_strings :: "EnrichedEvent \<Rightarrow> string list" where
  "event_strings e = [ev_Comm e, ev_EventType e, ev_SrcAddr e, ev_DstAddr e, ev_NetEventType e, ev_FilePath e, ev_IOOpType e, ev_OOMSubType e, ev_KilledComm e, ev_Domain e, ev_AuditDstAddr e, ev_AuditProtocol e, ev_PodName e, ev_Namespace e, ev_ContainerName e, ev_NodeName e]"

lemma valid_event_iff: "valid_event e = e \<longleftrightarrow> list_all (\<lambda>s. to_valid s = s) (event_strings e)"
  by (cases e) (simp add: valid_event_def event_strings_def)

definition keeps_valid :: "EnrichedEvent field \<Rightarrow> bool" where
  "keeps_valid f \<longleftrightarrow> (\<forall>j u acc. f_dec f j = Inr u \<longrightarrow> valid_event acc = acc \<longrightarrow> valid_event (u acc) = u acc)"

lemma keeps_valid_uint:
  "(\<And>v acc. event_strings (upd (\<lambda>_. v) acc) = event_strings acc) \<Longrightarrow> keeps_valid (uint_field n om get upd)"
  unfolding keeps_valid_def valid_event_iff uint_field_def
  by (intro allI impI; rename_tac j u acc; case_tac j) (auto split: option.splits)

lemma keeps_valid_int:
  "(\<And>v acc. event_strings (upd (\<lambda>_. v) acc) = event_strings acc) \<Longrightarrow> keeps_valid (int_field n om get upd)"
  unfolding keeps_valid_def valid_event_iff int_field_def
  by (intro allI impI; rename_tac j u acc; case_tac j) (auto split: option.splits)

lemma keeps_valid_bool:
  "(\<And>v acc. event_strings (upd (\<lambda>_. v) acc) = event_strings acc) \<Longrightarrow> keeps_valid (bool_field n om get upd)"
  unfolding keeps_valid_def valid_event_iff bool_field_def
  by (intro allI impI; rename_tac j u acc; case_tac j) (auto split: option.splits)

lemma keeps_valid_time:
  "(\<And>v acc. event_strings (upd (\<lambda>_. v) acc) = event_strings acc) \<Longrightarrow> keeps_valid (time_field n get upd)"
  unfolding keeps_valid_def valid_event_iff time_field_def
  by (intro allI impI; rename_tac j u acc; case_tac j) (auto split: option.splits)

lemma keeps_valid_string:
  assumes "\<And>s acc. set (event_strings (upd (\<lambda>_. s) acc)) \<subseteq> insert s (set (event_strings acc))"
  shows "keeps_valid (string_field n om get upd)"
  unfolding keeps_valid_def valid_event_iff list_all_iff using assms
  by (fastforce dest!: dec_string_valid)

lemma event_fields_keep_valid: "list_all keeps_valid server_fields"
  by (simp add: server_fields_def event_strings_def keeps_valid_uint keeps_valid_int keeps_valid_bool keeps_valid_time
      keeps_valid_string)

lemma find_field_in: "find_field fs key = Some f \<Longrightarrow> f \<in> set fs"
  by (auto simp: find_field_def split: option.splits dest: find_SomeD)

lemma fill_valid:
  "fill server_fields ms acc = Inr e \<Longrightarrow> valid_event acc = acc \<Longrightarrow> valid_event e = e"
proof (induction ms arbitrary: acc)
  case (Cons m ms)
  obtain k j key where k: "m = (k, j)" "unquote k = Some key"
    using Cons.prems(1) by (cases m) (auto split: option.splits)
  show ?case
  proof (cases "find_field server_fields key")
    case None
    with Cons k show ?thesis by simp
  next
    case (Some f)
    with Cons.prems(1) k obtain u where u: "f_dec f j = Inr u" "fill server_fields ms (u acc) = Inr e"
      by (auto split: sum.splits)
    have "keeps_valid f" using find_field_in [OF Some] event_fields_keep_valid by (simp add: list_all_iff)
    with u(1) Cons.prems(2) have "valid_event (u acc) = u acc" by (simp add: keeps_valid_def)
    with Cons.IH [OF u(2)] show ?thesis .
  qed
qed simp

lemma decoded_valid:
  "decode_EnrichedEvents (go_json msg) body = Inr es \<Longrightarrow> e \<in> set es \<Longrightarrow> valid_event e = e"
proof -
  have z: "valid_event zero_EnrichedEvent = zero_EnrichedEvent"
    by (simp add: valid_event_def zero_EnrichedEvent_def to_valid_def)
  have one: "unmarshal_struct server_fields zero_EnrichedEvent j = Inr e \<Longrightarrow> valid_event e = e" for j e
    using z fill_valid by (cases j) auto
  have all: "all_right (map (unmarshal_struct server_fields zero_EnrichedEvent) vs) = Inr es \<Longrightarrow>
      \<forall>e \<in> set es. valid_event e = e" for vs es
    by (induction vs arbitrary: es) (auto split: sum.splits dest: one)
  assume "decode_EnrichedEvents (go_json msg) body = Inr es" "e \<in> set es"
  then obtain j where "unmarshal_slice server_fields zero_EnrichedEvent j = Inr es"
    by (auto simp: go_json_def decode_with_def orMsg_def split: sum.splits)
  then have "\<forall>e \<in> set es. valid_event e = e" using all by (cases j) auto
  with \<open>e \<in> set es\<close> show ?thesis by blast
qed


text \<open>C12: the events of a posted body, saved to Redis, are found again as the in-memory store finds them, to
  the millisecond: a query returns each saved event of the node once whose millisecond lies between
  those of the bounds, and nothing that the in-memory store returns is missing.\<close>

theorem redis_serves_posted_events:
  assumes ok: "redis_ok client view" and empty: "zsets (view s) = (\<lambda>_. Map.empty)"
    and dec: "decode_EnrichedEvents (go_json msg) body = Inr es"
    and times: "\<forall>e \<in> set es. writable_event zone e \<and> exact_ms (ev_Timestamp e)"
    and saved: "saved_all (redis_store zone client) es s s'"
    and bounds: "exact_ms lo" "exact_ms hi"
    and get: "RedisStore_GetKernelEvents (redis_store zone client) n lo hi s' = Inr evs"
    and mem: "MemoryStore_GetKernelEvents n lo hi (NewMemoryStore\<lparr>ms_kernelEvents := es\<rparr>) = Inr mevs"
  shows "distinct evs
    \<and> set evs = {e \<in> set es. ev_NodeName e = n \<and> lo div Millisecond \<le> ev_Timestamp e div Millisecond
                    \<and> ev_Timestamp e div Millisecond \<le> hi div Millisecond}
    \<and> set mevs \<subseteq> set evs"
proof -
  have "\<forall>e \<in> set es. storable (rs_events (redis_store zone client)) e \<and> exact_ms (ev_Timestamp e)"
    using times decoded_valid [OF dec] by (simp add: valid_event_storable)
  moreover have "redis_ok (rs_client (redis_store zone client)) view" using ok by simp
  ultimately show ?thesis
    using redis_kernel_events [of "redis_store zone client" view s es s' lo hi n evs mevs] empty saved bounds get mem
    by blast
qed

theorem redis_serves_posted_events_witness:
  "\<exists>body s' evs. decode_EnrichedEvents (go_json (\<lambda>_. ''EOF'')) body = Inr [valid_event odd_event] \<and>
     saved_all (redis_store 0 list_client) [valid_event odd_event] empty_redis s' \<and>
     RedisStore_GetKernelEvents (redis_store 0 list_client) ''n1'' (1700000000 * 10 ^ 9) (1700000001 * 10 ^ 9) s' = Inr evs \<and>
     evs = [valid_event odd_event]"
proof -
  let ?e = "valid_event odd_event" and ?R = "redis_store 0 list_client"
  let ?lo = "1700000000 * 10 ^ 9 :: int" and ?hi = "1700000001 * 10 ^ 9 :: int"
  have t: "ev_Timestamp ?e = 1700000000123456789" "ev_NodeName ?e = ''n1''"
    by (simp_all add: valid_event_def odd_event_def to_valid_id valid_ascii ascii_def)
  have ok: "writable_event 0 ?e" by (rule i64_time_ok) (simp_all add: t i64_defs)
  obtain body where body: "decode_EnrichedEvents (go_json (\<lambda>_. ''EOF'')) body = Inr [?e]"
    using batch_delivered [of "[odd_event]" 0] ok by (auto simp: valid_event_def)
  obtain j where j: "marshal_struct 0 server_fields ?e = Some j" using from_store.marshal_defined [of 0 ?e] ok by auto
  obtain s' where save: "RedisStore_SaveKernelEvent ?R ?e empty_redis = (None, s')"
    by (auto simp: RedisStore_SaveKernelEvent_def save_member_def client_result_def json_struct_codec_def j list_client_def)
  then have saved: "saved_all ?R [?e] empty_redis s'" by simp
  obtain evs where get: "RedisStore_GetKernelEvents ?R ''n1'' ?lo ?hi s' = Inr evs"
    using save by (auto simp: RedisStore_GetKernelEvents_def members_between_def RedisStore_SaveKernelEvent_def
        save_member_def client_result_def json_struct_codec_def j list_client_def empty_redis_def)
  have r: "redis_ok list_client list_view" "zsets (list_view empty_redis) = (\<lambda>_. Map.empty)"
    by (simp_all add: list_redis_ok) (simp add: list_view_def empty_redis_def entries_of_def)
  have b: "exact_ms ?lo" "exact_ms ?hi" "\<forall>e \<in> set [?e]. writable_event 0 e \<and> exact_ms (ev_Timestamp e)"
    using ok by (simp_all add: exact_ms_def Millisecond_def t)
  have "MemoryStore_GetKernelEvents ''n1'' ?lo ?hi (NewMemoryStore\<lparr>ms_kernelEvents := [?e]\<rparr>) = Inr [?e]"
    by (simp add: MemoryStore_GetKernelEvents_def Before_def After_def t)
  from redis_serves_posted_events [where view = list_view and client = list_client, OF r body b(3) saved b(1,2) get this]
  have "distinct evs" "set evs = {?e}" by (auto simp: t Millisecond_def)
  then have "evs = [?e]" by (cases evs; cases "tl evs") auto
  with body saved get show ?thesis by blast
qed

end
