(* ===== verification/BpfLoader.thy ===== *)
theory BpfLoader
  imports WireBytes
begin

text \<open>
  The loader of the agent's programs: \<^verbatim>\<open>loader_linux.go\<close>, \<^verbatim>\<open>loader_stub.go\<close> and the interface both
  files promise.  The programs and links belong to a package that is not in the repository: closing
  one is a parameter, which gives the error it answers.  A map is closed in the order \<open>order\<close>, which
  Go leaves open.
\<close>

section \<open>The loader on Linux\<close>

record ('l, 'p) BPFLoader =
  bl_programs :: "string \<rightharpoonup> 'p"
  bl_links :: "'l list"
  bl_closed :: bool

datatype loader_error =
    UnameFailed string
  | KernelTooOld string
  | MissingCapabilities
  | NotSupported
  | CloseFailed string

text \<open>What the loader closes, in order.\<close>

datatype ('l, 'p) closing = ClosedLink 'l | ClosedProgram string 'p

definition NewBPFLoader :: "('l, 'p) BPFLoader" where
  "NewBPFLoader = \<lparr>bl_programs = Map.empty, bl_links = [], bl_closed = False\<rparr>"

text \<open>
  \<^verbatim>\<open>fmt.Sscanf\<close> with \<^verbatim>\<open>%d\<close>: spaces, a sign, decimal digits, a value of 64 bits.  \<open>None\<close> is its error,
  which leaves the variable as it was.
\<close>

definition scan_space :: "char \<Rightarrow> bool" where
  "scan_space c \<longleftrightarrow> c \<in> {CHR '' '', CHR 0x09, CHR 0x0B, CHR 0x0C, CHR 0x0D}"

definition scan_int :: "string \<Rightarrow> (int \<times> string) option" where
  "scan_int s =
    (let s1 = dropWhile scan_space s;
         sign = (if s1 \<noteq> [] \<and> (hd s1 = CHR ''-'' \<or> hd s1 = CHR ''+'') then [hd s1] else []);
         ds = drop (length sign) s1
     in map_option (\<lambda>v. (v, dropWhile is_digit ds)) (atoi (sign @ takeWhile is_digit ds)))"

definition scan_release :: "string \<Rightarrow> int \<times> int" where
  "scan_release release =
    (case scan_int release of
       None \<Rightarrow> (0, 0)
     | Some (major, rest) \<Rightarrow>
         if rest \<noteq> [] \<and> hd rest = CHR ''.'' then
           (case scan_int (tl rest) of None \<Rightarrow> (major, 0) | Some (minor, _) \<Rightarrow> (major, minor))
         else (major, 0))"

text \<open>The argument is the answer of \<^verbatim>\<open>uname\<close>: its error, or the bytes of the release field.\<close>

definition checkKernelVersion :: "string + byte list \<Rightarrow> loader_error option" where
  "checkKernelVersion uname =
    (case uname of
       Inl err \<Rightarrow> Some (UnameFailed err)
     | Inr field \<Rightarrow>
         (let release = trimNullString field;
              (major, minor) = scan_release release
          in if major < 5 \<or> (major = 5 \<and> minor < 8) then Some (KernelTooOld release) else None))"

definition checkCapabilities :: "int \<Rightarrow> loader_error option" where
  "checkCapabilities euid = (if euid = 0 then None else Some MissingCapabilities)"

definition Load ::
  "string + byte list \<Rightarrow> int \<Rightarrow> ('l, 'p) BPFLoader \<Rightarrow> ('l, 'p) BPFLoader \<times> loader_error option" where
  "Load uname euid l =
    (case checkKernelVersion uname of
       Some err \<Rightarrow> (l, Some err)
     | None \<Rightarrow>
         (case checkCapabilities euid of
            Some err \<Rightarrow> (l, Some err)
          | None \<Rightarrow> (l, None)))"

definition keep_first :: "loader_error option \<Rightarrow> string option \<Rightarrow> loader_error option" where
  "keep_first firstErr err =
    (case err of Some e \<Rightarrow> if firstErr = None then Some (CloseFailed e) else firstErr | None \<Rightarrow> firstErr)"

fun close_links ::
  "('l \<Rightarrow> string option) \<Rightarrow> 'l list \<Rightarrow> loader_error option \<Rightarrow> ('l, 'p) closing list \<times> loader_error option" where
  "close_links closel [] firstErr = ([], firstErr)"
| "close_links closel (lnk # links) firstErr =
    (case close_links closel links (keep_first firstErr (closel lnk)) of
       (done_links, err) \<Rightarrow> (ClosedLink lnk # done_links, err))"

text \<open>The loop over the map, which deletes the entry it has closed.\<close>

fun close_programs ::
  "(string \<Rightarrow> 'p \<Rightarrow> string option) \<Rightarrow> string list \<Rightarrow> (string \<rightharpoonup> 'p) \<Rightarrow> loader_error option \<Rightarrow>
   (string \<rightharpoonup> 'p) \<times> ('l, 'p) closing list \<times> loader_error option" where
  "close_programs closep [] progs firstErr = (progs, [], firstErr)"
| "close_programs closep (name # order) progs firstErr =
    (case progs name of
       None \<Rightarrow> close_programs closep order progs firstErr
     | Some prog \<Rightarrow>
         (case close_programs closep order (progs(name := None)) (keep_first firstErr (closep name prog)) of
            (progs', freed, err) \<Rightarrow> (progs', ClosedProgram name prog # freed, err)))"

definition Close ::
  "('l \<Rightarrow> string option) \<Rightarrow> (string \<Rightarrow> 'p \<Rightarrow> string option) \<Rightarrow> string list \<Rightarrow> ('l, 'p) BPFLoader \<Rightarrow>
   ('l, 'p) BPFLoader \<times> ('l, 'p) closing list \<times> loader_error option" where
  "Close closel closep order l =
    (if bl_closed l then (l, [], None)
     else
       (case close_links closel (bl_links l) None of (links, err1) \<Rightarrow>
        case close_programs closep order (bl_programs l) err1 of (progs, freed, err2) \<Rightarrow>
          (l\<lparr>bl_links := [], bl_programs := progs, bl_closed := True\<rparr>, links @ freed, err2)))"

definition Programs :: "('l, 'p) BPFLoader \<Rightarrow> string \<rightharpoonup> 'p" where
  "Programs l = bl_programs l"

section \<open>The loader elsewhere\<close>

record BPFProgram =
  bp_Name :: string
  bp_Closed :: bool

record StubLoader =
  sl_programs :: "string \<rightharpoonup> BPFProgram"
  sl_closed :: bool

definition NewBPFLoader_stub :: StubLoader where
  "NewBPFLoader_stub = \<lparr>sl_programs = Map.empty, sl_closed = False\<rparr>"

definition Close_program :: "BPFProgram \<Rightarrow> BPFProgram" where
  "Close_program p = p\<lparr>bp_Closed := True\<rparr>"

definition Load_stub :: "StubLoader \<Rightarrow> StubLoader \<times> loader_error option" where
  "Load_stub l = (l, Some NotSupported)"

text \<open>The second component is the programs as the loop left them.\<close>

fun close_stub_programs ::
  "string list \<Rightarrow> (string \<rightharpoonup> BPFProgram) \<Rightarrow> (string \<rightharpoonup> BPFProgram) \<times> BPFProgram list" where
  "close_stub_programs [] progs = (progs, [])"
| "close_stub_programs (name # order) progs =
    (case progs name of
       None \<Rightarrow> close_stub_programs order progs
     | Some prog \<Rightarrow>
         (case close_stub_programs order (progs(name := None)) of
            (progs', freed) \<Rightarrow> (progs', Close_program prog # freed)))"

definition Close_stub :: "string list \<Rightarrow> StubLoader \<Rightarrow> StubLoader \<times> BPFProgram list \<times> loader_error option" where
  "Close_stub order l =
    (if sl_closed l then (l, [], None)
     else (case close_stub_programs order (sl_programs l) of
             (progs, freed) \<Rightarrow> (l\<lparr>sl_programs := progs, sl_closed := True\<rparr>, freed, None)))"

definition Programs_stub :: "StubLoader \<Rightarrow> string \<rightharpoonup> BPFProgram" where
  "Programs_stub l = sl_programs l"

section \<open>What both promise\<close>

text \<open>
  A caller loads and closes as it likes: the outputs of a sequence of calls are what was closed, in
  order.
\<close>

datatype 'env loader_op = OpLoad 'env | OpClose "string list"

fun run_ops ::
  "('env \<Rightarrow> 's \<Rightarrow> 's \<times> loader_error option) \<Rightarrow>
   (string list \<Rightarrow> 's \<Rightarrow> 's \<times> 'freed list \<times> loader_error option) \<Rightarrow>
   'env loader_op list \<Rightarrow> 's \<Rightarrow> 's \<times> 'freed list" where
  "run_ops load close [] s = (s, [])"
| "run_ops load close (OpLoad env # ops) s = run_ops load close ops (fst (load env s))"
| "run_ops load close (OpClose order # ops) s =
    (case close order s of (s1, freed, _) \<Rightarrow>
     case run_ops load close ops s1 of (s2, freed2) \<Rightarrow> (s2, freed @ freed2))"

locale loader_interface =
  fixes load :: "'env \<Rightarrow> 's \<Rightarrow> 's \<times> loader_error option"
    and close :: "string list \<Rightarrow> 's \<Rightarrow> 's \<times> 'freed list \<times> loader_error option"
    and programs :: "'s \<Rightarrow> string \<rightharpoonup> 'p"
    and is_closed :: "'s \<Rightarrow> bool"
  assumes load_keeps: "fst (load env s) = s"
    and close_marks: "is_closed (fst (close order s))"
    and close_again: "is_closed s \<Longrightarrow> close order s = (s, [], None)"
    and close_empties: "\<not> is_closed s \<Longrightarrow> dom (programs s) \<subseteq> set order \<Longrightarrow>
      programs (fst (close order s)) = Map.empty"
begin

lemma loads_only: "run_ops load close (map OpLoad envs @ ops) s = run_ops load close ops s"
  by (induction envs) (simp_all add: load_keeps)

lemma after_close: "is_closed s \<Longrightarrow> run_ops load close ops s = (s, [])"
proof (induction ops)
  case (Cons op ops)
  then show ?case by (cases op) (simp_all add: load_keeps close_again)
qed simp

lemma first_close_counts:
  "run_ops load close (map OpLoad envs @ OpClose order # ops) s =
     (fst (close order s), fst (snd (close order s)))"
  by (simp add: loads_only case_prod_beta after_close [OF close_marks])

lemma closed_is_empty:
  "\<not> is_closed s \<Longrightarrow> dom (programs s) \<subseteq> set order \<Longrightarrow>
   programs (fst (run_ops load close (map OpLoad envs @ OpClose order # ops) s)) = Map.empty"
  by (simp add: first_close_counts close_empties [unfolded fun_eq_iff] fun_eq_iff)

end

lemma Load_keeps [simp]: "fst (Load uname euid l) = l"
  by (simp add: Load_def split: option.split)

lemma close_links_all: "fst (close_links closel links err) = map ClosedLink links"
  by (induction links arbitrary: err) (simp_all add: case_prod_beta)

lemma close_programs_None [simp]:
  "progs name = None \<Longrightarrow> close_programs closep (name # order) progs err = close_programs closep order progs err"
  by simp

lemma close_programs_Some:
  "progs name = Some prog \<Longrightarrow> close_programs closep (name # order) progs err =
     (let r = close_programs closep order (progs(name := None)) (keep_first err (closep name prog))
      in (fst r, ClosedProgram name prog # fst (snd r), snd (snd r)))"
  by (simp add: case_prod_beta Let_def)

declare close_programs.simps(2) [simp del]

lemma close_programs_map: "fst (close_programs closep order progs err) = progs |` (- set order)"
proof (induction order arbitrary: progs err)
  case (Cons name order)
  have "(progs(name := None)) |` (- set order) = progs |` (- set (name # order))"
    by (rule ext) (simp add: restrict_map_def)
  moreover have "progs name = None \<Longrightarrow> progs |` (- set order) = progs |` (- set (name # order))"
    by (rule ext) (auto simp: restrict_map_def)
  ultimately show ?case
    by (cases "progs name") (simp_all only: close_programs_None close_programs_Some Let_def fst_conv Cons.IH)
qed (simp add: restrict_map_def)

lemma close_programs_all:
  "distinct order \<Longrightarrow> set order \<subseteq> dom progs \<Longrightarrow>
   fst (snd (close_programs closep order progs err)) = (map (\<lambda>n. ClosedProgram n (the (progs n))) order
     :: ('l, 'p) closing list)"
proof (induction order arbitrary: progs err)
  case (Cons name order)
  then obtain prog where prog: "progs name = Some prog" by auto
  have order: "set order \<subseteq> dom (progs(name := None))" "distinct order" using Cons.prems by auto
  have same: "map (\<lambda>n. ClosedProgram n (the ((progs(name := None)) n))) order =
      (map (\<lambda>n. ClosedProgram n (the (progs n))) order :: ('l, 'p) closing list)"
    using Cons.prems(1) by auto
  have "fst (snd (close_programs closep order (progs(name := None)) e)) =
      (map (\<lambda>n. ClosedProgram n (the (progs n))) order :: ('l, 'p) closing list)" for e
    unfolding same [symmetric] by (rule Cons.IH [OF order(2,1)])
  then show ?case by (simp only: close_programs_Some [of progs name prog, OF prog] Let_def snd_conv fst_conv list.map prog option.sel)
qed simp

text \<open>The error kept is the first one, of the links in order and then of the programs.\<close>

fun first_error :: "string option list \<Rightarrow> loader_error option" where
  "first_error [] = None"
| "first_error (err # errs) = (case err of Some e \<Rightarrow> Some (CloseFailed e) | None \<Rightarrow> first_error errs)"

fun closing_error ::
  "('l \<Rightarrow> string option) \<Rightarrow> (string \<Rightarrow> 'p \<Rightarrow> string option) \<Rightarrow> ('l, 'p) closing \<Rightarrow> string option" where
  "closing_error closel closep (ClosedLink l) = closel l"
| "closing_error closel closep (ClosedProgram n p) = closep n p"

definition or_else :: "'a option \<Rightarrow> 'a option \<Rightarrow> 'a option" where
  "or_else a b = (case a of Some _ \<Rightarrow> a | None \<Rightarrow> b)"

lemma first_error_append: "first_error (xs @ ys) = or_else (first_error xs) (first_error ys)"
  by (induction xs) (auto simp: or_else_def split: option.split)

lemma keep_first_error: "or_else (keep_first err e) (first_error es) = or_else err (first_error (e # es))"
  by (auto simp: keep_first_def or_else_def split: option.split)

lemma close_links_error:
  "snd (close_links closel links err) = or_else err (first_error (map closel links))"
proof (induction links arbitrary: err)
  case Nil
  then show ?case by (simp add: or_else_def split: option.split)
next
  case (Cons lnk links)
  then show ?case by (simp add: case_prod_beta keep_first_error del: first_error.simps)
qed

lemma close_programs_error:
  "snd (snd (close_programs closep order progs err)) =
     or_else err (first_error (map (closing_error closel closep) (fst (snd (close_programs closep order progs err)))))"
proof (induction order arbitrary: progs err)
  case Nil
  then show ?case by (simp add: or_else_def split: option.split)
next
  case (Cons name order)
  show ?case
  proof (cases "progs name")
    case None
    then show ?thesis by (simp only: close_programs_None Cons.IH)
  next
    case (Some prog)
    show ?thesis
      by (simp only: close_programs_Some [of progs name prog, OF Some] Let_def snd_conv fst_conv list.map closing_error.simps
            keep_first_error [symmetric] Cons.IH [symmetric])
  qed
qed

lemma Close_open:
  fixes l :: "('l, 'p) BPFLoader"
  assumes "\<not> bl_closed l"
  shows "fst (Close closel closep order l) =
      l\<lparr>bl_links := [], bl_programs := bl_programs l |` (- set order), bl_closed := True\<rparr>"
    and "distinct order \<Longrightarrow> set order \<subseteq> dom (bl_programs l) \<Longrightarrow>
      fst (snd (Close closel closep order l)) =
        map ClosedLink (bl_links l) @ map (\<lambda>n. ClosedProgram n (the (bl_programs l n))) order"
    and "snd (snd (Close closel closep order l)) =
      first_error (map (closing_error closel closep) (fst (snd (Close closel closep order l))))"
proof -
  let ?links = "close_links closel (bl_links l) None :: ('l, 'p) closing list \<times> loader_error option"
  let ?r = "close_programs closep order (bl_programs l) (snd ?links)
    :: (string \<rightharpoonup> 'p) \<times> ('l, 'p) closing list \<times> loader_error option"
  have Close: "Close closel closep order l =
      (l\<lparr>bl_links := [], bl_programs := fst ?r, bl_closed := True\<rparr>, fst ?links @ fst (snd ?r), snd (snd ?r))"
    using assms by (simp add: Close_def case_prod_beta)
  show "fst (Close closel closep order l) =
      l\<lparr>bl_links := [], bl_programs := bl_programs l |` (- set order), bl_closed := True\<rparr>"
    by (simp add: Close close_programs_map)
  show "fst (snd (Close closel closep order l)) =
        map ClosedLink (bl_links l) @ map (\<lambda>n. ClosedProgram n (the (bl_programs l n))) order"
    if "distinct order" "set order \<subseteq> dom (bl_programs l)"
    using that by (simp add: Close close_programs_all close_links_all)
  have "snd ?links = first_error (map closel (bl_links l))"
    by (simp add: close_links_error or_else_def)
  moreover have "map (closing_error closel closep) (map ClosedLink links) = map closel links" for links
    by simp
  ultimately show "snd (snd (Close closel closep order l)) =
      first_error (map (closing_error closel closep) (fst (snd (Close closel closep order l))))"
    by (simp add: Close close_links_all first_error_append comp_def del: map_map)
      (rule close_programs_error)
qed

lemma Close_closed [simp]: "bl_closed l \<Longrightarrow> Close closel closep order l = (l, [], None)"
  by (simp add: Close_def)

lemma stub_programs_map: "fst (close_stub_programs order progs) = progs |` (- set order)"
proof (induction order arbitrary: progs)
  case (Cons name order)
  have "(progs(name := None)) |` (- set order) = progs |` (- set (name # order))"
    by (rule ext) (simp add: restrict_map_def)
  moreover have "progs name = None \<Longrightarrow> progs |` (- set order) = progs |` (- set (name # order))"
    by (rule ext) (auto simp: restrict_map_def)
  ultimately show ?case
    by (cases "progs name") (simp_all add: case_prod_beta Cons.IH del: fun_upd_apply)
qed (simp add: restrict_map_def)

lemma restrict_none: "dom m \<subseteq> A \<Longrightarrow> m |` (- A) = Map.empty"
  by (rule ext) (auto simp: restrict_map_def)

interpretation linux: loader_interface
  "\<lambda>(uname, euid). Load uname euid" "Close closel closep" Programs bl_closed
  for closel :: "'l \<Rightarrow> string option" and closep :: "string \<Rightarrow> 'p \<Rightarrow> string option"
proof unfold_locales
  fix l :: "('l, 'p) BPFLoader" and env :: "(string + byte list) \<times> int" and order
  show "fst ((case env of (uname, euid) \<Rightarrow> Load uname euid) l) = l" by (cases env) simp
  show "bl_closed (fst (Close closel closep order l))"
    by (cases "bl_closed l") (simp_all add: Close_open(1))
  show "bl_closed l \<Longrightarrow> Close closel closep order l = (l, [], None)" by simp
  show "\<not> bl_closed l \<Longrightarrow> dom (Programs l) \<subseteq> set order \<Longrightarrow>
      Programs (fst (Close closel closep order l)) = Map.empty"
    by (simp add: Close_open(1) Programs_def restrict_none)
qed

interpretation stub: loader_interface "\<lambda>_ :: unit. Load_stub" Close_stub Programs_stub sl_closed
proof unfold_locales
  fix l order
  show "fst (Load_stub l) = l" by (simp add: Load_stub_def)
  show "sl_closed (fst (Close_stub order l))" by (simp add: Close_stub_def case_prod_beta)
  show "sl_closed l \<Longrightarrow> Close_stub order l = (l, [], None)" by (simp add: Close_stub_def)
  show "\<not> sl_closed l \<Longrightarrow> dom (Programs_stub l) \<subseteq> set order \<Longrightarrow>
      Programs_stub (fst (Close_stub order l)) = Map.empty"
    by (simp add: Close_stub_def Programs_stub_def case_prod_beta stub_programs_map restrict_none)
qed

text \<open>C18: Whatever the sequence of calls, the first \<^verbatim>\<open>Close\<close> of an open loader closes every link, in order,
  and every program, each once; no later call closes anything again, and no program stays.  The error
  of \<^verbatim>\<open>Close\<close> is the first of those.
\<close>

theorem loader_closes_once:
  assumes "\<not> bl_closed l" and "distinct order" and "set order = dom (bl_programs l)"
  shows "\<exists>freed. run_ops (\<lambda>(uname, euid). Load uname euid) (Close closel closep)
        (map OpLoad envs @ OpClose order # ops) l = (\<lparr>bl_programs = Map.empty, bl_links = [], bl_closed = True\<rparr>, freed)
    \<and> freed = map ClosedLink (bl_links l) @ map (\<lambda>n. ClosedProgram n (the (bl_programs l n))) order
    \<and> snd (snd (Close closel closep order l)) = first_error (map (closing_error closel closep) freed)"
  using assms linux.first_close_counts [where closel = closel and closep = closep and envs = envs and order = order and ops = ops and s = l] Close_open(1) [OF assms(1), where closel = closel and closep = closep and order = order]
    Close_open(2,3) [OF assms(1), where closel = closel and closep = closep and order = order]
  by (simp add: restrict_none)

theorem loader_closes_once_witness:
  "\<exists>freed. run_ops (\<lambda>(uname, euid). Load uname euid) (Close (\<lambda>_. None) (\<lambda>n _. Some n))
      [OpClose [''oom'', ''vfs''], OpClose []]
      \<lparr>bl_programs = [''vfs'' \<mapsto> 1, ''oom'' \<mapsto> (2 :: int)], bl_links = [7 :: int], bl_closed = False\<rparr>
      = (\<lparr>bl_programs = Map.empty, bl_links = [], bl_closed = True\<rparr>, freed)
    \<and> freed = [ClosedLink 7, ClosedProgram ''oom'' 2, ClosedProgram ''vfs'' 1]"
  using loader_closes_once [of "\<lparr>bl_programs = [''vfs'' \<mapsto> 1, ''oom'' \<mapsto> (2 :: int)], bl_links = [7 :: int], bl_closed = False\<rparr>"
      "[''oom'', ''vfs'']", where closel = "\<lambda>_. None" and closep = "\<lambda>n _. Some n" and envs = "[]" and ops = "[OpClose []]"]
  by auto

text \<open>On other platforms too, no program is left whatever is called after the first \<^verbatim>\<open>Close\<close>.\<close>

lemma stub_closes_all:
  assumes "\<not> sl_closed l" and "dom (sl_programs l) \<subseteq> set order"
  shows "Programs_stub (fst (run_ops (\<lambda>_ :: unit. Load_stub) Close_stub
    (map OpLoad envs @ OpClose order # ops) l)) = Map.empty"
  by (rule stub.closed_is_empty) (use assms in \<open>simp_all add: Programs_stub_def\<close>)

section \<open>What is accepted\<close>

lemma show_nat_is_digit: "c \<in> set (show_nat n) \<Longrightarrow> is_digit c"
  using show_nat_digits [of c n] by (auto simp: is_digit_def)

lemma release_not_digit:
  "\<not> is_digit CHR ''-''" "\<not> is_digit CHR ''+''" "\<not> is_digit CHR ''.''" "\<not> is_digit CHR 0x00"
  by (simp_all add: is_digit_def digit_val_def)

lemma digit_no_space: "is_digit c \<Longrightarrow> \<not> scan_space c"
  by (auto simp: scan_space_def is_digit_def digit_val_def)

lemma scan_int_digits:
  assumes "is_i64 (int n)" and "rest = [] \<or> \<not> is_digit (hd rest)"
  shows "scan_int (show_nat n @ rest) = Some (int n, rest)"
proof -
  obtain c cs where c: "show_nat n = c # cs" by (cases "show_nat n") simp_all
  then have dig: "is_digit c" "\<forall>d \<in> set cs. is_digit d"
    using show_nat_is_digit [of _ n] by simp_all
  have sp: "dropWhile scan_space (show_nat n @ rest) = show_nat n @ rest"
    using dig by (simp add: c digit_no_space)
  have stop: "takeWhile is_digit rest = []" "dropWhile is_digit rest = rest"
    using assms(2) by (cases rest; simp)+
  have take: "takeWhile is_digit (show_nat n @ rest) = show_nat n"
    "dropWhile is_digit (show_nat n @ rest) = rest"
    using stop show_nat_is_digit by (simp_all add: takeWhile_append dropWhile_append2)
  have "c \<noteq> CHR ''-''" "c \<noteq> CHR ''+''" using dig(1) release_not_digit by auto
  moreover have "atoi (show_nat n) = Some (int n)"
    using atoi_show_int [OF assms(1)] by (simp add: show_int_def)
  ultimately show ?thesis using take by (simp add: scan_int_def sp Let_def) (simp add: c)
qed

lemma scan_release_text:
  assumes "is_i64 (int major)" and "is_i64 (int minor)" and "rest = [] \<or> \<not> is_digit (hd rest)"
  shows "scan_release (show_nat major @ ''.'' @ show_nat minor @ rest) = (int major, int minor)"
  using scan_int_digits [OF assms(1), of "''.'' @ show_nat minor @ rest"] scan_int_digits [OF assms(2,3)] release_not_digit
  by (simp add: scan_release_def)

text \<open>Versions in their order: the major number decides, then the minor one.\<close>

datatype kernel_version = Version nat nat

instantiation kernel_version :: linorder
begin

fun less_eq_kernel_version :: "kernel_version \<Rightarrow> kernel_version \<Rightarrow> bool" where
  "less_eq_kernel_version (Version a b) (Version c d) \<longleftrightarrow> a < c \<or> a = c \<and> b \<le> d"

definition less_kernel_version :: "kernel_version \<Rightarrow> kernel_version \<Rightarrow> bool" where
  "less_kernel_version v w \<longleftrightarrow> v \<le> w \<and> \<not> w \<le> v"

instance
proof
  fix u v w :: kernel_version
  show "v < w \<longleftrightarrow> v \<le> w \<and> \<not> w \<le> v" by (rule less_kernel_version_def)
  show "v \<le> v" by (cases v) simp
  show "u \<le> v \<Longrightarrow> v \<le> w \<Longrightarrow> u \<le> w" by (cases u; cases v; cases w) auto
  show "v \<le> w \<Longrightarrow> w \<le> v \<Longrightarrow> v = w" by (cases v; cases w) auto
  show "v \<le> w \<or> w \<le> v" by (cases v; cases w) auto
qed

end

text \<open>The release field that \<^verbatim>\<open>uname\<close> fills for a version, with what follows it and the zeros that pad it.\<close>

fun release_field :: "kernel_version \<Rightarrow> string \<Rightarrow> nat \<Rightarrow> byte list" where
  "release_field (Version major minor) rest k = string_bytes (show_nat major @ ''.'' @ show_nat minor @ rest) @ zeros k"

text \<open>
  On a kernel whose release reads \<^verbatim>\<open>major.minor...\<close>, \<^verbatim>\<open>Load\<close> returns no error exactly when the
  version is at least 5.8 and the process runs as root.  Whatever it returns, and on whatever host,
  the loader is what it was: no program is loaded.
\<close>

lemma loader_gate:
  assumes v: "v = Version major minor" "is_i64 (int major)" "is_i64 (int minor)"
    and "rest = [] \<or> \<not> is_digit (hd rest)" and "CHR 0x00 \<notin> set rest"
  shows "(snd (Load (Inr (release_field v rest k)) euid l) = None \<longleftrightarrow> Version 5 8 \<le> v \<and> euid = 0)
    \<and> Programs (fst (Load uname euid l)) = Programs l"
proof -
  have "CHR 0x00 \<notin> set (show_nat major @ ''.'' @ show_nat minor @ rest)"
    using assms(5) show_nat_is_digit release_not_digit(4) by auto
  then have trim: "trimNullString (release_field v rest k) = show_nat major @ ''.'' @ show_nat minor @ rest"
    unfolding v(1) release_field.simps by (rule trimNull_text)
  have "snd (Load (Inr (release_field v rest k)) euid l) = None \<longleftrightarrow> Version 5 8 \<le> v \<and> euid = 0"
    using scan_release_text [OF assms(2-4)]
    by (auto simp: Load_def checkKernelVersion_def checkCapabilities_def trim [unfolded v(1)] v(1)
        simp del: append_Cons release_field.simps)
  then show ?thesis by simp
qed

text \<open>So a kernel that is newer than one that is accepted is accepted.\<close>

lemma newer_kernel_accepted:
  assumes "snd (Load (Inr (release_field (Version a b) [] k)) euid l) = None" and "Version a b \<le> Version c d"
    and "is_i64 (int a)" "is_i64 (int b)" "is_i64 (int c)" "is_i64 (int d)"
  shows "snd (Load (Inr (release_field (Version c d) [] k)) euid l) = None"
  using assms loader_gate [of "Version a b" a b "[]" k euid l] loader_gate [of "Version c d" c d "[]" k euid l]
    order_trans [of "Version 5 8" "Version a b" "Version c d"] by simp

lemma loader_gate_witness:
  "snd (Load (Inr (release_field (Version 5 15) ''-generic'' 3)) 0 (NewBPFLoader :: (int, int) BPFLoader)) = None"
  using loader_gate [of "Version 5 15" 5 15 "''-generic''" 3 0 "NewBPFLoader :: (int, int) BPFLoader" "Inl ''x''"]
  by (simp add: is_i64_def i64_min_def i64_max_def is_digit_def digit_val_def del: release_field.simps)

end
