(* ===== verification/AgentLifecycle.thy ===== *)
theory AgentLifecycle
  imports Agent BpfLoader
begin

text \<open>
  The life of the agent process: \<^verbatim>\<open>main\<close> of \<^verbatim>\<open>src/src/agent/main.go\<close> from the flags to the exit, over the
  agent system of \<open>Agent\<close> and the loader of \<open>BpfLoader\<close>, and the two timer loops \<^verbatim>\<open>StartRefresh\<close> and
  \<^verbatim>\<open>Start\<close> that its goroutines run.
\<close>

section \<open>The timer loops\<close>

text \<open>What a refresh reads: the kubelet's answer, \<^verbatim>\<open>/proc\<close>, and the inodes of cgroup directories.\<close>

type_synonym refresh_reads = "kubelet_response \<times> proc_entry list option \<times> (string \<Rightarrow> 64 word option)"

definition refresh_once ::
  "string \<Rightarrow> refresh_reads \<Rightarrow> CgroupResolver \<Rightarrow> refresh_error option \<times> CgroupResolver" where
  "refresh_once goos reads cr = (case reads of (resp, proc, ino) \<Rightarrow> CgroupResolver.refresh resp goos proc ino cr)"

datatype refresh_log = RefreshStarting Duration | InitialFailed refresh_error | RefreshFailed refresh_error | RefreshStopped

text \<open>The loop, over the ticks that come before the cancellation.\<close>

fun refresh_ticks ::
  "string \<Rightarrow> refresh_reads list \<Rightarrow> CgroupResolver \<Rightarrow> refresh_log list \<times> CgroupResolver" where
  "refresh_ticks goos [] cr = ([RefreshStopped], cr)"
| "refresh_ticks goos (reads # rest) cr =
    (case refresh_once goos reads cr of (err, cr1) \<Rightarrow>
     case refresh_ticks goos rest cr1 of (lines, cr2) \<Rightarrow>
       ((case err of Some e \<Rightarrow> [RefreshFailed e] | None \<Rightarrow> []) @ lines, cr2))"

text \<open>A ticker panics when its interval is not positive; \<open>None\<close> is this panic.\<close>

definition StartRefresh ::
  "string \<Rightarrow> refresh_reads \<Rightarrow> refresh_reads list \<Rightarrow> CgroupResolver \<Rightarrow>
   (refresh_log list \<times> CgroupResolver) option" where
  "StartRefresh goos first ticks cr =
    (case refresh_once goos first cr of (err, cr1) \<Rightarrow>
       if cr_refreshRate cr \<le> 0 then None
       else (case refresh_ticks goos ticks cr1 of (lines, cr2) \<Rightarrow>
         Some (RefreshStarting (cr_refreshRate cr) # (case err of Some e \<Rightarrow> [InitialFailed e] | None \<Rightarrow> []) @ lines, cr2)))"

text \<open>The body of the polling loop is empty: \<open>n\<close> ticks change nothing.\<close>

definition Start :: "nat \<Rightarrow> ProbeManager \<Rightarrow> ProbeManager option" where
  "Start n pm = (if pm_pollInterval pm \<le> 0 then None else Some (((\<lambda>pm. pm) ^^ n) pm))"

section \<open>The process\<close>

datatype goroutine = Refresher | Prober | Sender

datatype agent_phase = Up | Stopping | Exited

record ('l, 'p) AgentProc =
  pr_sys :: AgentSys
  pr_loader :: "('l, 'p) BPFLoader"
  pr_running :: "goroutine set"
  pr_phase :: agent_phase
  pr_freed :: "('l, 'p) closing list"
  pr_loadError :: "loader_error option"

definition go_start :: "goroutine set" where
  "go_start = {Refresher, Prober, Sender}"

text \<open>\<open>Inl\<close> is the fatal error of the host name.  An error of the loader is logged, no more.\<close>

definition start_agent ::
  "string \<Rightarrow> string + string \<Rightarrow> string \<Rightarrow> Duration \<Rightarrow> Duration \<Rightarrow> string + byte list \<Rightarrow> int \<Rightarrow>
   string + ('l, 'p) AgentProc" where
  "start_agent nodeName hostname kubeletURL pollInterval cgroupRefresh uname euid =
    (case (if nodeName = [] then hostname else Inr nodeName) of
       Inl err \<Rightarrow> Inl err
     | Inr node \<Rightarrow>
         (case Load uname euid NewBPFLoader of (loader, err) \<Rightarrow>
            Inr \<lparr>pr_sys = init_agent node kubeletURL pollInterval cgroupRefresh, pr_loader = loader,
                 pr_running = go_start, pr_phase = Up, pr_freed = [], pr_loadError = err\<rparr>))"

text \<open>
  The steps of the process.  Until the exit each running goroutine moves; a signal cancels the context,
  after which each may return, the forwarder with its last flush; when all have returned, or after five
  seconds (\<open>forced\<close>), \<^verbatim>\<open>main\<close> closes the loader and exits.
\<close>

inductive proc_step ::
  "('l \<Rightarrow> string option) \<Rightarrow> (string \<Rightarrow> 'p \<Rightarrow> string option) \<Rightarrow>
   ('l, 'p) AgentProc \<Rightarrow> ('l, 'p) AgentProc \<Rightarrow> bool"
  for closel closep where
  record_read: "pr_phase p \<noteq> Exited \<Longrightarrow> Prober \<in> pr_running p \<Longrightarrow> s = pr_sys p \<Longrightarrow>
    pm' = snd (ProcessRawEvent now data (sys_pm s)) \<Longrightarrow>
    proc_step closel closep p (p\<lparr>pr_sys := s\<lparr>sys_pm := pm',
      sys_accepted := sys_accepted s @ drop (length (pm_eventCh (sys_pm s))) (pm_eventCh pm')\<rparr>\<rparr>)"
| receive: "pr_phase p \<noteq> Exited \<Longrightarrow> Sender \<in> pr_running p \<Longrightarrow> s = pr_sys p \<Longrightarrow>
    pm_eventCh (sys_pm s) = e # rest \<Longrightarrow>
    proc_step closel closep p (p\<lparr>pr_sys := s\<lparr>sys_pm := (sys_pm s)\<lparr>pm_eventCh := rest\<rparr>,
      sys_fwd := snd (forward_step (Recv e) (sys_fwd s))\<rparr>\<rparr>)"
| flush_tick: "pr_phase p \<noteq> Exited \<Longrightarrow> Sender \<in> pr_running p \<Longrightarrow> s = pr_sys p \<Longrightarrow>
    proc_step closel closep p (p\<lparr>pr_sys := s\<lparr>sys_fwd := snd (forward_step Tick (sys_fwd s))\<rparr>\<rparr>)"
| refreshed: "pr_phase p \<noteq> Exited \<Longrightarrow> Refresher \<in> pr_running p \<Longrightarrow> s = pr_sys p \<Longrightarrow>
    proc_step closel closep p (p\<lparr>pr_sys := s\<lparr>sys_pm := (sys_pm s)\<lparr>pm_resolver :=
      snd (refresh_once goos reads (pm_resolver (sys_pm s)))\<rparr>\<rparr>\<rparr>)"
| signalled: "pr_phase p = Up \<Longrightarrow> proc_step closel closep p (p\<lparr>pr_phase := Stopping\<rparr>)"
| returned: "pr_phase p = Stopping \<Longrightarrow> g \<in> pr_running p \<Longrightarrow> g \<noteq> Sender \<Longrightarrow>
    proc_step closel closep p (p\<lparr>pr_running := pr_running p - {g}\<rparr>)"
| sender_returned: "pr_phase p = Stopping \<Longrightarrow> Sender \<in> pr_running p \<Longrightarrow> s = pr_sys p \<Longrightarrow>
    proc_step closel closep p (p\<lparr>pr_running := pr_running p - {Sender},
      pr_sys := s\<lparr>sys_fwd := snd (forward_step CtxDone (sys_fwd s)), sys_stopped := True\<rparr>\<rparr>)"
| exited: "pr_phase p = Stopping \<Longrightarrow> pr_running p = {} \<or> forced \<Longrightarrow>
    set order = dom (bl_programs (pr_loader p)) \<Longrightarrow> distinct order \<Longrightarrow>
    Close closel closep order (pr_loader p) = (l', freed, err) \<Longrightarrow>
    proc_step closel closep p (p\<lparr>pr_phase := Exited, pr_loader := l', pr_freed := freed\<rparr>)"

inductive_cases proc_step_cases: "proc_step closel closep p q"

section \<open>The agent system inside the process\<close>

lemma refresh_once_step:
  "agent_step s (s\<lparr>sys_pm := (sys_pm s)\<lparr>pm_resolver := snd (refresh_once goos reads (pm_resolver (sys_pm s)))\<rparr>\<rparr>)"
  by (cases reads) (simp add: refresh_once_def agent_step.refresh)

text \<open>
  The invariant: the system is one that the agent's goroutines reach, the forwarder runs until it has
  stopped, and the loader is closed by the exit.
\<close>

definition proc_inv :: "string \<Rightarrow> ('l, 'p) AgentProc \<Rightarrow> bool" where
  "proc_inv node p \<longleftrightarrow>
     agent_inv node (pr_sys p) \<and>
     (Sender \<in> pr_running p \<longleftrightarrow> \<not> sys_stopped (pr_sys p)) \<and>
     (pr_phase p = Up \<longrightarrow> pr_running p = go_start) \<and>
     (bl_closed (pr_loader p) \<longleftrightarrow> pr_phase p = Exited) \<and>
     (pr_phase p = Exited \<longrightarrow> bl_programs (pr_loader p) = Map.empty \<and> bl_links (pr_loader p) = [])"

lemma proc_inv_start:
  fixes p :: "('l, 'p) AgentProc"
  assumes "start_agent nodeName hostname url poll refr uname euid = Inr p"
  shows "\<exists>node. proc_inv node p \<and> (nodeName \<noteq> [] \<longrightarrow> node = nodeName) \<and> (nodeName = [] \<longrightarrow> hostname = Inr node)"
proof -
  obtain node where node: "(if nodeName = [] then hostname else Inr nodeName) = Inr node"
    and p: "p = \<lparr>pr_sys = init_agent node url poll refr, pr_loader = NewBPFLoader,
      pr_running = go_start, pr_phase = Up, pr_freed = [],
      pr_loadError = snd (Load uname euid (NewBPFLoader :: ('l, 'p) BPFLoader))\<rparr>"
    using assms by (auto simp: start_agent_def case_prod_beta split: sum.splits)
  have "proc_inv node p"
    using agent_inv_init [of node url poll refr]
    by (simp add: proc_inv_def p go_start_def NewBPFLoader_def) (simp add: init_agent_def)
  then show ?thesis using node by (intro exI [of _ node]) (auto split: if_splits)
qed

lemma proc_inv_step: "proc_step closel closep p q \<Longrightarrow> proc_inv node p \<Longrightarrow> proc_inv node q"
proof (induction rule: proc_step.induct)
  case (record_read p s pm' now data)
  then show ?case
    using agent_inv_step [OF agent_step.raw [OF refl, where now = now and data = data and s = s]] by (simp add: proc_inv_def)
next
  case (receive p s e rest)
  then show ?case using agent_inv_step [OF agent_step.recv [of s e rest]] by (simp add: proc_inv_def)
next
  case (flush_tick p s)
  then show ?case using agent_inv_step [OF agent_step.tick [of s]] by (simp add: proc_inv_def)
next
  case (refreshed p s goos reads)
  then show ?case using agent_inv_step [OF refresh_once_step [of s goos reads]] by (simp add: proc_inv_def)
next
  case (sender_returned p s)
  then show ?case using agent_inv_step [OF agent_step.stop [of s]] by (simp add: proc_inv_def)
next
  case (exited p forced order l' freed err)
  then have "\<not> bl_closed (pr_loader p)" by (simp add: proc_inv_def)
  from Close_open(1) [OF this, of closel closep order] exited
  have "l' = (pr_loader p)\<lparr>bl_links := [], bl_programs := Map.empty, bl_closed := True\<rparr>"
    by (simp add: restrict_none)
  then show ?case using exited by (simp add: proc_inv_def)
qed (auto simp: proc_inv_def go_start_def)

lemma proc_inv_run:
  "rtranclp (proc_step closel closep) p q \<Longrightarrow> proc_inv node p \<Longrightarrow> proc_inv node q"
  by (induction rule: rtranclp_induct) (auto intro: proc_inv_step)

text \<open>C3: When the agent has exited, its loader is closed and holds nothing, and every event that the
  channel ever accepted is accounted for: it was posted, or it is one of the fewer than 100 of the open
  batch, or it is still in the channel, in this order.  The batch is lost only when the shutdown was
  forced before the forwarder returned.\<close>

theorem exit_accounts_for_events:
  assumes "start_agent nodeName hostname url poll refr uname euid = Inr p0"
    and "rtranclp (proc_step closel closep) p0 p" and "pr_phase p = Exited"
  shows "bl_closed (pr_loader p) \<and> Programs (pr_loader p) = Map.empty
    \<and> sys_accepted (pr_sys p) = concat (fw_sent (sys_fwd (pr_sys p))) @ fw_batch (sys_fwd (pr_sys p))
        @ pm_eventCh (sys_pm (pr_sys p))
    \<and> length (fw_batch (sys_fwd (pr_sys p))) < 100
    \<and> (Sender \<notin> pr_running p \<longrightarrow> fw_batch (sys_fwd (pr_sys p)) = [])"
proof -
  obtain node where "proc_inv node p0" using proc_inv_start [OF assms(1)] by blast
  with assms(2) have "proc_inv node p" by (rule proc_inv_run)
  then show ?thesis using assms(3)
    by (auto simp: proc_inv_def agent_inv_def fw_inv_def batchSize_def fw_content_def Programs_def)
qed

theorem exit_accounts_for_events_witness:
  "\<exists>p0 p. start_agent ''n1'' (Inl ''no host'') [] 1 1 (Inl ''x'') 0 = Inr p0
    \<and> rtranclp (proc_step (\<lambda>_ :: nat. None) (\<lambda>_ (_ :: nat). None)) p0 p
    \<and> pr_phase p = Exited \<and> bl_closed (pr_loader p) \<and> length (fw_batch (sys_fwd (pr_sys p))) < 100"
proof -
  let ?step = "proc_step (\<lambda>_ :: nat. None) (\<lambda>_ (_ :: nat). None)"
  obtain p0 :: "(nat, nat) AgentProc" where p0: "start_agent ''n1'' (Inl ''no host'') [] 1 1 (Inl ''x'') 0 = Inr p0"
    and up: "pr_phase p0 = Up" and ld: "pr_loader p0 = NewBPFLoader"
    by (simp add: start_agent_def Load_def checkKernelVersion_def)
  let ?p1 = "p0\<lparr>pr_phase := Stopping\<rparr>"
  obtain l' freed err where cl: "Close (\<lambda>_ :: nat. None) (\<lambda>_ (_ :: nat). None) [] (pr_loader ?p1) = (l', freed, err)"
    by (metis prod.exhaust)
  let ?p2 = "?p1\<lparr>pr_phase := Exited, pr_loader := l', pr_freed := freed\<rparr>"
  have "?step p0 ?p1" by (rule proc_step.signalled [OF up])
  moreover have "?step ?p1 ?p2"
    by (rule proc_step.exited [where forced = True and order = "[]", OF _ _ _ _ cl])
       (simp_all add: ld NewBPFLoader_def)
  ultimately have r: "rtranclp ?step p0 ?p2" by (meson r_into_rtranclp rtranclp_trans)
  have "pr_phase ?p2 = Exited" by simp
  from exit_accounts_for_events [OF p0 r this] p0 r show ?thesis by (intro exI [of _ p0] exI [of _ ?p2]) simp
qed

section \<open>The loops in the process\<close>

text \<open>The constructors replace an interval that is not positive, so neither loop panics.\<close>

lemma refresh_keeps_rate: "cr_refreshRate (snd (refresh_once goos reads cr)) = cr_refreshRate cr"
  by (cases reads) (simp add: refresh_once_def CgroupResolver.refresh_def Let_def split: kubelet_response.split option.split)

text \<open>The loop is a sequence of refreshes, and it logs one line for each failure.\<close>

lemma refresh_ticks_fold:
  "snd (refresh_ticks goos ticks cr) = fold (\<lambda>reads. snd \<circ> refresh_once goos reads) ticks cr"
  by (induction ticks arbitrary: cr) (simp_all add: case_prod_beta)

lemma refresh_ticks_on_node: "cache_on_node cr \<Longrightarrow> cache_on_node (snd (refresh_ticks goos ticks cr))"
  unfolding refresh_ticks_fold
  by (induction ticks arbitrary: cr) (auto simp: refresh_once_def cache_on_node_refresh split: prod.split)

lemma Start_idle: "0 < pm_pollInterval pm \<Longrightarrow> Start n pm = Some pm"
  by (induction n) (simp_all add: Start_def)

end
