(* ===== verification/Concurrency.thy ===== *)
theory Concurrency
  imports Server Hub
begin

text \<open>
  The server of \<^verbatim>\<open>src/src/server/main.go\<close> with requests that overlap: \<^verbatim>\<open>net/http\<close> runs every handler in a
  goroutine of its own, the live heartbeats have theirs, and the hub's \<^verbatim>\<open>Run\<close> is another.  A goroutine
  is the list of what it has still to do, cut where others can come between: at every access to
  the store, to a component behind its mutex, and to the hub's channel.  The handlers of \<open>Server\<close>
  are what one goroutine does when it runs alone.
\<close>

section \<open>What a goroutine has still to do\<close>

text \<open>
  \<open>Send\<close> is a broadcast function of the hub, which blocks while the channel is full.  \<open>RecordEvent\<close>
  takes the mutex of the topology, and \<open>Unlock\<close> is its deferred unlock: \<^verbatim>\<open>Record\<close> broadcasts a new
  connection with the mutex held.  \<open>PostWebhook\<close> starts the goroutine of a webhook post.
\<close>

datatype task =
    SaveEvent EnrichedEvent
  | Send WSMessage
  | AnalyzeEvent EnrichedEvent
  | RecordEvent EnrichedEvent
  | Unlock
  | SaveHeartbeat request Heartbeat
  | SaveLive Heartbeat
  | EvaluateHeartbeat Heartbeat
  | PostWebhook string Alert
  | Respond request nat

definition decode_posted :: "json_codec \<Rightarrow> string \<Rightarrow> string + EnrichedEvent list" where
  "decode_posted J body =
    (case decode_EnrichedEvents J body of
       Inr events \<Rightarrow> Inr events
     | Inl err \<Rightarrow>
         (case unmarshal_EnrichedEvent J err of
            None \<Rightarrow> Inl err
          | Some single \<Rightarrow> Inr [single]))"

text \<open>The requests whose handlers write, and what such a handler does.\<close>

definition writing :: "request \<Rightarrow> bool" where
  "writing r \<longleftrightarrow> rq_method r = POST \<and> (rq_path r = ''/api/heartbeat'' \<or> rq_path r = ''/api/ebpf/events'')"

definition handler_tasks :: "json_codec \<Rightarrow> request \<Rightarrow> task list" where
  "handler_tasks J r =
    (if rq_path r = ''/api/heartbeat''
     then case decode_Heartbeat J (rq_body r) of
            Inl err \<Rightarrow> [Respond r StatusBadRequest]
          | Inr hb \<Rightarrow> [SaveHeartbeat r hb]
     else case decode_posted J (rq_body r) of
            Inl err \<Rightarrow> [Respond r StatusBadRequest]
          | Inr events \<Rightarrow> map SaveEvent events @ [Respond r StatusCreated])"

definition live_heartbeat :: "(string \<times> string) list \<Rightarrow> int \<Rightarrow> Time \<Rightarrow> Heartbeat option" where
  "live_heartbeat nodes nanos now =
    (let idx = go_mod nanos (int (length nodes)) in
     if nodes = [] \<or> idx < 0 then None
     else
       let node = nodes ! nat idx
       in Some \<lparr>hb_NodeName = fst node, hb_Namespace = ''default'', hb_Timestamp = now,
                hb_Status = snd node, hb_EbpfPID = 0, hb_EbpfComm = []\<rparr>)"

fun delivery_task :: "delivery \<Rightarrow> task" where
  "delivery_task (WSBroadcast m) = Send m"
| "delivery_task (WebhookPost url a) = PostWebhook url a"

text \<open>The effect of one task on the server, and what it leaves to do before the rest.\<close>

fun task_step :: "'s Store \<Rightarrow> Time \<Rightarrow> task \<Rightarrow> 's Server \<Rightarrow> task list \<times> 's Server" where
  "task_step S now (SaveEvent e) sv =
     (case st_SaveKernelEvent S e (sv_store sv) of
        (Some err, s') \<Rightarrow> ([], sv\<lparr>sv_store := s'\<rparr>)
      | (None, s') \<Rightarrow>
          ((if sv_hub sv then [Send (EbpfEventMsg e)] else []) @ [AnalyzeEvent e, RecordEvent e],
           sv\<lparr>sv_store := s'\<rparr>))"
| "task_step S now (Send m) sv = ([], send_hub [m] sv)"
| "task_step S now (AnalyzeEvent e) sv =
     (case sv_predEngine sv of
        None \<Rightarrow> ([], sv)
      | Some pe \<Rightarrow>
          (case Analyze now (ev_NodeName e) [e] pe of
             (_, pe', msgs) \<Rightarrow> (map Send msgs, sv\<lparr>sv_predEngine := Some pe'\<rparr>)))"
| "task_step S now (RecordEvent e) sv =
     (case sv_topoMap sv of
        None \<Rightarrow> ([], sv)
      | Some m \<Rightarrow>
          if ev_EventType e = ''network_audit''
          then (case Record e m of
                  (_, m', msgs) \<Rightarrow> (map Send msgs @ [Unlock], sv\<lparr>sv_topoMap := Some m'\<rparr>))
          else ([], sv))"
| "task_step S now Unlock sv = ([], sv)"
| "task_step S now (SaveHeartbeat r hb) sv =
     (case st_Save S hb (sv_store sv) of
        (Some err, s') \<Rightarrow> ([Respond r StatusInternalServerError], sv\<lparr>sv_store := s'\<rparr>)
      | (None, s') \<Rightarrow>
          ((if sv_hub sv then [Send (HeartbeatMsg hb)] else []) @
             [EvaluateHeartbeat hb, Respond r StatusCreated],
           sv\<lparr>sv_store := s'\<rparr>))"
| "task_step S now (SaveLive hb) sv =
     ((if sv_hub sv then [Send (HeartbeatMsg hb)] else []) @ [EvaluateHeartbeat hb],
      sv\<lparr>sv_store := snd (st_Save S hb (sv_store sv))\<rparr>)"
| "task_step S now (EvaluateHeartbeat hb) sv =
     ((case sv_detector sv of
         None \<Rightarrow> []
       | Some ad \<Rightarrow>
           (case Evaluate S ad hb (sv_store sv) of
              None \<Rightarrow> []
            | Some alert \<Rightarrow>
                (case sv_dispatcher sv of
                   None \<Rightarrow> []
                 | Some d \<Rightarrow> map delivery_task (Dispatch d alert)))), sv)"
| "task_step S now (PostWebhook url a) sv = ([], sv\<lparr>sv_posts := sv_posts sv @ [(url, a)]\<rparr>)"
| "task_step S now (Respond r status) sv =
     ([], sv\<lparr>sv_log := sv_log sv @ [(method_name (rq_method r), rq_path r, status)]\<rparr>)"

text \<open>Every task leaves less to do than it was.\<close>

fun weight :: "task \<Rightarrow> nat" where
  "weight (SaveEvent _) = 10"
| "weight (Send _) = 2"
| "weight (AnalyzeEvent _) = 3"
| "weight (RecordEvent _) = 4"
| "weight Unlock = 1"
| "weight (SaveHeartbeat _ _) = 8"
| "weight (SaveLive _) = 8"
| "weight (EvaluateHeartbeat _) = 4"
| "weight (PostWebhook _ _) = 1"
| "weight (Respond _ _) = 1"

definition weights :: "task list \<Rightarrow> nat" where
  "weights ts = sum_list (map weight ts)"

lemma weights_simps [simp]:
  "weights [] = 0" "weights (t # ts) = weight t + weights ts" "weights (ts @ us) = weights ts + weights us"
  "weights (map Send ms) = 2 * length ms"
  by (simp_all add: weights_def sum_list_const_mult comp_def sum_list_triv)

lemma weight_pos: "0 < weight t"
  by (cases t) simp_all

lemma Analyze_msgs: "length (snd (snd (Analyze now n es pe))) \<le> 1"
  by (simp add: Analyze_def Let_def)

lemma task_step_weights: "weights (fst (task_step S now t sv)) < weight t"
proof (cases t)
  case (AnalyzeEvent e)
  have "2 * length (snd (snd (Analyze now (ev_NodeName e) [e] pe))) < 3" for pe
    using Analyze_msgs [of now "ev_NodeName e" "[e]" pe] by linarith
  then show ?thesis by (auto simp: AnalyzeEvent split_beta less_Suc_eq_le split: option.split)
next
  case (RecordEvent e)
  then show ?thesis by (auto simp: Record_msgs split_beta split: option.split)
next
  case (EvaluateHeartbeat hb)
  then show ?thesis by (auto simp: Dispatch_def split: option.split)
qed (auto split: prod.split option.split)

section \<open>A goroutine that runs alone\<close>

function run_alone :: "'s Store \<Rightarrow> Time \<Rightarrow> task list \<Rightarrow> 's Server \<Rightarrow> 's Server" where
  "run_alone S now [] sv = sv"
| "run_alone S now (t # ts) sv =
     run_alone S now (fst (task_step S now t sv) @ ts) (snd (task_step S now t sv))"
  by pat_completeness auto
termination
  by (relation "measure (\<lambda>(S, now, ts, sv). weights ts)") (simp_all add: task_step_weights)

lemma run_alone_append:
  "run_alone S now (ts @ us) sv = run_alone S now us (run_alone S now ts sv)"
  by (induction S now ts sv rule: run_alone.induct) simp_all

lemma run_alone_Send: "run_alone S now (map Send ms) sv = send_hub ms sv"
  by (induction ms arbitrary: sv) (simp_all add: send_hub_def)

lemma run_alone_deliveries: "run_alone S now (map delivery_task ds) sv = deliver_alert ds sv"
  by (induction ds sv rule: deliver_alert.induct) simp_all

text \<open>So the loop body, the evaluation and the live tick of the sequential server come about.\<close>

lemma send_hub_Nil [simp]: "send_hub [] sv = sv"
  by (simp add: send_hub_def)

lemma run_alone_AnalyzeEvent:
  "run_alone S now [AnalyzeEvent e] sv =
    (case sv_predEngine sv of None \<Rightarrow> sv
     | Some pe \<Rightarrow> (case Analyze now (ev_NodeName e) [e] pe of
         (_, pe', msgs) \<Rightarrow> send_hub msgs (sv\<lparr>sv_predEngine := Some pe'\<rparr>)))"
  by (auto simp: run_alone_Send split: option.split prod.split)

lemma run_alone_RecordEvent:
  "run_alone S now [RecordEvent e] sv =
    (case sv_topoMap sv of None \<Rightarrow> sv
     | Some m \<Rightarrow>
         if ev_EventType e = ''network_audit''
         then (case Record e m of (_, m', msgs) \<Rightarrow> send_hub msgs (sv\<lparr>sv_topoMap := Some m'\<rparr>))
         else sv)"
  by (auto simp: run_alone_Send run_alone_append split: option.split prod.split)

lemma run_alone_event: "run_alone S now [SaveEvent e] sv = ebpf_event_step S now e sv"
proof (cases "st_SaveKernelEvent S e (sv_store sv)")
  case (Pair err s')
  show ?thesis
  proof (cases err)
    case (Some x)
    with Pair show ?thesis by (simp add: ebpf_event_step_def)
  next
    case None
    let ?sv1 = "sv\<lparr>sv_store := s'\<rparr>"
    let ?sv2 = "if sv_hub sv then send_hub [EbpfEventMsg e] ?sv1 else ?sv1"
    have "run_alone S now [SaveEvent e] sv =
        run_alone S now [RecordEvent e] (run_alone S now [AnalyzeEvent e] ?sv2)"
      using Pair None run_alone_append [of S now "[AnalyzeEvent e]" "[RecordEvent e]"]
      by (simp del: task_step.simps(3,4))
    also have "\<dots> = ebpf_event_step S now e sv"
      using Pair None
      by (simp add: run_alone_AnalyzeEvent run_alone_RecordEvent ebpf_event_step_def Let_def
          del: run_alone.simps)
    finally show ?thesis .
  qed
qed

lemma run_alone_events:
  "run_alone S now (map SaveEvent es) sv = fold (ebpf_event_step S now) es sv"
proof (induction es arbitrary: sv)
  case (Cons e es)
  have "run_alone S now (map SaveEvent (e # es)) sv =
      run_alone S now (map SaveEvent es) (run_alone S now [SaveEvent e] sv)"
    using run_alone_append [of S now "[SaveEvent e]"] by simp
  then show ?case by (simp add: run_alone_event Cons.IH del: run_alone.simps)
qed simp

lemma run_alone_Evaluate:
  "run_alone S now (EvaluateHeartbeat hb # ts) sv = run_alone S now ts (evaluate_and_dispatch S hb sv)"
  by (auto simp: evaluate_and_dispatch_def run_alone_append run_alone_deliveries split: option.split)

lemma run_alone_simple:
  "run_alone S now (Send m # ts) sv = run_alone S now ts (send_hub [m] sv)"
  "run_alone S now (Respond r st # ts) sv = run_alone S now ts
     (sv\<lparr>sv_log := sv_log sv @ [(method_name (rq_method r), rq_path r, st)]\<rparr>)"
  by simp_all

lemma run_alone_live:
  "live_tick S nodes nanos now' sv =
    map_option (\<lambda>hb. run_alone S now [SaveLive hb] sv) (live_heartbeat nodes nanos now')"
proof -
  have "run_alone S now [SaveLive hb] sv = evaluate_and_dispatch S hb
      (if sv_hub sv then send_hub [HeartbeatMsg hb] (sv\<lparr>sv_store := snd (st_Save S hb (sv_store sv))\<rparr>)
       else sv\<lparr>sv_store := snd (st_Save S hb (sv_store sv))\<rparr>)" for hb
    unfolding run_alone.simps(2) [of S now "SaveLive hb"]
    by (simp add: run_alone_Evaluate run_alone_simple(1) del: run_alone.simps(2))
  then show ?thesis by (simp add: live_tick_def live_heartbeat_def Let_def del: run_alone.simps)
qed

text \<open>Alone, a writing handler does what \<open>serve_api\<close> does.\<close>

lemma run_alone_handler:
  assumes "writing r"
  shows "run_alone S (rt_now rt) (handler_tasks J r) sv = snd (serve_api c J S rt r sv)"
proof -
  have hb: "run_alone S now [SaveHeartbeat r hb] sv =
      (case st_Save S hb (sv_store sv) of
         (Some err, s') \<Rightarrow> run_alone S now [Respond r StatusInternalServerError] (sv\<lparr>sv_store := s'\<rparr>)
       | (None, s') \<Rightarrow> run_alone S now [Respond r StatusCreated] (evaluate_and_dispatch S hb
           (if sv_hub sv then send_hub [HeartbeatMsg hb] (sv\<lparr>sv_store := s'\<rparr>) else sv\<lparr>sv_store := s'\<rparr>)))"
    for now hb
    unfolding run_alone.simps(2) [of S now "SaveHeartbeat r hb"]
    by (auto simp: run_alone_Evaluate run_alone_simple(1) simp del: run_alone.simps(2) split: prod.split option.split)
  show ?thesis
  proof (cases "rq_path r = ''/api/heartbeat''")
    case True
    then show ?thesis using assms
      by (auto simp: writing_def handler_tasks_def serve_api_def LoggingMiddleware_def setCORS_def apiMux_def
          heartbeatHandler_def hb run_alone_simple(2) writeJSONError_def empty_response_def Let_def
          split: sum.split prod.split option.split simp del: run_alone.simps(2))
  next
    case False
    then show ?thesis using assms
      by (auto simp: writing_def handler_tasks_def serve_api_def LoggingMiddleware_def setCORS_def apiMux_def
          ebpfEventsHandler_def decode_posted_def run_alone_append run_alone_events writeJSONError_def empty_response_def
          Let_def split: sum.split option.split)
  qed
qed

section \<open>The system\<close>

text \<open>
  The server, its hub and its goroutines.  The first goroutine runs the live heartbeats, each other one
  a request (\<open>sy_requests\<close>).  \<open>sy_lock\<close> is the goroutine that holds the mutex of the topology; \<open>sy_done\<close> is
  history: the tasks that were done, with their goroutine.
\<close>

record ('s, 'm) System =
  sy_server :: "'s Server"
  sy_hub :: "'m HubSys"
  sy_threads :: "task list list"
  sy_requests :: "request option list"
  sy_lock :: "nat option"
  sy_done :: "(nat \<times> task) list"
  sy_panics :: "request list"

definition start_system :: "'s Server \<Rightarrow> ('s, 'm) System" where
  "start_system sv = \<lparr>sy_server = sv, sy_hub = init_hub, sy_threads = [[]], sy_requests = [None],
     sy_lock = None, sy_done = [], sy_panics = []\<rparr>"

definition locks_topology :: "EnrichedEvent \<Rightarrow> 's Server \<Rightarrow> bool" where
  "locks_topology e sv \<longleftrightarrow> sv_topoMap sv \<noteq> None \<and> ev_EventType e = ''network_audit''"

text \<open>Entering a task: it may have to wait for room in the hub's channel or for the mutex (\<open>None\<close>).\<close>

definition enter ::
  "(WSMessage \<Rightarrow> 'm option) \<Rightarrow> nat \<Rightarrow> task \<Rightarrow> ('s, 'm) System \<Rightarrow> ('s, 'm) System option" where
  "enter json i task s =
    (case task of
       Send m \<Rightarrow> map_option (\<lambda>h. s\<lparr>sy_hub := (sy_hub s)\<lparr>hs_hub := h\<rparr>\<rparr>) (broadcast_msg json m (hs_hub (sy_hub s)))
     | RecordEvent e \<Rightarrow>
         if locks_topology e (sy_server s)
         then if sy_lock s = None then Some (s\<lparr>sy_lock := Some i\<rparr>) else None
         else Some s
     | Unlock \<Rightarrow> Some (s\<lparr>sy_lock := None\<rparr>)
     | _ \<Rightarrow> Some s)"

definition thread_step ::
  "(WSMessage \<Rightarrow> 'm option) \<Rightarrow> 's Store \<Rightarrow> Time \<Rightarrow> nat \<Rightarrow> ('s, 'm) System \<Rightarrow> ('s, 'm) System option" where
  "thread_step json S now i s =
    (case sy_threads s ! i of
       [] \<Rightarrow> None
     | task # rest \<Rightarrow>
         (case enter json i task s of
            None \<Rightarrow> None
          | Some s1 \<Rightarrow>
              (case task_step S now task (sy_server s) of
                 (new, sv) \<Rightarrow> Some (s1\<lparr>sy_server := sv, sy_threads := (sy_threads s)[i := new @ rest],
                   sy_done := sy_done s @ [(i, task)]\<rparr>))))"

text \<open>What was handed to the hub: broadcast, then waiting in its channel.  Its own steps change neither.\<close>

definition handed :: "'m HubSys \<Rightarrow> 'm list" where
  "handed h = hs_log h @ hub_broadcast (hs_hub h)"

definition reads_topology :: "request \<Rightarrow> bool" where
  "reads_topology r \<longleftrightarrow> rq_method r = GET \<and> rq_path r = ''/api/network/topology''"

text \<open>
  A request that only reads is served in one step, once the mutex of what it reads is free.  The
  live loop ticks when it is done with the last tick, on a clock after 1970.  \<open>None\<close> is a panic that ends
  the process.  A handler that panics writes no response: \<^verbatim>\<open>net/http\<close> recovers the panic, logs it, drops the
  connection and serves on; \<open>sy_panics\<close> is the history of the requests for which this has happened.
\<close>

inductive sys_step ::
  "Config \<Rightarrow> json_codec \<Rightarrow> 's Store \<Rightarrow> (WSMessage \<Rightarrow> 'm option) \<Rightarrow> (string \<times> string) list \<Rightarrow>
   ('s, 'm) System \<Rightarrow> ('s, 'm) System option \<Rightarrow> bool"
  for c J S json nodes where
  thread: "i < length (sy_threads s) \<Longrightarrow> thread_step json S now i s = Some t \<Longrightarrow>
    sys_step c J S json nodes s (Some t)"
| request: "writing r \<Longrightarrow>
    sys_step c J S json nodes s (Some (s\<lparr>sy_threads := sy_threads s @ [handler_tasks J r],
      sy_requests := sy_requests s @ [Some r]\<rparr>))"
| read: "\<not> writing r \<Longrightarrow> (reads_topology r \<longrightarrow> sy_lock s = None) \<Longrightarrow>
    serve_api c J S rt r (sy_server s) = (Some resp, sv) \<Longrightarrow>
    sys_step c J S json nodes s (Some (s\<lparr>sy_server := sv\<rparr>))"
| recovered: "\<not> writing r \<Longrightarrow> (reads_topology r \<longrightarrow> sy_lock s = None) \<Longrightarrow>
    serve_api c J S rt r (sy_server s) = (None, sv) \<Longrightarrow>
    sys_step c J S json nodes s (Some (s\<lparr>sy_server := sv, sy_panics := sy_panics s @ [r]\<rparr>))"
| tick: "sy_threads s ! 0 = [] \<Longrightarrow> 0 \<le> nanos \<Longrightarrow>
    sys_step c J S json nodes s (map_option (\<lambda>hb. s\<lparr>sy_threads := (sy_threads s)[0 := [SaveLive hb]]\<rparr>)
      (live_heartbeat nodes nanos now))"
| hub: "hub_step (sy_hub s) r \<Longrightarrow> (\<forall>h. r = Some h \<longrightarrow> handed h = handed (sy_hub s)) \<Longrightarrow>
    sys_step c J S json nodes s (map_option (\<lambda>h. s\<lparr>sy_hub := h\<rparr>) r)"

inductive sys_reach ::
  "Config \<Rightarrow> json_codec \<Rightarrow> 's Store \<Rightarrow> (WSMessage \<Rightarrow> 'm option) \<Rightarrow> (string \<times> string) list \<Rightarrow> 's \<Rightarrow>
   ('s, 'm) System \<Rightarrow> bool"
  for c J S json nodes s0 where
  start: "sys_reach c J S json nodes s0 (start_system (start_server c s0))"
| step: "sys_reach c J S json nodes s0 s \<Longrightarrow> sys_step c J S json nodes s (Some t) \<Longrightarrow>
    sys_reach c J S json nodes s0 t"

text \<open>A step of a goroutine, taken apart.\<close>

lemma thread_stepE:
  assumes "thread_step json S now i s = Some t"
  obtains task rest where "sy_threads s ! i = task # rest"
    "sy_server t = snd (task_step S now task (sy_server s))"
    "sy_threads t = (sy_threads s)[i := fst (task_step S now task (sy_server s)) @ rest]"
    "sy_requests t = sy_requests s" "sy_done t = sy_done s @ [(i, task)]"
    "enter json i task s \<noteq> None"
    "sy_hub t = sy_hub (the (enter json i task s))" "sy_lock t = sy_lock (the (enter json i task s))"
proof (cases "sy_threads s ! i")
  case (Cons task rest)
  with assms obtain s1 where e: "enter json i task s = Some s1"
    by (auto simp: thread_step_def split: option.splits)
  have "sy_requests s1 = sy_requests s"
    using e by (auto simp: enter_def split: task.splits if_splits option.splits)
  with assms Cons e show ?thesis
    by (intro that [of task rest]) (auto simp: thread_step_def split: prod.splits)
qed (use assms in \<open>simp add: thread_step_def\<close>)

section \<open>Running alone in the system\<close>

text \<open>While only one goroutine and the hub move, what the goroutine has still to do leads to the same server.\<close>

inductive solo_step ::
  "'s Store \<Rightarrow> (WSMessage \<Rightarrow> 'm option) \<Rightarrow> Time \<Rightarrow> nat \<Rightarrow> ('s, 'm) System \<Rightarrow> ('s, 'm) System \<Rightarrow> bool"
  for S json now i where
  thread: "i < length (sy_threads s) \<Longrightarrow> thread_step json S now i s = Some t \<Longrightarrow> solo_step S json now i s t"
| hub: "hub_step (sy_hub s) (Some h) \<Longrightarrow> handed h = handed (sy_hub s) \<Longrightarrow> solo_step S json now i s (s\<lparr>sy_hub := h\<rparr>)"

lemma solo_sys_step: "solo_step S json now i s t \<Longrightarrow> sys_step c J S json nodes s (Some t)"
proof (induction rule: solo_step.induct)
  case (thread s t)
  then show ?case by (rule sys_step.thread)
next
  case (hub s h)
  have "sys_step c J S json nodes s (map_option (\<lambda>h. s\<lparr>sy_hub := h\<rparr>) (Some h))"
    by (rule sys_step.hub) (use hub in auto)
  then show ?case by simp
qed

lemma solo_step_run:
  "solo_step S json now i s t \<Longrightarrow>
   run_alone S now (sy_threads t ! i) (sy_server t) = run_alone S now (sy_threads s ! i) (sy_server s)"
proof (induction rule: solo_step.induct)
  case (thread s t)
  from thread.hyps(2) show ?case by (rule thread_stepE) (simp add: thread.hyps(1))
qed simp

lemma solo_run:
  "(solo_step S json now i)\<^sup>*\<^sup>* s t \<Longrightarrow>
   run_alone S now (sy_threads t ! i) (sy_server t) = run_alone S now (sy_threads s ! i) (sy_server s)"
  by (induction rule: rtranclp_induct) (simp_all add: solo_step_run)

end
