(* ===== verification/ConcurrencyInvariants.thy ===== *)
theory ConcurrencyInvariants
  imports Concurrency "HOL-Library.Sublist"
begin

text \<open>
  The invariant of the server when requests overlap, kept by every step of its goroutines, of the hub and
  of the clients, and the steps that it takes by itself: they do not get stuck and come to an end.
  Each part of the invariant is a predicate of its own: the components, the store and the messages
  against the history, each goroutine's events, the hub, the heartbeats that wait to be evaluated,
  and the mutex of the topology with the announcements of its holder.
\<close>

section \<open>Histories\<close>

fun saves :: "task list \<Rightarrow> EnrichedEvent list" where
  "saves [] = []"
| "saves (SaveEvent e # ts) = e # saves ts"
| "saves (t # ts) = saves ts"

fun sends :: "task list \<Rightarrow> WSMessage list" where
  "sends [] = []"
| "sends (Send m # ts) = m # sends ts"
| "sends (t # ts) = sends ts"

fun records :: "task list \<Rightarrow> EnrichedEvent list" where
  "records [] = []"
| "records (RecordEvent e # ts) = e # records ts"
| "records (t # ts) = records ts"

lemma saves_append [simp]: "saves (ts @ us) = saves ts @ saves us"
  by (induction ts rule: saves.induct) simp_all

lemma sends_append [simp]: "sends (ts @ us) = sends ts @ sends us"
  by (induction ts rule: sends.induct) simp_all

lemma records_append [simp]: "records (ts @ us) = records ts @ records us"
  by (induction ts rule: records.induct) simp_all

lemma history_Send [simp]: "saves (map Send ms) = []" "sends (map Send ms) = ms" "records (map Send ms) = []"
  by (induction ms) simp_all

lemma history_SaveEvent [simp]:
  "saves (map SaveEvent es) = es" "sends (map SaveEvent es) = []" "records (map SaveEvent es) = []"
  by (induction es) simp_all

definition of_thread :: "nat \<Rightarrow> (nat \<times> task) list \<Rightarrow> task list" where
  "of_thread i h = map snd (filter (\<lambda>p. fst p = i) h)"

lemma of_thread_snoc [simp]:
  "of_thread i (h @ [(j, t)]) = of_thread i h @ (if j = i then [t] else [])"
  by (simp add: of_thread_def)

lemma subseq_of_thread: "subseq (of_thread i h) (map snd h)"
  unfolding of_thread_def by (intro subseq_map subseq_filter_left)

lemma saves_subseq: "subseq ts us \<Longrightarrow> subseq (saves ts) (saves us)"
proof (induction rule: list_emb.induct)
  case (list_emb_Cons xs ys y)
  then show ?case by (cases y) (simp_all add: list_emb.list_emb_Cons)
next
  case (list_emb_Cons2 x y xs ys)
  then show ?case by (cases y) simp_all
qed simp

lemma sends_subseq: "subseq ts us \<Longrightarrow> subseq (sends ts) (sends us)"
proof (induction rule: list_emb.induct)
  case (list_emb_Cons xs ys y)
  then show ?case by (cases y) (simp_all add: list_emb.list_emb_Cons)
next
  case (list_emb_Cons2 x y xs ys)
  then show ?case by (cases y) simp_all
qed simp

text \<open>What was done is what each goroutine did.\<close>

lemma mset_of_threads:
  assumes "\<forall>p \<in> set h. fst p < n" and "\<And>ts us. f (ts @ us) = f ts @ f us" and "f [] = []"
  shows "mset (f (map snd h)) = (\<Sum>i<n. mset (f (of_thread i h)))"
  using assms(1)
proof (induction h rule: rev_induct)
  case Nil
  show ?case by (simp add: of_thread_def assms(3))
next
  case (snoc p h)
  obtain j t where p: "p = (j, t)" by (cases p)
  have "mset (f (of_thread i (h @ [p]))) = mset (f (of_thread i h)) + (if i = j then mset (f [t]) else {#})" for i
    by (simp add: p assms(2,3))
  then have "(\<Sum>i<n. mset (f (of_thread i (h @ [p])))) =
      (\<Sum>i<n. mset (f (of_thread i h))) + (\<Sum>i<n. if i = j then mset (f [t]) else {#})"
    by (simp add: sum.distrib)
  also have "(\<Sum>i<n. if i = j then mset (f [t]) else {#}) = mset (f [t])"
    using snoc.prems p by (simp add: sum.delta)
  finally show ?case using snoc by (simp add: p assms(2))
qed

section \<open>What each task leaves to do, and what it does\<close>

definition topo_messages :: "WSMessage list \<Rightarrow> WSMessage list" where
  "topo_messages = filter (\<lambda>m. ws_Type m = ''network_topology_update'')"

lemma topo_messages_simps [simp]:
  "topo_messages [] = []"
  "topo_messages (m # ms) = (if ws_Type m = ''network_topology_update'' then [m] else []) @ topo_messages ms"
  "topo_messages (ms @ ns) = topo_messages ms @ topo_messages ns"
  by (simp_all add: topo_messages_def)

lemma ebpf_messages_Cons: "ebpf_messages (m # ms) = ebpf_messages [m] @ ebpf_messages ms"
  using ebpf_messages_append [of "[m]" ms] by simp

lemma delivery_tasks [simp]: "saves (map delivery_task ds) = []" "records (map delivery_task ds) = []"
proof -
  show "saves (map delivery_task ds) = []" "records (map delivery_task ds) = []"
  proof (induction ds)
    case (Cons d ds)
    { case 1 with Cons show ?case by (cases d) simp_all }
    { case 2 with Cons show ?case by (cases d) simp_all }
  qed simp_all
qed

lemma delivery_no_unlock [simp]: "delivery_task d \<noteq> Unlock" "Unlock \<noteq> delivery_task d"
  by (cases d; simp)+

lemma Dispatch_tasks [simp]:
  "ebpf_messages (sends (map delivery_task (Dispatch d a))) = []"
  "topo_messages (sends (map delivery_task (Dispatch d a))) = []"
  by (simp_all add: Dispatch_def)

lemma Analyze_topo: "topo_messages (snd (snd (Analyze now n es pe))) = []"
  by (simp add: Analyze_def Let_def)

lemma task_step_saves [simp]: "saves (fst (task_step S now t sv)) = []"
  by (cases t) (auto split: prod.split option.split)

lemma task_step_records:
  "records (fst (task_step memory_store now t sv)) = saves [t]"
  by (cases t) (auto simp: MemoryStore_SaveKernelEvent_def split: prod.split option.split)

lemma task_step_ebpf:
  assumes "sv_hub sv"
  shows "ebpf_messages (sends (fst (task_step memory_store now t sv))) = saves [t]"
proof (cases t)
  case (AnalyzeEvent e)
  then show ?thesis using Analyze_ebpf_messages [of now "ev_NodeName e" "[e]"]
    by (simp add: split_beta split: option.split)
next
  case (RecordEvent e)
  then show ?thesis by (auto simp: Record_msgs split_beta split: option.split)
qed (use assms in \<open>auto simp: MemoryStore_SaveKernelEvent_def split: prod.split option.split\<close>)

text \<open>Only recording a new connection leaves the mutex held.\<close>

lemma task_step_free:
  assumes "\<And>e. t = RecordEvent e \<Longrightarrow> \<not> locks_topology e sv"
  shows "Unlock \<notin> set (fst (task_step S now t sv))" and "topo_messages (sends (fst (task_step S now t sv))) = []"
proof -
  show "Unlock \<notin> set (fst (task_step S now t sv))"
    using assms by (cases t) (auto simp: locks_topology_def split: prod.split option.split)
  show "topo_messages (sends (fst (task_step S now t sv))) = []"
  proof (cases t)
    case (AnalyzeEvent e)
    then show ?thesis using Analyze_topo [of now "ev_NodeName e" "[e]"]
      by (simp add: split_beta split: option.split)
  qed (use assms in \<open>auto simp: locks_topology_def split: prod.split option.split\<close>)
qed

lemma task_step_server [simp]:
  "sv_hub (snd (task_step S now t sv)) = sv_hub sv"
  "sv_detector (snd (task_step S now t sv)) = sv_detector sv"
  "sv_dispatcher (snd (task_step S now t sv)) = sv_dispatcher sv"
  "sv_outbox (snd (task_step S now t sv)) = sv_outbox sv @ sends [t]"
  by (cases t; auto split: prod.split option.split)+

lemma task_step_memory:
  "ms_kernelEvents (sv_store (snd (task_step memory_store now t sv))) =
     ms_kernelEvents (sv_store sv) @ saves [t]"
  "set (ms_heartbeats (sv_store sv)) \<subseteq>
     set (ms_heartbeats (sv_store (snd (task_step memory_store now t sv))))"
  by (cases t; auto simp: memory_store_defs split: prod.split option.split)+

lemma task_step_topology:
  assumes "sv_topoMap sv = Some m"
  shows "\<exists>m'. sv_topoMap (snd (task_step S now t sv)) = Some m' \<and> tm_hasHub m' = tm_hasHub m \<and>
    (\<forall>es. tm_connections m = spec_connections (audits es) \<longrightarrow>
       tm_connections m' = spec_connections (audits (es @ records [t])))"
  using assms
  by (cases t) (auto simp: split_beta audits_def spec_snoc Record_conns split: prod.split option.split)

lemma task_step_predictions:
  assumes "sv_predEngine sv = Some pe" and "\<forall>p \<in> set (pe_predictions pe). prediction_ok p"
  shows "\<exists>pe'. sv_predEngine (snd (task_step S now t sv)) = Some pe' \<and>
    (\<forall>p \<in> set (pe_predictions pe'). prediction_ok p)"
proof (cases t)
  case (AnalyzeEvent e)
  then show ?thesis using assms(1) Analyze_single_ok [OF assms(2)] by (simp add: split_beta)
qed (use assms in \<open>auto split: prod.split option.split\<close>)

section \<open>One goroutine\<close>

text \<open>
  Its events in the order of the request: those saved, then those still to be saved; of each saved event
  the message and the record follow before the next one is saved.
\<close>

definition posted :: "json_codec \<Rightarrow> request option \<Rightarrow> EnrichedEvent list" where
  "posted J rq =
    (case rq of
       None \<Rightarrow> []
     | Some r \<Rightarrow>
         if rq_path r = ''/api/ebpf/events''
         then (case decode_posted J (rq_body r) of Inl err \<Rightarrow> [] | Inr events \<Rightarrow> events) else [])"

fun ordered :: "task list \<Rightarrow> bool" where
  "ordered [] \<longleftrightarrow> True"
| "ordered (SaveEvent e # ts) \<longleftrightarrow> ebpf_messages (sends ts) = [] \<and> records ts = [] \<and> ordered ts"
| "ordered (t # ts) \<longleftrightarrow> ordered ts"

lemma ordered_append: "saves ts = [] \<Longrightarrow> ordered (ts @ us) = ordered us"
  by (induction ts rule: ordered.induct) simp_all

lemma ordered_events: "ordered (map SaveEvent es @ [Respond r st])"
  by (induction es) simp_all

definition thread_ok :: "json_codec \<Rightarrow> request option \<Rightarrow> task list \<Rightarrow> task list \<Rightarrow> bool" where
  "thread_ok J rq ts h \<longleftrightarrow> ordered ts \<and> saves h @ saves ts = posted J rq \<and>
     ebpf_messages (sends h) @ ebpf_messages (sends ts) = saves h \<and> records h @ records ts = saves h"

lemma thread_ok_step:
  assumes ok: "thread_ok J rq (task # rest) h" and hub: "sv_hub sv"
  shows "thread_ok J rq (fst (task_step memory_store now task sv) @ rest) (h @ [task])"
proof -
  have o: "ordered rest" "saves h @ saves rest = posted J rq \<or> (\<exists>e. task = SaveEvent e)"
    using ok by (cases task; simp add: thread_ok_def)+
  show ?thesis
  proof (cases "\<exists>e. task = SaveEvent e")
    case True
    then obtain e where e: "task = SaveEvent e" by blast
    have "thread_ok J rq (SaveEvent e # rest) h" using ok e by simp
    then show ?thesis unfolding e using hub
      by (auto simp: thread_ok_def MemoryStore_SaveKernelEvent_def)
  next
    case False
    then have t: "saves [task] = []" by (cases task) simp_all
    have s: "saves (task # us) = saves [task] @ saves us" "sends (task # us) = sends [task] @ sends us"
      "records (task # us) = records [task] @ records us" for us
      by (cases task; simp)+
    from ok have "saves h @ saves rest = posted J rq"
      "ebpf_messages (sends h) @ ebpf_messages (sends [task]) @ ebpf_messages (sends rest) = saves h"
      "records h @ records [task] @ records rest = saves h"
      unfolding thread_ok_def s(1) [of rest] s(2) [of rest] s(3) [of rest] by (simp_all add: t)
    then show ?thesis
      using o(1) by (simp add: thread_ok_def ordered_append task_step_records task_step_ebpf [OF hub] t)
  qed
qed

lemma thread_ok_request: "writing r \<Longrightarrow> thread_ok J (Some r) (handler_tasks J r) []"
  by (auto simp: thread_ok_def handler_tasks_def posted_def writing_def ordered_events split: sum.split)

section \<open>The mutex of the topology\<close>

definition holding :: "task list \<Rightarrow> bool" where
  "holding ts \<longleftrightarrow> (\<exists>ms rest. ts = map Send ms @ Unlock # rest \<and> Unlock \<notin> set rest \<and>
     topo_messages (sends rest) = [])"

definition idle :: "task list \<Rightarrow> bool" where
  "idle ts \<longleftrightarrow> Unlock \<notin> set ts \<and> topo_messages (sends ts) = []"

definition lock_ok :: "('s, 'm) System \<Rightarrow> bool" where
  "lock_ok s \<longleftrightarrow> (\<forall>i < length (sy_threads s).
      if sy_lock s = Some i then holding (sy_threads s ! i) else idle (sy_threads s ! i)) \<and>
    (\<forall>i. sy_lock s = Some i \<longrightarrow> i < length (sy_threads s))"

text \<open>The announcements of new connections: sent, then those that the holder has still to send.\<close>

definition announced :: "('s, 'm) System \<Rightarrow> WSMessage list" where
  "announced s = topo_messages (sends (map snd (sy_done s))) @
     (case sy_lock s of None \<Rightarrow> [] | Some i \<Rightarrow> topo_messages (sends (sy_threads s ! i)))"

definition announcements :: "EnrichedEvent list \<Rightarrow> WSMessage list" where
  "announcements es = map (\<lambda>e. TopologyMsg (connection_of e (ev_Timestamp e))) (new_keys {} es)"

lemma new_keys_snoc:
  "new_keys known (es @ [e]) =
   new_keys known es @ (if event_key e \<in> known \<union> event_key ` set es then [] else [e])"
  by (induction known es rule: new_keys.induct) auto

lemma spec_connections_None: "spec_connections es k = None \<longleftrightarrow> k \<notin> event_key ` set es"
  by (auto simp: spec_connections_def summary_of_def filter_empty_conv)

lemma Record_announces:
  assumes "tm_connections m = spec_connections es" and "tm_hasHub m"
  shows "announcements (es @ [e]) = announcements es @ snd (snd (Record e m))"
  using assms by (simp add: announcements_def new_keys_snoc Record_msgs spec_connections_None)

lemma enter_lock:
  assumes "enter json i task s \<noteq> None"
  shows "sy_lock (the (enter json i task s)) =
      (case task of
         RecordEvent e \<Rightarrow> if locks_topology e (sy_server s) then Some i else sy_lock s
       | Unlock \<Rightarrow> None
       | _ \<Rightarrow> sy_lock s)"
    and "task = RecordEvent e \<Longrightarrow> locks_topology e (sy_server s) \<Longrightarrow> sy_lock s = None"
  using assms by (auto simp: enter_def split: task.splits if_splits option.splits)

text \<open>One step of a goroutine: it takes the mutex, gives it back, or leaves it alone.\<close>

lemma thread_lock_cases:
  assumes "thread_step json S now i s = Some t" and "lock_ok s" and "i < length (sy_threads s)"
  obtains
    (take) e rest m where "sy_threads s ! i = RecordEvent e # rest" "sy_lock s = None" "sy_lock t = Some i"
      "sv_topoMap (sy_server s) = Some m" "ev_EventType e = ''network_audit''"
      "sy_threads t = (sy_threads s)[i := map Send (snd (snd (Record e m))) @ Unlock # rest]" "idle rest"
      "sy_done t = sy_done s @ [(i, RecordEvent e)]"
  | (give) rest where "sy_threads s ! i = Unlock # rest" "sy_lock s = Some i" "sy_lock t = None"
      "sy_threads t = (sy_threads s)[i := rest]" "idle rest" "sy_done t = sy_done s @ [(i, Unlock)]"
  | (held) msg ms rest where "sy_threads s ! i = Send msg # map Send ms @ Unlock # rest" "sy_lock s = Some i"
      "sy_lock t = Some i" "sy_threads t = (sy_threads s)[i := map Send ms @ Unlock # rest]" "idle rest"
      "sy_done t = sy_done s @ [(i, Send msg)]"
  | (other) task new rest where "sy_threads s ! i = task # rest" "sy_lock s \<noteq> Some i" "sy_lock t = sy_lock s"
      "sy_threads t = (sy_threads s)[i := new @ rest]" "idle new" "idle rest" "idle [task]"
      "sy_done t = sy_done s @ [(i, task)]" "\<And>e. task = RecordEvent e \<Longrightarrow> \<not> locks_topology e (sy_server s)"
  using assms(1)
proof (rule thread_stepE)
  fix task rest
  assume ts: "sy_threads s ! i = task # rest"
    and th: "sy_threads t = (sy_threads s)[i := fst (task_step S now task (sy_server s)) @ rest]"
    and dn: "sy_done t = sy_done s @ [(i, task)]"
    and en: "enter json i task s \<noteq> None" and lk: "sy_lock t = sy_lock (the (enter json i task s))"
  note lock = lk [unfolded enter_lock(1) [OF en]]
  show thesis
  proof (cases "sy_lock s = Some i")
    case True
    with assms(2,3) ts have "holding (task # rest)" by (auto simp: lock_ok_def)
    then obtain ms us where h: "task # rest = map Send ms @ Unlock # us" "idle us"
      by (auto simp: holding_def idle_def)
    show thesis
    proof (cases ms)
      case Nil
      with h have "task = Unlock" "rest = us" by simp_all
      with give [of rest] show thesis using ts True lock th h(2) dn by simp
    next
      case (Cons msg ms')
      with h have "task = Send msg" "rest = map Send ms' @ Unlock # us" by simp_all
      with held [of msg ms' us] show thesis using ts True lock th h(2) dn by simp
    qed
  next
    case False
    with assms(2,3) ts have id: "idle (task # rest)" by (auto simp: lock_ok_def)
    then have id': "idle [task]" "idle rest" by (cases task; simp add: idle_def split: if_splits)+
    show thesis
    proof (cases "\<exists>e. task = RecordEvent e \<and> locks_topology e (sy_server s)")
      case True
      then obtain e m where e: "task = RecordEvent e" "sv_topoMap (sy_server s) = Some m"
        "ev_EventType e = ''network_audit''" and l: "locks_topology e (sy_server s)"
        by (auto simp: locks_topology_def)
      with enter_lock(2) [OF en e(1) l] lock th ts dn id' show thesis
        by (intro take [of e rest m]) (simp_all add: split_beta)
    next
      case no: False
      then have n: "idle (fst (task_step S now task (sy_server s)))"
        unfolding idle_def using task_step_free [of task "sy_server s"] by blast
      have "sy_lock t = sy_lock s"
        using lock no id by (auto simp: idle_def split: task.splits)
      with other [of task rest] show thesis using ts False th n id' dn no by blast
    qed
  qed
qed

lemma lock_okD:
  "lock_ok s \<Longrightarrow> j < length (sy_threads s) \<Longrightarrow> sy_lock s = Some j \<Longrightarrow> holding (sy_threads s ! j)"
  "lock_ok s \<Longrightarrow> j < length (sy_threads s) \<Longrightarrow> sy_lock s \<noteq> Some j \<Longrightarrow> idle (sy_threads s ! j)"
  "lock_ok s \<Longrightarrow> sy_lock s = Some j \<Longrightarrow> j < length (sy_threads s)"
  unfolding lock_ok_def by (metis (full_types))+

lemma lock_ok_update:
  assumes "lock_ok s" and "i < length (sy_threads s)" and "sy_threads t = (sy_threads s)[i := us]"
    and "sy_lock t = Some i \<Longrightarrow> holding us" and "sy_lock t \<noteq> Some i \<Longrightarrow> idle us"
    and "\<And>j. j \<noteq> i \<Longrightarrow> sy_lock t = Some j \<longleftrightarrow> sy_lock s = Some j"
  shows "lock_ok t"
proof -
  have "if sy_lock t = Some j then holding (sy_threads t ! j) else idle (sy_threads t ! j)"
    if j: "j < length (sy_threads t)" for j
  proof (cases "j = i")
    case True
    with assms(2-5) show ?thesis by simp
  next
    case False
    with assms(3) j have "sy_threads t ! j = sy_threads s ! j" "j < length (sy_threads s)" by simp_all
    then show ?thesis using lock_okD(1,2) [OF assms(1), of j] assms(6) [OF False] by auto
  qed
  moreover have "j < length (sy_threads t)" if "sy_lock t = Some j" for j
    using that assms(2,3,6) lock_okD(3) [OF assms(1), of j] by (cases "j = i") auto
  ultimately show ?thesis by (simp add: lock_ok_def)
qed

lemma lock_ok_step:
  assumes "thread_step json S now i s = Some t" and "lock_ok s" and "i < length (sy_threads s)"
  shows "lock_ok t"
  using assms
proof (rule thread_lock_cases)
  fix e rest m
  assume a: "sy_lock s = None" "sy_lock t = Some i" "idle rest"
    "sy_threads t = (sy_threads s)[i := map Send (snd (snd (Record e m))) @ Unlock # rest]"
  show ?thesis by (rule lock_ok_update [OF assms(2,3) a(4)]) (use a in \<open>auto simp: holding_def idle_def\<close>)
next
  fix rest
  assume a: "sy_lock s = Some i" "sy_lock t = None" "idle rest" "sy_threads t = (sy_threads s)[i := rest]"
  show ?thesis by (rule lock_ok_update [OF assms(2,3) a(4)]) (use a in auto)
next
  fix msg ms rest
  assume a: "sy_lock s = Some i" "sy_lock t = Some i" "idle rest"
    "sy_threads t = (sy_threads s)[i := map Send ms @ Unlock # rest]"
  show ?thesis by (rule lock_ok_update [OF assms(2,3) a(4)]) (use a in \<open>auto simp: holding_def idle_def\<close>)
next
  fix task new rest
  assume a: "sy_lock s \<noteq> Some i" "sy_lock t = sy_lock s" "idle new" "idle rest"
    "sy_threads t = (sy_threads s)[i := new @ rest]"
  show ?thesis by (rule lock_ok_update [OF assms(2,3) a(5)]) (use a in \<open>auto simp: idle_def\<close>)
qed

text \<open>Every connection is announced once, when its first event is recorded.\<close>

lemma announced_step:
  assumes st: "thread_step json S now i s = Some t" and lk: "lock_ok s" "i < length (sy_threads s)"
    and m: "sv_topoMap (sy_server s) = Some m" "tm_hasHub m"
      "tm_connections m = spec_connections (audits (records (map snd (sy_done s))))"
    and an: "announced s = announcements (audits (records (map snd (sy_done s))))"
  shows "announced t = announcements (audits (records (map snd (sy_done t))))"
  using st lk
proof (rule thread_lock_cases)
  fix e rest m'
  assume a: "sy_lock s = None" "sy_lock t = Some i" "idle rest" "sv_topoMap (sy_server s) = Some m'"
    "ev_EventType e = ''network_audit''"
    "sy_threads t = (sy_threads s)[i := map Send (snd (snd (Record e m'))) @ Unlock # rest]"
    "sy_done t = sy_done s @ [(i, RecordEvent e)]"
  have e: "audits (records (map snd (sy_done t))) = audits (records (map snd (sy_done s))) @ [e]"
    by (simp add: a audits_def)
  have "topo_messages (snd (snd (Record e m))) = snd (snd (Record e m))"
    by (simp add: Record_msgs)
  then show ?thesis
    using an Record_announces [OF m(3,2), of e] a lk(2) m(1) unfolding e
    by (simp add: announced_def idle_def)
next
  fix rest
  assume a: "sy_threads s ! i = Unlock # rest" "sy_lock s = Some i" "sy_lock t = None" "idle rest"
    "sy_done t = sy_done s @ [(i, Unlock)]"
  then show ?thesis using an by (simp add: announced_def idle_def)
next
  fix msg ms rest
  assume a: "sy_threads s ! i = Send msg # map Send ms @ Unlock # rest" "sy_lock s = Some i" "sy_lock t = Some i"
    "sy_threads t = (sy_threads s)[i := map Send ms @ Unlock # rest]" "idle rest"
    "sy_done t = sy_done s @ [(i, Send msg)]"
  then show ?thesis using an lk(2) by (simp add: announced_def idle_def)
next
  fix task new rest
  assume a: "sy_lock s \<noteq> Some i" "sy_lock t = sy_lock s" "idle [task]"
    "sy_threads t = (sy_threads s)[i := new @ rest]" "sy_done t = sy_done s @ [(i, task)]"
    and no: "\<And>e. task = RecordEvent e \<Longrightarrow> \<not> locks_topology e (sy_server s)"
  have "audits (records [task]) = []"
    using no m(1) by (cases task) (auto simp: audits_def locks_topology_def)
  moreover have "announced t = announced s"
    using a by (auto simp: announced_def idle_def split: option.split)
  ultimately show ?thesis using an a(5) by (simp add: audits_def)
qed

section \<open>No alert\<close>

text \<open>A heartbeat that waits to be evaluated is already stored.\<close>

fun quiet :: "MemoryStore \<Rightarrow> task \<Rightarrow> bool" where
  "quiet st (Send m) \<longleftrightarrow> ws_Type m \<noteq> ''alert''"
| "quiet st (PostWebhook url a) \<longleftrightarrow> False"
| "quiet st (EvaluateHeartbeat hb) \<longleftrightarrow> hb \<in> set (ms_heartbeats st)"
| "quiet st t \<longleftrightarrow> True"

lemma quiet_mono: "set (ms_heartbeats st) \<subseteq> set (ms_heartbeats st') \<Longrightarrow> quiet st t \<Longrightarrow> quiet st' t"
  by (cases t) auto

lemma evaluate_stored:
  assumes "hb \<in> set (ms_heartbeats st)" and "0 \<le> ad_warningThreshold ad"
  shows "Evaluate memory_store ad hb st = None"
  unfolding Evaluate_None_iff
proof (intro allI impI)
  fix l
  assume "st_GetLatestByNode memory_store (hb_NodeName hb) st = Inr (Some l)"
  then have "latest_loop (hb_NodeName hb) None (ms_heartbeats st) = Some l"
    by (simp add: MemoryStore_GetLatestByNode_def)
  from latest_loop_max [OF this] assms(1) have "hb_Timestamp hb \<le> hb_Timestamp l" by auto
  from time_Sub_nonpos [OF this] assms(2) show "time_Sub (hb_Timestamp hb) (hb_Timestamp l) \<le> ad_warningThreshold ad"
    by linarith
qed

lemma task_step_quiet:
  assumes "quiet (sv_store sv) t" and "sv_detector sv = Some ad" and "0 \<le> ad_warningThreshold ad"
    and "u \<in> set (fst (task_step memory_store now t sv))"
  shows "quiet (sv_store (snd (task_step memory_store now t sv))) u"
proof (cases t)
  case (AnalyzeEvent e)
  then show ?thesis using assms(4) Analyze_no_alert [of now "ev_NodeName e" "[e]"]
    by (auto simp: split_beta split: option.splits)
next
  case (RecordEvent e)
  then show ?thesis using assms(4) Record_no_alert [of e]
    by (auto simp: split_beta split: option.splits if_splits)
next
  case (EvaluateHeartbeat hb)
  then show ?thesis using assms evaluate_stored [of hb "sv_store sv" ad] by simp
qed (use assms(1,4) in \<open>auto simp: memory_store_defs split: if_splits\<close>)

lemma task_step_no_alerts:
  assumes "quiet (sv_store sv) t" and "no_alerts sv"
  shows "no_alerts (snd (task_step memory_store now t sv))"
  using assms
  by (cases t) (auto simp: no_alerts_def memory_store_defs split: option.splits prod.splits)

section \<open>The invariant\<close>

definition components_ok :: "Config \<Rightarrow> ('s, 'm) System \<Rightarrow> bool" where
  "components_ok c s \<longleftrightarrow> sv_hub (sy_server s) \<and>
     sv_detector (sy_server s) = Some (NewAnomalyDetector (cfg_WarningThresholdS c) (cfg_CriticalThresholdS c)) \<and>
     (\<exists>pe. sv_predEngine (sy_server s) = Some pe \<and> (\<forall>p \<in> set (pe_predictions pe). prediction_ok p)) \<and>
     (\<exists>m. sv_topoMap (sy_server s) = Some m \<and> tm_hasHub m \<and>
        tm_connections m = spec_connections (audits (records (map snd (sy_done s)))))"

definition stored_ok :: "(MemoryStore, 'm) System \<Rightarrow> bool" where
  "stored_ok s \<longleftrightarrow> ms_kernelEvents (sv_store (sy_server s)) = saves (map snd (sy_done s)) \<and>
     sv_outbox (sy_server s) = sends (map snd (sy_done s))"

definition threads_ok :: "json_codec \<Rightarrow> ('s, 'm) System \<Rightarrow> bool" where
  "threads_ok J s \<longleftrightarrow> sy_threads s \<noteq> [] \<and> length (sy_requests s) = length (sy_threads s) \<and>
     sy_requests s ! 0 = None \<and> (\<forall>p \<in> set (sy_done s). fst p < length (sy_threads s)) \<and>
     (\<forall>i < length (sy_threads s).
        thread_ok J (sy_requests s ! i) (sy_threads s ! i) (of_thread i (sy_done s)))"

definition hub_ok :: "(WSMessage \<Rightarrow> 'm option) \<Rightarrow> ('s, 'm) System \<Rightarrow> bool" where
  "hub_ok json s \<longleftrightarrow> hub_inv (sy_hub s) \<and> handed (sy_hub s) = List.map_filter json (sv_outbox (sy_server s))"

definition quiet_ok :: "(MemoryStore, 'm) System \<Rightarrow> bool" where
  "quiet_ok s \<longleftrightarrow> no_alerts (sy_server s) \<and>
     (\<forall>ts \<in> set (sy_threads s). \<forall>t \<in> set ts. quiet (sv_store (sy_server s)) t)"

definition sys_inv ::
  "Config \<Rightarrow> json_codec \<Rightarrow> (WSMessage \<Rightarrow> 'm option) \<Rightarrow> (MemoryStore, 'm) System \<Rightarrow> bool" where
  "sys_inv c J json s \<longleftrightarrow> components_ok c s \<and> stored_ok s \<and> threads_ok J s \<and> hub_ok json s \<and> quiet_ok s \<and>
     lock_ok s \<and> announced s = announcements (audits (records (map snd (sy_done s))))"

lemmas sys_inv_defs = components_ok_def stored_ok_def threads_ok_def hub_ok_def quiet_ok_def

lemma sends_Cons: "sends (t # ts) = sends [t] @ sends ts"
  by (cases t) simp_all

lemma start_sys_inv: "sys_inv c J json (start_system (start_server c NewMemoryStore))"
proof -
  have "spec_connections [] = (\<lambda>_. None)" by (simp add: fun_eq_iff spec_connections_def summary_of_def)
  moreover have "hs_log init_hub = []" "hub_broadcast (hs_hub init_hub) = []" by (simp_all add: init_hub_def NewHub_def)
  ultimately show ?thesis
    by (simp add: hub_inv_init sys_inv_def sys_inv_defs start_system_def start_server_def NewMemoryStore_def
        NewNetworkTopologyMap_def NewPredictionEngine_def audits_def
        thread_ok_def posted_def of_thread_def handed_def map_filter_simps no_alerts_def
        lock_ok_def idle_def announced_def announcements_def)
qed

text \<open>A message that enters the hub's channel.\<close>

lemma enter_hub:
  assumes "enter json i task s = Some u" and "hub_inv (sy_hub s)"
  shows "hub_inv (sy_hub u) \<and> handed (sy_hub u) = handed (sy_hub s) @ List.map_filter json (sends [task])"
proof (cases "\<exists>m. task = Send m")
  case False
  with assms show ?thesis
    by (cases task) (auto simp: enter_def map_filter_simps split: if_splits)
next
  case True
  then obtain m where m: "task = Send m" by blast
  show ?thesis
  proof (cases "json m")
    case None
    with assms m show ?thesis by (auto simp: enter_def broadcast_msg_def map_filter_simps)
  next
    case (Some d)
    let ?h = "(sy_hub s)\<lparr>hs_hub := (hs_hub (sy_hub s))\<lparr>hub_broadcast := hub_broadcast (hs_hub (sy_hub s)) @ [d]\<rparr>\<rparr>"
    have r: "length (hub_broadcast (hs_hub (sy_hub s))) < broadcastCap" "u = s\<lparr>sy_hub := ?h\<rparr>"
      using assms(1) m Some by (auto simp: enter_def broadcast_msg_def split: if_splits)
    from hub_step_inv [OF hub_step.enqueue [OF r(1)] assms(2)]
    show ?thesis using r(2) Some m by (simp add: handed_def map_filter_simps)
  qed
qed

text \<open>Each part of the invariant under the step of a goroutine.\<close>

lemma thread_components_ok:
  assumes "thread_step json S now i s = Some t" and "components_ok c s"
  shows "components_ok c t"
  using assms(1)
proof (rule thread_stepE)
  fix task rest
  assume sv: "sy_server t = snd (task_step S now task (sy_server s))" and dn: "sy_done t = sy_done s @ [(i, task)]"
  obtain pe m where pe: "sv_predEngine (sy_server s) = Some pe" "\<forall>p \<in> set (pe_predictions pe). prediction_ok p"
    and m: "sv_topoMap (sy_server s) = Some m" "tm_hasHub m"
      "tm_connections m = spec_connections (audits (records (map snd (sy_done s))))"
    using assms(2) by (auto simp: components_ok_def)
  show ?thesis
    using assms(2) task_step_predictions [OF pe] task_step_topology [OF m(1), of S now task] m(2,3)
    by (auto simp: components_ok_def sv dn)
qed

lemma thread_threads_ok:
  assumes "thread_step json memory_store now i s = Some t" and i: "i < length (sy_threads s)"
    and to: "threads_ok J s" and "sv_hub (sy_server s)"
  shows "threads_ok J t"
  using assms(1)
proof (rule thread_stepE)
  fix task rest
  let ?new = "fst (task_step memory_store now task (sy_server s))"
  assume ts: "sy_threads s ! i = task # rest" and th: "sy_threads t = (sy_threads s)[i := ?new @ rest]"
    and rq: "sy_requests t = sy_requests s" and dn: "sy_done t = sy_done s @ [(i, task)]"
  have "thread_ok J (sy_requests s ! i) (task # rest) (of_thread i (sy_done s))"
    using to i ts by (auto simp: threads_ok_def)
  then have "thread_ok J (sy_requests s ! i) (?new @ rest) (of_thread i (sy_done s) @ [task])"
    using assms(4) by (intro thread_ok_step)
  with to i show ?thesis by (simp add: threads_ok_def th dn rq nth_list_update)
qed

lemma thread_quiet_ok:
  assumes "thread_step json memory_store now i s = Some t" and i: "i < length (sy_threads s)"
    and qo: "quiet_ok s" and d: "sv_detector (sy_server s) = Some ad" "0 \<le> ad_warningThreshold ad"
  shows "quiet_ok t"
  using assms(1)
proof (rule thread_stepE)
  fix task rest
  let ?new = "fst (task_step memory_store now task (sy_server s))"
  assume ts: "sy_threads s ! i = task # rest" and th: "sy_threads t = (sy_threads s)[i := ?new @ rest]"
    and sv: "sy_server t = snd (task_step memory_store now task (sy_server s))"
  have mem: "task # rest \<in> set (sy_threads s)" using i ts by (metis nth_mem)
  have q: "quiet (sv_store (sy_server t)) v" if "v \<in> set us" "us \<in> set (sy_threads s)" for v us
    unfolding sv by (rule quiet_mono [OF task_step_memory(2)]) (use qo that in \<open>auto simp: quiet_ok_def\<close>)
  have qt: "quiet (sv_store (sy_server s)) task" using qo mem by (auto simp: quiet_ok_def)
  have new: "quiet (sv_store (sy_server t)) v" if "v \<in> set ?new" for v
    unfolding sv by (rule task_step_quiet [OF qt d that])
  have "set (sy_threads t) \<subseteq> insert (?new @ rest) (set (sy_threads s))"
    unfolding th by (rule set_update_subset_insert)
  then have "\<forall>us \<in> set (sy_threads t). \<forall>v \<in> set us. quiet (sv_store (sy_server t)) v"
    using q new q [OF _ mem] by fastforce
  moreover have "no_alerts (sy_server t)"
    unfolding sv using qt qo by (intro task_step_no_alerts) (simp_all add: quiet_ok_def)
  ultimately show ?thesis by (simp add: quiet_ok_def)
qed

lemma thread_sys_inv:
  assumes st: "thread_step json memory_store now i s = Some t" and i: "i < length (sy_threads s)"
    and inv: "sys_inv c J json s" and w: "0 \<le> cfg_WarningThresholdS c" "cfg_WarningThresholdS c < 2 ^ 33"
  shows "sys_inv c J json t"
  using st
proof (rule thread_stepE)
  fix task rest
  assume sv: "sy_server t = snd (task_step memory_store now task (sy_server s))"
    and dn: "sy_done t = sy_done s @ [(i, task)]"
    and en: "enter json i task s \<noteq> None" and hb: "sy_hub t = sy_hub (the (enter json i task s))"
  have co: "components_ok c s" and so: "stored_ok s" and to: "threads_ok J s" and ho: "hub_ok json s"
    and qo: "quiet_ok s" and lo: "lock_ok s"
    and an: "announced s = announcements (audits (records (map snd (sy_done s))))"
    using inv by (simp_all add: sys_inv_def)
  obtain m where m: "sv_topoMap (sy_server s) = Some m" "tm_hasHub m"
      "tm_connections m = spec_connections (audits (records (map snd (sy_done s))))"
    using co by (auto simp: components_ok_def)
  have hub: "sv_hub (sy_server s)"
    and d: "sv_detector (sy_server s) = Some (NewAnomalyDetector (cfg_WarningThresholdS c) (cfg_CriticalThresholdS c))"
    using co by (simp_all add: components_ok_def)
  have ad: "0 \<le> ad_warningThreshold (NewAnomalyDetector (cfg_WarningThresholdS c) (cfg_CriticalThresholdS c))"
    using w by (simp add: NewAnomalyDetector_def seconds_in_range)
  obtain u where u: "enter json i task s = Some u" using en by blast
  have "stored_ok t" using so by (simp add: stored_ok_def sv dn task_step_memory)
  moreover have "hub_ok json t"
    using enter_hub [OF u] ho by (simp add: hub_ok_def hb u sv map_filter_def)
  ultimately show ?thesis
    using thread_components_ok [OF st co] thread_threads_ok [OF st i to hub] thread_quiet_ok [OF st i qo d ad]
      lock_ok_step [OF st lo i] announced_step [OF st lo i m an]
    by (simp add: sys_inv_def)
qed

lemma apiMux_reads: "\<not> writing r \<Longrightarrow> snd (apiMux J S rt r sv) = sv"
  by (auto simp: writing_def apiMux_def heartbeatHandler_def getHeartbeatsHandler_def ebpfEventsHandler_def
      networkTopologyHandler_def predictionAccuracyHandler_def split: sum.split option.split)

lemma serve_api_reads:
  assumes "\<not> writing r" and "serve_api c J S rt r sv = (resp, sv')"
  shows "\<exists>l. sv' = sv\<lparr>sv_log := l\<rparr>"
  using serve_api_state [of c J S rt r sv] apiMux_reads [OF assms(1), of J S rt sv] assms(2) by auto

lemma handler_tasks_idle: "idle (handler_tasks J r)" "\<forall>t \<in> set (handler_tasks J r). quiet st t"
  by (auto simp: handler_tasks_def idle_def split: sum.split)

text \<open>The other steps: a new request, a request that reads, a tick, and the hub.\<close>

lemma request_sys_inv:
  assumes "sys_inv c J json s" and "writing r"
  shows "sys_inv c J json (s\<lparr>sy_threads := sy_threads s @ [handler_tasks J r], sy_requests := sy_requests s @ [Some r]\<rparr>)"
    (is "sys_inv c J json ?t")
proof -
  have to: "threads_ok J s" and lo: "lock_ok s" and rest: "components_ok c s" "stored_ok s" "hub_ok json s" "quiet_ok s"
    and an: "announced s = announcements (audits (records (map snd (sy_done s))))"
    using assms(1) by (simp_all add: sys_inv_def)
  have new: "of_thread (length (sy_threads s)) (sy_done s) = []"
    using to by (fastforce simp: threads_ok_def of_thread_def filter_empty_conv)
  have "threads_ok J ?t"
    using to thread_ok_request [OF assms(2), of J]
    by (auto simp: threads_ok_def nth_append less_Suc_eq new)
  moreover have "lock_ok ?t"
    using lo handler_tasks_idle(1) [of J r]
    by (auto simp: lock_ok_def nth_append less_Suc_eq)
  moreover have "announced ?t = announced s"
    using lo by (auto simp: announced_def lock_ok_def nth_append split: option.split)
  moreover have "quiet_ok ?t"
    using rest(4) handler_tasks_idle(2) [of J r] by (auto simp: quiet_ok_def)
  ultimately show ?thesis using rest an by (simp add: sys_inv_def sys_inv_defs(1,2,4))
qed

lemma log_sys_inv:
  "sys_inv c J json s \<Longrightarrow> sys_inv c J json (s\<lparr>sy_server := (sy_server s)\<lparr>sv_log := l\<rparr>\<rparr>)"
  by (simp add: sys_inv_def sys_inv_defs no_alerts_def lock_ok_def announced_def cong: option.case_cong)

lemma panics_sys_inv: "sys_inv c J json s \<Longrightarrow> sys_inv c J json (s\<lparr>sy_panics := ps\<rparr>)"
  by (simp add: sys_inv_def sys_inv_defs lock_ok_def announced_def cong: option.case_cong)

lemma tick_sys_inv:
  assumes "sys_inv c J json s" and "sy_threads s ! 0 = []"
  shows "sys_inv c J json (s\<lparr>sy_threads := (sy_threads s)[0 := [SaveLive hb]]\<rparr>)" (is "sys_inv c J json ?t")
proof -
  have to: "threads_ok J s" and lo: "lock_ok s" and rest: "components_ok c s" "stored_ok s" "hub_ok json s" "quiet_ok s"
    and an: "announced s = announcements (audits (records (map snd (sy_done s))))"
    using assms(1) by (simp_all add: sys_inv_def)
  have n: "0 < length (sy_threads s)" using to by (simp add: threads_ok_def)
  have free: "sy_lock s \<noteq> Some 0"
  proof
    assume "sy_lock s = Some 0"
    from lock_okD(1) [OF lo n this] assms(2) show False by (simp add: holding_def)
  qed
  have "threads_ok J ?t"
    using to assms(2) by (auto simp: threads_ok_def nth_list_update thread_ok_def)
  moreover have "lock_ok ?t"
    by (rule lock_ok_update [OF lo n, where us = "[SaveLive hb]"]) (use free in \<open>auto simp: idle_def\<close>)
  moreover have "announced ?t = announced s"
    using free by (auto simp: announced_def split: option.split)
  moreover have "quiet_ok ?t"
    using rest(4) by (auto simp: quiet_ok_def dest!: subsetD [OF set_update_subset_insert])
  ultimately show ?thesis using rest an by (simp add: sys_inv_def sys_inv_defs(1,2,4))
qed

lemma hub_sys_inv:
  assumes "sys_inv c J json s" and "hub_step (sy_hub s) (Some h)" and "handed h = handed (sy_hub s)"
  shows "sys_inv c J json (s\<lparr>sy_hub := h\<rparr>)"
proof -
  have "hub_inv h" using assms(1,2) hub_step_inv by (fastforce simp: sys_inv_def hub_ok_def)
  with assms(1,3) show ?thesis by (simp add: sys_inv_def sys_inv_defs lock_ok_def announced_def cong: option.case_cong)
qed

lemma sys_step_inv:
  assumes "sys_step c J memory_store json nodes s r" and "sys_inv c J json s" and "nodes \<noteq> []"
    and w: "0 \<le> cfg_WarningThresholdS c" "cfg_WarningThresholdS c < 2 ^ 33"
  shows "\<exists>t. r = Some t \<and> sys_inv c J json t"
  using assms(1,2)
proof (induction rule: sys_step.induct)
  case (thread i s now t)
  from thread_sys_inv [OF thread.hyps(2,1) thread.prems w] show ?case by blast
next
  case (request r s)
  from request_sys_inv [OF request.prems request.hyps] show ?case by blast
next
  case (read r s rt resp sv)
  obtain l where l: "sv = (sy_server s)\<lparr>sv_log := l\<rparr>" using serve_api_reads [OF read.hyps(1,3)] by blast
  from log_sys_inv [OF read.prems] show ?case unfolding l by blast
next
  case (recovered r s rt sv)
  obtain l where l: "sv = (sy_server s)\<lparr>sv_log := l\<rparr>" using serve_api_reads [OF recovered.hyps(1,3)] by blast
  from panics_sys_inv [OF log_sys_inv [OF recovered.prems]] show ?case unfolding l by simp
next
  case (tick s nanos now)
  have "0 \<le> go_mod nanos (int (length nodes))"
    using tick.hyps(2) assms(3) by (simp add: go_mod_pos)
  with assms(3) obtain hb where "live_heartbeat nodes nanos now = Some hb"
    by (simp add: live_heartbeat_def Let_def)
  then show ?case using tick_sys_inv [OF tick.prems tick.hyps(1)] by simp
next
  case (hub s r)
  then have "hub_inv (sy_hub s)" by (simp add: sys_inv_def hub_ok_def)
  from hub_step_inv [OF hub.hyps(1) this] obtain h where h: "r = Some h" by blast
  with hub_sys_inv [OF hub.prems, of h] hub.hyps show ?case by simp
qed

lemma sys_reach_inv:
  assumes "sys_reach c J memory_store json nodes NewMemoryStore s" and "nodes \<noteq> []"
    and "0 \<le> cfg_WarningThresholdS c" "cfg_WarningThresholdS c < 2 ^ 33"
  shows "sys_inv c J json s"
  using assms(1)
proof (induction rule: sys_reach.induct)
  case start
  show ?case by (rule start_sys_inv)
next
  case (step s t)
  from sys_step_inv [OF step.hyps(2) step.IH assms(2-4)] show ?case by simp
qed

section \<open>Which requests panic\<close>

text \<open>A replay whose page ends past the range of \<^verbatim>\<open>int\<close>, with the defaults for what is missing or below 1.\<close>

definition overflowing_page :: "request \<Rightarrow> bool" where
  "overflowing_page r \<longleftrightarrow> rq_method r = GET \<and> rq_path r = ''/api/replay'' \<and>
     (let page = int_param (query_get ''page'' (rq_params r));
          size = int_param (query_get ''pageSize'' (rq_params r))
      in 2 ^ 63 \<le> (if page < 1 then 1 else page) * (if size \<le> 0 then 1000 else size))"

lemma Query_panics:
  assumes "Query sorter S rps now q s = Inl SlicePanic"
  shows "2 ^ 63 \<le> (if q_Page q < 1 then 1 else q_Page q) * (if q_PageSize q \<le> 0 then 1000 else q_PageSize q)"
proof -
  let ?q = "effective rps now q"
  have e: "q_Page ?q = (if q_Page q < 1 then 1 else q_Page q)"
    "q_PageSize ?q = (if q_PageSize q \<le> 0 then 1000 else q_PageSize q)"
    by (simp_all add: effective_def Let_def defaultPageSize_def)
  obtain xs :: "EnrichedEvent list" where "paginate (q_Page ?q) (q_PageSize ?q) xs = None"
    using assms by (auto simp: Query_def Let_def split: sum.splits option.splits)
  moreover have "1 \<le> q_Page ?q" "1 \<le> q_PageSize ?q" by (simp_all add: e defaultPageSize_def)
  ultimately have "2 ^ 63 \<le> q_Page ?q * q_PageSize ?q" by (rule paginate_panic_only)
  then show ?thesis unfolding e .
qed

lemma serve_api_panics:
  assumes "serve_api c J S rt r sv = (None, sv')" and "sv_topoMap sv \<noteq> None" and "sv_predEngine sv \<noteq> None"
  shows "overflowing_page r"
proof -
  have n: "rq_method r \<noteq> OPTIONS" "fst (apiMux J S rt r sv) = None"
    using assms(1) by (auto simp: serve_api_def LoggingMiddleware_def setCORS_def split: if_splits prod.splits option.splits)
  then have p: "rq_path r = ''/api/replay''" "replayHandler (rt_sorter rt) (rt_parse_time rt) S (sv_replayStore sv)
      (rt_clocks rt) (rq_method r) (rq_params r) (sv_store sv) = None"
    using assms(2,3)
    by (auto simp: apiMux_def heartbeatHandler_def getHeartbeatsHandler_def ebpfEventsHandler_def networkTopologyHandler_def
        predictionAccuracyHandler_def Let_def split: if_splits sum.splits option.splits prod.splits)
  obtain n1 n2 n3 where c: "rt_clocks rt = (n1, n2, n3)" by (metis prod_cases3)
  let ?q = "parse_query (rt_parse_time rt) n1 n2 (rq_params r)"
  have "rq_method r = GET" and q: "Query (rt_sorter rt) S (sv_replayStore sv) n3 ?q (sv_store sv) = Inl SlicePanic"
    using p(2) by (auto simp: replayHandler_def c Let_def split: if_splits sum.splits replay_error.splits)
  have pq: "q_Page ?q = int_param (query_get ''page'' (rq_params r))"
    "q_PageSize ?q = int_param (query_get ''pageSize'' (rq_params r))"
    by (simp_all add: parse_query_def Let_def)
  show ?thesis unfolding overflowing_page_def Let_def
    by (intro conjI \<open>rq_method r = GET\<close> p(1) Query_panics [OF q, unfolded pq])
qed

lemma sys_step_panics:
  assumes "sys_step c J S json nodes s r" and "r = Some t" and "components_ok c s"
  shows "set (sy_panics t) \<subseteq> set (sy_panics s) \<union> Collect overflowing_page"
  using assms
proof (induction rule: sys_step.induct)
  case (thread i s now u)
  then have "thread_step json S now i s = Some t" by simp
  then show ?case by (auto simp: thread_step_def enter_def split: list.splits task.splits option.splits prod.splits if_splits)
next
  case (recovered r s rt sv)
  then have "overflowing_page r" by (intro serve_api_panics) (auto simp: components_ok_def)
  with recovered.prems(1) show ?case by auto
qed (auto split: option.splits)

lemma sys_reach_panics:
  assumes "sys_reach c J memory_store json nodes NewMemoryStore s" and "nodes \<noteq> []"
    and "0 \<le> cfg_WarningThresholdS c" "cfg_WarningThresholdS c < 2 ^ 33"
  shows "\<forall>r \<in> set (sy_panics s). overflowing_page r"
  using assms(1)
proof (induction rule: sys_reach.induct)
  case start
  show ?case by (simp add: start_system_def)
next
  case (step s t)
  have "components_ok c s" using sys_reach_inv [OF step.hyps(1) assms(2-4)] by (simp add: sys_inv_def)
  from sys_step_panics [OF step.hyps(2) refl this] step.IH show ?case by auto
qed

section \<open>No deadlock\<close>

text \<open>
  The steps that the server takes by itself: its goroutines and the broadcasts of the hub.  No new
  request, no tick and no client takes part.
\<close>

inductive inner_step ::
  "(WSMessage \<Rightarrow> 'm option) \<Rightarrow> 's Store \<Rightarrow> ('s, 'm) System \<Rightarrow> ('s, 'm) System \<Rightarrow> bool"
  for json S where
  thread: "i < length (sy_threads s) \<Longrightarrow> thread_step json S now i s = Some t \<Longrightarrow> inner_step json S s t"
| broadcast: "hub_broadcast (hs_hub (sy_hub s)) = m # rest \<Longrightarrow> hub_step (sy_hub s) (Some h) \<Longrightarrow>
    hub_broadcast (hs_hub h) = rest \<Longrightarrow> hs_log h = hs_log (sy_hub s) @ [m] \<Longrightarrow> hs_used h = hs_used (sy_hub s) \<Longrightarrow>
    inner_step json S s (s\<lparr>sy_hub := h\<rparr>)"

definition finished :: "('s, 'm) System \<Rightarrow> bool" where
  "finished s \<longleftrightarrow> set (sy_threads s) \<subseteq> {[]} \<and> hub_broadcast (hs_hub (sy_hub s)) = []"

definition work :: "('s, 'm) System \<Rightarrow> nat" where
  "work s = sum_list (map weights (sy_threads s)) + length (hub_broadcast (hs_hub (sy_hub s)))"

lemma inner_sys_step: "inner_step json S s t \<Longrightarrow> sys_step c J S json nodes s (Some t)"
proof (induction rule: inner_step.induct)
  case (thread i s now t)
  then show ?case by (rule sys_step.thread)
next
  case (broadcast s m rest h)
  have "sys_step c J S json nodes s (map_option (\<lambda>h. s\<lparr>sy_hub := h\<rparr>) (Some h))"
    by (rule sys_step.hub [OF broadcast.hyps(2)]) (use broadcast.hyps in \<open>auto simp: handed_def\<close>)
  then show ?case by simp
qed

lemma enter_queue:
  assumes "enter json i task s = Some u"
  shows "length (hub_broadcast (hs_hub (sy_hub u))) \<le>
      length (hub_broadcast (hs_hub (sy_hub s))) + length (sends [task])"
    and "hs_used (sy_hub u) = hs_used (sy_hub s)"
  using assms by (auto simp: enter_def broadcast_msg_def split: task.splits if_splits option.splits)

lemma inner_step_work: "inner_step json S s t \<Longrightarrow> work t < work s"
proof (induction rule: inner_step.induct)
  case (thread i s now t)
  from thread.hyps(2) show ?case
  proof (rule thread_stepE)
    fix task rest
    assume ts: "sy_threads s ! i = task # rest" and en: "enter json i task s \<noteq> None"
      and th: "sy_threads t = (sy_threads s)[i := fst (task_step S now task (sy_server s)) @ rest]"
      and hb: "sy_hub t = sy_hub (the (enter json i task s))"
    let ?new = "fst (task_step S now task (sy_server s))"
    have q: "length (hub_broadcast (hs_hub (sy_hub t))) \<le>
        length (hub_broadcast (hs_hub (sy_hub s))) + length (sends [task])"
      using en enter_queue(1) by (fastforce simp: hb)
    have n: "weights ?new + length (sends [task]) < weight task"
    proof (cases "\<exists>m. task = Send m")
      case False
      then have "sends [task] = []" by (cases task) simp_all
      then show ?thesis using task_step_weights [of S now task] by simp
    qed auto
    have "weights (task # rest) \<in> set (map weights (sy_threads s))"
      using thread.hyps(1) ts by (metis image_eqI nth_mem set_map)
    from member_le_sum_list [OF this] have "weight task + weights rest \<le> sum_list (map weights (sy_threads s))"
      by simp
    then show ?thesis
      using q n thread.hyps(1) ts by (simp add: work_def th map_update sum_list_update)
  qed
qed (simp add: work_def)

lemma inner_steps_work: "(inner_step json S ^^ n) s t \<Longrightarrow> n + work t \<le> work s"
proof (induction n arbitrary: t)
  case (Suc n)
  then obtain u where "(inner_step json S ^^ n) s u" "inner_step json S u t" by auto
  with Suc.IH [of u] inner_step_work [of json S u t] show ?case by simp
qed simp

text \<open>The hub can always broadcast what waits, and so the channel never stays full.\<close>

lemma on_broadcast_queue: "on_broadcast m order h = Some h' \<Longrightarrow> hub_broadcast h' = hub_broadcast h"
  by (induction m order h rule: on_broadcast.induct)
     (auto simp: deliver_def split: option.splits)

lemma hub_moves:
  assumes "hub_inv h" and "hub_broadcast (hs_hub h) \<noteq> []"
  shows "\<exists>m rest g. hub_broadcast (hs_hub h) = m # rest \<and> hub_step h (Some g) \<and>
    hub_broadcast (hs_hub g) = rest \<and> hs_log g = hs_log h @ [m] \<and> hs_used g = hs_used h"
proof -
  obtain m rest where q: "hub_broadcast (hs_hub h) = m # rest"
    using assms(2) by (cases "hub_broadcast (hs_hub h)") auto
  have "finite (hub_clients (hs_hub h))" using assms(1) finite_subset by (auto simp: hub_inv_def)
  then obtain order where o: "set order = hub_clients (hs_hub h)" "distinct order"
    using finite_distinct_list by blast
  from on_broadcast_inv [OF assms(1) q o(2,1)] obtain g where
    g: "on_broadcast m order ((hs_hub h)\<lparr>hub_broadcast := rest\<rparr>) = Some g" by blast
  have "hub_step h (Some (h\<lparr>hs_hub := g, hs_log := hs_log h @ [m]\<rparr>))"
    using hub_step.broadcast [OF q o(2,1)] by (simp add: g)
  with q on_broadcast_queue [OF g] show ?thesis by fastforce
qed

lemma thread_moves:
  assumes "i < length (sy_threads s)" and "sy_threads s ! i = task # rest" and "enter json i task s = Some u"
  shows "\<exists>t. inner_step json S s t"
  using assms by (auto simp: thread_step_def split_beta intro!: exI inner_step.thread [of i s json S undefined])

lemma enter_free:
  assumes "hub_broadcast (hs_hub (sy_hub s)) = []" and "(\<exists>e. task = RecordEvent e) \<longrightarrow> sy_lock s = None"
  shows "\<exists>u. enter json i task s = Some u"
  using assms by (auto simp: enter_def broadcast_msg_def broadcastCap_def split: task.split option.split)

lemma inner_progress:
  assumes "lock_ok s" and "hub_inv (sy_hub s)" and "\<not> finished s"
  shows "\<exists>t. inner_step json S s t"
proof (cases "hub_broadcast (hs_hub (sy_hub s)) = []")
  case False
  from hub_moves [OF assms(2) this] show ?thesis by (blast intro: inner_step.broadcast)
next
  case q: True
  with assms(3) obtain us where "us \<in> set (sy_threads s)" "us \<noteq> []" unfolding finished_def by blast
  then obtain i where "i < length (sy_threads s)" "sy_threads s ! i \<noteq> []" by (metis in_set_conv_nth)
  then obtain task rest where i: "i < length (sy_threads s)" "sy_threads s ! i = task # rest"
    by (cases "sy_threads s ! i") auto
  show ?thesis
  proof (cases "sy_lock s")
    case None
    then have "(\<exists>e. task = RecordEvent e) \<longrightarrow> sy_lock s = None" by simp
    from enter_free [where json = json and i = i, OF q this] thread_moves [OF i] show ?thesis by blast
  next
    case (Some j)
    from lock_okD(3) [OF assms(1) this] have j: "j < length (sy_threads s)" .
    from lock_okD(1) [OF assms(1) j Some] obtain ms us where h: "sy_threads s ! j = map Send ms @ Unlock # us"
      by (auto simp: holding_def)
    then obtain task' rest' where t: "sy_threads s ! j = task' # rest'" "task' = Unlock \<or> (\<exists>m. task' = Send m)"
      by (cases ms) auto
    then have "(\<exists>e. task' = RecordEvent e) \<longrightarrow> sy_lock s = None" by auto
    from enter_free [where json = json and i = j, OF q this] thread_moves [OF j t(1)] show ?thesis by blast
  qed
qed

lemma inner_finishes:
  assumes "sys_reach c J memory_store json nodes NewMemoryStore s" and "nodes \<noteq> []"
    and "0 \<le> cfg_WarningThresholdS c" "cfg_WarningThresholdS c < 2 ^ 33"
  shows "\<exists>t. (inner_step json memory_store)\<^sup>*\<^sup>* s t \<and> finished t"
  using assms(1)
proof (induction "work s" arbitrary: s rule: less_induct)
  case less
  show ?case
  proof (cases "finished s")
    case False
    have "lock_ok s" "hub_inv (sy_hub s)"
      using sys_reach_inv [OF less.prems assms(2-4)] by (simp_all add: sys_inv_def hub_ok_def)
    from inner_progress [OF this False] obtain u where u: "inner_step json memory_store s u" by blast
    have "sys_reach c J memory_store json nodes NewMemoryStore u"
      using less.prems inner_sys_step [OF u] by (rule sys_reach.step)
    from less.hyps [OF inner_step_work [OF u] this] u show ?thesis by (meson converse_rtranclp_into_rtranclp)
  qed auto
qed

text \<open>So can one goroutine alone, when no other one holds the mutex.\<close>

lemma solo_moves:
  assumes "lock_ok s" and "hub_inv (sy_hub s)" and i: "i < length (sy_threads s)" "sy_threads s ! i \<noteq> []"
    and free: "sy_lock s = None \<or> sy_lock s = Some i"
  shows "\<exists>t. solo_step S json now i s t \<and> inner_step json S s t \<and> (sy_lock t = None \<or> sy_lock t = Some i)"
proof (cases "hub_broadcast (hs_hub (sy_hub s)) = []")
  case False
  from hub_moves [OF assms(2) this] obtain m rest h where
    h: "hub_broadcast (hs_hub (sy_hub s)) = m # rest" "hub_step (sy_hub s) (Some h)"
      "hub_broadcast (hs_hub h) = rest" "hs_log h = hs_log (sy_hub s) @ [m]" "hs_used h = hs_used (sy_hub s)"
    by blast
  have "solo_step S json now i s (s\<lparr>sy_hub := h\<rparr>)" using h by (intro solo_step.hub) (simp_all add: handed_def)
  with inner_step.broadcast [OF h] free show ?thesis by (intro exI [of _ "s\<lparr>sy_hub := h\<rparr>"]) simp
next
  case q: True
  obtain task rest where ts: "sy_threads s ! i = task # rest" using i(2) by (cases "sy_threads s ! i") auto
  have "sy_lock s = None" if "task = RecordEvent e" for e
  proof (rule ccontr)
    assume "sy_lock s \<noteq> None"
    with free lock_okD(1) [OF assms(1) i(1)] ts that obtain ms us
      where "RecordEvent e # rest = map Send ms @ Unlock # us" by (auto simp: holding_def)
    then show False by (cases ms) simp_all
  qed
  then have "(\<exists>e. task = RecordEvent e) \<longrightarrow> sy_lock s = None" by blast
  from enter_free [where json = json and i = i, OF q this] obtain u
    where "enter json i task s = Some u" by blast
  with ts obtain t where t: "thread_step json S now i s = Some t" by (auto simp: thread_step_def split_beta)
  have "sy_lock t = None \<or> sy_lock t = Some i"
    by (rule thread_lock_cases [OF t assms(1) i(1)]) (use free in simp_all)
  with solo_step.thread [OF i(1) t] inner_step.thread [OF i(1) t] show ?thesis by blast
qed

lemma solo_finishes:
  assumes "sys_reach c J memory_store json nodes NewMemoryStore s" and "nodes \<noteq> []"
    and "0 \<le> cfg_WarningThresholdS c" "cfg_WarningThresholdS c < 2 ^ 33"
    and "i < length (sy_threads s)" and "sy_lock s = None \<or> sy_lock s = Some i"
  shows "\<exists>t. (solo_step memory_store json now i)\<^sup>*\<^sup>* s t \<and> sy_threads t ! i = []"
  using assms(1,5,6)
proof (induction "work s" arbitrary: s rule: less_induct)
  case less
  show ?case
  proof (cases "sy_threads s ! i = []")
    case False
    have "lock_ok s" "hub_inv (sy_hub s)"
      using sys_reach_inv [OF less.prems(1) assms(2-4)] by (simp_all add: sys_inv_def hub_ok_def)
    from solo_moves [OF this less.prems(2) False less.prems(3)] obtain u where
      u: "solo_step memory_store json now i s u" "inner_step json memory_store s u"
        "sy_lock u = None \<or> sy_lock u = Some i" by blast
    have "sys_reach c J memory_store json nodes NewMemoryStore u"
      using less.prems(1) inner_sys_step [OF u(2)] by (rule sys_reach.step)
    moreover have "length (sy_threads u) = length (sy_threads s)"
      using u(2)
    proof (induction rule: inner_step.induct)
      case (thread j s now t)
      from thread.hyps(2) show ?case by (rule thread_stepE) simp
    qed simp
    ultimately show ?thesis
      using less.hyps [OF inner_step_work [OF u(2)]] u(1,3) less.prems(2)
      by (metis converse_rtranclp_into_rtranclp)
  qed auto
qed

lemma inner_steps_reach:
  "(inner_step json S)\<^sup>*\<^sup>* s t \<Longrightarrow> sys_reach c J S json nodes s0 s \<Longrightarrow> sys_reach c J S json nodes s0 t"
  by (induction rule: rtranclp_induct) (blast intro: sys_reach.step inner_sys_step)+

lemma inner_step_frame:
  "inner_step json S s t \<Longrightarrow> sy_requests t = sy_requests s \<and> length (sy_threads t) = length (sy_threads s) \<and>
     hs_used (sy_hub t) = hs_used (sy_hub s)"
proof (induction rule: inner_step.induct)
  case (thread i s now t)
  from thread.hyps(2) show ?case
    by (rule thread_stepE) (use enter_queue(2) in fastforce)
qed simp_all

lemma inner_steps_frame:
  "(inner_step json S)\<^sup>*\<^sup>* s t \<Longrightarrow> sy_requests t = sy_requests s \<and> length (sy_threads t) = length (sy_threads s) \<and>
     hs_used (sy_hub t) = hs_used (sy_hub s)"
  by (induction rule: rtranclp_induct) (auto dest: inner_step_frame)

end
