(* ===== verification/ConcurrencyProperties.thy ===== *)
theory ConcurrencyProperties
  imports ConcurrencyInvariants ServerProperties
begin

text \<open>
  The properties of the server when requests overlap, for every interleaving of its goroutines and of the
  hub: no panic and no alert, no event of a request lost, repeated or out of order, no deadlock, and
  a request that runs alone is what the handlers of \<open>Server\<close> say.
\<close>

section \<open>The properties\<close>

lemma thread_progress:
  assumes "sys_inv c J json s" and "i < length (sy_threads s)"
  shows "prefix (saves (of_thread i (sy_done s))) (posted J (sy_requests s ! i))"
    and "subseq (saves (of_thread i (sy_done s))) (ms_kernelEvents (sv_store (sy_server s)))"
    and "subseq (sends (of_thread i (sy_done s))) (sv_outbox (sy_server s))"
    and "sy_threads s ! i = [] \<Longrightarrow> saves (of_thread i (sy_done s)) = posted J (sy_requests s ! i) \<and>
      ebpf_messages (sends (of_thread i (sy_done s))) = posted J (sy_requests s ! i) \<and>
      records (of_thread i (sy_done s)) = posted J (sy_requests s ! i)"
proof -
  have t: "thread_ok J (sy_requests s ! i) (sy_threads s ! i) (of_thread i (sy_done s))"
    and st: "stored_ok s" using assms by (simp_all add: sys_inv_def threads_ok_def)
  show "prefix (saves (of_thread i (sy_done s))) (posted J (sy_requests s ! i))"
    using t unfolding thread_ok_def by (metis prefixI)
  show "subseq (saves (of_thread i (sy_done s))) (ms_kernelEvents (sv_store (sy_server s)))"
    "subseq (sends (of_thread i (sy_done s))) (sv_outbox (sy_server s))"
    using st saves_subseq [OF subseq_of_thread] sends_subseq [OF subseq_of_thread] by (simp_all add: stored_ok_def)
  show "sy_threads s ! i = [] \<Longrightarrow> saves (of_thread i (sy_done s)) = posted J (sy_requests s ! i) \<and>
      ebpf_messages (sends (of_thread i (sy_done s))) = posted J (sy_requests s ! i) \<and>
      records (of_thread i (sy_done s)) = posted J (sy_requests s ! i)"
    using t by (auto simp: thread_ok_def)
qed

lemma ebpf_messages_subseq: "subseq ms ns \<Longrightarrow> subseq (ebpf_messages ms) (ebpf_messages ns)"
proof (induction rule: list_emb.induct)
  case (list_emb_Cons xs ys y)
  then show ?case by (cases y) (simp_all add: list_emb.list_emb_Cons)
next
  case (list_emb_Cons2 x y xs ys)
  then show ?case by (cases y) simp_all
qed simp

text \<open>C5: when requests overlap, the stored events are an interleaving of the posted ones: of each request
  a beginning, in its order, and nothing else; a request that was answered has stored all of its
  events and handed all of them to the hub, in its order.\<close>

theorem overlapping_posts_interleave:
  assumes "sys_reach c J memory_store json nodes NewMemoryStore s" and "nodes \<noteq> []"
    and "0 \<le> cfg_WarningThresholdS c" and "cfg_WarningThresholdS c < 2 ^ 33"
  shows "\<exists>got. mset (ms_kernelEvents (sv_store (sy_server s))) = (\<Sum>i < length (sy_threads s). mset (got i)) \<and>
    (\<forall>i < length (sy_threads s).
       prefix (got i) (posted J (sy_requests s ! i)) \<and>
       subseq (got i) (ms_kernelEvents (sv_store (sy_server s))) \<and>
       (sy_threads s ! i = [] \<longrightarrow> got i = posted J (sy_requests s ! i) \<and>
          subseq (got i) (ebpf_messages (sv_outbox (sy_server s)))))"
proof -
  have inv: "sys_inv c J json s" by (rule sys_reach_inv [OF assms])
  then have "stored_ok s" "threads_ok J s" by (simp_all add: sys_inv_def)
  then have "mset (ms_kernelEvents (sv_store (sy_server s))) =
      (\<Sum>i < length (sy_threads s). mset (saves (of_thread i (sy_done s))))"
    using mset_of_threads [of "sy_done s" "length (sy_threads s)" saves] by (simp add: stored_ok_def threads_ok_def)
  moreover have "subseq (posted J (sy_requests s ! i)) (ebpf_messages (sv_outbox (sy_server s)))"
    if "i < length (sy_threads s)" "sy_threads s ! i = []" for i
    using thread_progress(3,4) [OF inv that(1)] that(2) ebpf_messages_subseq by metis
  ultimately show ?thesis
    using thread_progress [OF inv] by (intro exI [of _ "\<lambda>i. saves (of_thread i (sy_done s))"]) auto
qed

text \<open>C36: once every request is answered, the topology is the summary of the stored audit events, taken in
  some order, and in that order each connection was announced to the hub once, at its first event.\<close>

theorem overlapping_topology:
  assumes "sys_reach c J memory_store json nodes NewMemoryStore s" and "nodes \<noteq> []"
    and "0 \<le> cfg_WarningThresholdS c" and "cfg_WarningThresholdS c < 2 ^ 33" and "finished s"
  shows "\<exists>m es. sv_topoMap (sy_server s) = Some m \<and>
    mset es = mset (ms_kernelEvents (sv_store (sy_server s))) \<and>
    tm_connections m = spec_connections (audits es) \<and>
    topo_messages (sv_outbox (sy_server s)) = announcements (audits es)"
proof -
  have inv: "sys_inv c J json s" by (rule sys_reach_inv [OF assms(1-4)])
  then have st: "stored_ok s" and th: "threads_ok J s" and lo: "lock_ok s"
    and an: "announced s = announcements (audits (records (map snd (sy_done s))))"
    by (simp_all add: sys_inv_def)
  have empty: "sy_threads s ! i = []" if "i < length (sy_threads s)" for i
    using assms(5) nth_mem [OF that] unfolding finished_def by blast
  have "sy_lock s = None"
    using lock_okD(1,3) [OF lo] empty by (cases "sy_lock s") (auto simp: holding_def)
  moreover have "mset (records (map snd (sy_done s))) = mset (saves (map snd (sy_done s)))"
  proof -
    have "\<forall>p \<in> set (sy_done s). fst p < length (sy_threads s)" using th by (simp add: threads_ok_def)
    note m = mset_of_threads [OF this]
    show ?thesis
      using thread_progress(4) [OF inv _ empty] m [of records] m [of saves] by simp
  qed
  ultimately show ?thesis
    using an inv st
    by (auto simp: sys_inv_def components_ok_def stored_ok_def announced_def
        intro!: exI [of _ "records (map snd (sy_done s))"])
qed

text \<open>C16: whatever overlaps, the process survives: no step of a goroutine, of the live loop, of a client or
  of the hub panics, and the only handlers that do, and whose panic \<^verbatim>\<open>net/http\<close> recovers, are those of replays
  whose page ends past the range of \<^verbatim>\<open>int\<close>.  No alert is broadcast and no webhook is called: a heartbeat is
  stored before its goroutine evaluates it, and stays stored.\<close>

theorem overlapping_server_is_safe:
  assumes "sys_reach c J memory_store json nodes NewMemoryStore s" and "nodes \<noteq> []"
    and "0 \<le> cfg_WarningThresholdS c" and "cfg_WarningThresholdS c < 2 ^ 33"
  shows "\<not> sys_step c J memory_store json nodes s None \<and> (\<forall>r \<in> set (sy_panics s). overflowing_page r) \<and>
    sv_posts (sy_server s) = [] \<and> ''alert'' \<notin> ws_Type ` set (sv_outbox (sy_server s))"
  using sys_reach_inv [OF assms] sys_step_inv [OF _ _ assms(2-4)] sys_reach_panics [OF assms]
  by (auto simp: sys_inv_def quiet_ok_def no_alerts_def)

text \<open>C8: no deadlock: as long as a request is unanswered or a message waits, a goroutine or the hub can
  move, without any client; and they move at most as often as there is work, so that every
  request is answered and every message broadcast.\<close>

theorem handlers_finish:
  assumes "sys_reach c J memory_store json nodes NewMemoryStore s" and "nodes \<noteq> []"
    and "0 \<le> cfg_WarningThresholdS c" and "cfg_WarningThresholdS c < 2 ^ 33"
  shows "(finished s \<or> (\<exists>t. inner_step json memory_store s t)) \<and>
    (\<forall>n t. (inner_step json memory_store ^^ n) s t \<longrightarrow> n \<le> work s) \<and>
    (\<exists>t. (inner_step json memory_store)\<^sup>*\<^sup>* s t \<and> finished t)"
proof -
  have "lock_ok s" "hub_inv (sy_hub s)"
    using sys_reach_inv [OF assms] by (simp_all add: sys_inv_def hub_ok_def)
  from inner_progress [OF this] inner_finishes [OF assms] show ?thesis
    using inner_steps_work by fastforce
qed

text \<open>A request whose handler writes and runs without others in between leaves the server exactly as
  the sequential handler does, whatever the hub and the clients do meanwhile.\<close>

lemma alone_is_sequential:
  assumes "writing r" and "sy_threads s ! i = handler_tasks J r"
    and "(solo_step S json (rt_now rt) i)\<^sup>*\<^sup>* s t" and "sy_threads t ! i = []"
  shows "sy_server t = snd (serve_api c J S rt r (sy_server s))"
  using solo_run [OF assms(3)] run_alone_handler [OF assms(1), of S rt J "sy_server s" c] assms(2,4) by simp

text \<open>C10: what a WebSocket client has been written is a gap-free stretch of what the handlers handed to the
  hub, in the order in which their messages entered its channel; a client that is still registered
  has everything from its registration on, once the hub and its writer have caught up.\<close>

theorem clients_see_the_handlers:
  assumes "sys_reach c J memory_store json nodes NewMemoryStore s" and "nodes \<noteq> []"
    and "0 \<le> cfg_WarningThresholdS c" and "cfg_WarningThresholdS c < 2 ^ 33"
    and "i \<in> hs_used (sy_hub s)"
  shows "prefix (hs_written (sy_hub s) i)
      (drop (hs_joined (sy_hub s) i) (List.map_filter json (sv_outbox (sy_server s)))) \<and>
    (i \<in> hub_clients (hs_hub (sy_hub s)) \<and> hub_broadcast (hs_hub (sy_hub s)) = [] \<and>
     ch_buf (hub_send (hs_hub (sy_hub s)) i) = [] \<longrightarrow>
     hs_written (sy_hub s) i =
       drop (hs_joined (sy_hub s) i) (List.map_filter json (sv_outbox (sy_server s))))"
proof -
  have h: "hub_inv (sy_hub s)" "handed (sy_hub s) = List.map_filter json (sv_outbox (sy_server s))"
    using sys_reach_inv [OF assms(1-4)] by (simp_all add: sys_inv_def hub_ok_def)
  from hub_inv_chan [OF h(1) assms(5)] have ok: "chan_ok (sy_hub s) i" .
  have "prefix (hs_written (sy_hub s) i) (stream (sy_hub s) i)" by (simp add: stream_def)
  also have "prefix \<dots> (drop (hs_joined (sy_hub s) i) (hs_log (sy_hub s)))" using ok by (simp add: chan_ok_def)
  also have "prefix \<dots> (drop (hs_joined (sy_hub s) i) (handed (sy_hub s)))"
    using ok by (simp add: handed_def chan_ok_def)
  finally show ?thesis
    using ok unfolding h(2) [symmetric] by (auto simp: chan_ok_def stream_def handed_def)
qed

section \<open>Witnesses\<close>

text \<open>A client and two overlapping posts of two events each, run to their end.\<close>

definition post_events :: request where
  "post_events = post ''/api/ebpf/events'' ''events''"

abbreviation demo_reach :: "(MemoryStore, WSMessage) System \<Rightarrow> bool" where
  "demo_reach \<equiv> sys_reach default_Config sample_codec memory_store Some [(''node-1'', ''Ready'')] NewMemoryStore"

lemma demo_thresholds:
  "[(''node-1'', ''Ready'')] \<noteq> []" "0 \<le> cfg_WarningThresholdS default_Config"
  "cfg_WarningThresholdS default_Config < 2 ^ 33"
  by (simp_all add: default_Config_def)

lemma post_events_tasks:
  "writing post_events" "posted sample_codec (Some post_events) = [exit_event, audit_event]"
  by (simp_all add: post_events_def post_def writing_def posted_def decode_posted_def sample_codec_def)

lemma demo_finishes:
  "\<exists>s. demo_reach s \<and> finished s \<and> length (sy_threads s) = 3 \<and>
     sy_requests s = [None, Some post_events, Some post_events] \<and> 0 \<in> hs_used (sy_hub s)"
proof -
  let ?s0 = "start_system (start_server default_Config NewMemoryStore) :: (MemoryStore, WSMessage) System"
  let ?h = "ServeWS 0 (sy_hub ?s0)"
  let ?ts = "handler_tasks sample_codec post_events"
  let ?s1 = "?s0\<lparr>sy_hub := ?h\<rparr>"
  let ?s2 = "?s1\<lparr>sy_threads := sy_threads ?s1 @ [?ts], sy_requests := sy_requests ?s1 @ [Some post_events]\<rparr>"
  let ?s3 = "?s2\<lparr>sy_threads := sy_threads ?s2 @ [?ts], sy_requests := sy_requests ?s2 @ [Some post_events]\<rparr>"
  have r0: "demo_reach ?s0" by (rule sys_reach.start)
  have "hub_step (sy_hub ?s0) (Some ?h)"
    by (rule hub_step.serve) (simp add: start_system_def init_hub_def)
  then have "sys_step default_Config sample_codec memory_store Some [(''node-1'', ''Ready'')] ?s0
      (map_option (\<lambda>h. ?s0\<lparr>sy_hub := h\<rparr>) (Some ?h))"
    by (rule sys_step.hub) (simp add: handed_def)
  then have r1: "demo_reach ?s1" using r0 by (auto intro: sys_reach.step)
  have r2: "demo_reach ?s2" using r1 by (rule sys_reach.step) (rule sys_step.request [OF post_events_tasks(1)])
  have r3: "demo_reach ?s3" using r2 by (rule sys_reach.step) (rule sys_step.request [OF post_events_tasks(1)])
  from inner_finishes [OF r3 demo_thresholds] obtain t where
    t: "(inner_step Some memory_store)\<^sup>*\<^sup>* ?s3 t" "finished t" by blast
  have "sy_requests t = [None, Some post_events, Some post_events]" "length (sy_threads t) = 3"
    "0 \<in> hs_used (sy_hub t)"
    using inner_steps_frame [OF t(1)] by (simp_all add: start_system_def)
  with inner_steps_reach [OF t(1) r3] t(2) show ?thesis by blast
qed

theorem overlapping_posts_interleave_witness:
  "\<exists>s. demo_reach s \<and> finished s \<and>
     mset (ms_kernelEvents (sv_store (sy_server s))) = {#exit_event, audit_event, exit_event, audit_event#} \<and>
     subseq [exit_event, audit_event] (ebpf_messages (sv_outbox (sy_server s)))"
proof -
  obtain s where s: "demo_reach s" "finished s" "length (sy_threads s) = 3"
    "sy_requests s = [None, Some post_events, Some post_events]"
    using demo_finishes by blast
  have nil: "sy_threads s ! i = []" if "i < 3" for i
    using s(2,3) that nth_mem [of i "sy_threads s"] unfolding finished_def by (metis singletonD subsetD)
  obtain got where m: "mset (ms_kernelEvents (sv_store (sy_server s))) = (\<Sum>i < length (sy_threads s). mset (got i))"
    and all: "\<forall>i < length (sy_threads s). prefix (got i) (posted sample_codec (sy_requests s ! i)) \<and>
       subseq (got i) (ms_kernelEvents (sv_store (sy_server s))) \<and>
       (sy_threads s ! i = [] \<longrightarrow> got i = posted sample_codec (sy_requests s ! i) \<and>
          subseq (got i) (ebpf_messages (sv_outbox (sy_server s))))"
    using overlapping_posts_interleave [OF s(1) demo_thresholds] by blast
  have g: "got i = posted sample_codec (sy_requests s ! i)" "subseq (got i) (ebpf_messages (sv_outbox (sy_server s)))"
    if "i < 3" for i
    using spec [OF all, of i] nil [OF that] that unfolding s(3) by blast+
  have p: "posted sample_codec None = []" by (simp add: posted_def)
  have "got 0 = []" "got 1 = [exit_event, audit_event]" "got 2 = [exit_event, audit_event]"
    using g(1) [of 0] g(1) [of 1] g(1) [of 2] post_events_tasks(2) p by (simp_all add: s(4))
  moreover from this g(2) [of 1] have "subseq [exit_event, audit_event] (ebpf_messages (sv_outbox (sy_server s)))"
    by simp
  ultimately show ?thesis using m s(1-3) by (auto simp: numeral_3_eq_3 numeral_2_eq_2)
qed

theorem overlapping_topology_witness:
  "\<exists>s es m. demo_reach s \<and> sv_topoMap (sy_server s) = Some m \<and>
     mset es = mset (ms_kernelEvents (sv_store (sy_server s))) \<and> tm_connections m = spec_connections (audits es)"
  using demo_finishes overlapping_topology [OF _ demo_thresholds] by metis

text \<open>After the two posts, a replay of a page that is out of range.\<close>

definition overflow_request :: request where
  "overflow_request = \<lparr>rq_method = GET, rq_path = ''/api/replay'', rq_params = overflow_params, rq_body = []\<rparr>"

lemma overflow_request_panics:
  "\<exists>sv'. serve_api c J memory_store sample_runtime overflow_request sv = (None, sv')"
proof -
  let ?q = "parse_query (\<lambda>_. None) 0 0 overflow_params"
  have "q_Page ?q = 9223372036854775807" "q_PageSize ?q = 1000"
    by (simp_all add: parse_query_def Let_def query_get_def overflow_params_def overflow_values)
  then have "Query insertion_sort memory_store rps 0 ?q m = Inl SlicePanic" for rps m
    by (intro Query_overflow) (simp_all add: i64_def)
  moreover have "query_get ''node'' overflow_params \<noteq> []"
    by (simp add: query_get_def overflow_params_def)
  ultimately show ?thesis
    by (simp add: overflow_request_def serve_api_def LoggingMiddleware_def setCORS_def apiMux_def replayHandler_def
        sample_runtime_def Let_def)
qed

theorem overlapping_server_is_safe_witness:
  "\<exists>s. demo_reach s \<and> length (sy_threads s) = 3 \<and> sy_panics s \<noteq> [] \<and> overflowing_page (last (sy_panics s)) \<and>
     \<not> sys_step default_Config sample_codec memory_store Some [(''node-1'', ''Ready'')] s None"
proof -
  obtain s where s: "demo_reach s" "length (sy_threads s) = 3" using demo_finishes by blast
  obtain sv where sv: "serve_api default_Config sample_codec memory_store sample_runtime overflow_request (sy_server s) = (None, sv)"
    using overflow_request_panics by blast
  let ?t = "s\<lparr>sy_server := sv, sy_panics := sy_panics s @ [overflow_request]\<rparr>"
  have "\<not> writing overflow_request" "\<not> reads_topology overflow_request"
    by (simp_all add: writing_def reads_topology_def overflow_request_def)
  then have "sys_step default_Config sample_codec memory_store Some [(''node-1'', ''Ready'')] s (Some ?t)"
    using sv by (intro sys_step.recovered) simp_all
  with s(1) have t: "demo_reach ?t" by (rule sys_reach.step)
  from overlapping_server_is_safe [OF t demo_thresholds] t s(2) show ?thesis
    by (intro exI [of _ ?t]) auto
qed

theorem handlers_finish_witness:
  "\<exists>s t. demo_reach s \<and> (inner_step Some memory_store)\<^sup>*\<^sup>* s t \<and> finished t"
  using demo_finishes handlers_finish [OF _ demo_thresholds] by metis

theorem clients_see_the_handlers_witness:
  "\<exists>s. demo_reach s \<and> prefix (hs_written (sy_hub s) 0)
     (drop (hs_joined (sy_hub s) 0) (List.map_filter Some (sv_outbox (sy_server s))))"
  using demo_finishes clients_see_the_handlers [OF _ demo_thresholds] by metis

lemma alone_is_sequential_witness:
  "\<exists>s t :: (MemoryStore, WSMessage) System. demo_reach s \<and>
     (solo_step memory_store Some (rt_now sample_runtime) 1)\<^sup>*\<^sup>* s t \<and> sy_threads t ! 1 = [] \<and>
     sy_server t = snd (serve_api default_Config sample_codec memory_store sample_runtime post_events (sy_server s))"
proof -
  let ?s = "start_system (start_server default_Config NewMemoryStore) :: (MemoryStore, WSMessage) System"
  let ?t = "?s\<lparr>sy_threads := sy_threads ?s @ [handler_tasks sample_codec post_events],
    sy_requests := sy_requests ?s @ [Some post_events]\<rparr>"
  have "demo_reach ?s" by (rule sys_reach.start)
  then have r: "demo_reach ?t" by (rule sys_reach.step) (rule sys_step.request [OF post_events_tasks(1)])
  have t: "sy_threads ?t ! 1 = handler_tasks sample_codec post_events" "1 < length (sy_threads ?t)"
    "sy_lock ?t = None \<or> sy_lock ?t = Some 1"
    by (simp_all add: start_system_def)
  from solo_finishes [OF r demo_thresholds t(2,3)] obtain u where
    u: "(solo_step memory_store Some (rt_now sample_runtime) 1)\<^sup>*\<^sup>* ?t u" "sy_threads u ! 1 = []" by blast
  from alone_is_sequential [OF post_events_tasks(1) t(1) u] r u show ?thesis by blast
qed

end
