(* ===== verification/ServerMain.thy ===== *)
theory ServerMain
  imports SimModes ConcurrencyInvariants RedisStore EventJson
begin

text \<open>
  The server's \<^verbatim>\<open>main\<close> (\<^verbatim>\<open>src/src/server/main.go\<close>) from its flags and environment to the running server: the
  log file, the choice of the store, the components, and the nodes of the live heartbeats, with every
  fatal error on the way.  From there on the server is the system of \<open>Concurrency\<close>.
\<close>

section \<open>Inputs\<close>

record Flags =
  fg_simMode :: bool
  fg_simDuration :: Duration
  fg_simNodes :: int
  fg_simOutput :: string
  fg_simSeed :: int
  fg_ebpf :: bool

definition default_Flags :: Flags where
  "default_Flags = \<lparr>fg_simMode = False, fg_simDuration = 4 * Hour, fg_simNodes = 50, fg_simOutput = [],
     fg_simSeed = 0, fg_ebpf = False\<rparr>"

text \<open>
  What the start meets: whether the log file opens, whether directories and files can be written, the
  random sources, the clocks, and the Redis server behind an address.
\<close>

record 'r World =
  wd_log_file :: "string \<Rightarrow> bool"
  wd_dir :: bool
  wd_file :: "string \<Rightarrow> bool"
  wd_source :: "int \<Rightarrow> Rand"
  wd_rand :: Rand
  wd_now0 :: Time
  wd_now :: Time
  wd_nows :: "nat \<Rightarrow> Time"
  wd_redis :: "string \<Rightarrow> 'r RedisStore"
  wd_remote :: 'r

definition podInfos :: "PodInfo list" where
  "podInfos = [\<lparr>po_PodName = ''demo-pod'', po_Namespace = ''default'', po_NodeName = ''node-01'',
     po_ContainerIDs = [''node-01''], po_CgroupPaths = [''/sys/fs/cgroup/kubepods/node-01'']\<rparr>]"

section \<open>The start\<close>

datatype startup_error =
    LogFileFailed
  | MemoryUnreachable store_error
  | RedisUnreachable redis_error
  | SimulationFailed mode_error
  | MockPanic

text \<open>The store that the configuration asks for, once it answers a ping.\<close>

definition open_store :: "'r World \<Rightarrow> Config \<Rightarrow> startup_error + (MemoryStore + 'r)" where
  "open_store W c =
    (if cfg_StoreType c = ''redis''
     then case RedisStore_Ping (wd_redis W (cfg_RedisAddr c)) (wd_remote W) of
            Some err \<Rightarrow> Inl (RedisUnreachable err)
          | None \<Rightarrow> Inr (Inr (wd_remote W))
     else case MemoryStore_Ping NewMemoryStore of
            Some err \<Rightarrow> Inl (MemoryUnreachable err)
          | None \<Rightarrow> Inr (Inl NewMemoryStore))"

text \<open>The nodes without the simulation, and what is printed of the mock events.\<close>

definition mock_mode ::
  "'r World \<Rightarrow> startup_error + MockNode list \<times> (MockEBPFEvent \<times> PodInfo option) list" where
  "mock_mode W =
    (case GenerateMockNodes (wd_now W) (wd_rand W) of
       (nodes, r) \<Rightarrow>
         (case SimulateEBPFActivity (wd_now W) nodes podInfos r of
            None \<Rightarrow> Inl MockPanic
          | Some lines \<Rightarrow> Inr (nodes, lines)))"

definition prepare_nodes :: "'r World \<Rightarrow> Flags \<Rightarrow> startup_error + MockNode list \<times> (string \<times> file_content) list" where
  "prepare_nodes W fg =
    (if fg_simMode fg
     then case sim_mode (wd_source W) (wd_now0 W) (wd_now W) (wd_nows W)
                 (sim_mode_config (fg_simNodes fg) (fg_simDuration fg) (fg_simSeed fg))
                 (fg_simOutput fg) (wd_dir W) (wd_file W) of
            Inl err \<Rightarrow> Inl (SimulationFailed err)
          | Inr res \<Rightarrow> Inr res
     else case mock_mode W of
            Inl err \<Rightarrow> Inl err
          | Inr (nodes, lines) \<Rightarrow> Inr (nodes, []))"

text \<open>The server that listens at the end: its store is one of the two.\<close>

record 'r Started =
  sd_cfg :: Config
  sd_ebpfEnabled :: bool
  sd_server :: "MemoryStore Server + 'r Server"
  sd_nodes :: "MockNode list"
  sd_files :: "(string \<times> file_content) list"

definition server_main :: "'r World \<Rightarrow> env \<Rightarrow> Flags \<Rightarrow> startup_error + 'r Started" where
  "server_main W env fg =
    (let c = LoadConfig env in
     if \<not> wd_log_file W (cfg_LogFilePath c) then Inl LogFileFailed
     else case open_store W c of
            Inl err \<Rightarrow> Inl err
          | Inr st \<Rightarrow>
              let sv = (case st of Inl m \<Rightarrow> Inl (start_server c m) | Inr r \<Rightarrow> Inr (start_server c r))
              in case prepare_nodes W fg of
                   Inl err \<Rightarrow> Inl err
                 | Inr (nodes, files) \<Rightarrow>
                     Inr \<lparr>sd_cfg = c, sd_ebpfEnabled = fg_ebpf fg, sd_server = sv, sd_nodes = nodes, sd_files = files\<rparr>)"

section \<open>The nodes\<close>

lemma mock_nodes_names:
  "map mn_Name (fst (mock_nodes_from now is r)) = map (\<lambda>i. ''node-'' @ pad_int 2 (int i + 1)) is \<and>
   (\<forall>n \<in> set (fst (mock_nodes_from now is r)). mn_Status n = ''Ready'')"
  by (induction "is" arbitrary: r) (simp_all add: split_beta)

lemma mock_mode_nodes:
  "\<exists>nodes lines. mock_mode W = Inr (nodes, lines) \<and>
     map mn_Name nodes = map (\<lambda>i. ''node-'' @ pad_int 2 (int i + 1)) [0..<50] \<and>
     (\<forall>n \<in> set nodes. mn_Status n = ''Ready'')"
proof -
  obtain nodes r where n: "GenerateMockNodes (wd_now W) (wd_rand W) = (nodes, r)" by fastforce
  then have names: "map mn_Name nodes = map (\<lambda>i. ''node-'' @ pad_int 2 (int i + 1)) [0..<50]"
    "\<forall>n \<in> set nodes. mn_Status n = ''Ready''"
    using mock_nodes_names [of "wd_now W" "[0..<50]" "wd_rand W"] by (simp_all add: GenerateMockNodes_def)
  then have "nodes \<noteq> []" by auto
  then obtain lines where "SimulateEBPFActivity (wd_now W) nodes podInfos r = Some lines"
    by (auto simp: SimulateEBPFActivity_def GenerateMockEBPFEvents_def split: prod.split)
  with n names show ?thesis by (simp add: mock_mode_def)
qed

lemma prepared_nodes:
  assumes "prepare_nodes W fg = Inr (nodes, files)" and "fg_simNodes fg < 2 ^ 53"
  shows "nodes \<noteq> [] \<and> (\<forall>n \<in> set nodes. mn_Status n = ''Ready'') \<and>
    length nodes = (if fg_simMode fg then nat (fg_simNodes fg) else 50)"
proof (cases "fg_simMode fg")
  case True
  with assms(1) have "sim_mode (wd_source W) (wd_now0 W) (wd_now W) (wd_nows W)
      (sim_mode_config (fg_simNodes fg) (fg_simDuration fg) (fg_simSeed fg))
      (fg_simOutput fg) (wd_dir W) (wd_file W) = Inr (nodes, files)"
    by (simp add: prepare_nodes_def split: sum.splits)
  from sim_mode_nodes [OF this assms(2)] have n: "map mn_Name nodes = map node_name [0..<nat (fg_simNodes fg)]"
    "0 < fg_simNodes fg" "\<forall>n \<in> set nodes. mn_Status n = ''Ready''" by blast+
  from arg_cong [OF n(1), of length] have "length nodes = nat (fg_simNodes fg)" by simp
  with n True show ?thesis by auto
next
  case False
  obtain ns lines where m: "mock_mode W = Inr (ns, lines)" "\<forall>n \<in> set ns. mn_Status n = ''Ready''"
    and names: "map mn_Name ns = map (\<lambda>i. ''node-'' @ pad_int 2 (int i + 1)) [0..<50]"
    using mock_mode_nodes [of W] by blast
  from arg_cong [OF names, of length] have "length ns = 50" by simp
  moreover have "nodes = ns" using False assms(1) m(1) by (simp add: prepare_nodes_def)
  ultimately show ?thesis using False m(2) by auto
qed

section \<open>Properties\<close>

definition store_answers :: "'r World \<Rightarrow> Config \<Rightarrow> bool" where
  "store_answers W c \<longleftrightarrow>
     cfg_StoreType c \<noteq> ''redis'' \<or> rd_Ping (rs_client (wd_redis W (cfg_RedisAddr c))) (wd_remote W) = None"

text \<open>C32: the server comes up exactly when its log file opens, the store answers, which only Redis can
  refuse, and, in simulation mode, the simulation can be configured and its files can be written; the
  first of these that fails is the fatal error, in this order.  Without the simulation nothing
  else can fail: the mock nodes are never empty.\<close>

theorem server_main_outcomes:
  shows "(case server_main W env fg of
      Inl LogFileFailed \<Rightarrow> \<not> wd_log_file W (cfg_LogFilePath (LoadConfig env))
    | Inl (MemoryUnreachable err) \<Rightarrow> False
    | Inl (RedisUnreachable err) \<Rightarrow> wd_log_file W (cfg_LogFilePath (LoadConfig env)) \<and>
        cfg_StoreType (LoadConfig env) = ''redis'' \<and>
        rd_Ping (rs_client (wd_redis W (cfg_RedisAddr (LoadConfig env)))) (wd_remote W) = Some err
    | Inl (SimulationFailed err) \<Rightarrow> wd_log_file W (cfg_LogFilePath (LoadConfig env)) \<and>
        store_answers W (LoadConfig env) \<and> fg_simMode fg \<and>
        sim_mode (wd_source W) (wd_now0 W) (wd_now W) (wd_nows W)
          (sim_mode_config (fg_simNodes fg) (fg_simDuration fg) (fg_simSeed fg))
          (fg_simOutput fg) (wd_dir W) (wd_file W) = Inl err
    | Inl MockPanic \<Rightarrow> False
    | Inr d \<Rightarrow> wd_log_file W (cfg_LogFilePath (LoadConfig env)) \<and> store_answers W (LoadConfig env) \<and>
        prepare_nodes W fg = Inr (sd_nodes d, sd_files d) \<and>
        sd_cfg d = LoadConfig env \<and> sd_ebpfEnabled d = fg_ebpf fg \<and>
        sd_server d = (if cfg_StoreType (LoadConfig env) = ''redis''
          then Inr (start_server (LoadConfig env) (wd_remote W))
          else Inl (start_server (LoadConfig env) NewMemoryStore)))"
proof -
  obtain nodes lines where "mock_mode W = Inr (nodes, lines)" using mock_mode_nodes [of W] by blast
  then show ?thesis
    by (auto simp: server_main_def open_store_def store_answers_def prepare_nodes_def Let_def MemoryStore_Ping_def
        RedisStore_Ping_def split: sum.split option.split startup_error.split)
qed

text \<open>C14: a server that has come up on the in-memory store runs safely, in both modes and for every
  interleaving of requests, live heartbeats, clients and the hub: no panic ends the process, the remainder
  by the number of nodes included, the only handlers that panic (and are recovered) are those of replays
  whose page ends past the range of \<^verbatim>\<open>int\<close>, no alert is sent, and while there is work left a goroutine
  or the hub can go on.\<close>

theorem started_server_runs_safely:
  assumes "server_main W env fg = Inr d" and "cfg_StoreType (LoadConfig env) \<noteq> ''redis''"
    and "fg_simNodes fg < 2 ^ 53"
    and "0 \<le> cfg_WarningThresholdS (LoadConfig env)" and "cfg_WarningThresholdS (LoadConfig env) < 2 ^ 33"
  shows "\<exists>sv. sd_server d = Inl sv \<and>
    (\<forall>s. sys_reach (sd_cfg d) J memory_store json (live_view (sd_nodes d)) (sv_store sv) s \<longrightarrow>
       \<not> sys_step (sd_cfg d) J memory_store json (live_view (sd_nodes d)) s None \<and>
       (\<forall>r \<in> set (sy_panics s). overflowing_page r) \<and>
       sv_posts (sy_server s) = [] \<and> ''alert'' \<notin> ws_Type ` set (sv_outbox (sy_server s)) \<and>
       (finished s \<or> (\<exists>t. inner_step json memory_store s t)))"
proof -
  have d: "sd_cfg d = LoadConfig env" "sd_server d = Inl (start_server (LoadConfig env) NewMemoryStore)"
    and "\<exists>files. prepare_nodes W fg = Inr (sd_nodes d, files)"
    using assms(1,2) by (auto simp: server_main_def open_store_def Let_def split: sum.splits option.splits if_splits)
  then have ne: "live_view (sd_nodes d) \<noteq> []" using prepared_nodes assms(3) by (auto simp: live_view_def)
  have "\<not> sys_step (LoadConfig env) J memory_store json (live_view (sd_nodes d)) s None \<and>
      (\<forall>r \<in> set (sy_panics s). overflowing_page r) \<and>
      sv_posts (sy_server s) = [] \<and> ''alert'' \<notin> ws_Type ` set (sv_outbox (sy_server s)) \<and>
      (finished s \<or> (\<exists>t. inner_step json memory_store s t))"
    if "sys_reach (LoadConfig env) J memory_store json (live_view (sd_nodes d)) NewMemoryStore s" for s
    using sys_reach_inv [OF that ne assms(4,5)] sys_step_inv [OF _ _ ne assms(4,5)] inner_progress [of s json memory_store]
      sys_reach_panics [OF that ne assms(4,5)]
    by (fastforce simp: sys_inv_def quiet_ok_def hub_ok_def no_alerts_def)
  then show ?thesis using d by (simp add: start_server_def)
qed

definition demo_world :: "list_redis World" where
  "demo_world = \<lparr>wd_log_file = (\<lambda>_. True), wd_dir = True, wd_file = (\<lambda>_. True), wd_source = (\<lambda>_. demo_tape),
     wd_rand = demo_tape, wd_now0 = 0, wd_now = 0, wd_nows = (\<lambda>_. 0), wd_redis = (\<lambda>_. demo_redis),
     wd_remote = empty_redis\<rparr>"

theorem started_server_runs_safely_witness:
  "\<exists>d sv s :: (MemoryStore, WSMessage) System. server_main demo_world (\<lambda>_. []) default_Flags = Inr d \<and>
     sd_server d = Inl sv \<and> length (sd_nodes d) = 50 \<and>
     s = start_system (start_server (sd_cfg d) (sv_store sv)) \<and>
     \<not> sys_step (sd_cfg d) (go_json (\<lambda>_. ''EOF'')) memory_store Some (live_view (sd_nodes d)) s None"
proof -
  let ?c = "LoadConfig (\<lambda>_. [])"
  have c: "?c = default_Config" by (simp add: LoadConfig_def env_string_def env_int_def default_Config_def)
  obtain nodes lines where m: "mock_mode demo_world = Inr (nodes, lines)"
    and names: "map mn_Name nodes = map (\<lambda>i. ''node-'' @ pad_int 2 (int i + 1)) [0..<50]"
    using mock_mode_nodes [of demo_world] by blast
  from arg_cong [OF names, of length] have len: "length nodes = 50" by simp
  have t: "cfg_StoreType ?c \<noteq> ''redis''" "fg_simNodes default_Flags < 2 ^ 53"
    "0 \<le> cfg_WarningThresholdS ?c" "cfg_WarningThresholdS ?c < 2 ^ 33"
    by (simp_all add: c default_Config_def default_Flags_def)
  obtain d where d: "server_main demo_world (\<lambda>_. []) default_Flags = Inr d" "sd_nodes d = nodes" "sd_cfg d = ?c"
    using m t(1) by (simp add: server_main_def open_store_def prepare_nodes_def Let_def MemoryStore_Ping_def
        demo_world_def default_Flags_def)
  obtain sv where sv: "sd_server d = Inl sv" and safe:
    "\<forall>s :: (MemoryStore, WSMessage) System.
       sys_reach (sd_cfg d) (go_json (\<lambda>_. ''EOF'')) memory_store Some (live_view (sd_nodes d)) (sv_store sv) s \<longrightarrow>
       \<not> sys_step (sd_cfg d) (go_json (\<lambda>_. ''EOF'')) memory_store Some (live_view (sd_nodes d)) s None \<and>
       (\<forall>r \<in> set (sy_panics s). overflowing_page r) \<and>
       sv_posts (sy_server s) = [] \<and> ''alert'' \<notin> ws_Type ` set (sv_outbox (sy_server s)) \<and>
       (finished s \<or> (\<exists>t. inner_step Some memory_store s t))"
    using started_server_runs_safely [OF d(1) t, where J = "go_json (\<lambda>_. ''EOF'')" and json = Some] by blast
  have "sys_reach (sd_cfg d) (go_json (\<lambda>_. ''EOF'')) memory_store Some (live_view (sd_nodes d)) (sv_store sv)
      (start_system (start_server (sd_cfg d) (sv_store sv)))" by (rule sys_reach.start)
  with safe d sv len show ?thesis by blast
qed

end
