(* ===== verification/ClusterMonitor.thy ===== *)
theory ClusterMonitor
  imports KubeMonitor "HOL-Library.Sublist"
begin

text \<open>
  The heartbeat monitor of \<^verbatim>\<open>src/src/kubernetes/monitor.go\<close> around its watch loops: how it gets a client,
  opens its two watches, and hands heartbeats to the reader of one unbuffered channel; and the
  client and the demonstration of \<^verbatim>\<open>lease_monitor.go\<close>.  \<^verbatim>\<open>client-go\<close> is a record of the calls that are
  made; a watch is what it delivers until it is closed.
\<close>

section \<open>The client\<close>

record ('c, 's) client_go =
  cg_BuildConfig :: "string \<Rightarrow> string + 'c"
  cg_NewForConfig :: "'c \<Rightarrow> string + 's"
  cg_ListPods :: "'s \<Rightarrow> string + ApiPod list"
  cg_WatchPods :: "'s \<Rightarrow> string + (watch_type \<times> watch_object) list"
  cg_WatchLeases :: "'s \<Rightarrow> string \<Rightarrow> string + watch_object list"

definition GetKubeClient :: "('c, 's) client_go \<Rightarrow> string \<Rightarrow> string + 's" where
  "GetKubeClient G kubeconfig =
    (case cg_BuildConfig G kubeconfig of
       Inl err \<Rightarrow> Inl (''failed to build kubeconfig: '' @ err)
     | Inr config \<Rightarrow>
         (case cg_NewForConfig G config of
            Inl err \<Rightarrow> Inl (''failed to create clientset: '' @ err)
          | Inr clientset \<Rightarrow> Inr clientset))"

text \<open>The text of an error of \<^verbatim>\<open>ListPodsWithContainerInfo\<close> and \<^verbatim>\<open>ListNodes\<close>.\<close>

fun kube_error_text :: "kube_error \<Rightarrow> string" where
  "kube_error_text (ListPodsError err) = ''failed to list pods: '' @ err"
| "kube_error_text (ListNodesError err) = ''failed to list nodes: '' @ err"

text \<open>The demonstration: a fatal error, or the pod that it prints, if any.\<close>

definition ExampleCorrelate :: "('c, 's) client_go \<Rightarrow> string + (string \<times> string \<times> string) option" where
  "ExampleCorrelate G =
    (case GetKubeClient G ''/path/to/kubeconfig'' of
       Inl err \<Rightarrow> Inl (''Error creating Kubernetes client: '' @ err)
     | Inr clientset \<Rightarrow>
         (case ListPodsWithContainerInfo (cg_ListPods G clientset) of
            Inl err \<Rightarrow> Inl (''Error listing pods: '' @ kube_error_text err)
          | Inr podInfos \<Rightarrow>
              Inr (map_option (\<lambda>pod. (po_PodName pod, po_Namespace pod, po_NodeName pod))
                (CorrelateEBPFEvent podInfos ''/sys/fs/cgroup/kubepods/123abc''))))"

section \<open>The monitor\<close>

text \<open>
  The monitor holds a client and a channel without a buffer.  Its two goroutines are what they have still
  to print and to send; \<open>mo_received\<close> and \<open>mo_printed\<close> are history.
\<close>

record 's HeartbeatMonitor =
  hm_clientset :: 's
  mo_pods :: "monitor_output list"
  mo_leases :: "monitor_output list"
  mo_received :: "string list"
  mo_printed :: "monitor_output list"

definition NewHeartbeatMonitor :: "('c, 's) client_go \<Rightarrow> string \<Rightarrow> string + 's HeartbeatMonitor" where
  "NewHeartbeatMonitor G kubeconfig =
    (case cg_BuildConfig G kubeconfig of
       Inl err \<Rightarrow> Inl (''failed to build kubeconfig: '' @ err)
     | Inr config \<Rightarrow>
         (case cg_NewForConfig G config of
            Inl err \<Rightarrow> Inl (''failed to create Kubernetes client: '' @ err)
          | Inr clientset \<Rightarrow> Inr \<lparr>hm_clientset = clientset, mo_pods = [], mo_leases = [],
              mo_received = [], mo_printed = []\<rparr>))"

text \<open>Both start a goroutine, or end the program with a fatal error.\<close>

definition StartMonitoring :: "('c, 's) client_go \<Rightarrow> 's HeartbeatMonitor \<Rightarrow> string + 's HeartbeatMonitor" where
  "StartMonitoring G hm =
    (case cg_WatchPods G (hm_clientset hm) of
       Inl err \<Rightarrow> Inl (''failed to watch pods: '' @ err)
     | Inr events \<Rightarrow> Inr (hm\<lparr>mo_pods := pod_watch_loop events\<rparr>))"

definition WatchLeaseHeartbeats :: "('c, 's) client_go \<Rightarrow> 's HeartbeatMonitor \<Rightarrow> string + 's HeartbeatMonitor" where
  "WatchLeaseHeartbeats G hm =
    (case cg_WatchLeases G (hm_clientset hm) ''kube-node-lease'' of
       Inl err \<Rightarrow> Inl (''failed to watch Lease objects: '' @ err)
     | Inr objects \<Rightarrow> Inr (hm\<lparr>mo_leases := lease_watch_loop objects\<rparr>))"

definition mockNodes :: "string list" where
  "mockNodes = [''node-1'', ''node-2'', ''node-3'']"

text \<open>
  What comes next of a goroutine: a line is printed at once, a heartbeat waits for the reader of the
  channel that \<^verbatim>\<open>GetHeartbeatChannel\<close> returns.
\<close>

fun is_send :: "monitor_output \<Rightarrow> bool" where
  "is_send (SendHeartbeat d) \<longleftrightarrow> True"
| "is_send out \<longleftrightarrow> False"

inductive monitor_step :: "'s HeartbeatMonitor \<Rightarrow> 's HeartbeatMonitor \<Rightarrow> bool" where
  pod_prints: "mo_pods hm = out # rest \<Longrightarrow> \<not> is_send out \<Longrightarrow>
    monitor_step hm (hm\<lparr>mo_pods := rest, mo_printed := mo_printed hm @ [out]\<rparr>)"
| lease_prints: "mo_leases hm = out # rest \<Longrightarrow> \<not> is_send out \<Longrightarrow>
    monitor_step hm (hm\<lparr>mo_leases := rest, mo_printed := mo_printed hm @ [out]\<rparr>)"
| read_pod: "mo_pods hm = SendHeartbeat d # rest \<Longrightarrow>
    monitor_step hm (hm\<lparr>mo_pods := rest, mo_received := mo_received hm @ [d]\<rparr>)"
| read_lease: "mo_leases hm = SendHeartbeat d # rest \<Longrightarrow>
    monitor_step hm (hm\<lparr>mo_leases := rest, mo_received := mo_received hm @ [d]\<rparr>)"

section \<open>What the reader receives\<close>

lemma sent_Cons:
  "sent [] = []" "sent (SendHeartbeat d # outs) = d # sent outs" "\<not> is_send out \<Longrightarrow> sent (out # outs) = sent outs"
  by (simp_all add: sent_def) (cases out; simp)

lemma shuffles_snoc:
  "zs \<in> shuffles xs ys \<Longrightarrow> zs @ [d] \<in> shuffles (xs @ [d]) ys"
  "zs \<in> shuffles xs ys \<Longrightarrow> zs @ [d] \<in> shuffles xs (ys @ [d])"
proof -
  have both: "\<forall>zs \<in> shuffles xs ys. zs @ [d] \<in> shuffles (xs @ [d]) ys \<and> zs @ [d] \<in> shuffles xs (ys @ [d])"
  proof (induction xs ys rule: shuffles.induct)
    case (1 ys)
    have "ys @ [d] \<in> shuffles [d] ys" by (induction ys) simp_all
    then show ?case by simp
  next
    case (2 xs)
    have "xs @ [d] \<in> shuffles xs [d]" by (induction xs) simp_all
    then show ?case by simp
  next
    case (3 x xs y ys)
    then show ?case by fastforce
  qed
  show "zs \<in> shuffles xs ys \<Longrightarrow> zs @ [d] \<in> shuffles (xs @ [d]) ys"
    "zs \<in> shuffles xs ys \<Longrightarrow> zs @ [d] \<in> shuffles xs (ys @ [d])"
    using both by blast+
qed

definition monitor_inv :: "string list \<Rightarrow> string list \<Rightarrow> 's HeartbeatMonitor \<Rightarrow> bool" where
  "monitor_inv P L hm \<longleftrightarrow> (\<exists>ps ls. mo_received hm \<in> shuffles ps ls \<and>
     ps @ sent (mo_pods hm) = P \<and> ls @ sent (mo_leases hm) = L)"

lemma monitor_inv_step: "monitor_step hm hm' \<Longrightarrow> monitor_inv P L hm \<Longrightarrow> monitor_inv P L hm'"
proof (induction rule: monitor_step.induct)
  case (read_pod hm d rest)
  then obtain ps ls where "mo_received hm \<in> shuffles ps ls" "ps @ d # sent rest = P" "ls @ sent (mo_leases hm) = L"
    by (auto simp: monitor_inv_def sent_Cons)
  then show ?case using shuffles_snoc(1) unfolding monitor_inv_def
    by (intro exI [of _ "ps @ [d]"] exI [of _ ls]) simp
next
  case (read_lease hm d rest)
  then obtain ps ls where "mo_received hm \<in> shuffles ps ls" "ps @ sent (mo_pods hm) = P" "ls @ d # sent rest = L"
    by (auto simp: monitor_inv_def sent_Cons)
  then show ?case using shuffles_snoc(2) unfolding monitor_inv_def
    by (intro exI [of _ ps] exI [of _ "ls @ [d]"]) simp
qed (auto simp: monitor_inv_def sent_Cons)

lemma monitor_inv_steps: "monitor_step\<^sup>*\<^sup>* hm hm' \<Longrightarrow> monitor_inv P L hm \<Longrightarrow> monitor_inv P L hm'"
  by (induction rule: rtranclp_induct) (auto intro: monitor_inv_step)

text \<open>As long as something is left, one of the four steps is possible, and each takes one item.\<close>

fun_cases is_sendE: "is_send out"

inductive_simps monitor_step_simps: "monitor_step hm hm'"

lemma monitor_progress:
  "mo_pods hm \<noteq> [] \<or> mo_leases hm \<noteq> [] \<longleftrightarrow> (\<exists>hm'. monitor_step hm hm')"
proof -
  have "(\<exists>d. out = SendHeartbeat d) \<or> \<not> is_send out" for out by (blast elim: is_sendE)
  then show ?thesis by (cases "mo_pods hm"; cases "mo_leases hm"; simp add: monitor_step_simps; blast)
qed

lemma monitor_step_length:
  "monitor_step hm hm' \<Longrightarrow> length (mo_pods hm) + length (mo_leases hm) = Suc (length (mo_pods hm') + length (mo_leases hm'))"
  by (induction rule: monitor_step.induct) simp_all

text \<open>So a reader that goes on reading gets everything.\<close>

lemma monitor_finishes:
  "\<exists>hm'. monitor_step\<^sup>*\<^sup>* hm hm' \<and> mo_pods hm' = [] \<and> mo_leases hm' = []"
proof (induction "length (mo_pods hm) + length (mo_leases hm)" arbitrary: hm)
  case (Suc n)
  then obtain u where u: "monitor_step hm u" using monitor_progress [of hm] by fastforce
  with Suc.hyps monitor_step_length [OF u] have "n = length (mo_pods u) + length (mo_leases u)" by simp
  from Suc.hyps(1) [OF this] u show ?case by (meson converse_rtranclp_into_rtranclp)
qed auto

text \<open>C33: once both watches are open, the reader of the heartbeat channel receives an interleaving of the two
  watches: of each a beginning in its order, and nothing else.  A monitor that can take no further step
  has given it everything: one heartbeat for every pod that was added or modified, up to the first such
  event whose object is no pod, and one for every lease.\<close>

theorem reader_gets_both_watches:
  assumes "NewHeartbeatMonitor G kubeconfig = Inr hm0"
    and "StartMonitoring G hm0 = Inr hm1" and "WatchLeaseHeartbeats G hm1 = Inr hm2"
    and "cg_WatchPods G (hm_clientset hm0) = Inr es"
    and "cg_WatchLeases G (hm_clientset hm0) ''kube-node-lease'' = Inr objs"
    and "monitor_step\<^sup>*\<^sup>* hm2 hm"
  shows "\<exists>ps ls. mo_received hm \<in> shuffles ps ls \<and>
    prefix ps (concat (map pod_heartbeat (takeWhile (\<lambda>e. \<not> unexpected e) es))) \<and>
    prefix ls (concat (map lease_heartbeat objs)) \<and>
    ((\<nexists>hm'. monitor_step hm hm') \<longrightarrow>
       ps = concat (map pod_heartbeat (takeWhile (\<lambda>e. \<not> unexpected e) es)) \<and>
       ls = concat (map lease_heartbeat objs))"
proof -
  have "monitor_inv (sent (pod_watch_loop es)) (sent (lease_watch_loop objs)) hm2"
    using assms(1-5) by (auto simp: NewHeartbeatMonitor_def StartMonitoring_def WatchLeaseHeartbeats_def
        monitor_inv_def split: sum.splits)
  from monitor_inv_steps [OF assms(6) this] obtain ps ls where "mo_received hm \<in> shuffles ps ls"
    "ps @ sent (mo_pods hm) = concat (map pod_heartbeat (takeWhile (\<lambda>e. \<not> unexpected e) es))"
    "ls @ sent (mo_leases hm) = concat (map lease_heartbeat objs)"
    by (auto simp: monitor_inv_def watch_loops_send)
  then show ?thesis
    unfolding monitor_progress [symmetric] by (metis append_Nil2 prefixI sent_Cons(1))
qed

definition demo_client :: "(unit, unit) client_go" where
  "demo_client = \<lparr>cg_BuildConfig = (\<lambda>_. Inr ()), cg_NewForConfig = Inr,
     cg_ListPods = (\<lambda>_. Inr []),
     cg_WatchPods = (\<lambda>_. Inr [(WatchAdded, PodObject ''web'' ''Running''), (WatchModified, OtherObject),
        (WatchAdded, PodObject ''db'' ''Pending'')]),
     cg_WatchLeases = (\<lambda>_ _. Inr [LeaseObject ''n1'' ''t1''])\<rparr>"

theorem reader_gets_both_watches_witness:
  "\<exists>hm0 hm1 hm2 hm. NewHeartbeatMonitor demo_client ''cfg'' = Inr hm0 \<and> StartMonitoring demo_client hm0 = Inr hm1 \<and>
     WatchLeaseHeartbeats demo_client hm1 = Inr hm2 \<and> monitor_step\<^sup>*\<^sup>* hm2 hm \<and>
     mo_received hm \<in> shuffles [''Pod: web, Status: Running''] [''Node: n1, Lease RenewTime: t1'']"
proof -
  obtain hm0 hm1 hm2 where m: "NewHeartbeatMonitor demo_client ''cfg'' = Inr hm0" "StartMonitoring demo_client hm0 = Inr hm1"
      "WatchLeaseHeartbeats demo_client hm1 = Inr hm2"
    by (simp add: demo_client_def NewHeartbeatMonitor_def StartMonitoring_def WatchLeaseHeartbeats_def)
  obtain hm where hm: "monitor_step\<^sup>*\<^sup>* hm2 hm" "mo_pods hm = []" "mo_leases hm = []"
    using monitor_finishes by blast
  have stop: "\<nexists>hm'. monitor_step hm hm'" unfolding monitor_progress [symmetric] by (simp add: hm)
  let ?es = "[(WatchAdded, PodObject ''web'' ''Running''), (WatchModified, OtherObject),
        (WatchAdded, PodObject ''db'' ''Pending'')]"
  let ?objs = "[LeaseObject ''n1'' ''t1'']"
  have w: "cg_WatchPods demo_client (hm_clientset hm0) = Inr ?es"
    "cg_WatchLeases demo_client (hm_clientset hm0) ''kube-node-lease'' = Inr ?objs"
    by (simp_all add: demo_client_def)
  have v: "concat (map pod_heartbeat (takeWhile (\<lambda>e. \<not> unexpected e) ?es)) = [''Pod: web, Status: Running'']"
    "concat (map lease_heartbeat ?objs) = [''Node: n1, Lease RenewTime: t1'']"
    by (simp_all add: pod_heartbeat_def lease_heartbeat_def unexpected_def)
  from reader_gets_both_watches [OF m w hm(1)] stop
  have "mo_received hm \<in> shuffles [''Pod: web, Status: Running''] [''Node: n1, Lease RenewTime: t1'']"
    unfolding v by blast
  with m hm show ?thesis by blast
qed

end
