(* ===== verification/Fleet.thy ===== *)
theory Fleet
  imports ConcurrencyInvariants JsonProperties AgentProperties
begin

text \<open>
  The whole system: the agents of several nodes beside one server.  Every agent moves as in \<open>Agent\<close>, the
  server as in \<open>Concurrency\<close>, and \<^verbatim>\<open>sendBatch\<close> joins them: a batch travels as the JSON that the agent
  writes and becomes a request of the server, which overlaps with those of the other agents.
\<close>

section \<open>Agents and server\<close>

text \<open>The request that carries a batch.\<close>

definition batch_request :: "string \<Rightarrow> request" where
  "batch_request body =
     \<lparr>rq_method = POST, rq_path = ''/api/ebpf/events'', rq_params = [], rq_body = body\<rparr>"

text \<open>
  \<open>fl_posts\<close> lists for each agent what became of its batches, in order: the goroutine of the server that
  serves the request, or \<open>None\<close> for a post that failed before it arrived.  \<open>fl_late\<close> are the goroutines whose
  client has stopped waiting for the answer.
\<close>

record 'm Fleet =
  fl_agents :: "AgentSys list"
  fl_server :: "(MemoryStore, 'm) System"
  fl_posts :: "nat option list list"
  fl_late :: "nat set"

definition start_fleet :: "AgentSys list \<Rightarrow> Config \<Rightarrow> 'm Fleet" where
  "start_fleet agents c = \<lparr>fl_agents = agents,
     fl_server = start_system (start_server c NewMemoryStore), fl_posts = replicate (length agents) [],
     fl_late = {}\<rparr>"

definition arrived_posts :: "nat option list \<Rightarrow> nat list" where
  "arrived_posts ps = List.map_filter (\<lambda>p. p) ps"

text \<open>
  An agent posts its next batch when \<^verbatim>\<open>client.Post\<close> has returned: with the response, with an error because
  the server could not be reached, when the batch is gone, or with one because the timeout of ten seconds was
  over, when the server may still be at work on the request.  The forwarder waits in \<^verbatim>\<open>sendBatch\<close>; here it may
  run ahead of its posts, which only adds runs.  The server also serves requests of others.
\<close>

inductive fleet_step ::
  "Config \<Rightarrow> (json_error \<Rightarrow> string) \<Rightarrow> (WSMessage \<Rightarrow> 'm option) \<Rightarrow> (string \<times> string) list \<Rightarrow> int \<Rightarrow>
   'm Fleet \<Rightarrow> 'm Fleet \<Rightarrow> bool"
  for c msg json nodes zone where
  agent: "i < length (fl_agents f) \<Longrightarrow> agent_step (fl_agents f ! i) a \<Longrightarrow>
    fleet_step c msg json nodes zone f (f\<lparr>fl_agents := (fl_agents f)[i := a]\<rparr>)"
| post: "i < length (fl_agents f) \<Longrightarrow>
    length (fl_posts f ! i) < length (fw_sent (sys_fwd (fl_agents f ! i))) \<Longrightarrow>
    (\<forall>j \<in> set (arrived_posts (fl_posts f ! i)). sy_threads (fl_server f) ! j = [] \<or> j \<in> fl_late f) \<Longrightarrow>
    marshal_batch zone (fw_sent (sys_fwd (fl_agents f ! i)) ! length (fl_posts f ! i)) = Some body \<Longrightarrow>
    fleet_step c msg json nodes zone f (f\<lparr>
      fl_server := (fl_server f)\<lparr>
        sy_threads := sy_threads (fl_server f) @ [handler_tasks (go_json msg) (batch_request body)],
        sy_requests := sy_requests (fl_server f) @ [Some (batch_request body)]\<rparr>,
      fl_posts := (fl_posts f)[i := fl_posts f ! i @ [Some (length (sy_threads (fl_server f)))]]\<rparr>)"
| lost: "i < length (fl_agents f) \<Longrightarrow>
    length (fl_posts f ! i) < length (fw_sent (sys_fwd (fl_agents f ! i))) \<Longrightarrow>
    fleet_step c msg json nodes zone f (f\<lparr>fl_posts := (fl_posts f)[i := fl_posts f ! i @ [None]]\<rparr>)"
| late: "i < length (fl_agents f) \<Longrightarrow> Some j \<in> set (fl_posts f ! i) \<Longrightarrow>
    fleet_step c msg json nodes zone f (f\<lparr>fl_late := insert j (fl_late f)\<rparr>)"
| server: "sys_step c (go_json msg) memory_store json nodes (fl_server f) (Some t) \<Longrightarrow>
    fleet_step c msg json nodes zone f (f\<lparr>fl_server := t\<rparr>)"

inductive fleet_reach ::
  "Config \<Rightarrow> (json_error \<Rightarrow> string) \<Rightarrow> (WSMessage \<Rightarrow> 'm option) \<Rightarrow> (string \<times> string) list \<Rightarrow> int \<Rightarrow>
   AgentSys list \<Rightarrow> 'm Fleet \<Rightarrow> bool"
  for c msg json nodes zone agents where
  start: "fleet_reach c msg json nodes zone agents (start_fleet agents c)"
| step: "fleet_reach c msg json nodes zone agents f \<Longrightarrow> fleet_step c msg json nodes zone f g \<Longrightarrow>
    fleet_reach c msg json nodes zone agents g"

section \<open>What the steps keep\<close>

lemma arrived_posts_simps [simp]:
  "arrived_posts [] = []" "arrived_posts (ps @ qs) = arrived_posts ps @ arrived_posts qs"
  "arrived_posts [None] = []" "arrived_posts [Some j] = [j]"
  by (simp_all add: arrived_posts_def map_filter_def)

lemma set_arrived_posts: "j \<in> set (arrived_posts ps) \<longleftrightarrow> Some j \<in> set ps"
  by (induction ps) (auto simp: arrived_posts_def map_filter_simps split: option.split)

text \<open>An agent never takes back what it has sent.\<close>

lemma forward_step_sent: "\<exists>more. fw_sent (snd (forward_step i fw)) = fw_sent fw @ more"
  by (cases i) (auto simp: flush_def sendBatch_def Let_def)

lemma agent_step_sent: "agent_step a b \<Longrightarrow> \<exists>more. fw_sent (sys_fwd b) = fw_sent (sys_fwd a) @ more"
  by (induction rule: agent_step.induct) (simp_all add: forward_step_sent del: forward_step.simps)

text \<open>The server never forgets a request, and a goroutine of a request that has ended stays ended.\<close>

lemma sys_step_frame:
  assumes "sys_step c J S json nodes s r" and "r = Some t" and "length (sy_requests s) = length (sy_threads s)"
  shows "length (sy_threads s) \<le> length (sy_threads t) \<and>
    (\<forall>j < length (sy_threads s). sy_requests t ! j = sy_requests s ! j \<and>
       (0 < j \<longrightarrow> sy_threads s ! j = [] \<longrightarrow> sy_threads t ! j = [])) \<and>
    (sy_done t = sy_done s \<or> (\<exists>j task. j < length (sy_threads s) \<and> sy_threads s ! j \<noteq> [] \<and>
       sy_done t = sy_done s @ [(j, task)]))"
  using assms
proof (induction rule: sys_step.induct)
  case (thread i s now u)
  then have "thread_step json S now i s = Some t" by simp
  then show ?case
    by (rule thread_stepE) (use thread.hyps in \<open>auto simp: nth_list_update\<close>)
next
  case (request r s)
  then show ?case by (auto simp: nth_append)
qed (auto split: option.splits)

section \<open>The invariant\<close>

text \<open>What the goroutines of an agent's posts have saved, each in turn.\<close>

definition post_saves :: "(nat \<times> task) list \<Rightarrow> nat option \<Rightarrow> EnrichedEvent list" where
  "post_saves h p = (case p of None \<Rightarrow> [] | Some j \<Rightarrow> saves (of_thread j h))"

definition of_posts :: "nat option list \<Rightarrow> (nat \<times> task) list \<Rightarrow> task list" where
  "of_posts ps h = map snd (filter (\<lambda>p. fst p \<in> set (arrived_posts ps)) h)"

definition posts_ok ::
  "(json_error \<Rightarrow> string) \<Rightarrow> ('s, 'm) System \<Rightarrow> nat set \<Rightarrow> AgentSys \<Rightarrow> nat option list \<Rightarrow> bool" where
  "posts_ok msg s late a ps \<longleftrightarrow>
     length ps \<le> length (fw_sent (sys_fwd a)) \<and>
     (\<forall>k j. k < length ps \<longrightarrow> ps ! k = Some j \<longrightarrow> 0 < j \<and> j < length (sy_threads s) \<and>
        posted (go_json msg) (sy_requests s ! j) = map valid_event (fw_sent (sys_fwd a) ! k)) \<and>
     (\<forall>j \<in> set (butlast (arrived_posts ps)). sy_threads s ! j = [] \<or> j \<in> late) \<and>
     (set (arrived_posts ps) \<inter> late = {} \<longrightarrow>
        saves (of_posts ps (sy_done s)) = concat (map (post_saves (sy_done s)) ps))"

definition posts_apart :: "nat option list list \<Rightarrow> bool" where
  "posts_apart pss \<longleftrightarrow> (\<forall>i < length pss. distinct (arrived_posts (pss ! i)) \<and>
     (\<forall>k < length pss. k \<noteq> i \<longrightarrow> set (arrived_posts (pss ! i)) \<inter> set (arrived_posts (pss ! k)) = {}))"

definition fleet_inv ::
  "Config \<Rightarrow> (json_error \<Rightarrow> string) \<Rightarrow> (WSMessage \<Rightarrow> 'm option) \<Rightarrow> 'm Fleet \<Rightarrow> bool" where
  "fleet_inv c msg json f \<longleftrightarrow>
     sys_inv c (go_json msg) json (fl_server f) \<and> length (fl_posts f) = length (fl_agents f) \<and>
     (\<forall>a \<in> set (fl_agents f). \<exists>node. agent_inv node a) \<and> posts_apart (fl_posts f) \<and>
     (\<forall>i < length (fl_agents f). posts_ok msg (fl_server f) (fl_late f) (fl_agents f ! i) (fl_posts f ! i))"

lemma posts_ok_bound:
  assumes "posts_ok msg s late a ps" and "j \<in> set (arrived_posts ps)"
  shows "0 < j \<and> j < length (sy_threads s)"
proof -
  from assms(2) have "Some j \<in> set ps" by (simp add: set_arrived_posts)
  then obtain k where "k < length ps" "ps ! k = Some j" by (auto simp: in_set_conv_nth)
  with assms(1) show ?thesis by (simp add: posts_ok_def)
qed

text \<open>A task that is done belongs to the last post, if it belongs to one at all.\<close>

lemma post_saves_snoc:
  "post_saves (h @ [(j, t)]) p = post_saves h p @ (if p = Some j then saves [t] else [])"
  by (simp add: post_saves_def split: option.split)

lemma post_saves_None [simp]: "post_saves h None = []"
  by (simp add: post_saves_def)

lemma of_posts_snoc:
  "of_posts ps (h @ [(j, t)]) = of_posts ps h @ (if Some j \<in> set ps then [t] else [])"
  by (simp add: of_posts_def set_arrived_posts)

lemma concat_last_some:
  assumes "Some j \<in> set ps" and "distinct (arrived_posts ps)" and "j \<notin> set (butlast (arrived_posts ps))"
    and f: "f None = []"
  shows "concat (map (\<lambda>p. f p @ (if p = Some j then x else [])) ps) = concat (map f ps) @ x"
  using assms(1-3)
proof (induction ps rule: rev_induct)
  case (snoc p ps)
  show ?case
  proof (cases p)
    case None
    then have "Some j \<in> set ps" "distinct (arrived_posts ps)" "j \<notin> set (butlast (arrived_posts ps))"
      using snoc.prems by simp_all
    from snoc.IH [OF this] None f show ?thesis by simp
  next
    case (Some i)
    then have "j \<notin> set (arrived_posts ps)" using snoc.prems(3) by simp
    then have n: "Some j \<notin> set ps" by (simp add: set_arrived_posts)
    then have "concat (map (\<lambda>p. f p @ (if p = Some j then x else [])) ps) = concat (map f ps)"
      by (intro arg_cong [where f = concat] map_cong) auto
    moreover have "i = j" using snoc.prems(1) Some n by simp
    ultimately show ?thesis using Some by simp
  qed
qed simp

lemma posts_ok_done:
  fixes task :: task
  assumes ok: "posts_ok msg s late a ps" and d: "distinct (arrived_posts ps)" and j: "sy_threads s ! j \<noteq> []"
    and l: "set (arrived_posts ps) \<inter> late = {}"
  defines "h \<equiv> sy_done s @ [(j, task)]"
  shows "saves (of_posts ps h) = concat (map (post_saves h) ps)"
proof -
  let ?more = "concat (map (\<lambda>p. post_saves (sy_done s) p @ (if p = Some j then saves [task] else [])) ps)"
  have h: "post_saves h = (\<lambda>p. post_saves (sy_done s) p @ (if p = Some j then saves [task] else []))"
    "saves (of_posts ps h) = saves (of_posts ps (sy_done s)) @ (if Some j \<in> set ps then saves [task] else [])"
    by (simp_all add: h_def post_saves_snoc [abs_def] of_posts_snoc)
  show ?thesis
  proof (cases "Some j \<in> set ps")
    case True
    have "j \<notin> set (butlast (arrived_posts ps))"
      using ok j l in_set_butlastD [of j "arrived_posts ps"] by (auto simp: posts_ok_def)
    then have "?more = concat (map (post_saves (sy_done s)) ps) @ saves [task]"
      by (intro concat_last_some True d) simp_all
    with ok l True show ?thesis by (simp add: h posts_ok_def)
  next
    case False
    then have "?more = concat (map (post_saves (sy_done s)) ps)"
      by (intro arg_cong [where f = concat] map_cong) auto
    with ok l False show ?thesis by (simp add: h posts_ok_def)
  qed
qed

lemma posts_ok_step:
  assumes ok: "posts_ok msg s late a ps" and st: "sys_step c J S json nodes s (Some t)"
    and len: "length (sy_requests s) = length (sy_threads s)" and d: "distinct (arrived_posts ps)"
  shows "posts_ok msg t late a ps"
proof -
  note fr = sys_step_frame [OF st refl len]
  note bd = posts_ok_bound [OF ok]
  have "sy_threads t ! j = [] \<or> j \<in> late" if j: "j \<in> set (butlast (arrived_posts ps))" for j
  proof -
    from ok j have "sy_threads s ! j = [] \<or> j \<in> late" by (simp add: posts_ok_def)
    with fr bd [OF in_set_butlastD [OF j]] show ?thesis by blast
  qed
  moreover have "set (arrived_posts ps) \<inter> late = {} \<longrightarrow>
      saves (of_posts ps (sy_done t)) = concat (map (post_saves (sy_done t)) ps)"
  proof (cases "sy_done t = sy_done s")
    case True
    with ok show ?thesis by (simp add: posts_ok_def)
  next
    case False
    with fr obtain j task where j: "sy_threads s ! j \<noteq> []" "sy_done t = sy_done s @ [(j, task)]" by blast
    from posts_ok_done [OF ok d j(1), of task] show ?thesis by (simp add: j(2))
  qed
  moreover have "0 < j \<and> j < length (sy_threads t) \<and> posted (go_json msg) (sy_requests t ! j) =
      map valid_event (fw_sent (sys_fwd a) ! k)" if "k < length ps" "ps ! k = Some j" for k j
  proof -
    from ok that have "0 < j \<and> j < length (sy_threads s) \<and>
      posted (go_json msg) (sy_requests s ! j) = map valid_event (fw_sent (sys_fwd a) ! k)"
      by (simp add: posts_ok_def)
    with fr show ?thesis by auto
  qed
  ultimately show ?thesis using ok by (simp add: posts_ok_def)
qed

lemma posts_ok_agent:
  assumes "posts_ok msg s late a ps" and "agent_step a b" shows "posts_ok msg s late b ps"
  using assms(1) agent_step_sent [OF assms(2)] by (auto simp: posts_ok_def nth_append)

text \<open>A new post, and one that is lost.\<close>

lemma of_posts_new:
  assumes "\<forall>p \<in> set h. fst p < n"
  shows "of_posts (ps @ [Some n]) h = of_posts ps h" and "post_saves h (Some n) = []"
proof -
  show "of_posts (ps @ [Some n]) h = of_posts ps h"
    unfolding of_posts_def using assms by (intro arg_cong [where f = "map snd"] filter_cong) auto
  have "of_thread n h = []" using assms by (auto simp: of_thread_def filter_empty_conv)
  then show "post_saves h (Some n) = []" by (simp add: post_saves_def)
qed

lemma posts_ok_new:
  assumes ok: "posts_ok msg t late a ps" and "length ps < length (fw_sent (sys_fwd a))"
    and "\<forall>p \<in> set (sy_done t). fst p < n" and "0 < n" and "n < length (sy_threads t)"
    and "posted (go_json msg) (sy_requests t ! n) = map valid_event (fw_sent (sys_fwd a) ! length ps)"
    and "\<forall>j \<in> set (arrived_posts ps). sy_threads t ! j = [] \<or> j \<in> late"
  shows "posts_ok msg t late a (ps @ [Some n])"
  using assms of_posts_new [OF assms(3)] by (auto simp: posts_ok_def nth_append less_Suc_eq)

lemma posts_ok_lost:
  assumes "posts_ok msg t late a ps" and "length ps < length (fw_sent (sys_fwd a))"
  shows "posts_ok msg t late a (ps @ [None])"
  using assms by (auto simp: posts_ok_def of_posts_def nth_append less_Suc_eq)

lemma posts_apart_new:
  assumes "posts_apart pss" and "i < length pss" and "\<forall>k < length pss. n \<notin> set (arrived_posts (pss ! k))"
  shows "posts_apart (pss[i := pss ! i @ [Some n]])"
  using assms by (auto simp: posts_apart_def nth_list_update)

lemma posts_apart_lost:
  assumes "posts_apart pss" and "i < length pss" shows "posts_apart (pss[i := pss ! i @ [None]])"
  using assms by (auto simp: posts_apart_def nth_list_update)

section \<open>Every step keeps the invariant\<close>

lemma start_fleet_inv:
  assumes "\<forall>a \<in> set agents. \<exists>node url poll refr. a = init_agent node url poll refr"
  shows "fleet_inv c msg json (start_fleet agents c)"
proof -
  have "\<exists>node. agent_inv node a" if "a \<in> set agents" for a using assms that agent_inv_init by metis
  then show ?thesis
    by (auto simp: fleet_inv_def start_fleet_def start_sys_inv posts_apart_def posts_ok_def of_posts_def)
qed

lemma threads_okD:
  assumes "sys_inv c J json s"
  shows "length (sy_requests s) = length (sy_threads s)" and "sy_threads s \<noteq> []"
    and "\<forall>p \<in> set (sy_done s). fst p < length (sy_threads s)"
    and "i < length (sy_threads s) \<Longrightarrow> thread_ok J (sy_requests s ! i) (sy_threads s ! i) (of_thread i (sy_done s))"
  using assms by (auto simp: sys_inv_def threads_ok_def)

lemma fleet_server_inv:
  assumes inv: "fleet_inv c msg json f" and st: "sys_step c (go_json msg) memory_store json nodes (fl_server f) (Some t)"
    and "nodes \<noteq> []" and "0 \<le> cfg_WarningThresholdS c" and "cfg_WarningThresholdS c < 2 ^ 33"
  shows "fleet_inv c msg json (f\<lparr>fl_server := t\<rparr>)"
proof -
  have s: "sys_inv c (go_json msg) json (fl_server f)" using inv by (simp add: fleet_inv_def)
  have "sys_inv c (go_json msg) json t" using sys_step_inv [OF st s assms(3-5)] by simp
  moreover have "posts_ok msg t (fl_late f) (fl_agents f ! i) (fl_posts f ! i)" if "i < length (fl_agents f)" for i
    using inv that by (intro posts_ok_step [OF _ st threads_okD(1) [OF s]]) (auto simp: fleet_inv_def posts_apart_def)
  ultimately show ?thesis using inv by (simp add: fleet_inv_def)
qed

lemma fleet_agent_inv:
  assumes inv: "fleet_inv c msg json f" and "i < length (fl_agents f)" and st: "agent_step (fl_agents f ! i) a"
  shows "fleet_inv c msg json (f\<lparr>fl_agents := (fl_agents f)[i := a]\<rparr>)"
proof -
  obtain node where "agent_inv node (fl_agents f ! i)" using inv nth_mem [OF assms(2)] unfolding fleet_inv_def by blast
  from agent_inv_step [OF st this] have a: "agent_inv node a" .
  have "\<exists>node. agent_inv node b" if "b \<in> set ((fl_agents f)[i := a])" for b
    using inv that a set_update_subset_insert [of "fl_agents f" i a] by (auto simp: fleet_inv_def)
  moreover have "posts_ok msg (fl_server f) (fl_late f) ((fl_agents f)[i := a] ! k) (fl_posts f ! k)"
    if "k < length (fl_agents f)" for k
  proof -
    have k: "posts_ok msg (fl_server f) (fl_late f) (fl_agents f ! k) (fl_posts f ! k)" using inv that by (simp add: fleet_inv_def)
    show ?thesis
    proof (cases "k = i")
      case True
      with k that posts_ok_agent [OF _ st] show ?thesis by simp
    qed (use k that in simp)
  qed
  ultimately show ?thesis using inv by (simp add: fleet_inv_def)
qed

lemma fleet_lost_inv:
  assumes inv: "fleet_inv c msg json f" and i: "i < length (fl_agents f)"
    and "length (fl_posts f ! i) < length (fw_sent (sys_fwd (fl_agents f ! i)))"
  shows "fleet_inv c msg json (f\<lparr>fl_posts := (fl_posts f)[i := fl_posts f ! i @ [None]]\<rparr>)"
proof -
  have "posts_ok msg (fl_server f) (fl_late f) (fl_agents f ! k) ((fl_posts f)[i := fl_posts f ! i @ [None]] ! k)"
    if "k < length (fl_agents f)" for k
    using inv that assms(2,3) by (cases "k = i") (auto simp: fleet_inv_def intro: posts_ok_lost)
  with inv i show ?thesis by (simp add: fleet_inv_def posts_apart_lost)
qed

lemma posts_ok_late: "posts_ok msg s late a ps \<Longrightarrow> posts_ok msg s (insert j late) a ps"
  by (auto simp: posts_ok_def)

lemma fleet_late_inv:
  assumes "fleet_inv c msg json f" shows "fleet_inv c msg json (f\<lparr>fl_late := insert j (fl_late f)\<rparr>)"
  using assms by (simp add: fleet_inv_def posts_ok_late)

text \<open>The request of a batch is read as the agent's events.\<close>

lemma agent_batch_writable:
  assumes "agent_inv node a" and "b \<in> set (fw_sent (sys_fwd a))" and "\<bar>zone\<bar> < 1440"
  shows "\<forall>e \<in> set b. writable_event zone e"
  using assms by (auto simp: agent_inv_def fw_content_def intro!: i64_time_ok)

lemma batch_request_posts:
  assumes "agent_inv node a" and "b \<in> set (fw_sent (sys_fwd a))" and "\<bar>zone\<bar> < 1440"
    and "marshal_batch zone b = Some body"
  shows "posted (go_json msg) (Some (batch_request body)) = map valid_event b"
    and "writing (batch_request body)"
proof -
  from batch_delivered [OF agent_batch_writable [OF assms(1-3)], of msg] assms(4)
  show "posted (go_json msg) (Some (batch_request body)) = map valid_event b"
    by (simp add: posted_def batch_request_def decode_posted_def)
  show "writing (batch_request body)" by (simp add: writing_def batch_request_def)
qed

lemma fleet_post_inv:
  assumes inv: "fleet_inv c msg json f" and i: "i < length (fl_agents f)"
    and len: "length (fl_posts f ! i) < length (fw_sent (sys_fwd (fl_agents f ! i)))"
    and answered: "\<forall>j \<in> set (arrived_posts (fl_posts f ! i)). sy_threads (fl_server f) ! j = [] \<or> j \<in> fl_late f"
    and body: "marshal_batch zone (fw_sent (sys_fwd (fl_agents f ! i)) ! length (fl_posts f ! i)) = Some body"
    and t: "t = (fl_server f)\<lparr>
        sy_threads := sy_threads (fl_server f) @ [handler_tasks (go_json msg) (batch_request body)],
        sy_requests := sy_requests (fl_server f) @ [Some (batch_request body)]\<rparr>"
    and "\<bar>zone\<bar> < 1440" "(nodes :: (string \<times> string) list) \<noteq> []"
      "0 \<le> cfg_WarningThresholdS c" "cfg_WarningThresholdS c < 2 ^ 33"
  shows "fleet_inv c msg json (f\<lparr>fl_server := t,
    fl_posts := (fl_posts f)[i := fl_posts f ! i @ [Some (length (sy_threads (fl_server f)))]]\<rparr>)"
proof -
  let ?n = "length (sy_threads (fl_server f))" and ?b = "fw_sent (sys_fwd (fl_agents f ! i)) ! length (fl_posts f ! i)"
  obtain node where a: "agent_inv node (fl_agents f ! i)" using inv nth_mem [OF i] unfolding fleet_inv_def by blast
  note req = batch_request_posts [OF a nth_mem [OF len] assms(7) body]
  have s: "sys_inv c (go_json msg) json (fl_server f)" using inv by (simp add: fleet_inv_def)
  have "sys_step c (go_json msg) memory_store json nodes (fl_server f) (Some t)"
    unfolding t by (rule sys_step.request) (rule req(2))
  from fleet_server_inv [OF inv this assms(8-10)] have new: "fleet_inv c msg json (f\<lparr>fl_server := t\<rparr>)" .
  have fresh: "?n \<notin> set (arrived_posts (fl_posts f ! k))" if "k < length (fl_posts f)" for k
    using inv that posts_ok_bound [of msg "fl_server f" "fl_late f" "fl_agents f ! k" "fl_posts f ! k" ?n] by (auto simp: fleet_inv_def)
  have "posts_ok msg t (fl_late f) (fl_agents f ! i) (fl_posts f ! i @ [Some ?n])"
  proof (rule posts_ok_new)
    show "posts_ok msg t (fl_late f) (fl_agents f ! i) (fl_posts f ! i)" using new i by (simp add: fleet_inv_def)
    show "\<forall>j \<in> set (arrived_posts (fl_posts f ! i)). sy_threads t ! j = [] \<or> j \<in> fl_late f"
    proof
      fix j assume j: "j \<in> set (arrived_posts (fl_posts f ! i))"
      have "posts_ok msg (fl_server f) (fl_late f) (fl_agents f ! i) (fl_posts f ! i)" using inv i by (simp add: fleet_inv_def)
      from posts_ok_bound [OF this j] show "sy_threads t ! j = [] \<or> j \<in> fl_late f"
        using answered j by (simp add: t nth_append)
    qed
  qed (use len threads_okD(1-3) [OF s] req(1) in \<open>auto simp: t nth_append\<close>)
  then have "posts_ok msg t (fl_late f) (fl_agents f ! k) ((fl_posts f)[i := fl_posts f ! i @ [Some ?n]] ! k)"
    if "k < length (fl_agents f)" for k
    using new that i by (cases "k = i") (auto simp: fleet_inv_def)
  with new i fresh show ?thesis by (simp add: fleet_inv_def posts_apart_new)
qed

lemma fleet_reach_inv:
  assumes "fleet_reach c msg json nodes zone agents f"
    and "\<forall>a \<in> set agents. \<exists>node url poll refr. a = init_agent node url poll refr"
    and w: "\<bar>zone\<bar> < 1440" "nodes \<noteq> []" "0 \<le> cfg_WarningThresholdS c" "cfg_WarningThresholdS c < 2 ^ 33"
  shows "fleet_inv c msg json f \<and> length (fl_agents f) = length agents"
  using assms(1)
proof (induction rule: fleet_reach.induct)
  case start
  show ?case using start_fleet_inv [OF assms(2)] by (simp add: start_fleet_def)
next
  case (step f g)
  from step.hyps(2) step.IH show ?case
  proof (induction rule: fleet_step.induct)
    case (agent i f a)
    then show ?case by (simp add: fleet_agent_inv)
  next
    case (post i f body)
    then show ?case using fleet_post_inv [OF _ post.hyps refl w] by simp
  next
    case (lost i f)
    then show ?case by (simp add: fleet_lost_inv)
  next
    case (late i f j)
    then show ?case by (simp add: fleet_late_inv)
  next
    case (server f t)
    then show ?case using fleet_server_inv [OF _ server.hyps w(2-4)] by simp
  qed
qed

section \<open>What the agents' events become\<close>

lemma fleet_posts_saved:
  assumes inv: "fleet_inv c msg json f" and i: "i < length (fl_agents f)" and k: "k < length (fl_posts f ! i)"
  shows "prefix (post_saves (sy_done (fl_server f)) (fl_posts f ! i ! k))
      (map valid_event (fw_sent (sys_fwd (fl_agents f ! i)) ! k))"
    and "subseq (post_saves (sy_done (fl_server f)) (fl_posts f ! i ! k)) (saves (map snd (sy_done (fl_server f))))"
    and "fl_posts f ! i ! k = Some j \<Longrightarrow> sy_threads (fl_server f) ! j = [] \<Longrightarrow>
      post_saves (sy_done (fl_server f)) (fl_posts f ! i ! k) = map valid_event (fw_sent (sys_fwd (fl_agents f ! i)) ! k)"
proof -
  let ?h = "sy_done (fl_server f)"
  have ok: "posts_ok msg (fl_server f) (fl_late f) (fl_agents f ! i) (fl_posts f ! i)"
    and s: "sys_inv c (go_json msg) json (fl_server f)" using inv i by (simp_all add: fleet_inv_def)
  have post: "posted (go_json msg) (sy_requests (fl_server f) ! j) = map valid_event (fw_sent (sys_fwd (fl_agents f ! i)) ! k)"
    "thread_ok (go_json msg) (sy_requests (fl_server f) ! j) (sy_threads (fl_server f) ! j) (of_thread j ?h)"
    if "fl_posts f ! i ! k = Some j" for j
    using ok k that threads_okD(4) [OF s] by (simp_all add: posts_ok_def)
  show "prefix (post_saves ?h (fl_posts f ! i ! k)) (map valid_event (fw_sent (sys_fwd (fl_agents f ! i)) ! k))"
  proof (cases "fl_posts f ! i ! k")
    case (Some j)
    have "prefix (saves (of_thread j ?h)) (map valid_event (fw_sent (sys_fwd (fl_agents f ! i)) ! k))"
      using post [OF Some] unfolding thread_ok_def by (metis prefixI)
    with Some show ?thesis by (simp add: post_saves_def)
  qed simp
  show "subseq (post_saves ?h (fl_posts f ! i ! k)) (saves (map snd ?h))"
    using saves_subseq [OF subseq_of_thread] by (auto simp: post_saves_def split: option.split)
  show "post_saves ?h (fl_posts f ! i ! k) = map valid_event (fw_sent (sys_fwd (fl_agents f ! i)) ! k)"
    if "fl_posts f ! i ! k = Some j" "sy_threads (fl_server f) ! j = []"
    using post [OF that(1)] that by (simp add: post_saves_def thread_ok_def)
qed

text \<open>
  All batches of a stopped agent were posted, arrived, and are answered; no post outlasted its timeout; the
  goroutines that serve no agent.
\<close>

definition delivered :: "'m Fleet \<Rightarrow> nat \<Rightarrow> bool" where
  "delivered f i \<longleftrightarrow> sys_stopped (fl_agents f ! i) \<and>
     length (fl_posts f ! i) = length (fw_sent (sys_fwd (fl_agents f ! i))) \<and>
     (\<forall>p \<in> set (fl_posts f ! i). \<exists>j. p = Some j \<and> sy_threads (fl_server f) ! j = [])"

definition in_time :: "'m Fleet \<Rightarrow> nat \<Rightarrow> bool" where
  "in_time f i \<longleftrightarrow> set (arrived_posts (fl_posts f ! i)) \<inter> fl_late f = {}"

definition outsiders :: "'m Fleet \<Rightarrow> nat set" where
  "outsiders f = {j. j < length (sy_threads (fl_server f)) \<and> (\<forall>i < length (fl_posts f). Some j \<notin> set (fl_posts f ! i))}"

lemma concat_nth_map: "concat (map (\<lambda>k. f (xs ! k)) [0..<length xs]) = concat (map f xs)"
  by (intro arg_cong [where f = concat] nth_equalityI) simp_all

lemma fleet_delivered:
  assumes inv: "fleet_inv c msg json f" and i: "i < length (fl_agents f)" and d: "delivered f i"
  shows "concat (map (post_saves (sy_done (fl_server f))) (fl_posts f ! i)) =
    concat (map (map valid_event) (fw_sent (sys_fwd (fl_agents f ! i))))"
proof -
  let ?h = "sy_done (fl_server f)" and ?sent = "fw_sent (sys_fwd (fl_agents f ! i))"
  have len: "length (fl_posts f ! i) = length ?sent" using d by (simp add: delivered_def)
  have "map (post_saves ?h) (fl_posts f ! i) ! k = map (map valid_event) ?sent ! k"
    if k: "k < length (fl_posts f ! i)" for k
  proof -
    from d nth_mem [OF k] obtain j where "fl_posts f ! i ! k = Some j" "sy_threads (fl_server f) ! j = []"
      unfolding delivered_def by blast
    from fleet_posts_saved(3) [OF inv i k this] k len show ?thesis by simp
  qed
  then have "map (post_saves ?h) (fl_posts f ! i) = map (map valid_event) ?sent"
    by (intro nth_equalityI) (simp_all add: len)
  then show ?thesis by (rule arg_cong)
qed

lemma fleet_in_order:
  assumes inv: "fleet_inv c msg json f" and i: "i < length (fl_agents f)" and t: "in_time f i"
  shows "subseq (concat (map (post_saves (sy_done (fl_server f))) (fl_posts f ! i))) (saves (map snd (sy_done (fl_server f))))"
proof -
  let ?h = "sy_done (fl_server f)"
  have "posts_ok msg (fl_server f) (fl_late f) (fl_agents f ! i) (fl_posts f ! i)" using inv i by (simp add: fleet_inv_def)
  with t have "saves (of_posts (fl_posts f ! i) ?h) = concat (map (post_saves ?h) (fl_posts f ! i))"
    by (simp add: posts_ok_def in_time_def)
  moreover have "subseq (saves (of_posts (fl_posts f ! i) ?h)) (saves (map snd ?h))"
    unfolding of_posts_def by (intro saves_subseq subseq_map subseq_filter_left)
  ultimately show ?thesis by simp
qed

text \<open>Every task belongs to one batch of one agent, or to an outsider.\<close>

lemma arrived_sum:
  "sum_list (map g (arrived_posts ps)) = (\<Sum>k < length ps. case ps ! k of None \<Rightarrow> {#} | Some j \<Rightarrow> g j)"
proof (induction ps rule: rev_induct)
  case (snoc p ps)
  have "(\<Sum>k < length ps. case (ps @ [p]) ! k of None \<Rightarrow> {#} | Some j \<Rightarrow> g j) =
      (\<Sum>k < length ps. case ps ! k of None \<Rightarrow> {#} | Some j \<Rightarrow> g j)"
    by (intro sum.cong) (simp_all add: nth_append)
  then show ?case using snoc by (cases p) simp_all
qed simp

lemma fleet_sum:
  fixes g :: "nat \<Rightarrow> 'a multiset"
  assumes ap: "posts_apart (fl_posts f)"
    and bound: "\<forall>i < length (fl_posts f). \<forall>j \<in> set (arrived_posts (fl_posts f ! i)). j < length (sy_threads (fl_server f))"
  shows "(\<Sum>j < length (sy_threads (fl_server f)). g j) =
    (\<Sum>i < length (fl_posts f). \<Sum>k < length (fl_posts f ! i). case fl_posts f ! i ! k of None \<Rightarrow> {#} | Some j \<Rightarrow> g j)
      + (\<Sum>j \<in> outsiders f. g j)"
proof -
  let ?n = "length (fl_posts f)" and ?J = "\<lambda>i. set (arrived_posts (fl_posts f ! i))"
  have parts: "{..<length (sy_threads (fl_server f))} = (\<Union>i<?n. ?J i) \<union> outsiders f" "(\<Union>i<?n. ?J i) \<inter> outsiders f = {}"
    using bound by (auto simp: outsiders_def set_arrived_posts)
  have fin: "finite (outsiders f)" by (simp add: outsiders_def)
  have "(\<Sum>j \<in> (\<Union>i<?n. ?J i). g j) = (\<Sum>i<?n. \<Sum>j \<in> ?J i. g j)"
    using ap by (intro sum.UNION_disjoint) (auto simp: posts_apart_def)
  also have "\<dots> = (\<Sum>i<?n. sum_list (map g (arrived_posts (fl_posts f ! i))))"
    using ap by (intro sum.cong) (simp_all add: posts_apart_def sum.distinct_set_conv_list)
  finally show ?thesis
    unfolding parts(1) using parts(2) fin by (subst sum.union_disjoint) (simp_all add: arrived_sum)
qed

lemma fleet_account:
  assumes inv: "fleet_inv c msg json f"
  shows "mset (ms_kernelEvents (sv_store (sy_server (fl_server f)))) =
    (\<Sum>i < length (fl_agents f). \<Sum>k < length (fl_posts f ! i).
       mset (post_saves (sy_done (fl_server f)) (fl_posts f ! i ! k)))
    + (\<Sum>j \<in> outsiders f. mset (saves (of_thread j (sy_done (fl_server f)))))"
proof -
  let ?s = "fl_server f"
  have s: "sys_inv c (go_json msg) json ?s" and len: "length (fl_posts f) = length (fl_agents f)"
    and ap: "posts_apart (fl_posts f)" using inv by (simp_all add: fleet_inv_def)
  have bound: "\<forall>i < length (fl_posts f). \<forall>j \<in> set (arrived_posts (fl_posts f ! i)). j < length (sy_threads ?s)"
    using inv len posts_ok_bound by (fastforce simp: fleet_inv_def)
  have "mset (ms_kernelEvents (sv_store (sy_server ?s))) =
      (\<Sum>j < length (sy_threads ?s). mset (saves (of_thread j (sy_done ?s))))"
    using mset_of_threads [OF threads_okD(3) [OF s], of saves] s by (simp add: sys_inv_def stored_ok_def)
  moreover have "(case p of None \<Rightarrow> {#} | Some j \<Rightarrow> mset (saves (of_thread j (sy_done ?s)))) = mset (post_saves (sy_done ?s) p)" for p
    by (simp add: post_saves_def split: option.split)
  ultimately show ?thesis using fleet_sum [OF ap bound, of "\<lambda>j. mset (saves (of_thread j (sy_done ?s)))"] by (simp add: len)
qed

text \<open>C4: the agents of several nodes post to one server while its requests overlap.  The store holds exactly
  a part of every batch that arrived, counted once, and what requests of others have saved: the part is
  a beginning of the batch, in its order, with every string made valid UTF-8 and nothing else changed, the whole batch
  once the request is answered, and nothing when the post was lost.  The batches of an agent are the events that
  its channel accepted, in order; as long as no post outlasts its timeout they are stored in that order.  Of an
  agent that is delivered, all accepted events are stored but those still in the channel.\<close>

theorem fleet_events_reach_the_store:
  assumes "fleet_reach c msg json nodes zone agents f"
    and "\<forall>a \<in> set agents. \<exists>node url poll refr. a = init_agent node url poll refr"
    and "\<bar>zone\<bar> < 1440" and "nodes \<noteq> []" and "0 \<le> cfg_WarningThresholdS c" and "cfg_WarningThresholdS c < 2 ^ 33"
  shows "\<exists>part saved.
    mset (ms_kernelEvents (sv_store (sy_server (fl_server f)))) =
      (\<Sum>i < length agents. \<Sum>k < length (fl_posts f ! i). mset (part i k)) + (\<Sum>j \<in> outsiders f. mset (saved j)) \<and>
    (\<forall>j \<in> outsiders f. prefix (saved j) (posted (go_json msg) (sy_requests (fl_server f) ! j))) \<and>
    (\<forall>i < length agents.
       sys_accepted (fl_agents f ! i) = concat (fw_sent (sys_fwd (fl_agents f ! i))) @
         fw_batch (sys_fwd (fl_agents f ! i)) @ pm_eventCh (sys_pm (fl_agents f ! i)) \<and>
       length (fl_posts f ! i) \<le> length (fw_sent (sys_fwd (fl_agents f ! i))) \<and>
       (\<forall>k < length (fl_posts f ! i).
          prefix (part i k) (map valid_event (fw_sent (sys_fwd (fl_agents f ! i)) ! k)) \<and>
          subseq (part i k) (ms_kernelEvents (sv_store (sy_server (fl_server f)))) \<and>
          (case fl_posts f ! i ! k of
             None \<Rightarrow> part i k = []
           | Some j \<Rightarrow> j < length (sy_threads (fl_server f)) \<and> (sy_threads (fl_server f) ! j = [] \<longrightarrow>
               part i k = map valid_event (fw_sent (sys_fwd (fl_agents f ! i)) ! k)))) \<and>
       (in_time f i \<longrightarrow> subseq (concat (map (part i) [0..<length (fl_posts f ! i)]))
          (ms_kernelEvents (sv_store (sy_server (fl_server f))))) \<and>
       (delivered f i \<longrightarrow> map valid_event (sys_accepted (fl_agents f ! i)) =
          concat (map (part i) [0..<length (fl_posts f ! i)]) @ map valid_event (pm_eventCh (sys_pm (fl_agents f ! i)))))"
proof -
  let ?h = "sy_done (fl_server f)" and ?part = "\<lambda>i k. post_saves (sy_done (fl_server f)) (fl_posts f ! i ! k)"
  have inv: "fleet_inv c msg json f" and len: "length (fl_agents f) = length agents"
    using fleet_reach_inv [OF assms] by simp_all
  then have s: "sys_inv c (go_json msg) json (fl_server f)" by (simp add: fleet_inv_def)
  then have st: "ms_kernelEvents (sv_store (sy_server (fl_server f))) = saves (map snd ?h)"
    by (simp add: sys_inv_def stored_ok_def)
  have out: "prefix (saves (of_thread j ?h)) (posted (go_json msg) (sy_requests (fl_server f) ! j))"
    if "j \<in> outsiders f" for j
    using threads_okD(4) [OF s, of j] that unfolding outsiders_def thread_ok_def by (auto intro: prefixI [OF sym])
  have agent: "sys_accepted (fl_agents f ! i) = concat (fw_sent (sys_fwd (fl_agents f ! i))) @
        fw_batch (sys_fwd (fl_agents f ! i)) @ pm_eventCh (sys_pm (fl_agents f ! i))"
    "sys_stopped (fl_agents f ! i) \<Longrightarrow> fw_batch (sys_fwd (fl_agents f ! i)) = []"
    "posts_ok msg (fl_server f) (fl_late f) (fl_agents f ! i) (fl_posts f ! i)" if "i < length agents" for i
    using inv that nth_mem [of i "fl_agents f"] by (auto simp: fleet_inv_def agent_inv_def fw_content_def len)
  have part: "prefix (?part i k) (map valid_event (fw_sent (sys_fwd (fl_agents f ! i)) ! k)) \<and>
      subseq (?part i k) (saves (map snd ?h)) \<and>
      (case fl_posts f ! i ! k of None \<Rightarrow> ?part i k = []
       | Some j \<Rightarrow> j < length (sy_threads (fl_server f)) \<and> (sy_threads (fl_server f) ! j = [] \<longrightarrow>
           ?part i k = map valid_event (fw_sent (sys_fwd (fl_agents f ! i)) ! k)))"
    if i: "i < length agents" and k: "k < length (fl_posts f ! i)" for i k
    using fleet_posts_saved [OF inv i [folded len] k] posts_ok_bound [OF agent(3) [OF i]] nth_mem [OF k]
    by (auto simp: set_arrived_posts split: option.split)
  have order: "subseq (concat (map (?part i) [0..<length (fl_posts f ! i)])) (saves (map snd ?h))"
    if "in_time f i" "i < length agents" for i
    unfolding concat_nth_map by (rule fleet_in_order [OF inv that(2) [folded len] that(1)])
  have deliv: "map valid_event (sys_accepted (fl_agents f ! i)) =
      concat (map (?part i) [0..<length (fl_posts f ! i)]) @ map valid_event (pm_eventCh (sys_pm (fl_agents f ! i)))"
    if d: "delivered f i" and i: "i < length agents" for i
  proof -
    have stopped: "sys_stopped (fl_agents f ! i)" using d by (simp add: delivered_def)
    show ?thesis
      unfolding concat_nth_map fleet_delivered [OF inv i [folded len] d] using agent(1) [OF i] agent(2) [OF i stopped]
      by (simp add: map_concat)
  qed
  have sum: "mset (ms_kernelEvents (sv_store (sy_server (fl_server f)))) =
      (\<Sum>i < length agents. \<Sum>k < length (fl_posts f ! i). mset (?part i k)) + (\<Sum>j \<in> outsiders f. mset (saves (of_thread j ?h)))"
    using fleet_account [OF inv] by (simp only: len)
  show ?thesis
    by (intro exI [of _ ?part] exI [of _ "\<lambda>j. saves (of_thread j ?h)"] conjI sum ballI out allI impI)
      (use agent part order deliv in \<open>auto simp: st posts_ok_def\<close>)
qed

section \<open>Steps of the server in a fleet\<close>

text \<open>The server of a fleet is one that \<open>sys_reach\<close> reaches.\<close>

lemma fleet_server_reach:
  "fleet_reach c msg json nodes zone agents f \<Longrightarrow>
     sys_reach c (go_json msg) memory_store json nodes NewMemoryStore (fl_server f)"
proof (induction rule: fleet_reach.induct)
  case start
  show ?case by (simp add: start_fleet_def sys_reach.start)
next
  case (step f g)
  from step.hyps(2) step.IH show ?case
  proof (induction rule: fleet_step.induct)
    case (post i f body)
    have "writing (batch_request body)" by (simp add: writing_def batch_request_def)
    from sys_reach.step [OF post.prems sys_step.request [OF this]] show ?case by simp
  next
    case (server f t)
    then show ?case using sys_reach.step by simp
  qed simp_all
qed

lemma fleet_reach_steps:
  "(fleet_step c msg json nodes zone)\<^sup>*\<^sup>* f g \<Longrightarrow> fleet_reach c msg json nodes zone agents f \<Longrightarrow>
     fleet_reach c msg json nodes zone agents g"
  by (induction rule: rtranclp_induct) (auto intro: fleet_reach.step)

section \<open>What is outstanding can be delivered\<close>

text \<open>
  The steps that deliver: a post of the next batch, and the server's own work.  No agent and no client moves,
  and no post is lost or outlasts its timeout.
\<close>

inductive delivery_step ::
  "Config \<Rightarrow> (json_error \<Rightarrow> string) \<Rightarrow> (WSMessage \<Rightarrow> 'm option) \<Rightarrow> (string \<times> string) list \<Rightarrow> int \<Rightarrow>
   'm Fleet \<Rightarrow> 'm Fleet \<Rightarrow> bool"
  for c msg json nodes zone where
  posting: "fleet_step c msg json nodes zone f g \<Longrightarrow> fl_agents g = fl_agents f \<Longrightarrow> i < length (fl_agents f) \<Longrightarrow>
    fl_posts g = (fl_posts f)[i := fl_posts f ! i @ [Some j]] \<Longrightarrow> delivery_step c msg json nodes zone f g"
| serving: "inner_step json memory_store (fl_server f) t \<Longrightarrow>
    delivery_step c msg json nodes zone f (f\<lparr>fl_server := t\<rparr>)"

lemma delivery_fleet_step: "delivery_step c msg json nodes zone f g \<Longrightarrow> fleet_step c msg json nodes zone f g"
  by (induction rule: delivery_step.induct) (simp_all add: fleet_step.server inner_sys_step)

lemma delivery_fleet_steps:
  "(delivery_step c msg json nodes zone)\<^sup>*\<^sup>* f g \<Longrightarrow> (fleet_step c msg json nodes zone)\<^sup>*\<^sup>* f g"
  by (rule rtranclp_mono [THEN predicate2D, rotated]) (auto intro: delivery_fleet_step)

lemma delivery_server_steps:
  assumes "(inner_step json memory_store)\<^sup>*\<^sup>* (fl_server f) t"
  shows "(delivery_step c msg json nodes zone)\<^sup>*\<^sup>* f (f\<lparr>fl_server := t\<rparr>)"
  using assms
proof (induction rule: rtranclp_induct)
  case (step t u)
  have "delivery_step c msg json nodes zone (f\<lparr>fl_server := t\<rparr>) (f\<lparr>fl_server := t\<rparr>\<lparr>fl_server := u\<rparr>)"
    by (rule delivery_step.serving) (use step.hyps(2) in simp)
  with step.IH show ?case by simp
qed simp

text \<open>Posts were added, and each of them has arrived; the agents have not moved.\<close>

definition more_posts :: "'m Fleet \<Rightarrow> 'm Fleet \<Rightarrow> bool" where
  "more_posts f g \<longleftrightarrow> fl_agents g = fl_agents f \<and> fl_late g = fl_late f \<and> length (fl_posts g) = length (fl_posts f) \<and>
     (\<forall>i < length (fl_posts f). \<exists>js. fl_posts g ! i = fl_posts f ! i @ map Some js)"

lemma more_posts_refl: "more_posts f (f\<lparr>fl_server := t\<rparr>)"
  by (simp add: more_posts_def)

lemma more_posts_trans: "more_posts f g \<Longrightarrow> more_posts g h \<Longrightarrow> more_posts f h"
  unfolding more_posts_def by (metis append.assoc map_append)

definition unposted :: "'m Fleet \<Rightarrow> nat \<Rightarrow> nat" where
  "unposted f i = length (fw_sent (sys_fwd (fl_agents f ! i))) - length (fl_posts f ! i)"

lemma unposted_new:
  assumes "i < n" and "i < length (fl_posts f)" and "0 < unposted f i"
  shows "(\<Sum>k<n. unposted (f\<lparr>fl_server := t, fl_posts := (fl_posts f)[i := fl_posts f ! i @ [p]]\<rparr>) k) < (\<Sum>k<n. unposted f k)"
proof (rule sum_strict_mono_ex1)
  let ?g = "f\<lparr>fl_server := t, fl_posts := (fl_posts f)[i := fl_posts f ! i @ [p]]\<rparr>"
  show "\<forall>k \<in> {..<n}. unposted ?g k \<le> unposted f k"
    using assms(2) by (auto simp: unposted_def nth_list_update)
  show "\<exists>k \<in> {..<n}. unposted ?g k < unposted f k"
    using assms by (intro bexI [of _ i]) (auto simp: unposted_def)
qed simp

lemma finished_nth: "finished s \<Longrightarrow> j < length (sy_threads s) \<Longrightarrow> sy_threads s ! j = []"
  using nth_mem unfolding finished_def by blast

lemma fleet_post_next:
  assumes inv: "fleet_inv c msg json f" and zone: "\<bar>zone\<bar> < 1440" and i: "i < length (fl_agents f)"
    and u: "0 < unposted f i" and fin: "finished (fl_server f)"
  shows "\<exists>g. delivery_step c msg json nodes zone f g \<and> more_posts f g \<and>
    (\<Sum>k < length (fl_agents g). unposted g k) < (\<Sum>k < length (fl_agents f). unposted f k)"
proof -
  have len: "length (fl_posts f ! i) < length (fw_sent (sys_fwd (fl_agents f ! i)))"
    and lp: "length (fl_posts f) = length (fl_agents f)"
    using u inv by (simp_all add: unposted_def fleet_inv_def)
  obtain node where a: "agent_inv node (fl_agents f ! i)" using inv nth_mem [OF i] unfolding fleet_inv_def by blast
  have "\<forall>e \<in> set (fw_sent (sys_fwd (fl_agents f ! i)) ! length (fl_posts f ! i)). writable_event zone e"
    using agent_batch_writable [OF a nth_mem [OF len] zone] .
  then obtain body where
    body: "marshal_batch zone (fw_sent (sys_fwd (fl_agents f ! i)) ! length (fl_posts f ! i)) = Some body"
    using batch_delivered by blast
  have "posts_ok msg (fl_server f) (fl_late f) (fl_agents f ! i) (fl_posts f ! i)"
    using inv i by (simp add: fleet_inv_def)
  then have empty: "\<forall>j \<in> set (arrived_posts (fl_posts f ! i)). sy_threads (fl_server f) ! j = [] \<or> j \<in> fl_late f"
    using posts_ok_bound finished_nth [OF fin] by blast
  let ?g = "f\<lparr>fl_server := (fl_server f)\<lparr>
        sy_threads := sy_threads (fl_server f) @ [handler_tasks (go_json msg) (batch_request body)],
        sy_requests := sy_requests (fl_server f) @ [Some (batch_request body)]\<rparr>,
      fl_posts := (fl_posts f)[i := fl_posts f ! i @ [Some (length (sy_threads (fl_server f)))]]\<rparr>"
  have "\<exists>js. (fl_posts f)[i := fl_posts f ! i @ [Some n]] ! k = fl_posts f ! k @ map Some js" for k n
    using i lp by (cases "k = i") (auto intro: exI [of _ "[n]"] exI [of _ "[]"])
  then have "more_posts f ?g" by (simp add: more_posts_def)
  moreover have "(\<Sum>k < length (fl_agents ?g). unposted ?g k) < (\<Sum>k < length (fl_agents f). unposted f k)"
    using unposted_new [OF _ _ u] i lp by simp
  moreover have "delivery_step c msg json nodes zone f ?g"
    by (rule delivery_step.posting [OF fleet_step.post [OF i len empty body] _ i]) simp_all
  ultimately show ?thesis by blast
qed

text \<open>Every unposted batch takes one post, and the server answers each.\<close>

lemma fleet_posts_all:
  assumes "fleet_reach c msg json nodes zone agents f"
    and "\<forall>a \<in> set agents. \<exists>node url poll refr. a = init_agent node url poll refr"
    and w: "\<bar>zone\<bar> < 1440" "nodes \<noteq> []" "0 \<le> cfg_WarningThresholdS c" "cfg_WarningThresholdS c < 2 ^ 33"
  shows "\<exists>g. (delivery_step c msg json nodes zone)\<^sup>*\<^sup>* f g \<and> more_posts f g \<and> finished (fl_server g) \<and>
    (\<forall>i < length agents. length (fl_posts g ! i) = length (fw_sent (sys_fwd (fl_agents g ! i))))"
  using assms(1)
proof (induction "\<Sum>k < length (fl_agents f). unposted f k" arbitrary: f rule: less_induct)
  case less
  obtain t where t: "(inner_step json memory_store)\<^sup>*\<^sup>* (fl_server f) t" "finished t"
    using inner_finishes [OF fleet_server_reach [OF less.prems] w(2-4)] by blast
  let ?f = "f\<lparr>fl_server := t\<rparr>"
  have steps: "(delivery_step c msg json nodes zone)\<^sup>*\<^sup>* f ?f" by (rule delivery_server_steps [OF t(1)])
  have reach: "fleet_reach c msg json nodes zone agents ?f" by (rule fleet_reach_steps [OF delivery_fleet_steps [OF steps] less.prems])
  have inv: "fleet_inv c msg json ?f" and len: "length (fl_agents ?f) = length agents"
    using fleet_reach_inv [OF reach assms(2) w] by simp_all
  show ?case
  proof (cases "\<exists>i < length agents. 0 < unposted ?f i")
    case True
    then obtain i where i: "i < length (fl_agents ?f)" "0 < unposted ?f i" unfolding len by blast
    have "finished (fl_server ?f)" using t(2) by simp
    from fleet_post_next [OF inv w(1) i this] obtain g where
      g: "delivery_step c msg json nodes zone ?f g" "more_posts ?f g"
        "(\<Sum>k < length (fl_agents g). unposted g k) < (\<Sum>k < length (fl_agents ?f). unposted ?f k)" by blast
    have "(\<Sum>k < length (fl_agents g). unposted g k) < (\<Sum>k < length (fl_agents f). unposted f k)"
      using g(3) by (simp add: unposted_def)
    from less.hyps [OF this fleet_reach.step [OF reach delivery_fleet_step [OF g(1)]]] obtain h where
      h: "(delivery_step c msg json nodes zone)\<^sup>*\<^sup>* g h" "more_posts g h" "finished (fl_server h)"
        "\<forall>i < length agents. length (fl_posts h ! i) = length (fw_sent (sys_fwd (fl_agents h ! i)))" by blast
    have "(delivery_step c msg json nodes zone)\<^sup>*\<^sup>* f h" using steps g(1) h(1) by (meson rtranclp.rtrancl_into_rtrancl rtranclp_trans)
    moreover have "more_posts f h" using more_posts_trans [OF more_posts_refl more_posts_trans [OF g(2) h(2)]] .
    ultimately show ?thesis using h(3,4) by blast
  next
    case False
    have "length (fl_posts f ! i) = length (fw_sent (sys_fwd (fl_agents f ! i)))" if "i < length agents" for i
    proof -
      have "posts_ok msg t (fl_late f) (fl_agents f ! i) (fl_posts f ! i)"
        using inv that len by (simp add: fleet_inv_def)
      then have "length (fl_posts f ! i) \<le> length (fw_sent (sys_fwd (fl_agents f ! i)))" by (simp add: posts_ok_def)
      with False that show ?thesis by (auto simp: unposted_def)
    qed
    with steps t(2) more_posts_refl show ?thesis by (intro exI [of _ ?f]) simp
  qed
qed

lemma more_posts_delivered:
  assumes inv: "fleet_inv c msg json g" and i: "i < length (fl_agents f)" and m: "more_posts f g"
    and fin: "finished (fl_server g)" and len: "length (fl_posts g ! i) = length (fw_sent (sys_fwd (fl_agents g ! i)))"
    and "sys_stopped (fl_agents f ! i)" and some: "None \<notin> set (fl_posts f ! i)"
  shows "delivered g i"
proof -
  have a: "fl_agents g = fl_agents f" and lp: "length (fl_posts f) = length (fl_agents f)"
    using inv m by (auto simp: more_posts_def fleet_inv_def)
  obtain js where js: "fl_posts g ! i = fl_posts f ! i @ map Some js" using m i lp by (auto simp: more_posts_def)
  have ok: "posts_ok msg (fl_server g) (fl_late g) (fl_agents g ! i) (fl_posts g ! i)"
    using inv i a by (simp add: fleet_inv_def)
  have "\<exists>j. p = Some j \<and> sy_threads (fl_server g) ! j = []" if p: "p \<in> set (fl_posts g ! i)" for p
  proof -
    from p have "p \<in> set (fl_posts f ! i) \<union> Some ` set js" unfolding js by simp
    with some obtain j where j: "p = Some j" by (cases p) auto
    then have "j < length (sy_threads (fl_server g))" using posts_ok_bound [OF ok] p by (simp add: set_arrived_posts)
    with j finished_nth [OF fin] show ?thesis by blast
  qed
  with assms(6) a len show ?thesis by (simp add: delivered_def)
qed

text \<open>Once the server has nothing left to do, the account of the store is closed.\<close>

lemma finished_account:
  assumes inv: "fleet_inv c msg json g" and fin: "finished (fl_server g)"
  shows "mset (ms_kernelEvents (sv_store (sy_server (fl_server g)))) =
    (\<Sum>i < length (fl_agents g). \<Sum>k < length (fl_posts g ! i).
       if fl_posts g ! i ! k = None then {#} else mset (map valid_event (fw_sent (sys_fwd (fl_agents g ! i)) ! k)))
    + (\<Sum>j \<in> outsiders g. mset (posted (go_json msg) (sy_requests (fl_server g) ! j)))"
proof -
  let ?h = "sy_done (fl_server g)"
  have s: "sys_inv c (go_json msg) json (fl_server g)" using inv by (simp add: fleet_inv_def)
  have "mset (post_saves ?h (fl_posts g ! i ! k)) =
      (if fl_posts g ! i ! k = None then {#} else mset (map valid_event (fw_sent (sys_fwd (fl_agents g ! i)) ! k)))"
    if i: "i < length (fl_agents g)" and k: "k < length (fl_posts g ! i)" for i k
  proof (cases "fl_posts g ! i ! k")
    case (Some j)
    have "posts_ok msg (fl_server g) (fl_late g) (fl_agents g ! i) (fl_posts g ! i)" using inv i by (simp add: fleet_inv_def)
    with Some k have "j < length (sy_threads (fl_server g))" by (simp add: posts_ok_def)
    from fleet_posts_saved(3) [OF inv i k Some finished_nth [OF fin this]] Some show ?thesis by simp
  qed simp
  moreover have "saves (of_thread j ?h) = posted (go_json msg) (sy_requests (fl_server g) ! j)"
    if "j \<in> outsiders g" for j
    using threads_okD(4) [OF s, of j] finished_nth [OF fin] that by (simp add: outsiders_def thread_ok_def)
  ultimately show ?thesis using fleet_account [OF inv] by simp
qed

text \<open>C9: whatever has happened so far, the batches that the agents have sent and not yet posted can all be
  posted and answered, without a move of an agent or a client and without a post that is lost or outlasts its
  timeout: steps that only post and work on the server lead to a state in which every agent, running or stopped,
  has posted all its batches, and nothing is left to do.  The store then holds exactly every batch but those
  whose post had been lost before, each once, and what the requests of others carry; an agent that has stopped and
  had lost no post is delivered.\<close>

theorem fleet_can_deliver:
  assumes "fleet_reach c msg json nodes zone agents f"
    and "\<forall>a \<in> set agents. \<exists>node url poll refr. a = init_agent node url poll refr"
    and "\<bar>zone\<bar> < 1440" and "nodes \<noteq> []" and "0 \<le> cfg_WarningThresholdS c" and "cfg_WarningThresholdS c < 2 ^ 33"
  shows "\<exists>g. (delivery_step c msg json nodes zone)\<^sup>*\<^sup>* f g \<and> fl_agents g = fl_agents f \<and> fl_late g = fl_late f \<and>
    finished (fl_server g) \<and>
    (\<forall>i < length agents. \<exists>js. fl_posts g ! i = fl_posts f ! i @ map Some js \<and>
       length (fl_posts g ! i) = length (fw_sent (sys_fwd (fl_agents f ! i)))) \<and>
    mset (ms_kernelEvents (sv_store (sy_server (fl_server g)))) =
      (\<Sum>i < length agents. \<Sum>k < length (fw_sent (sys_fwd (fl_agents f ! i))).
         if k < length (fl_posts f ! i) \<and> fl_posts f ! i ! k = None then {#}
         else mset (map valid_event (fw_sent (sys_fwd (fl_agents f ! i)) ! k)))
      + (\<Sum>j \<in> outsiders g. mset (posted (go_json msg) (sy_requests (fl_server g) ! j))) \<and>
    (\<forall>i < length agents. sys_stopped (fl_agents f ! i) \<and> None \<notin> set (fl_posts f ! i) \<longrightarrow> delivered g i)"
proof -
  obtain g where g: "(delivery_step c msg json nodes zone)\<^sup>*\<^sup>* f g" "more_posts f g" "finished (fl_server g)"
    "\<forall>i < length agents. length (fl_posts g ! i) = length (fw_sent (sys_fwd (fl_agents g ! i)))"
    using fleet_posts_all [OF assms] by blast
  have same: "fl_agents g = fl_agents f" "fl_late g = fl_late f" using g(2) by (simp_all add: more_posts_def)
  have inv: "fleet_inv c msg json g" and len: "length (fl_agents f) = length agents" "length (fl_posts f) = length agents"
    using fleet_reach_inv [OF fleet_reach_steps [OF delivery_fleet_steps [OF g(1)] assms(1)] assms(2-6)]
      fleet_reach_inv [OF assms] by (simp_all add: fleet_inv_def)
  have js: "\<exists>js. fl_posts g ! i = fl_posts f ! i @ map Some js" if "i < length agents" for i
    using g(2) that len by (simp add: more_posts_def)
  have lost: "fl_posts g ! i ! k = None \<longleftrightarrow> k < length (fl_posts f ! i) \<and> fl_posts f ! i ! k = None"
    if "i < length agents" "k < length (fl_posts g ! i)" for i k
    using js [OF that(1)] that(2) by (auto simp: nth_append split: if_splits)
  have "(\<Sum>i < length agents. \<Sum>k < length (fl_posts g ! i).
         if fl_posts g ! i ! k = None then {#} else mset (map valid_event (fw_sent (sys_fwd (fl_agents g ! i)) ! k))) =
      (\<Sum>i < length agents. \<Sum>k < length (fw_sent (sys_fwd (fl_agents f ! i))).
         if k < length (fl_posts f ! i) \<and> fl_posts f ! i ! k = None then {#}
         else mset (map valid_event (fw_sent (sys_fwd (fl_agents f ! i)) ! k)))"
    using g(4) lost by (intro sum.cong) (simp_all add: same)
  with finished_account [OF inv g(3)] have
    "mset (ms_kernelEvents (sv_store (sy_server (fl_server g)))) =
      (\<Sum>i < length agents. \<Sum>k < length (fw_sent (sys_fwd (fl_agents f ! i))).
         if k < length (fl_posts f ! i) \<and> fl_posts f ! i ! k = None then {#}
         else mset (map valid_event (fw_sent (sys_fwd (fl_agents f ! i)) ! k)))
      + (\<Sum>j \<in> outsiders g. mset (posted (go_json msg) (sy_requests (fl_server g) ! j)))"
    by (simp only: same len)
  moreover have "delivered g i" if "i < length agents" "sys_stopped (fl_agents f ! i)" "None \<notin> set (fl_posts f ! i)" for i
    using more_posts_delivered [OF inv _ g(2,3)] g(4) that len by simp
  ultimately show ?thesis using g(1,3,4) same js by (intro exI [of _ g]) simp
qed

section \<open>A run of the fleet\<close>

lemma fleet_agent_run:
  assumes "agent_reachable a b" and "0 < length agents" and "agents ! 0 = a"
  shows "fleet_reach c msg json nodes zone agents ((start_fleet agents c)\<lparr>fl_agents := agents[0 := b]\<rparr>)"
  using assms(1)
proof (induction rule: agent_reachable.induct)
  case start
  have "agents[0 := a] = agents" by (simp flip: assms(3))
  moreover have "(start_fleet agents c)\<lparr>fl_agents := agents\<rparr> = (start_fleet agents c :: 'a Fleet)"
    by (simp add: start_fleet_def)
  ultimately show ?case by (simp add: fleet_reach.start)
next
  case (step s t)
  have "fleet_step c msg json nodes zone ((start_fleet agents c)\<lparr>fl_agents := agents[0 := s]\<rparr>)
      ((start_fleet agents c)\<lparr>fl_agents := agents[0 := s]\<rparr>\<lparr>fl_agents := (agents[0 := s])[0 := t]\<rparr>)"
    using fleet_step.agent [of 0 "(start_fleet agents c)\<lparr>fl_agents := agents[0 := s]\<rparr>" t] assms(2) step.hyps(2)
    by simp
  with step.IH show ?case by (auto intro: fleet_reach.step)
qed

lemma stopped_agent:
  "\<exists>s e. agent_reachable sample_agent s \<and> sys_stopped s \<and> fw_sent (sys_fwd s) = [[e]]"
proof -
  let ?e = "Resolver_Enrich (pm_resolver (sys_pm sample_agent)) sample_exit"
  let ?pm = "snd (ProcessRawEvent 0 (KernelEvent_MarshalBinary sample_exit @ []) (sys_pm sample_agent))"
  let ?s = "sample_agent\<lparr>sys_pm := ?pm, sys_accepted := sys_accepted sample_agent @
    drop (length (pm_eventCh (sys_pm sample_agent))) (pm_eventCh ?pm)\<rparr>"
  let ?t = "?s\<lparr>sys_pm := (sys_pm ?s)\<lparr>pm_eventCh := []\<rparr>,
    sys_fwd := snd (forward_step (Recv ?e) (sys_fwd ?s))\<rparr>"
  let ?u = "?t\<lparr>sys_fwd := snd (forward_step CtxDone (sys_fwd ?t)), sys_stopped := True\<rparr>"
  have ty: "ke_EventType sample_exit \<le> 2" by (simp add: sample_exit_def)
  have ch: "pm_eventCh (sys_pm ?s) = [?e]"
    using raw_meaning_kernel [OF sample_wf(2) ty, of "pm_resolver (sys_pm sample_agent)" "[]"]
    by (simp add: ProcessRawEvent_refines sample_agent_def init_agent_def NewProbeManager_def)
  have fwd: "sys_stopped sample_agent = False" "sys_fwd sample_agent = new_Forwarder"
    by (simp_all add: sample_agent_def init_agent_def)
  have "agent_step sample_agent ?s" by (rule agent_step.raw) (rule refl)
  moreover have "agent_step ?s ?t" by (rule agent_step.recv) (use ch fwd in simp_all)
  moreover have "agent_step ?t ?u" by (rule agent_step.stop) (use fwd in simp)
  ultimately have "agent_reachable sample_agent ?u" by (meson agent_reachable.intros)
  moreover have "fw_sent (sys_fwd ?u) = [[?e]]"
    by (simp add: fwd new_Forwarder_def flush_def sendBatch_def batchSize_def Let_def)
  moreover have "sys_stopped ?u" by simp
  ultimately show ?thesis by blast
qed

theorem fleet_events_reach_the_store_witness:
  "\<exists>f e. fleet_reach default_Config (\<lambda>_. ''EOF'') Some [(''node-1'', ''Ready'')] 60
       [sample_agent, init_agent ''node-2'' '''' 0 0] (f :: WSMessage Fleet) \<and>
     fl_posts f = [[Some 1], []] \<and> fl_late f = {} \<and>
     map valid_event (sys_accepted (fl_agents f ! 0)) =
       valid_event e # map valid_event (pm_eventCh (sys_pm (fl_agents f ! 0))) \<and>
     valid_event e \<in> set (ms_kernelEvents (sv_store (sy_server (fl_server f))))"
proof -
  let ?agents = "[sample_agent, init_agent ''node-2'' '''' 0 0]"
  let ?reach = "fleet_reach default_Config (\<lambda>_. ''EOF'') Some [(''node-1'', ''Ready'')] 60 ?agents :: WSMessage Fleet \<Rightarrow> bool"
  obtain s e where r: "agent_reachable sample_agent s" and d: "sys_stopped s"
    and b: "fw_sent (sys_fwd s) = [[e]]"
    using stopped_agent by blast
  let ?f = "(start_fleet ?agents default_Config :: WSMessage Fleet)\<lparr>fl_agents := ?agents[0 := s]\<rparr>"
  have w: "\<bar>60 :: int\<bar> < 1440" "[(''node-1'', ''Ready'')] \<noteq> []" "0 \<le> cfg_WarningThresholdS default_Config"
    "cfg_WarningThresholdS default_Config < 2 ^ 33"
    by (simp_all add: default_Config_def)
  have ag: "\<forall>a \<in> set ?agents. \<exists>node url poll refr. a = init_agent node url poll refr"
    by (auto simp: sample_agent_def)
  have f: "?reach ?f" by (rule fleet_agent_run [OF r]) simp_all
  have inv: "agent_inv ''node-1'' s" by (rule agent_reachable_inv [OF r [unfolded sample_agent_def]])
  have "\<forall>e \<in> set [e]. writable_event 60 e"
    using inv b by (auto simp: agent_inv_def fw_content_def intro!: i64_time_ok)
  then obtain body where body: "marshal_batch 60 [e] = Some body" using batch_delivered by blast
  let ?s = "fl_server ?f"
  let ?g = "?f\<lparr>fl_server := ?s\<lparr>
        sy_threads := sy_threads ?s @ [handler_tasks (go_json (\<lambda>_. ''EOF'')) (batch_request body)],
        sy_requests := sy_requests ?s @ [Some (batch_request body)]\<rparr>,
      fl_posts := (fl_posts ?f)[0 := fl_posts ?f ! 0 @ [Some (length (sy_threads ?s))]]\<rparr>"
  have "fleet_step default_Config (\<lambda>_. ''EOF'') Some [(''node-1'', ''Ready'')] 60 ?f ?g"
    by (rule fleet_step.post) (use b body in \<open>simp_all add: start_fleet_def\<close>)
  with f have g: "?reach ?g" by (rule fleet_reach.step)
  from inner_finishes [OF fleet_server_reach [OF g] w(2-4)] obtain t where
    t: "(inner_step Some memory_store)\<^sup>*\<^sup>* (fl_server ?g) t" "finished t" by blast
  have h: "?reach (?g\<lparr>fl_server := t\<rparr>)" by (rule fleet_reach_steps [OF delivery_fleet_steps [OF delivery_server_steps [OF t(1)]] g])
  have nil: "sy_threads t ! 1 = []"
  proof -
    have "1 < length (sy_threads t)" using inner_steps_frame [OF t(1)] by (simp add: start_fleet_def start_system_def)
    with t(2) nth_mem show ?thesis unfolding finished_def by blast
  qed
  let ?h = "?g\<lparr>fl_server := t\<rparr>"
  have posts: "fl_posts ?h = [[Some 1], []]" "fl_late ?h = {}" by (simp_all add: start_fleet_def start_system_def)
  have "fl_agents ?h ! 0 = s" "sy_threads (fl_server ?h) ! 1 = []" using nil by simp_all
  with h posts obtain f where f: "?reach f" "fl_posts f = [[Some 1], []]" "fl_late f = {}" "fl_agents f ! 0 = s"
    "sy_threads (fl_server f) ! 1 = []" by blast
  then have "in_time f 0" "delivered f 0" using d b by (simp_all add: in_time_def delivered_def)
  with fleet_events_reach_the_store [OF f(1) ag w] f(2,4) have
    "\<exists>part. subseq (concat (map (part 0) [0..<1])) (ms_kernelEvents (sv_store (sy_server (fl_server f)))) \<and>
       map valid_event (sys_accepted s) = concat (map (part 0) [0..<1]) @ map valid_event (pm_eventCh (sys_pm s))"
    by (elim exE conjE) (drule spec [of _ 0], auto)
  then obtain got where p: "subseq got (ms_kernelEvents (sv_store (sy_server (fl_server f))))"
    "map valid_event (sys_accepted s) = got @ map valid_event (pm_eventCh (sys_pm s))" by auto
  from p(2) inv b d have "got = [valid_event e]" by (simp add: agent_inv_def fw_content_def)
  with p f show ?thesis by (intro exI [of _ f] exI [of _ e]) (auto dest: list_emb_set)
qed

theorem fleet_can_deliver_witness:
  "\<exists>f g. fleet_reach default_Config (\<lambda>_. ''EOF'') Some [(''node-1'', ''Ready'')] 60
       [sample_agent, init_agent ''node-2'' '''' 0 0] (f :: WSMessage Fleet) \<and>
     fl_posts f = [[], []] \<and> length (fw_sent (sys_fwd (fl_agents f ! 0))) = 1 \<and>
     (delivery_step default_Config (\<lambda>_. ''EOF'') Some [(''node-1'', ''Ready'')] 60)\<^sup>*\<^sup>* f g \<and>
     length (fl_posts g ! 0) = 1 \<and> delivered g 0"
proof -
  let ?agents = "[sample_agent, init_agent ''node-2'' '''' 0 0]"
  obtain s e where r: "agent_reachable sample_agent s" and d: "sys_stopped s"
    and b: "fw_sent (sys_fwd s) = [[e]]"
    using stopped_agent by blast
  let ?f = "(start_fleet ?agents default_Config :: WSMessage Fleet)\<lparr>fl_agents := ?agents[0 := s]\<rparr>"
  have w: "\<bar>60 :: int\<bar> < 1440" "[(''node-1'', ''Ready'')] \<noteq> []" "0 \<le> cfg_WarningThresholdS default_Config"
    "cfg_WarningThresholdS default_Config < 2 ^ 33"
    by (simp_all add: default_Config_def)
  have ag: "\<forall>a \<in> set ?agents. \<exists>node url poll refr. a = init_agent node url poll refr"
    by (auto simp: sample_agent_def)
  have f: "fleet_reach default_Config (\<lambda>_. ''EOF'') Some [(''node-1'', ''Ready'')] 60 ?agents ?f"
    by (rule fleet_agent_run [OF r]) simp_all
  have posts: "fl_posts ?f = [[], []]" "fl_agents ?f ! 0 = s" by (simp_all add: start_fleet_def)
  from fleet_can_deliver [OF f ag w] obtain g where
    "(delivery_step default_Config (\<lambda>_. ''EOF'') Some [(''node-1'', ''Ready'')] 60)\<^sup>*\<^sup>* ?f g" "delivered g 0"
    "\<forall>i < length ?agents. \<exists>js. fl_posts g ! i = fl_posts ?f ! i @ map Some js \<and>
       length (fl_posts g ! i) = length (fw_sent (sys_fwd (fl_agents ?f ! i)))"
    using posts d by fastforce
  with f posts b show ?thesis by (intro exI [of _ ?f] exI [of _ g]) simp
qed

end
