(* ===== verification/Spec2Isabelle.thy ===== *)
theory Spec2Isabelle
  imports AgentProperties ServerProperties SimModes EvalRunner JsonProperties AgentLifecycle
    ConcurrencyProperties ServerMain ClusterMonitor Fleet
begin

text \<open>
  Earthworm watches the nodes of a Kubernetes cluster.  On each node an agent (\<^verbatim>\<open>src/src/agent\<close>)
  takes binary records that eBPF probes (\<^verbatim>\<open>src/src/ebpf\<close>) write, decodes them, adds the identity
  of the pod whose cgroup they come from, and posts them in batches to a server
  (\<^verbatim>\<open>src/src/server\<close>).  The server stores events and heartbeats, looks for gaps between
  heartbeats, correlates events into causal chains and predictions, keeps the network topology of
  the audited connections, answers replay queries, and pushes everything it learns over WebSocket.
  Without a cluster the data comes from a simulation (\<^verbatim>\<open>src/src/kubernetes\<close>), which the server's
  simulation mode and a generator (\<^verbatim>\<open>src/cmd/generate_data\<close>) run; an evaluation runner
  (\<^verbatim>\<open>src/eval/runner\<close>) checks the decision rules against scenarios.

  \<^bold>\<open>The theories.\<close>
  \<^item> \<open>Float64\<close>: \<^verbatim>\<open>float64\<close> as rationals rounded to nearest even after every operation (finite,
    non-overflowing values, no fused operations), with monotonicity and exactness of the rounding.
  \<^item> \<open>GoBase\<close>: the prelude.  64-bit integers, instants and durations in nanoseconds with Go's
    saturating subtraction, slices whose bounds may panic, decimal text, strings, list lemmas and
    the collections \<open>wire\<close>, \<open>go_time\<close> and \<open>preserves\<close>.
  \<^item> \<open>WireBytes\<close>: little-endian access to byte buffers and the interface \<open>wire_codec\<close> of a fixed-size
    codec.
  \<^item> \<open>KernelTypes\<close>: the shared records (\<^verbatim>\<open>EnrichedEvent\<close>, \<^verbatim>\<open>CausalChain\<close>, \<^verbatim>\<open>Heartbeat\<close>,
    \<^verbatim>\<open>PodIdentity\<close>), the agent's errors, and the layout rules of C structs.
  \<^item> \<open>KernelEvents\<close> (\<^verbatim>\<open>agent/event.go\<close>), \<open>ExtendedEvents\<close> (\<^verbatim>\<open>agent/extended_event.go\<close>): the two event
    codecs and the five payload codecs, enrichment, and validation.
  \<^item> \<open>CgroupResolver\<close> (\<^verbatim>\<open>agent/cgroup_resolver.go\<close>): the cgroup cache, its refresh from the kubelet
    and \<^verbatim>\<open>/proc\<close>, and the enrichment of extended events.
  \<^item> \<open>ProbeManager\<close> (\<^verbatim>\<open>agent/probe_manager.go\<close>): dispatch of raw records into the bounded event
    channel.
  \<^item> \<open>Agent\<close> (\<^verbatim>\<open>agent/main.go\<close>): the forwarder's batches and the goroutines as a step relation.
  \<^item> \<open>EventStore\<close> (\<^verbatim>\<open>server/store.go\<close>): the \<^verbatim>\<open>Store\<close> interface, the contracts that its clients rely
    on (locales), and the in-memory store that meets them.
  \<^item> \<open>Anomaly\<close> (\<^verbatim>\<open>server/anomaly.go\<close>, \<^verbatim>\<open>alert.go\<close>), \<open>CausalChains\<close> (\<^verbatim>\<open>causal_chain.go\<close>), \<open>Predictions\<close>
    (\<^verbatim>\<open>prediction.go\<close>), \<open>Topology\<close> (\<^verbatim>\<open>network_topology.go\<close>), \<open>Replay\<close> (\<^verbatim>\<open>replay.go\<close>), \<open>Hub\<close> (\<^verbatim>\<open>ws.go\<close>),
    \<open>Configs\<close> (\<^verbatim>\<open>server/config.go\<close>, \<^verbatim>\<open>agent/config.go\<close>): one theory per component.
  \<^item> \<open>Server\<close> (\<^verbatim>\<open>server/main.go\<close>, \<^verbatim>\<open>middleware.go\<close>, \<^verbatim>\<open>errors.go\<close>): the handlers, routes and live
    heartbeats over all of these; \<open>Http\<close> and \<open>GoTime\<close> hold what is used of \<^verbatim>\<open>net/http\<close>, \<^verbatim>\<open>time\<close>
    and \<^verbatim>\<open>sort\<close>.
  \<^item> \<open>GoUtf8\<close>, \<open>GoJson\<close>, \<open>TimeText\<close>, \<open>GoStruct\<close>: what is used of \<^verbatim>\<open>encoding/json\<close> and of the text of
    \<^verbatim>\<open>time.Time\<close>: the repair of bytes that are not UTF-8, string escapes, the scanner of JSON text and its
    nesting limit, RFC 3339 in a zone, and structs as tables of tagged fields, with the interface
    \<open>struct_codec\<close> under which a struct is read as it was written.
  \<^item> \<open>EventJson\<close>: the tables of the program's structs (\<^verbatim>\<open>agent/event.go\<close>, \<^verbatim>\<open>server/kernel_event.go\<close>,
    \<^verbatim>\<open>server/store.go\<close>) with an interpretation for each, and the decoders of the handlers;
    \<open>JsonProperties\<close>: what the JSON between agent, server and Redis guarantees.
  \<^item> \<open>RedisStore\<close> (\<^verbatim>\<open>server/redis_store.go\<close>): the Redis-backed store over a record of client calls, with
    the contract \<open>redis_ok\<close> of what Redis answers and an instance that meets it.
  \<^item> \<open>BpfLoader\<close> (\<^verbatim>\<open>agent/loader_linux.go\<close>, \<^verbatim>\<open>loader_stub.go\<close>): both loaders behind the interface that
    the files promise to share, as the locale \<open>loader_interface\<close> with an interpretation for each.
  \<^item> \<open>Concurrency\<close>, \<open>ConcurrencyInvariants\<close>, \<open>ConcurrencyProperties\<close>: the handlers of \<open>Server\<close> taken apart into
    the steps between which other goroutines may run, each with the mutex or the channel that it waits
    for; the server, its hub and the goroutines of its requests as a step relation, the invariant of
    that relation, and what follows from it.
  \<^item> \<open>ServerMain\<close> (\<^verbatim>\<open>server/main.go\<close>): the server from its flags and environment to the running system.
  \<^item> \<open>Fleet\<close> (\<^verbatim>\<open>sendBatch\<close> of \<^verbatim>\<open>agent/main.go\<close>): the agents of several nodes beside one such server, joined by
    the JSON of their posts.
  \<^item> \<open>AgentLifecycle\<close> (\<^verbatim>\<open>agent/main.go\<close>): the agent process from its start to its exit, over the agent system
    and the loader, and the timer loops of its goroutines.
  \<^item> \<open>GoRand\<close>: what is used of \<^verbatim>\<open>math/rand\<close>, as a tape of draws with the contract \<open>random_source\<close>, and the
    conversions between \<^verbatim>\<open>int64\<close> and \<^verbatim>\<open>float64\<close>.
  \<^item> \<open>Simulation\<close>, \<open>SimulationOutput\<close> (\<^verbatim>\<open>kubernetes/simulation.go\<close>, \<^verbatim>\<open>file_output.go\<close>): the engine, one
    definition per method, and its files.  \<open>SimulationSteps\<close> gives the deployment as a step relation and
    the rule by which an invariant of the nodes carries over a run; \<open>SimulationDistribution\<close>,
    \<open>SimulationNodes\<close>, \<open>SimulationSchedule\<close> and \<open>SimulationFiles\<close> hold what is proved of the nodes, their
    histories, the deployments and the files.
  \<^item> \<open>KubeMonitor\<close> (\<^verbatim>\<open>kubernetes/lease_monitor.go\<close>, \<^verbatim>\<open>handle_ebpf.go\<close>, \<^verbatim>\<open>mock_ebpf.go\<close>, \<^verbatim>\<open>monitor.go\<close>): pods
    and their cgroups, mock data, watch loops; \<open>ClusterMonitor\<close>: the client, the two watches and the
    channel between them and their reader.
  \<^item> \<open>SimModes\<close> (\<^verbatim>\<open>cmd/generate_data/main.go\<close>, the simulation mode of \<^verbatim>\<open>server/main.go\<close>) and \<open>EvalRunner\<close>
    (\<^verbatim>\<open>eval/runner/main.go\<close>): the programs around them.
  \<^item> \<open>AgentProperties\<close>, \<open>ServerProperties\<close>, the theories above and this one: the properties C1, C2, ...
    with a witness for each that has a hypothesis.

  \<^bold>\<open>How state and operations correspond.\<close>  A Go struct is a record whose fields keep its names behind a
  short prefix; a method is a definition of its name that takes the state and returns it updated.
  An error is the left value of a sum, or \<open>Some\<close> error beside an unchanged state; a panic is
  \<open>None\<close> or an error constructor.  What a function hands to another goroutine (messages for the hub,
  posts, log lines) is part of its result.  Clock readings, random draws, the iteration order of Go
  maps, the sort of \<^verbatim>\<open>sort.Slice\<close>, the time zone, the texts of JSON errors, \<^verbatim>\<open>time.Parse\<close> on the
  parameters of a replay, the file system, the API server and the Redis client are arguments.  Fields that
  only hold mutexes are left out, and an operation that holds one is one step, except in \<open>Concurrency\<close>: there a
  mutex that is held across a send on the hub's channel is part of the state.

  \<^bold>\<open>What is shown.\<close>  Wire formats round-trip and agree with the C structs; the
  JSON of a batch is read by the server as the events it was; every raw record is appended to the channel,
  counted as dropped when it is full, or refused with an error, and an enriched event names the pod that the cache holds for
  its cgroup; a refresh leaves that cache alone or rebuilds it from the listed containers and \<^verbatim>\<open>/proc\<close>; the agent loses and reorders nothing that its
  channel accepted, in every interleaving; the resolver's cache names containers of this node only.
  On the server: the in-memory store meets its contract; the hub never panics and every client sees
  a gap-free stretch of the broadcasts; chains, predictions, topology and replay answers are
  characterised by the stored events; and the running server keeps an invariant over every sequence
  of requests and ticks.  When requests overlap, their events interleave without loss, repetition or
  reordering, and nothing deadlocks; the only handler that panics is that of a replay whose page ends past 64 bits, and
  \<^verbatim>\<open>net/http\<close> recovers it; a handler that runs alone is the sequential one (a lemma, which ties the two models of the
  handlers together).  With several agents posting at once, the store is accounted for exactly: a part of every batch that arrived, once,
  and what others posted; and from every state, posting and serving alone lead to one in which
  every batch that was not lost is stored.  A start of the
  server ends in such a system or in one of three fatal errors.  The invariants also show where the code
  does not do what it means to: the server never raises an alert, predictions are never settled, a page number can make a query
  panic, and kernel events carry boot-time stamps that miss every window.  Of the simulation: for every
  random source, the nodes are those configured, leases keep apart and never fall into an outage,
  events mirror leases and outages one to one, deployments keep to their schedule and replace what
  they drain, and the files partition the data by the windows of time they are named after.  The Redis store answers as the in-memory store does,
  to the millisecond; the loaders close everything once; an exited agent accounts for every event; the
  runner's exit status is the verdict.

  \<^bold>\<open>Bounds.\<close>  Recursions are structural, on lists, or have a measure (the drain loop: the drains left;
  \<open>split_str\<close>: the rest of the text; \<open>run_alone\<close>: the weights of the tasks), so no definition
  needs fuel; only \<open>scan_loop\<close> of the Redis store, whose cursor the server chooses, may not end, and is a partial function into options.  \<open>paginate_ok\<close> asks
  for fewer than \<open>2^62\<close> events, and the thresholds in seconds are below \<open>2^33\<close> so that their product
  with a second stays within 64 bits.  The window of a lease file is at most \<open>2^53\<close> nanoseconds, up to which its float is
  exact.

  \<^bold>\<open>Not modelled.\<close>  Parsing of flags, signals, the listener, the upgrade to a WebSocket and the text of log lines
  are left out, as is the expiry of keys in Redis.  A goroutine is taken apart where it waits or hands something over; two
  writes of one task to different components are one step.  Where in time the deferred cancel of the pod
  watch ends it is not fixed: a watch is what it delivers until then.  The map of ratios that \<^verbatim>\<open>normalizeRatios\<close> changes
  in its caller is not represented.  Random draws are a
  tape: the generator of Go's library is not modelled, so what is proved holds for every source.  The
  probes themselves are C programs run by the kernel; only the structs that they write are modelled.
\<close>

section \<open>From the agent's batches to the server's store\<close>

text \<open>
  The posts of one agent, arriving one after the other at a server that serves nothing else: the simplest run
  of \<open>Fleet\<close>.  A batch that cannot be written is not posted.
\<close>

definition post_batch ::
  "int \<Rightarrow> Config \<Rightarrow> json_codec \<Rightarrow> runtime \<Rightarrow> AgentEnrichedEvent list \<Rightarrow> MemoryStore Server \<Rightarrow> MemoryStore Server" where
  "post_batch zone c J rt batch sv =
     (case marshal_batch zone batch of
        None \<Rightarrow> sv
      | Some body \<Rightarrow> snd (serve_api c J memory_store rt (batch_request body) sv))"

definition post_batches ::
  "int \<Rightarrow> Config \<Rightarrow> json_codec \<Rightarrow> runtime \<Rightarrow> AgentEnrichedEvent list list \<Rightarrow> MemoryStore Server \<Rightarrow> MemoryStore Server" where
  "post_batches zone c J rt batches sv = fold (post_batch zone c J rt) batches sv"

lemma serve_batch:
  assumes "\<forall>e \<in> set b. writable_event zone e"
  shows "sv_store (post_batch zone c (go_json msg) rt b sv) =
    (sv_store sv)\<lparr>ms_kernelEvents := ms_kernelEvents (sv_store sv) @ map valid_event b\<rparr>"
proof -
  obtain body where "marshal_batch zone b = Some body"
    and "decode_EnrichedEvents (go_json msg) body = Inr (map valid_event b)"
    using batch_delivered [OF assms] by blast
  then show ?thesis using fold_ebpf_memory(1) [of "rt_now rt" "map valid_event b" sv]
    by (simp add: post_batch_def serve_api_def LoggingMiddleware_def setCORS_def apiMux_def batch_request_def
        ebpfEventsHandler_def)
qed

lemma post_batches_store:
  assumes "\<forall>b \<in> set bs. \<forall>e \<in> set b. writable_event zone e"
  shows "ms_kernelEvents (sv_store (post_batches zone c (go_json msg) rt bs sv)) =
    ms_kernelEvents (sv_store sv) @ map valid_event (concat bs)"
  using assms unfolding post_batches_def
  by (induction bs arbitrary: sv) (simp_all add: serve_batch)

lemma post_batches_reach:
  "server_reach c J nodes sv \<Longrightarrow> server_reach c J nodes (post_batches zone c J rt bs sv)"
  unfolding post_batches_def
proof (induction bs arbitrary: sv)
  case (Cons b bs)
  have "server_reach c J nodes (post_batch zone c J rt b sv)"
    using Cons.prems server_reach.request [OF Cons.prems prod.collapse [symmetric]]
    by (simp add: post_batch_def split: option.split)
  with Cons.IH show ?case by simp
qed simp

text \<open>End to end, when the posts of a stopped agent reach the server as JSON, the server has stored,
  in order, every event that the agent's channel accepted except those still waiting in the channel,
  each with its strings made valid UTF-8 and nothing else changed, and its topology is that of their
  audit events.\<close>

lemma agent_events_reach_the_store:
  assumes "agent_reachable (init_agent node url poll refr) s" and "sys_stopped s" and "\<bar>zone\<bar> < 1440"
    and "0 \<le> cfg_WarningThresholdS c" and "cfg_WarningThresholdS c < 2 ^ 33"
    and "sv = post_batches zone c (go_json msg) rt (fw_sent (sys_fwd s)) (start_server c NewMemoryStore)"
  shows "map valid_event (sys_accepted s) =
      ms_kernelEvents (sv_store sv) @ map valid_event (pm_eventCh (sys_pm s)) \<and>
    (\<exists>m. sv_topoMap sv = Some m \<and>
      tm_connections m = spec_connections (audits (ms_kernelEvents (sv_store sv))))"
proof -
  have acc: "sys_accepted s = fw_content (sys_fwd s) @ pm_eventCh (sys_pm s)" "fw_batch (sys_fwd s) = []"
    and ts: "\<forall>e \<in> set (sys_accepted s). is_i64 (ev_Timestamp e)"
    using agent_reachable_inv [OF assms(1)] assms(2) by (auto simp: agent_inv_def)
  have "\<forall>b \<in> set (fw_sent (sys_fwd s)). \<forall>e \<in> set b. writable_event zone e"
    using ts assms(3) by (auto simp: acc fw_content_def intro!: i64_time_ok)
  from post_batches_store [OF this, of c msg rt "start_server c NewMemoryStore"]
  have st: "ms_kernelEvents (sv_store sv) = map valid_event (concat (fw_sent (sys_fwd s)))"
    by (simp add: assms(6) start_server_def NewMemoryStore_def)
  have "server_reach c (go_json msg) [] sv"
    unfolding assms(6) by (rule post_batches_reach) (rule server_reach.start)
  from server_reach_inv [OF this assms(4,5)]
  have "\<exists>m. sv_topoMap sv = Some m \<and>
      tm_connections m = spec_connections (audits (ms_kernelEvents (sv_store sv)))"
    by (auto simp: server_inv_def)
  with st acc show ?thesis by (simp add: fw_content_def)
qed

lemma agent_events_reach_the_store_witness:
  "\<exists>s sv. agent_reachable sample_agent s \<and> length (fw_sent (sys_fwd s)) = 1 \<and>
     sv = post_batches 60 default_Config (go_json (\<lambda>_. ''EOF'')) sample_runtime (fw_sent (sys_fwd s))
       (start_server default_Config NewMemoryStore) \<and>
     map valid_event (sys_accepted s) = ms_kernelEvents (sv_store sv) @ map valid_event (pm_eventCh (sys_pm s))"
proof -
  obtain s e where r: "agent_reachable sample_agent s" and d: "sys_stopped s"
    and b: "fw_sent (sys_fwd s) = [[e]]"
    using stopped_agent by blast
  have w: "\<bar>60 :: int\<bar> < 1440" "0 \<le> cfg_WarningThresholdS default_Config"
    "cfg_WarningThresholdS default_Config < 2 ^ 33"
    by (simp_all add: default_Config_def)
  from agent_events_reach_the_store [OF r [unfolded sample_agent_def] d w refl] r b
  show ?thesis by fastforce
qed

section \<open>The clocks of the kernel and of the server\<close>

text \<open>C40: a kernel event is dated by the kernel's boot clock, which the agent takes for the time since
  1970.  As long as the node has been up for less than three years, none of its events falls into the
  window of a transition after 2001, and every chain is empty with an unknown cause.\<close>

theorem boot_clock_misses_every_window:
  assumes "set (ms_kernelEvents m) \<subseteq> {KernelEvent_Enrich k pod h | k pod h. ke_Timestamp k < 10 ^ 17}"
    and "10 ^ 18 \<le> t" and "slice_sort sorter"
  shows "\<exists>chain. fst (OnNotReady sorter memory_store (NewCausalChainBuilder hub) n t m) = Inr chain \<and>
    cc_Events chain = [] \<and> cc_RootCause chain = ''unknown_cause''"
proof -
  obtain r m' msgs where run: "OnNotReady sorter memory_store (NewCausalChainBuilder hub) n t m = (r, m', msgs)"
    by (metis prod_cases3)
  obtain chain where r: "r = Inr chain"
    using OnNotReady_memory_total [of sorter "NewCausalChainBuilder hub" n t m] run by auto
  have early: "ev_Timestamp e < 10 ^ 17" if "e \<in> set (ms_kernelEvents m)" for e
  proof -
    obtain k pod h where k: "e = KernelEvent_Enrich k pod h" "ke_Timestamp k < 10 ^ 17"
      using assms(1) \<open>e \<in> set (ms_kernelEvents m)\<close> by blast
    have u: "uint (ke_Timestamp k) < 10 ^ 17" using k(2) by (simp add: word_less_alt)
    then have "sint (ke_Timestamp k) = uint (ke_Timestamp k)"
      using order_trans [of "- (2 ^ 63)" 0 "uint (ke_Timestamp k)"] unfolding sint_uint
      by (intro signed_take_bit_int_eq_self) simp_all
    with k(1) u show ?thesis by simp
  qed
  have w: "cb_windowSize (NewCausalChainBuilder hub) = 120 * 10 ^ 9"
    by (simp add: NewCausalChainBuilder_def defaultLookbackWindow_def seconds_in_range)
  note ev = mem.OnNotReady_events [OF assms(3) run [unfolded r]]
  have "set (cc_Events chain) = {}"
    unfolding ev(1) using early assms(2) by (fastforce simp: w time_Add_def)
  then have "cc_Events chain = []" by simp
  moreover from this have "cc_RootCause chain = ''unknown_cause''"
    unfolding ev(3) by (simp add: detectRootCause_unknown)
  ultimately show ?thesis by (simp add: run r)
qed

definition sample_boot_store :: MemoryStore where
  "sample_boot_store = NewMemoryStore\<lparr>ms_kernelEvents := [KernelEvent_Enrich sample_exit
     \<lparr>pi_PodName = '''', pi_Namespace = '''', pi_ContainerName = '''', pi_NodeName = ''node-1''\<rparr> True]\<rparr>"

theorem boot_clock_misses_every_window_witness:
  "\<exists>chain. fst (OnNotReady insertion_sort memory_store (NewCausalChainBuilder True) ''node-1''
     (1700000000 * 10 ^ 9) sample_boot_store) = Inr chain \<and> cc_RootCause chain = ''unknown_cause''"
proof -
  have "ke_Timestamp sample_exit < 10 ^ 17" by (simp add: sample_exit_def sample_syscall_def)
  then have "set (ms_kernelEvents sample_boot_store)
      \<subseteq> {KernelEvent_Enrich k pod h | k pod h. ke_Timestamp k < 10 ^ 17}"
    by (auto simp: sample_boot_store_def)
  moreover have "10 ^ 18 \<le> (1700000000 * 10 ^ 9 :: int)" by simp
  ultimately show ?thesis
    using boot_clock_misses_every_window [OF _ _ go_insertion.slice_sort_axioms] by blast
qed

text \<open>A heartbeat that was posted is served by a later GET, whatever was stored before, as long as
  its timestamp lies between the zero time and a day after the clock of the GET.\<close>

lemma posted_heartbeat_is_served:
  assumes "rq_method r = POST" and "decode_Heartbeat J (rq_body r) = Inr hb"
    and "zero_time \<le> hb_Timestamp hb" and "hb_Timestamp hb \<le> time_Add now (dur_mul 24 Hour)"
    and "rq_method g = GET"
  shows "\<exists>older. fst (getHeartbeatsHandler memory_store now g
      (snd (heartbeatHandler J memory_store r sv))) = Some (json_ok (HeartbeatsBody (older @ [hb])))"
proof -
  have st: "sv_store (evaluate_and_dispatch memory_store hb x) = sv_store x" for x
  proof -
    have "sv_store (deliver_alert ds y) = sv_store y" for ds and y :: "MemoryStore Server"
      by (induction ds y rule: deliver_alert.induct) simp_all
    then show ?thesis by (simp add: evaluate_and_dispatch_def split: option.split)
  qed
  let ?sv = "snd (heartbeatHandler J memory_store r sv)"
  have "ms_heartbeats (sv_store ?sv) = ms_heartbeats (sv_store sv) @ [hb]"
    using assms(1,2) by (simp add: heartbeatHandler_def MemoryStore_Save_def st Let_def)
  moreover have "\<not> Before (hb_Timestamp hb) zero_time"
    "\<not> After (hb_Timestamp hb) (time_Add now (dur_mul 24 Hour))"
    using assms(3,4) by (simp_all add: Before_def After_def)
  ultimately show ?thesis
    using assms(5) by (auto simp: getHeartbeatsHandler_def MemoryStore_GetByTimeRange_def)
qed

lemma posted_heartbeat_is_served_witness:
  "\<exists>older. fst (getHeartbeatsHandler memory_store (1700000100 * 10 ^ 9)
      (post ''/api/heartbeats'' ''''\<lparr>rq_method := GET\<rparr>)
      (snd (heartbeatHandler sample_codec memory_store (post ''/api/heartbeat'' ''hb'')
        (start_server default_Config NewMemoryStore)))) =
      Some (json_ok (HeartbeatsBody (older @ [sample_hb])))"
proof -
  have "rq_method (post ''/api/heartbeat'' ''hb'') = POST"
    "decode_Heartbeat sample_codec (rq_body (post ''/api/heartbeat'' ''hb'')) = Inr sample_hb"
    "zero_time \<le> hb_Timestamp sample_hb"
    "hb_Timestamp sample_hb \<le> time_Add (1700000100 * 10 ^ 9) (dur_mul 24 Hour)"
    "rq_method (post ''/api/heartbeats'' ''''\<lparr>rq_method := GET\<rparr>) = GET"
    by (simp_all add: post_def sample_codec_def sample_hb_def zero_time_def time_Add_def dur_mul_def
        Hour_def Minute_def Second_def i64_def)
  from posted_heartbeat_is_served [OF this] show ?thesis by blast
qed

end
